(* ===== verification/Prelude.thy ===== *)
theory Prelude
  imports Main "HOL-Library.Word"
begin

text \<open>
  Shared vocabulary of the LSPlant development.

  \<^item> Byte-addressed memory: the library reads and writes ART's structures through raw
    pointers (\<open>*reinterpret_cast<void **>(this + offset)\<close>, \<open>std::memcpy\<close>), so the
    model keeps one memory of bytes. Addresses are natural numbers; an access of \<open>n\<close> bytes
    is little endian, as \<open>static_assert(std::endian::native == std::endian::little)\<close> of
    src/lsplant/src/main/jni/lsplant.cc demands.
  \<^item> Frames: \<open>same_outside\<close> says that two memories differ in one range only.
  \<^item> Alignment: \<open>align_up\<close> and \<open>align_down\<close> are Clang's \<open>__builtin_align_up\<close> and
    \<open>__builtin_align_down\<close>, which the source calls on sizes and addresses.
  \<^item> Named collections: \<open>mem_simps\<close> (reads after writes), \<open>frame_intros\<close> (what a write
    leaves alone), \<open>flag_simps\<close> (access-flag arithmetic on 32-bit words).
\<close>

unbundle bit_operations_syntax

named_theorems mem_simps \<open>reads after writes\<close>
named_theorems frame_intros \<open>writes that stay inside a range\<close>
named_theorems flag_simps \<open>bits of access flags\<close>

type_synonym byte = "8 word"
type_synonym addr = nat
type_synonym memory = "nat \<Rightarrow> 8 word"
type_synonym flags = "32 word"

section \<open>Little-endian bytes\<close>

fun le_of_bytes :: "byte list \<Rightarrow> nat" where
  "le_of_bytes [] = 0"
| "le_of_bytes (b # bs) = unat b + 256 * le_of_bytes bs"

fun bytes_of_nat :: "nat \<Rightarrow> nat \<Rightarrow> byte list" where
  "bytes_of_nat 0 v = []"
| "bytes_of_nat (Suc n) v = word_of_nat (v mod 256) # bytes_of_nat n (v div 256)"

lemma length_bytes_of_nat [simp]: "length (bytes_of_nat n v) = n"
  by (induction n v rule: bytes_of_nat.induct) simp_all

lemma unat_byte_mod: "unat (word_of_nat (v mod 256) :: byte) = v mod 256"
  by (simp add: unat_of_nat take_bit_nat_def)

lemma le_of_bytes_of_nat [simp]: "le_of_bytes (bytes_of_nat n v) = v mod 256 ^ n"
proof (induction n v rule: bytes_of_nat.induct)
  case (2 n v)
  then show ?case
    by (simp add: unat_byte_mod mod_mult2_eq [of v 256 "256 ^ n"])
qed simp

lemma unat_byte_less: "unat (b :: byte) < 256"
  using unsigned_less [of b] by simp

lemma le_of_bytes_bound: "le_of_bytes bs < 256 ^ length bs"
proof (induction bs)
  case (Cons b bs)
  then show ?case using unat_byte_less [of b] by simp
qed simp

lemma bytes_of_le_of_bytes [simp]: "bytes_of_nat (length bs) (le_of_bytes bs) = bs"
proof (induction bs)
  case (Cons b bs)
  have b: "unat b < 256" by (rule unat_byte_less)
  then have "(unat b + 256 * le_of_bytes bs) mod 256 = unat b"
    and "(unat b + 256 * le_of_bytes bs) div 256 = le_of_bytes bs"
    by simp_all
  with Cons show ?case by simp
qed simp

lemma le_of_bytes_append:
  "le_of_bytes (xs @ ys) = le_of_bytes xs + 256 ^ length xs * le_of_bytes ys"
  by (induction xs) (simp_all add: algebra_simps)

section \<open>Memory\<close>

definition load_bytes :: "memory \<Rightarrow> addr \<Rightarrow> nat \<Rightarrow> byte list" where
  "load_bytes m a n = map (\<lambda>i. m (a + i)) [0..<n]"

definition store_bytes :: "addr \<Rightarrow> byte list \<Rightarrow> memory \<Rightarrow> memory" where
  "store_bytes a bs m = (\<lambda>x. if a \<le> x \<and> x < a + length bs then bs ! (x - a) else m x)"

definition load :: "memory \<Rightarrow> addr \<Rightarrow> nat \<Rightarrow> nat" where
  "load m a n = le_of_bytes (load_bytes m a n)"

definition store :: "addr \<Rightarrow> nat \<Rightarrow> nat \<Rightarrow> memory \<Rightarrow> memory" where
  "store a n v m = store_bytes a (bytes_of_nat n v) m"

text \<open>\<^verbatim>\<open>std::memcpy(dst, src, n)\<close>: the bytes are read before they are written.\<close>

definition memcpy :: "addr \<Rightarrow> addr \<Rightarrow> nat \<Rightarrow> memory \<Rightarrow> memory" where
  "memcpy dst src n m = store_bytes dst (load_bytes m src n) m"

definition disj_ranges :: "addr \<Rightarrow> nat \<Rightarrow> addr \<Rightarrow> nat \<Rightarrow> bool" where
  "disj_ranges a n b k \<longleftrightarrow> a + n \<le> b \<or> b + k \<le> a"

definition same_outside :: "addr \<Rightarrow> nat \<Rightarrow> memory \<Rightarrow> memory \<Rightarrow> bool" where
  "same_outside a n m m' \<longleftrightarrow> (\<forall>x. x < a \<or> a + n \<le> x \<longrightarrow> m' x = m x)"

lemma disj_ranges_sym: "disj_ranges a n b k \<Longrightarrow> disj_ranges b k a n"
  by (auto simp: disj_ranges_def)

lemma length_load_bytes [simp]: "length (load_bytes m a n) = n"
  by (simp add: load_bytes_def)

lemma nth_load_bytes [simp]: "i < n \<Longrightarrow> load_bytes m a n ! i = m (a + i)"
  by (simp add: load_bytes_def)

lemma load_bound: "load m a n < 256 ^ n"
  using le_of_bytes_bound [of "load_bytes m a n"] by (simp add: load_def)

lemma load_bytes_cong:
  "(\<And>i. i < n \<Longrightarrow> m (a + i) = m' (b + i)) \<Longrightarrow> load_bytes m a n = load_bytes m' b n"
  by (simp add: load_bytes_def)

lemma load_cong:
  "(\<And>i. i < n \<Longrightarrow> m (a + i) = m' (b + i)) \<Longrightarrow> load m a n = load m' b n"
  unfolding load_def using load_bytes_cong [of n m a m' b] by simp

lemma load_bytes_store_bytes_same [simp]:
  "length bs = n \<Longrightarrow> load_bytes (store_bytes a bs m) a n = bs"
  by (rule nth_equalityI) (auto simp: store_bytes_def)

lemma load_store_same [mem_simps]: "load (store a n v m) a n = v mod 256 ^ n"
  by (simp add: load_def store_def)

lemma load_store_disj [mem_simps]:
  "disj_ranges a n b k \<Longrightarrow> load (store a n v m) b k = load m b k"
  by (rule load_cong) (auto simp: store_def store_bytes_def disj_ranges_def)

lemma store_load_idem [mem_simps]: "store a n (load m a n) m = m"
proof
  fix x
  have "bytes_of_nat n (load m a n) = load_bytes m a n"
    using bytes_of_le_of_bytes [of "load_bytes m a n"] by (simp add: load_def)
  then show "store a n (load m a n) m x = m x"
    by (auto simp: store_def store_bytes_def)
qed

lemma store_store_same [mem_simps]: "store a n v (store a n w m) = store a n v m"
  by (auto simp: store_def store_bytes_def)

lemma load_memcpy [mem_simps]:
  "off + k \<le> n \<Longrightarrow> load (memcpy dst src n m) (dst + off) k = load m (src + off) k"
  by (rule load_cong) (auto simp: memcpy_def store_bytes_def add.assoc)

lemma load_memcpy_disj [mem_simps]:
  "disj_ranges dst n b k \<Longrightarrow> load (memcpy dst src n m) b k = load m b k"
  by (rule load_cong) (auto simp: memcpy_def store_bytes_def disj_ranges_def)

lemma load_store_bytes_disj [mem_simps]:
  "disj_ranges a (length bs) b k \<Longrightarrow> load (store_bytes a bs m) b k = load m b k"
  by (rule load_cong) (auto simp: store_bytes_def disj_ranges_def)

text \<open>Loads of the widths the library uses, for evaluation.\<close>

lemma upt_4_8: "[0..<4] = [0, 1, 2, 3 :: nat]" "[0..<8] = [0, 1, 2, 3, 4, 5, 6, 7 :: nat]"
  by code_simp+

lemma load_eval:
  "load m a 4 = unat (m a) + 256 * (unat (m (a + 1)) + 256 * (unat (m (a + 2)) + 256 * unat (m (a + 3))))"
  "load m a 8 = load m a 4 + 256 ^ 4 * load m (a + 4) 4"
  by (simp_all add: load_def load_bytes_def upt_4_8 add.commute [of _ a])

subsection \<open>Frames\<close>

lemma same_outside_refl [simp, intro]: "same_outside a n m m"
  by (simp add: same_outside_def)

lemma same_outside_trans:
  "same_outside a n m m' \<Longrightarrow> same_outside a n m' m'' \<Longrightarrow> same_outside a n m m''"
  by (simp add: same_outside_def)

lemma same_outside_store [frame_intros]:
  "a \<le> b \<Longrightarrow> b + k \<le> a + n \<Longrightarrow> same_outside a n m (store b k v m)"
  by (auto simp: same_outside_def store_def store_bytes_def)

lemma same_outside_memcpy [frame_intros]: "same_outside a n m (memcpy a b n m)"
  by (auto simp: same_outside_def memcpy_def store_bytes_def)

lemma same_outside_store_bytes [frame_intros]:
  "a \<le> b \<Longrightarrow> b + length bs \<le> a + n \<Longrightarrow> same_outside a n m (store_bytes b bs m)"
  by (auto simp: same_outside_def store_bytes_def)

lemma same_outside_load:
  "same_outside a n m m' \<Longrightarrow> disj_ranges a n b k \<Longrightarrow> load m' b k = load m b k"
  by (rule load_cong) (auto simp: same_outside_def disj_ranges_def)

lemma same_outside_load_bytes:
  "same_outside a n m m' \<Longrightarrow> disj_ranges a n b k \<Longrightarrow> load_bytes m' b k = load_bytes m b k"
  by (rule load_bytes_cong) (auto simp: same_outside_def disj_ranges_def)

section \<open>Alignment\<close>

definition align_down :: "nat \<Rightarrow> nat \<Rightarrow> nat" where
  "align_down v n = v - v mod n"

definition align_up :: "nat \<Rightarrow> nat \<Rightarrow> nat" where
  "align_up v n = align_down (v + (n - 1)) n"

lemma align_down_le [simp]: "align_down v n \<le> v"
  by (simp add: align_down_def)

lemma align_down_eq: "align_down v n = n * (v div n)"
  by (simp add: align_down_def minus_mod_eq_mult_div)

lemma align_down_dvd [simp]: "n dvd align_down v n"
  by (simp add: align_down_eq)

lemma align_up_dvd [simp]: "n dvd align_up v n"
  by (simp add: align_up_def)

lemma align_up_ge: "0 < n \<Longrightarrow> v \<le> align_up v n"
proof -
  assume n: "0 < n"
  have "v + (n - 1) = n * ((v + (n - 1)) div n) + (v + (n - 1)) mod n" by simp
  moreover have "(v + (n - 1)) mod n < n" using n by simp
  ultimately show ?thesis unfolding align_up_def align_down_eq by linarith
qed

lemma align_up_less: "0 < n \<Longrightarrow> align_up v n < v + n"
  using align_down_le [of "v + (n - 1)" n] unfolding align_up_def by linarith

lemma align_up_aligned [simp]: "0 < n \<Longrightarrow> n dvd v \<Longrightarrow> align_up v n = v"
proof -
  assume n: "0 < n" and "n dvd v"
  then obtain k where v: "v = n * k" by (elim dvdE)
  have "(n - 1 + n * k) div n = k" using n by (subst div_mult_self2) simp_all
  then have "(n * k + (n - 1)) div n = k" by (simp only: add.commute)
  then show ?thesis by (simp add: v align_up_def align_down_eq)
qed

lemma align_down_add: "0 < n \<Longrightarrow> n dvd p \<Longrightarrow> k < n \<Longrightarrow> align_down (p + k) n = p"
  by (auto simp: align_down_eq)

lemma mod_of_aligned: "0 < n \<Longrightarrow> n dvd p \<Longrightarrow> k < n \<Longrightarrow> (p + k) mod n = (k::nat)"
  by auto

end
