(* ===== verification/Arch.thy ===== *)
theory Arch
  imports Prelude
begin

text \<open>
  The target architecture and the platform level the library is compiled and run for:
  include/utils/type_traits.hpp (\<open>Arch\<close>, \<open>is_arch\<close>), the constants of common.cxx
  (\<open>kPointerSize\<close>, \<open>RoundUpTo\<close>, \<open>PickLP\<close>, \<open>GetAndroidApiLevel\<close>) and the Android API levels
  the sources compare with.

  A build has one architecture; the model takes it as an argument of the definitions that
  depend on it, so that a theorem covers all builds.
\<close>

datatype arch = kUnknown | kArm64 | kArm | kX86 | kX64 | kRiscv64 | kLP32 | kLP64

definition real_arch :: "arch \<Rightarrow> bool" where
  "real_arch a \<longleftrightarrow> a \<in> {kArm64, kArm, kX86, kX64, kRiscv64}"

definition kLPCurrent :: "arch \<Rightarrow> arch" where
  "kLPCurrent a = (if a \<in> {kArm64, kX64, kRiscv64} then kLP64 else kLP32)"

fun is_arch :: "arch \<Rightarrow> arch list \<Rightarrow> bool" where
  "is_arch cur [] = False"
| "is_arch cur [k] = (k = cur \<or> k = kLPCurrent cur)"
| "is_arch cur (k # l # ks) = ((k = cur \<or> k = kLPCurrent cur) \<or> is_arch cur (l # ks))"

definition kPointerSize :: "arch \<Rightarrow> nat" where
  "kPointerSize a = (if kLPCurrent a = kLP64 then 8 else 4)"

definition RoundUpTo :: "nat \<Rightarrow> nat \<Rightarrow> nat" where
  "RoundUpTo v sz = align_up v sz"

definition PickLP :: "arch \<Rightarrow> 'a \<Rightarrow> 'a \<Rightarrow> 'a" where
  "PickLP a lp64 lp32 = (if is_arch a [kLP64] then lp64 else lp32)"

definition SymbolLP :: "arch \<Rightarrow> 'a \<Rightarrow> 'a \<Rightarrow> 'a" where
  "SymbolLP a lp32 lp64 = (if is_arch a [kLP32] then lp32 else lp64)"

text \<open>\<open>GetAndroidApiLevel\<close> adds the two properties it reads; \<open>prop\<close> is \<open>atoi\<close> of a system
  property, the device's part of it.\<close>

definition GetAndroidApiLevel :: "(string \<Rightarrow> int) \<Rightarrow> int" where
  "GetAndroidApiLevel prop_of =
     prop_of ''ro.build.version.sdk'' + prop_of ''ro.build.version.preview_sdk''"

abbreviation API_L :: int where "API_L \<equiv> 21"
abbreviation API_L_MR1 :: int where "API_L_MR1 \<equiv> 22"
abbreviation API_M :: int where "API_M \<equiv> 23"
abbreviation API_N :: int where "API_N \<equiv> 24"
abbreviation API_N_MR1 :: int where "API_N_MR1 \<equiv> 25"
abbreviation API_O :: int where "API_O \<equiv> 26"
abbreviation API_O_MR1 :: int where "API_O_MR1 \<equiv> 27"
abbreviation API_P :: int where "API_P \<equiv> 28"
abbreviation API_Q :: int where "API_Q \<equiv> 29"
abbreviation API_R :: int where "API_R \<equiv> 30"
abbreviation API_S :: int where "API_S \<equiv> 31"
abbreviation API_T :: int where "API_T \<equiv> 33"
abbreviation API_U :: int where "API_U \<equiv> 34"
abbreviation API_V :: int where "API_V \<equiv> 35"

lemma kPointerSize_cases [simp]:
  "kPointerSize kArm64 = 8" "kPointerSize kX64 = 8" "kPointerSize kRiscv64 = 8"
  "kPointerSize kArm = 4" "kPointerSize kX86 = 4"
  by (simp_all add: kPointerSize_def kLPCurrent_def)

lemma kPointerSize_pos [simp]: "0 < kPointerSize a" "kPointerSize a \<noteq> 0"
  by (simp_all add: kPointerSize_def)

lemma kPointerSize_ge4: "4 \<le> kPointerSize a"
  by (simp add: kPointerSize_def)

lemma kPointerSize_pick: "real_arch a \<Longrightarrow> kPointerSize a = PickLP a 8 4"
  by (auto simp: kPointerSize_def PickLP_def real_arch_def)

lemma arch_simps [simp]:
  "is_arch a [kArm64] = (a = kArm64)" "is_arch a [kArm] = (a = kArm)"
  "is_arch a [kX86] = (a = kX86)" "is_arch a [kX64] = (a = kX64)"
  "is_arch a [kRiscv64] = (a = kRiscv64)"
  by (cases a; simp add: kLPCurrent_def)+

lemma is_arch_iff: "is_arch cur ks \<longleftrightarrow> cur \<in> set ks \<or> kLPCurrent cur \<in> set ks"
  by (induction cur ks rule: is_arch.induct) auto

declare is_arch.simps(2,3) [simp del]

lemma kPointerSize_dvd_RoundUpTo [simp]: "kPointerSize a dvd RoundUpTo v (kPointerSize a)"
  by (simp add: RoundUpTo_def)

end
