(* ===== verification/Hook_Records.thy ===== *)
theory Hook_Records
  imports Arch
begin

text \<open>
  The registries of common.cxx: which methods are hooked, which methods are backups, which are
  deoptimized, and the pending JIT movements.

  A pointer is an address, \<open>nullptr\<close> is 0. The parallel hash maps are maps; a hash set of
  methods kept per class is a list without duplicates, since it is only iterated and tested
  for membership, and no theorem depends on its order. \<open>emplace\<close> leaves an existing entry
  alone, as phmap's does.
\<close>

record hook_record =
  hr_hook :: addr
  hr_backup :: addr
  hr_slot :: addr
  hr_backup_method :: addr
  hr_enabled :: bool

record registry =
  hooked_methods :: "addr \<rightharpoonup> hook_record"
  backuped_methods :: "addr \<rightharpoonup> addr"
  hooked_classes :: "addr \<rightharpoonup> addr list"
  deoptimized_methods :: "addr \<rightharpoonup> addr"
  deoptimized_classes :: "addr \<rightharpoonup> addr list"
  backuped_proxy_methods :: "addr set"
  jit_movements :: "(addr \<times> addr) list"

definition empty_registry :: registry where
  "empty_registry = \<lparr> hooked_methods = Map.empty, backuped_methods = Map.empty,
     hooked_classes = Map.empty, deoptimized_methods = Map.empty,
     deoptimized_classes = Map.empty, backuped_proxy_methods = {}, jit_movements = [] \<rparr>"

definition emplace :: "('k \<rightharpoonup> 'v) \<Rightarrow> 'k \<Rightarrow> 'v \<Rightarrow> ('k \<rightharpoonup> 'v)" where
  "emplace m k v = (case m k of None \<Rightarrow> m(k \<mapsto> v) | Some _ \<Rightarrow> m)"

definition set_emplace :: "'a \<Rightarrow> 'a list \<Rightarrow> 'a list" where
  "set_emplace x xs = (if x \<in> set xs then xs else xs @ [x])"

definition class_emplace :: "(addr \<rightharpoonup> addr list) \<Rightarrow> addr \<Rightarrow> addr \<Rightarrow> (addr \<rightharpoonup> addr list)" where
  "class_emplace m class_def target =
     (case m class_def of
        Some ts \<Rightarrow> m(class_def \<mapsto> set_emplace target ts)
      | None \<Rightarrow> m(class_def \<mapsto> [target]))"

definition IsHooked :: "registry \<Rightarrow> addr \<Rightarrow> addr" where
  "IsHooked R art_method =
     (case hooked_methods R art_method of Some r \<Rightarrow> hr_backup r | None \<Rightarrow> 0)"

definition IsBackup :: "registry \<Rightarrow> addr \<Rightarrow> addr" where
  "IsBackup R art_method =
     (case backuped_methods R art_method of Some t \<Rightarrow> t | None \<Rightarrow> 0)"

definition IsDeoptimized :: "registry \<Rightarrow> addr \<Rightarrow> bool" where
  "IsDeoptimized R art_method \<longleftrightarrow> deoptimized_methods R art_method \<noteq> None"

definition GetJitMovements :: "registry \<Rightarrow> (addr \<times> addr) list \<times> registry" where
  "GetJitMovements R = (jit_movements R, R\<lparr> jit_movements := [] \<rparr>)"

definition RecordHooked ::
  "addr \<Rightarrow> addr \<Rightarrow> addr \<Rightarrow> addr \<Rightarrow> addr \<Rightarrow> addr \<Rightarrow> registry \<Rightarrow> registry" where
  "RecordHooked target hook backup class_def slot backup_method R =
     R\<lparr> hooked_classes := class_emplace (hooked_classes R) class_def target,
        hooked_methods := emplace (hooked_methods R) target
          \<lparr> hr_hook = hook, hr_backup = backup, hr_slot = slot,
            hr_backup_method = backup_method, hr_enabled = True \<rparr>,
        backuped_methods := emplace (backuped_methods R) backup target \<rparr>"

text \<open>The registry part of \<open>UnHook\<close>: the record is taken out, with the backup and its method id, and
  the three other tables forget the target and its backup. \<open>None\<close> is "not hooked".\<close>

definition class_erase :: "(addr \<rightharpoonup> addr list) \<Rightarrow> addr \<Rightarrow> addr \<Rightarrow> (addr \<rightharpoonup> addr list)" where
  "class_erase m class_def target =
     (case m class_def of
        None \<Rightarrow> m
      | Some ts \<Rightarrow> (let ts' = filter (\<lambda>t. t \<noteq> target) ts in
          if ts' = [] then m(class_def := None) else m(class_def \<mapsto> ts')))"

definition EraseHooked :: "addr \<Rightarrow> addr \<Rightarrow> registry \<Rightarrow> (addr \<times> addr \<times> registry) option" where
  "EraseHooked target class_def R =
     (case hooked_methods R target of
        None \<Rightarrow> None
      | Some r \<Rightarrow> Some (hr_backup r, hr_backup_method r,
          R\<lparr> hooked_methods := (hooked_methods R)(target := None),
             backuped_methods := (backuped_methods R)(hr_backup r := None),
             backuped_proxy_methods := backuped_proxy_methods R - {hr_backup r},
             hooked_classes := class_erase (hooked_classes R) class_def target \<rparr>))"

definition RecordDeoptimized :: "addr \<Rightarrow> addr \<Rightarrow> addr \<Rightarrow> registry \<Rightarrow> registry" where
  "RecordDeoptimized class_def art_method original_entry_point R =
     R\<lparr> deoptimized_classes := class_emplace (deoptimized_classes R) class_def art_method,
        deoptimized_methods := emplace (deoptimized_methods R) art_method original_entry_point \<rparr>"

definition RecordJitMovement :: "addr \<Rightarrow> addr \<Rightarrow> registry \<Rightarrow> registry" where
  "RecordJitMovement target backup R =
     R\<lparr> jit_movements := jit_movements R @ [(target, backup)] \<rparr>"

section \<open>Library lemmas on the containers\<close>

lemma emplace_new [simp]: "m k = None \<Longrightarrow> emplace m k v = m(k \<mapsto> v)"
  by (simp add: emplace_def)

lemma emplace_old [simp]: "m k = Some w \<Longrightarrow> emplace m k v = m"
  by (simp add: emplace_def)

lemma emplace_other [simp]: "j \<noteq> k \<Longrightarrow> emplace m k v j = m j"
  by (simp add: emplace_def split: option.split)

lemma emplace_Some: "emplace m k v j = Some w \<Longrightarrow> m j = Some w \<or> (j = k \<and> w = v \<and> m k = None)"
  by (auto simp: emplace_def split: option.splits if_splits)

lemma set_set_emplace [simp]: "set (set_emplace x xs) = insert x (set xs)"
  by (auto simp: set_emplace_def)

lemma distinct_set_emplace [simp]: "distinct (set_emplace x xs) = distinct xs"
  by (auto simp: set_emplace_def)

definition class_members :: "(addr \<rightharpoonup> addr list) \<Rightarrow> addr \<Rightarrow> addr set" where
  "class_members m c = (case m c of Some ts \<Rightarrow> set ts | None \<Rightarrow> {})"

lemma class_members_emplace:
  "class_members (class_emplace m c t) d = (if d = c then insert t (class_members m d) else class_members m d)"
  by (auto simp: class_members_def class_emplace_def split: option.split)

lemma class_members_emplace_self: "t \<in> class_members (class_emplace m c t) c"
  by (simp add: class_members_emplace)

lemma class_members_emplace_mono:
  "t \<in> class_members m d \<Longrightarrow> t \<in> class_members (class_emplace m c u) d"
  by (auto simp: class_members_emplace)

lemma class_members_erase:
  "t \<in> class_members m c \<Longrightarrow> t \<noteq> u \<Longrightarrow> t \<in> class_members (class_erase m d u) c"
  by (auto simp: class_members_def class_erase_def Let_def filter_empty_conv split: option.splits)

section \<open>The invariant of the registries\<close>

text \<open>
  The hooked targets and the backups are in bijection: the record of a target names a backup
  which \<open>backuped_methods\<close> sends back to that target, and conversely. A hooked target is filed
  under some class.
\<close>

definition reg_inv :: "registry \<Rightarrow> bool" where
  "reg_inv R \<longleftrightarrow>
     (\<forall>t r. hooked_methods R t = Some r \<longrightarrow> backuped_methods R (hr_backup r) = Some t) \<and>
     (\<forall>b t. backuped_methods R b = Some t \<longrightarrow>
        (\<exists>r. hooked_methods R t = Some r \<and> hr_backup r = b)) \<and>
     (\<forall>t. hooked_methods R t \<noteq> None \<longrightarrow> (\<exists>c. t \<in> class_members (hooked_classes R) c)) \<and>
     hooked_methods R 0 = None \<and> backuped_methods R 0 = None"

lemma reg_inv_empty: "reg_inv empty_registry"
  by (simp add: reg_inv_def empty_registry_def)

lemma reg_inv_hooked:
  "reg_inv R \<Longrightarrow> hooked_methods R t = Some r \<Longrightarrow> backuped_methods R (hr_backup r) = Some t"
  by (simp add: reg_inv_def)

lemma reg_inv_backup:
  "reg_inv R \<Longrightarrow> backuped_methods R b = Some t \<Longrightarrow>
   \<exists>r. hooked_methods R t = Some r \<and> hr_backup r = b"
  by (simp add: reg_inv_def)

lemma reg_inv_class:
  "reg_inv R \<Longrightarrow> hooked_methods R t \<noteq> None \<Longrightarrow> \<exists>c. t \<in> class_members (hooked_classes R) c"
  unfolding reg_inv_def by blast

lemma reg_inv_RecordJitMovement [simp]: "reg_inv (RecordJitMovement t b R) = reg_inv R"
  by (simp add: reg_inv_def RecordJitMovement_def)

lemma reg_inv_RecordDeoptimized [simp]: "reg_inv (RecordDeoptimized c a e R) = reg_inv R"
  by (simp add: reg_inv_def RecordDeoptimized_def)

lemma reg_inv_GetJitMovements [simp]: "reg_inv (snd (GetJitMovements R)) = reg_inv R"
  by (simp add: reg_inv_def GetJitMovements_def)

lemma reg_inv_RecordHooked:
  assumes R: "reg_inv R"
    and fresh: "hooked_methods R target = None" "backuped_methods R backup = None"
    and nonnull: "target \<noteq> 0" "backup \<noteq> 0"
  shows "reg_inv (RecordHooked target hook backup class_def slot bm R)"
proof -
  let ?R = "RecordHooked target hook backup class_def slot bm R"
  have hm: "hooked_methods ?R = (hooked_methods R)(target \<mapsto>
        \<lparr> hr_hook = hook, hr_backup = backup, hr_slot = slot, hr_backup_method = bm, hr_enabled = True \<rparr>)"
    and bm: "backuped_methods ?R = (backuped_methods R)(backup \<mapsto> target)"
    and hc: "hooked_classes ?R = class_emplace (hooked_classes R) class_def target"
    using fresh by (simp_all add: RecordHooked_def)
  have old_backup: "hr_backup r \<noteq> backup" if "hooked_methods R t = Some r" for t r
    using reg_inv_hooked [OF R that] fresh by auto
  have old_target: "t \<noteq> target" if "backuped_methods R b = Some t" for b t
    using reg_inv_backup [OF R that] fresh by auto
  have mem: "\<exists>c. t \<in> class_members (hooked_classes ?R) c" if "hooked_methods ?R t \<noteq> None" for t
  proof (cases "t = target")
    case True
    then show ?thesis unfolding hc by (auto intro: class_members_emplace_self)
  next
    case False
    with that have "hooked_methods R t \<noteq> None" by (simp add: hm)
    from reg_inv_class [OF R this] show ?thesis
      unfolding hc by (auto intro: class_members_emplace_mono)
  qed
  show ?thesis
    unfolding reg_inv_def
    using R nonnull old_backup old_target mem
    by (auto simp: hm bm reg_inv_def)
qed

lemma reg_inv_EraseHooked:
  assumes R: "reg_inv R" and e: "EraseHooked target class_def R = Some (b, bm, R')"
  shows "reg_inv R'"
proof -
  from e obtain r where r: "hooked_methods R target = Some r" and b: "b = hr_backup r"
    and R': "hooked_methods R' = (hooked_methods R)(target := None)"
      "backuped_methods R' = (backuped_methods R)(b := None)"
      "hooked_classes R' = class_erase (hooked_classes R) class_def target"
    by (auto simp: EraseHooked_def split: option.splits)
  have bk: "backuped_methods R b = Some target" using reg_inv_hooked [OF R r] b by simp
  have other: "hr_backup r' \<noteq> b" if "hooked_methods R t = Some r'" "t \<noteq> target" for t r'
    using reg_inv_hooked [OF R that(1)] bk that(2) by auto
  have tg: "t \<noteq> target" if "backuped_methods R c = Some t" "c \<noteq> b" for c t
    using reg_inv_backup [OF R that(1)] r b that(2) by auto
  have mem: "\<exists>c. t \<in> class_members (hooked_classes R') c" if "hooked_methods R' t \<noteq> None" for t
  proof -
    from that have "hooked_methods R t \<noteq> None" "t \<noteq> target" by (auto simp: R' split: if_splits)
    with reg_inv_class [OF R] show ?thesis unfolding R'(3) by (blast intro: class_members_erase)
  qed
  show ?thesis
    using R other tg mem unfolding reg_inv_def R'(1,2) by auto
qed

text \<open>The two lookups are mutually inverse on a well-formed registry.\<close>

lemma IsBackup_IsHooked:
  "reg_inv R \<Longrightarrow> IsHooked R t \<noteq> 0 \<Longrightarrow> IsBackup R (IsHooked R t) = t"
  by (auto simp: IsHooked_def IsBackup_def dest: reg_inv_hooked split: option.splits)

lemma IsHooked_IsBackup:
  "reg_inv R \<Longrightarrow> IsBackup R b \<noteq> 0 \<Longrightarrow> IsHooked R (IsBackup R b) = b"
  by (auto simp: IsHooked_def IsBackup_def dest: reg_inv_backup split: option.splits)

end
