(* ===== verification/Art_Method.thy ===== *)
theory Art_Method
  imports Hook_Records
begin

text \<open>
  art/runtime/art_method.cxx: an \<open>ArtMethod\<close> is a block of \<open>art_method_size\<close> bytes of ART's
  memory, read and written at offsets the library finds at start-up. The record \<open>art_statics\<close>
  is the class's static members, the accessors and mutators are functions of it, of the method's
  address and of the memory. \<open>SetNotIntrinsic_\<close>, a function of libart.so, is a field of
  the record (\<open>None\<close> when the symbol was not found).
\<close>

record art_statics =
  am_arch :: arch
  am_api :: int
  art_method_size :: nat
  entry_point_offset :: nat
  interpreter_entry_point_offset :: nat
  data_offset :: nat
  access_flags_offset :: nat
  declaring_class_offset :: nat
  kAccFastNative :: flags
  kAccPreCompiled :: flags
  kAccCompileDontBother :: flags
  kAccDefaultConflict :: flags
  kAccFastInterpreterToInterpreterInvoke :: flags
  kAccIntrinsic :: flags
  interpreter_bridge :: addr
  SetNotIntrinsic_fn :: "(addr \<Rightarrow> memory \<Rightarrow> memory) option"

definition kAccPublic :: flags where "kAccPublic = 0x0001"
definition kAccPrivate :: flags where "kAccPrivate = 0x0002"
definition kAccProtected :: flags where "kAccProtected = 0x0004"
definition kAccStatic :: flags where "kAccStatic = 0x0008"
definition kAccNative :: flags where "kAccNative = 0x0100"
definition kAccFinal :: flags where "kAccFinal = 0x0010"
definition kAccAbstract :: flags where "kAccAbstract = 0x0400"
definition kAccConstructor :: flags where "kAccConstructor = 0x00010000"

lemmas kAcc_defs = kAccPublic_def kAccPrivate_def kAccProtected_def kAccStatic_def
  kAccNative_def kAccFinal_def kAccAbstract_def kAccConstructor_def

abbreviation psize :: "art_statics \<Rightarrow> nat" where
  "psize S \<equiv> kPointerSize (am_arch S)"

section \<open>Fields\<close>

definition GetAccessFlags :: "art_statics \<Rightarrow> memory \<Rightarrow> addr \<Rightarrow> flags" where
  "GetAccessFlags S m a = word_of_nat (load m (a + access_flags_offset S) 4)"

definition SetAccessFlags :: "art_statics \<Rightarrow> addr \<Rightarrow> flags \<Rightarrow> memory \<Rightarrow> memory" where
  "SetAccessFlags S a fl m = store (a + access_flags_offset S) 4 (unat fl) m"

definition GetEntryPoint :: "art_statics \<Rightarrow> memory \<Rightarrow> addr \<Rightarrow> addr" where
  "GetEntryPoint S m a = load m (a + entry_point_offset S) (psize S)"

definition SetEntryPoint :: "art_statics \<Rightarrow> addr \<Rightarrow> addr \<Rightarrow> memory \<Rightarrow> memory" where
  "SetEntryPoint S a entry_point m =
     (let m1 = store (a + entry_point_offset S) (psize S) entry_point m in
      if interpreter_entry_point_offset S \<noteq> 0
      then store (a + interpreter_entry_point_offset S) (psize S) (interpreter_bridge S) m1
      else m1)"

definition GetData :: "art_statics \<Rightarrow> memory \<Rightarrow> addr \<Rightarrow> addr" where
  "GetData S m a = load m (a + data_offset S) (psize S)"

definition SetData :: "art_statics \<Rightarrow> addr \<Rightarrow> addr \<Rightarrow> memory \<Rightarrow> memory" where
  "SetData S a data m = store (a + data_offset S) (psize S) data m"

definition GetDeclaringClass :: "art_statics \<Rightarrow> memory \<Rightarrow> addr \<Rightarrow> addr" where
  "GetDeclaringClass S m a = load m (a + declaring_class_offset S) 4"

definition GetInterfaceMethodIfProxy :: "art_statics \<Rightarrow> memory \<Rightarrow> addr \<Rightarrow> addr" where
  "GetInterfaceMethodIfProxy S m a = (if am_api S \<ge> API_P then GetData S m a else 0)"

definition CopyFrom :: "art_statics \<Rightarrow> addr \<Rightarrow> addr \<Rightarrow> memory \<Rightarrow> memory" where
  "CopyFrom S a other m = memcpy a other (art_method_size S) m"

section \<open>Access flags\<close>

definition SetNonCompilable :: "art_statics \<Rightarrow> addr \<Rightarrow> memory \<Rightarrow> memory" where
  "SetNonCompilable S a m =
     (let fl = GetAccessFlags S m a;
          fl = fl OR kAccCompileDontBother S;
          fl = fl AND NOT (kAccPreCompiled S)
      in SetAccessFlags S a fl m)"

definition ClearFastInterpretFlag :: "art_statics \<Rightarrow> addr \<Rightarrow> memory \<Rightarrow> memory" where
  "ClearFastInterpretFlag S a m =
     SetAccessFlags S a (GetAccessFlags S m a AND NOT (kAccFastInterpreterToInterpreterInvoke S)) m"

definition SetPrivate :: "art_statics \<Rightarrow> addr \<Rightarrow> memory \<Rightarrow> memory" where
  "SetPrivate S a m =
     SetAccessFlags S a
       (((GetAccessFlags S m a OR kAccPrivate) AND NOT kAccProtected) AND NOT kAccPublic) m"

definition SetPublic :: "art_statics \<Rightarrow> addr \<Rightarrow> memory \<Rightarrow> memory" where
  "SetPublic S a m =
     SetAccessFlags S a
       (((GetAccessFlags S m a OR kAccPublic) AND NOT kAccProtected) AND NOT kAccPrivate) m"

definition SetProtected :: "art_statics \<Rightarrow> addr \<Rightarrow> memory \<Rightarrow> memory" where
  "SetProtected S a m =
     SetAccessFlags S a
       (((GetAccessFlags S m a OR kAccProtected) AND NOT kAccPrivate) AND NOT kAccPublic) m"

definition SetNonFinal :: "art_statics \<Rightarrow> addr \<Rightarrow> memory \<Rightarrow> memory" where
  "SetNonFinal S a m = SetAccessFlags S a (GetAccessFlags S m a AND NOT kAccFinal) m"

definition SetNative :: "art_statics \<Rightarrow> addr \<Rightarrow> memory \<Rightarrow> memory" where
  "SetNative S a m = SetAccessFlags S a (GetAccessFlags S m a OR kAccNative) m"

definition SetNonNative :: "art_statics \<Rightarrow> addr \<Rightarrow> memory \<Rightarrow> memory" where
  "SetNonNative S a m = SetAccessFlags S a (GetAccessFlags S m a AND NOT kAccNative) m"

definition SetFastNative :: "art_statics \<Rightarrow> addr \<Rightarrow> memory \<Rightarrow> memory" where
  "SetFastNative S a m = SetAccessFlags S a (GetAccessFlags S m a OR kAccFastNative S) m"

definition SetNonFastNative :: "art_statics \<Rightarrow> addr \<Rightarrow> memory \<Rightarrow> memory" where
  "SetNonFastNative S a m = SetAccessFlags S a (GetAccessFlags S m a AND NOT (kAccFastNative S)) m"

definition SetConstructor :: "art_statics \<Rightarrow> addr \<Rightarrow> memory \<Rightarrow> memory" where
  "SetConstructor S a m = SetAccessFlags S a (GetAccessFlags S m a OR kAccConstructor) m"

definition SetNonConstructor :: "art_statics \<Rightarrow> addr \<Rightarrow> memory \<Rightarrow> memory" where
  "SetNonConstructor S a m = SetAccessFlags S a (GetAccessFlags S m a AND NOT kAccConstructor) m"

definition SetNonIntrinsic :: "art_statics \<Rightarrow> addr \<Rightarrow> memory \<Rightarrow> memory" where
  "SetNonIntrinsic S a m =
     (case SetNotIntrinsic_fn S of
        Some f \<Rightarrow> f a m
      | None \<Rightarrow> SetAccessFlags S a (GetAccessFlags S m a AND NOT (kAccIntrinsic S)) m)"

definition has_flag :: "flags \<Rightarrow> flags \<Rightarrow> bool" where
  "has_flag fl msk \<longleftrightarrow> fl AND msk \<noteq> 0"

definition IsPrivate :: "art_statics \<Rightarrow> memory \<Rightarrow> addr \<Rightarrow> bool" where
  "IsPrivate S m a = has_flag (GetAccessFlags S m a) kAccPrivate"
definition IsProtected :: "art_statics \<Rightarrow> memory \<Rightarrow> addr \<Rightarrow> bool" where
  "IsProtected S m a = has_flag (GetAccessFlags S m a) kAccProtected"
definition IsPublic :: "art_statics \<Rightarrow> memory \<Rightarrow> addr \<Rightarrow> bool" where
  "IsPublic S m a = has_flag (GetAccessFlags S m a) kAccPublic"
definition IsFinal :: "art_statics \<Rightarrow> memory \<Rightarrow> addr \<Rightarrow> bool" where
  "IsFinal S m a = has_flag (GetAccessFlags S m a) kAccFinal"
definition IsStatic :: "art_statics \<Rightarrow> memory \<Rightarrow> addr \<Rightarrow> bool" where
  "IsStatic S m a = has_flag (GetAccessFlags S m a) kAccStatic"
definition IsNative :: "art_statics \<Rightarrow> memory \<Rightarrow> addr \<Rightarrow> bool" where
  "IsNative S m a = has_flag (GetAccessFlags S m a) kAccNative"
definition IsFastNative :: "art_statics \<Rightarrow> memory \<Rightarrow> addr \<Rightarrow> bool" where
  "IsFastNative S m a = (has_flag (GetAccessFlags S m a) (kAccFastNative S) \<and> IsNative S m a)"
definition IsAbstract :: "art_statics \<Rightarrow> memory \<Rightarrow> addr \<Rightarrow> bool" where
  "IsAbstract S m a = has_flag (GetAccessFlags S m a) kAccAbstract"
definition IsConstructor :: "art_statics \<Rightarrow> memory \<Rightarrow> addr \<Rightarrow> bool" where
  "IsConstructor S m a = has_flag (GetAccessFlags S m a) kAccConstructor"

section \<open>Backup, native hooks, clones\<close>

definition BackupTo :: "art_statics \<Rightarrow> addr \<Rightarrow> addr \<Rightarrow> memory \<Rightarrow> memory" where
  "BackupTo S a backup m =
     (let m = SetNonCompilable S a m;
          m = CopyFrom S backup a m;
          m = ClearFastInterpretFlag S a m
      in if \<not> IsStatic S m backup then SetPrivate S backup m else m)"

text \<open>A native hooker: the address of its replacement, the original it keeps and the method it is
  installed on (\<open>replace_\<close>, \<open>inner_\<close> and \<open>handle_\<close> of \<open>Hooker\<close>).\<close>

record native_hooker =
  nh_replace :: addr
  nh_original :: addr
  nh_handle :: addr

definition NativeHook ::
  "art_statics \<Rightarrow> addr \<Rightarrow> native_hooker \<Rightarrow> memory \<Rightarrow> bool \<times> native_hooker \<times> memory" where
  "NativeHook S a hooker m =
     (if \<not> IsNative S m a then (False, hooker, m)
      else (let hooker = hooker\<lparr> nh_original := GetData S m a \<rparr>;
                m = SetData S a (nh_replace hooker) m
            in (True, hooker\<lparr> nh_handle := a \<rparr>, m)))"

definition NativeUnhook ::
  "art_statics \<Rightarrow> native_hooker \<Rightarrow> memory \<Rightarrow> bool \<times> native_hooker \<times> memory" where
  "NativeUnhook S hooker m =
     (let a = nh_handle hooker in
      if a = 0 \<or> \<not> IsNative S m a then (False, hooker, m)
      else (True, hooker\<lparr> nh_handle := 0 \<rparr>, SetData S a (nh_original hooker) m))"

text \<open>\<open>Clone\<close> copies into a fresh block that \<open>operator new\<close> returned.\<close>

definition Clone :: "art_statics \<Rightarrow> addr \<Rightarrow> addr \<Rightarrow> memory \<Rightarrow> memory" where
  "Clone S a block m = CopyFrom S block a m"

section \<open>Well-formed statics\<close>

definition fits :: "art_statics \<Rightarrow> nat \<Rightarrow> nat \<Rightarrow> bool" where
  "fits S off n \<longleftrightarrow> off + n \<le> art_method_size S"

text \<open>What \<open>Init\<close> establishes on a supported device: the fields the library reads lie inside the
  method and do not overlap.\<close>

definition wf_statics :: "art_statics \<Rightarrow> bool" where
  "wf_statics S \<longleftrightarrow>
     fits S (access_flags_offset S) 4 \<and> fits S (declaring_class_offset S) 4 \<and>
     fits S (data_offset S) (psize S) \<and> fits S (entry_point_offset S) (psize S) \<and>
     disj_ranges (declaring_class_offset S) 4 (access_flags_offset S) 4 \<and>
     disj_ranges (declaring_class_offset S) 4 (data_offset S) (psize S) \<and>
     disj_ranges (declaring_class_offset S) 4 (entry_point_offset S) (psize S) \<and>
     disj_ranges (access_flags_offset S) 4 (data_offset S) (psize S) \<and>
     disj_ranges (access_flags_offset S) 4 (entry_point_offset S) (psize S) \<and>
     disj_ranges (data_offset S) (psize S) (entry_point_offset S) (psize S) \<and>
     (interpreter_entry_point_offset S \<noteq> 0 \<longrightarrow>
        fits S (interpreter_entry_point_offset S) (psize S) \<and>
        disj_ranges (interpreter_entry_point_offset S) (psize S) (declaring_class_offset S) 4 \<and>
        disj_ranges (interpreter_entry_point_offset S) (psize S) (access_flags_offset S) 4 \<and>
        disj_ranges (interpreter_entry_point_offset S) (psize S) (data_offset S) (psize S) \<and>
        disj_ranges (interpreter_entry_point_offset S) (psize S) (entry_point_offset S) (psize S))"

definition apart :: "art_statics \<Rightarrow> addr \<Rightarrow> addr \<Rightarrow> bool" where
  "apart S a b \<longleftrightarrow> disj_ranges a (art_method_size S) b (art_method_size S)"

definition is_ptr :: "art_statics \<Rightarrow> addr \<Rightarrow> bool" where
  "is_ptr S p \<longleftrightarrow> p < 256 ^ psize S"

lemma apart_sym: "apart S a b \<Longrightarrow> apart S b a"
  by (auto simp: apart_def disj_ranges_def)

text \<open>The layout of 64-bit Android 14: a class pointer, the flags, dex and method indices, and two
  pointers; the flags are the values of the class for API 34.\<close>

definition arm64_statics :: art_statics where
  "arm64_statics = \<lparr> am_arch = kArm64, am_api = API_U, art_method_size = 32,
     entry_point_offset = 24, interpreter_entry_point_offset = 0, data_offset = 16,
     access_flags_offset = 4, declaring_class_offset = 0, kAccFastNative = 0x00080000,
     kAccPreCompiled = 0x00800000, kAccCompileDontBother = 0x02000000,
     kAccDefaultConflict = 0x01000000, kAccFastInterpreterToInterpreterInvoke = 0x40000000,
     kAccIntrinsic = 0x80000000, interpreter_bridge = 0, SetNotIntrinsic_fn = None \<rparr>"

lemma wf_arm64: "wf_statics arm64_statics"
  by (simp add: wf_statics_def fits_def arm64_statics_def disj_ranges_def)

section \<open>The interface of a method's field\<close>

text \<open>
  A field of a method, whatever its offset and width: reading after writing gives the value, a
  write stays inside the method, and a read depends on the method's bytes only. The lemmas
  that clients use (other methods are not touched; a copied method has the same field) follow
  from these laws alone.
\<close>

locale method_field =
  fixes wf :: "'s \<Rightarrow> bool"
    and sz :: "'s \<Rightarrow> nat"
    and get_f :: "'s \<Rightarrow> memory \<Rightarrow> addr \<Rightarrow> 'v"
    and put_f :: "'s \<Rightarrow> addr \<Rightarrow> 'v \<Rightarrow> memory \<Rightarrow> memory"
    and valid :: "'s \<Rightarrow> 'v \<Rightarrow> bool"
  assumes get_put: "wf S \<Longrightarrow> valid S v \<Longrightarrow> get_f S (put_f S a v m) a = v"
    and put_frame: "wf S \<Longrightarrow> same_outside a (sz S) m (put_f S a v m)"
    and get_local: "wf S \<Longrightarrow> (\<And>i. i < sz S \<Longrightarrow> m (a + i) = m' (b + i)) \<Longrightarrow> get_f S m a = get_f S m' b"
begin

lemma get_frame:
  assumes "wf S" "same_outside b n m m'" "disj_ranges b n a (sz S)"
  shows "get_f S m' a = get_f S m a"
  by (rule get_local [OF assms(1)]) (use assms in \<open>auto simp: same_outside_def disj_ranges_def\<close>)

lemma get_put_other:
  "wf S \<Longrightarrow> disj_ranges b (sz S) a (sz S) \<Longrightarrow> get_f S (put_f S b v m) a = get_f S m a"
  using get_frame [OF _ put_frame] by blast

lemma get_memcpy: "wf S \<Longrightarrow> get_f S (memcpy dst src (sz S) m) dst = get_f S m src"
  by (rule get_local) (auto simp: memcpy_def store_bytes_def)

lemma get_memcpy_other:
  "wf S \<Longrightarrow> disj_ranges dst (sz S) a (sz S) \<Longrightarrow> get_f S (memcpy dst src (sz S) m) a = get_f S m a"
  using get_frame [OF _ same_outside_memcpy] by blast

end

lemma unat_flags_mod [simp]: "unat (w :: flags) mod 4294967296 = unat w"
proof -
  have "unat w < 4294967296" using unsigned_less [of w] by simp
  then show ?thesis by simp
qed

lemma load_local:
  assumes "off + k \<le> sz" and "\<And>i. i < sz \<Longrightarrow> m (a + i) = m' (b + i)"
  shows "load m (a + off) k = load m' (b + off) k"
  by (rule load_cong) (use assms in \<open>auto simp: add.assoc\<close>)

lemmas wf_fits = wf_statics_def fits_def

interpretation flagsf: method_field wf_statics art_method_size GetAccessFlags SetAccessFlags
  "\<lambda>S v. True"
proof (unfold_locales, goal_cases)
  case (1 S v a m)
  then show ?case
    by (simp add: GetAccessFlags_def SetAccessFlags_def load_store_same)
next
  case (2 S a m v)
  then show ?case
    by (auto simp: SetAccessFlags_def wf_fits intro!: same_outside_store)
next
  case (3 S m a m' b)
  then show ?case
    by (auto simp: GetAccessFlags_def wf_fits
          intro!: arg_cong [where f = word_of_nat] load_local [of _ _ "art_method_size S"])
qed

interpretation dataf: method_field wf_statics art_method_size GetData SetData is_ptr
proof (unfold_locales, goal_cases)
  case (1 S v a m)
  then show ?case by (simp add: GetData_def SetData_def load_store_same is_ptr_def)
next
  case (2 S a m v)
  then show ?case by (auto simp: SetData_def wf_fits intro!: same_outside_store)
next
  case (3 S m a m' b)
  then show ?case
    by (auto simp: GetData_def wf_fits intro!: load_local [of _ _ "art_method_size S"])
qed

lemma disj_ranges_shift [simp]: "disj_ranges (a + x) n (a + y) k = disj_ranges x n y k"
  by (auto simp: disj_ranges_def)

lemma SetEntryPoint_frame:
  "wf_statics S \<Longrightarrow> same_outside a (art_method_size S) m (SetEntryPoint S a v m)"
  by (auto simp: SetEntryPoint_def wf_fits Let_def
        intro!: same_outside_store same_outside_trans [OF same_outside_store same_outside_store])

interpretation entryf: method_field wf_statics art_method_size GetEntryPoint SetEntryPoint is_ptr
proof (unfold_locales, goal_cases)
  case (1 S v a m)
  then show ?case
    by (auto simp: GetEntryPoint_def SetEntryPoint_def Let_def is_ptr_def wf_statics_def mem_simps)
next
  case (2 S a m v)
  then show ?case by (rule SetEntryPoint_frame)
next
  case (3 S m a m' b)
  then show ?case
    by (auto simp: GetEntryPoint_def wf_fits intro!: load_local [of _ _ "art_method_size S"])
qed

section \<open>What a change of the access flags leaves alone\<close>

definition flags_only :: "art_statics \<Rightarrow> addr \<Rightarrow> memory \<Rightarrow> memory \<Rightarrow> bool" where
  "flags_only S a m m' \<longleftrightarrow> same_outside (a + access_flags_offset S) 4 m m'"

lemma flags_only_refl [simp]: "flags_only S a m m"
  by (simp add: flags_only_def)

lemma flags_only_trans: "flags_only S a m m' \<Longrightarrow> flags_only S a m' m'' \<Longrightarrow> flags_only S a m m''"
  unfolding flags_only_def by (rule same_outside_trans)

lemma flags_only_Set [simp]: "flags_only S a m (SetAccessFlags S a fl m)"
  by (simp add: flags_only_def SetAccessFlags_def same_outside_store)

lemmas flag_mutators = SetNonCompilable_def ClearFastInterpretFlag_def SetPrivate_def SetPublic_def
  SetProtected_def SetNonFinal_def SetNative_def SetNonNative_def SetFastNative_def
  SetNonFastNative_def SetConstructor_def SetNonConstructor_def

lemma flags_only_mutators [simp]:
  "flags_only S a m (SetNonCompilable S a m)" "flags_only S a m (ClearFastInterpretFlag S a m)"
  "flags_only S a m (SetPrivate S a m)" "flags_only S a m (SetPublic S a m)"
  "flags_only S a m (SetProtected S a m)" "flags_only S a m (SetNonFinal S a m)"
  "flags_only S a m (SetNative S a m)" "flags_only S a m (SetNonNative S a m)"
  "flags_only S a m (SetFastNative S a m)" "flags_only S a m (SetNonFastNative S a m)"
  "flags_only S a m (SetConstructor S a m)" "flags_only S a m (SetNonConstructor S a m)"
  by (simp_all add: flag_mutators Let_def)

text \<open>What the library relies on of libart's \<open>ArtMethod::SetNotIntrinsic\<close>: it changes the access flags
  of the method it is called on, nothing else.\<close>

definition intrinsic_ok :: "art_statics \<Rightarrow> bool" where
  "intrinsic_ok S \<longleftrightarrow> (\<forall>f a m. SetNotIntrinsic_fn S = Some f \<longrightarrow> flags_only S a m (f a m))"

lemma flags_only_SetNonIntrinsic: "intrinsic_ok S \<Longrightarrow> flags_only S a m (SetNonIntrinsic S a m)"
  by (auto simp: SetNonIntrinsic_def intrinsic_ok_def split: option.split)

lemma flags_only_load:
  "flags_only S a m m' \<Longrightarrow> disj_ranges (a + access_flags_offset S) 4 b k \<Longrightarrow> load m' b k = load m b k"
  unfolding flags_only_def by (rule same_outside_load)

lemma flags_only_fields:
  assumes "wf_statics S" "flags_only S a m m'"
  shows "GetEntryPoint S m' a = GetEntryPoint S m a" "GetData S m' a = GetData S m a"
    "GetDeclaringClass S m' a = GetDeclaringClass S m a"
  using assms
  by (auto simp: GetEntryPoint_def GetData_def GetDeclaringClass_def wf_statics_def disj_ranges_sym
        intro!: flags_only_load)

lemma flags_only_frame: "wf_statics S \<Longrightarrow> flags_only S a m m' \<Longrightarrow> same_outside a (art_method_size S) m m'"
  by (auto simp: flags_only_def same_outside_def wf_fits)

lemma GetDeclaringClass_local:
  "wf_statics S \<Longrightarrow> (\<And>i. i < art_method_size S \<Longrightarrow> m (a + i) = m' (b + i)) \<Longrightarrow>
   GetDeclaringClass S m a = GetDeclaringClass S m' b"
  by (auto simp: GetDeclaringClass_def wf_fits intro!: load_local [of _ _ "art_method_size S"])

lemma GetAccessFlags_after [simp]:
  "wf_statics S \<Longrightarrow> GetAccessFlags S (SetAccessFlags S a fl m) a = fl"
  by (simp add: flagsf.get_put)

text \<open>A method apart from the one that changes keeps all of its bytes.\<close>

lemma frame_apart:
  assumes "same_outside a (art_method_size S) m m'" "apart S a b" "i < art_method_size S"
  shows "m' (b + i) = m (b + i)"
  using assms by (auto simp: same_outside_def apart_def disj_ranges_def)

lemma frame_apart_fields:
  assumes "wf_statics S" "same_outside a (art_method_size S) m m'" "apart S a b"
  shows "GetAccessFlags S m' b = GetAccessFlags S m b" "GetEntryPoint S m' b = GetEntryPoint S m b"
    "GetData S m' b = GetData S m b" "GetDeclaringClass S m' b = GetDeclaringClass S m b"
  using assms
  by (auto simp: apart_def intro: flagsf.get_frame entryf.get_frame dataf.get_frame
        intro!: GetDeclaringClass_local frame_apart [OF assms(2,3)])

section \<open>Visibility bits\<close>

lemma has_flag_bits [flag_simps]:
  "has_flag fl kAccPublic = bit fl 0" "has_flag fl kAccPrivate = bit fl 1"
  "has_flag fl kAccProtected = bit fl 2" "has_flag fl kAccStatic = bit fl 3"
  "has_flag fl kAccFinal = bit fl 4" "has_flag fl kAccNative = bit fl 8"
  "has_flag fl kAccAbstract = bit fl 10" "has_flag fl kAccConstructor = bit fl 16"
  using and_exp_eq_0_iff_not_bit [of fl 0] and_exp_eq_0_iff_not_bit [of fl 1]
    and_exp_eq_0_iff_not_bit [of fl 2] and_exp_eq_0_iff_not_bit [of fl 3]
    and_exp_eq_0_iff_not_bit [of fl 4] and_exp_eq_0_iff_not_bit [of fl 8]
    and_exp_eq_0_iff_not_bit [of fl 10] and_exp_eq_0_iff_not_bit [of fl 16]
  by (simp_all add: has_flag_def kAcc_defs)

lemma bit_kAcc [flag_simps]:
  "bit kAccPublic n = (n = 0)" "bit kAccPrivate n = (n = 1)" "bit kAccProtected n = (n = 2)"
  using bit_exp_iff [of 0 n, where 'a = flags] bit_exp_iff [of 1 n, where 'a = flags]
    bit_exp_iff [of 2 n, where 'a = flags]
  by (simp_all add: kAcc_defs) auto

definition vis_mask :: flags where
  "vis_mask = kAccPublic OR kAccPrivate OR kAccProtected"

text \<open>Each visibility setter gives the method exactly the visibility it names and leaves every
  other access flag as it was.\<close>

theorem visibility_setters:
  assumes "wf_statics S"
  shows "GetAccessFlags S (SetPrivate S a m) a = (GetAccessFlags S m a AND NOT vis_mask) OR kAccPrivate
    \<and> GetAccessFlags S (SetPublic S a m) a = (GetAccessFlags S m a AND NOT vis_mask) OR kAccPublic
    \<and> GetAccessFlags S (SetProtected S a m) a = (GetAccessFlags S m a AND NOT vis_mask) OR kAccProtected"
  using assms
  by (auto intro!: bit_eqI
        simp: SetPrivate_def SetPublic_def SetProtected_def vis_mask_def bit_simps flag_simps)

theorem visibility_setters_witness:
  "wf_statics arm64_statics \<and>
   GetAccessFlags arm64_statics (SetPrivate arm64_statics 64 (\<lambda>_. 5)) 64 = 0x05050502"
proof -
  have "GetAccessFlags arm64_statics (\<lambda>_. 5) 64 = 0x05050505"
    by (simp add: GetAccessFlags_def load_eval)
  moreover have "(0x05050505 AND NOT vis_mask) OR kAccPrivate = 0x05050502"
    by (simp add: vis_mask_def kAcc_defs)
  ultimately show ?thesis
    using visibility_setters [OF wf_arm64, of 64 "\<lambda>_. 5"] wf_arm64 by simp
qed

section \<open>Hooking of native methods\<close>

lemma SetData_flags: "wf_statics S \<Longrightarrow> GetAccessFlags S (SetData S a v m) a = GetAccessFlags S m a"
  by (auto simp: GetAccessFlags_def SetData_def wf_statics_def disj_ranges_sym
        intro!: arg_cong [where f = word_of_nat] load_store_disj)

lemma SetData_restore: "SetData S a (GetData S m a) (SetData S a v m) = m"
  by (simp add: SetData_def GetData_def mem_simps)

text \<open>Hooking a native method puts the replacement into its data slot and keeps the original;
  unhooking gives back the memory as it was, byte for byte.\<close>

theorem native_hook_roundtrip:
  assumes "wf_statics S" "IsNative S m a" "a \<noteq> 0" "is_ptr S (nh_replace h)"
    and "NativeHook S a h m = (ok, h', m')"
  shows "ok \<and> GetData S m' a = nh_replace h \<and> nh_original h' = GetData S m a \<and>
    NativeUnhook S h' m' = (True, h'\<lparr> nh_handle := 0 \<rparr>, m)"
  using assms
  by (auto simp: NativeHook_def NativeUnhook_def Let_def IsNative_def SetData_flags SetData_restore
        dataf.get_put)

definition native_mem :: memory where
  "native_mem = (\<lambda>x. if x = 69 then 1 else 0)"

theorem native_hook_roundtrip_witness:
  "\<exists>h' m'. NativeHook arm64_statics 64 \<lparr> nh_replace = 4096, nh_original = 0, nh_handle = 0 \<rparr> native_mem
      = (True, h', m') \<and> GetData arm64_statics m' 64 = 4096 \<and>
     NativeUnhook arm64_statics h' m' = (True, h'\<lparr> nh_handle := 0 \<rparr>, native_mem)"
proof -
  let ?h = "\<lparr> nh_replace = 4096, nh_original = 0, nh_handle = 0 \<rparr>"
  obtain ok h' m' where e: "NativeHook arm64_statics 64 ?h native_mem = (ok, h', m')"
    by (metis prod_cases3)
  have "IsNative arm64_statics native_mem 64"
    by (simp add: IsNative_def has_flag_def GetAccessFlags_def load_eval native_mem_def kAcc_defs
          arm64_statics_def)
  moreover have "is_ptr arm64_statics (nh_replace ?h)" by (simp add: is_ptr_def arm64_statics_def)
  ultimately show ?thesis
    using native_hook_roundtrip [OF wf_arm64 _ _ _ e] e by auto
qed

section \<open>Backing up a method\<close>

definition compile_flags :: "art_statics \<Rightarrow> flags \<Rightarrow> flags" where
  "compile_flags S fl = (fl OR kAccCompileDontBother S) AND NOT (kAccPreCompiled S)"

definition private_flags :: "flags \<Rightarrow> flags" where
  "private_flags fl = ((fl OR kAccPrivate) AND NOT kAccProtected) AND NOT kAccPublic"

lemma SetNonCompilable_flags:
  "SetNonCompilable S a m = SetAccessFlags S a (compile_flags S (GetAccessFlags S m a)) m"
  by (simp add: SetNonCompilable_def compile_flags_def Let_def)

lemma SetPrivate_flags:
  "SetPrivate S a m = SetAccessFlags S a (private_flags (GetAccessFlags S m a)) m"
  by (simp add: SetPrivate_def private_flags_def)

lemma CopyFrom_fields:
  assumes "wf_statics S"
  shows "GetEntryPoint S (CopyFrom S b a m) b = GetEntryPoint S m a"
    "GetData S (CopyFrom S b a m) b = GetData S m a"
    "GetAccessFlags S (CopyFrom S b a m) b = GetAccessFlags S m a"
    "GetDeclaringClass S (CopyFrom S b a m) b = GetDeclaringClass S m a"
proof -
  show "GetDeclaringClass S (CopyFrom S b a m) b = GetDeclaringClass S m a"
    by (rule GetDeclaringClass_local [OF assms]) (simp add: CopyFrom_def memcpy_def store_bytes_def)
qed (simp_all add: assms CopyFrom_def entryf.get_memcpy dataf.get_memcpy flagsf.get_memcpy)

text \<open>The memory \<open>BackupTo\<close> leaves: the backup's block and the target's access flags are all it
  touches; the backup has the target's entry point, data and class.\<close>

lemma BackupTo_spec:
  fixes m :: memory
  assumes wf: "wf_statics S" and ap: "apart S a b"
  defines "m' \<equiv> BackupTo S a b m"
  defines "fl \<equiv> compile_flags S (GetAccessFlags S m a)"
  shows BackupTo_entry: "GetEntryPoint S m' b = GetEntryPoint S m a"
    and BackupTo_data: "GetData S m' b = GetData S m a"
    and BackupTo_class: "GetDeclaringClass S m' b = GetDeclaringClass S m a"
    and BackupTo_target: "GetEntryPoint S m' a = GetEntryPoint S m a"
      "GetData S m' a = GetData S m a" "GetDeclaringClass S m' a = GetDeclaringClass S m a"
    and BackupTo_flags: "GetAccessFlags S m' a = fl AND NOT (kAccFastInterpreterToInterpreterInvoke S)"
      "GetAccessFlags S m' b = (if has_flag fl kAccStatic then fl else private_flags fl)"
proof -
  define m1 where "m1 = SetNonCompilable S a m"
  define m2 where "m2 = CopyFrom S b a m1"
  define m3 where "m3 = ClearFastInterpretFlag S a m2"
  have m': "m' = (if \<not> IsStatic S m3 b then SetPrivate S b m3 else m3)"
    by (simp add: m'_def BackupTo_def m1_def m2_def m3_def Let_def)
  have ba: "apart S b a" using ap by (rule apart_sym)
  have f1: "flags_only S a m m1" by (simp add: m1_def)
  have s2: "same_outside b (art_method_size S) m1 m2"
    by (simp add: m2_def CopyFrom_def same_outside_memcpy)
  have f3: "flags_only S a m2 m3" by (simp add: m3_def)
  have f4: "flags_only S b m3 m'" by (simp add: m')
  note s3 = flags_only_frame [OF wf f3] and s4 = flags_only_frame [OF wf f4]
  have copy: "GetEntryPoint S m2 b = GetEntryPoint S m1 a" "GetData S m2 b = GetData S m1 a"
    "GetAccessFlags S m2 b = GetAccessFlags S m1 a" "GetDeclaringClass S m2 b = GetDeclaringClass S m1 a"
    unfolding m2_def by (simp_all add: CopyFrom_fields [OF wf])
  note bs = frame_apart_fields [OF wf s3 ap] flags_only_fields [OF wf f4]
  note as = frame_apart_fields [OF wf s2 ba] flags_only_fields [OF wf f3] frame_apart_fields [OF wf s4 ba]
  note one = flags_only_fields [OF wf f1]
  show "GetEntryPoint S m' b = GetEntryPoint S m a" "GetData S m' b = GetData S m a"
    "GetDeclaringClass S m' b = GetDeclaringClass S m a"
    by (simp_all add: bs copy one)
  show "GetEntryPoint S m' a = GetEntryPoint S m a" "GetData S m' a = GetData S m a"
    "GetDeclaringClass S m' a = GetDeclaringClass S m a"
    by (simp_all add: as one)
  have fl1: "GetAccessFlags S m1 a = fl"
    using wf by (simp add: m1_def SetNonCompilable_flags fl_def)
  show "GetAccessFlags S m' a = fl AND NOT (kAccFastInterpreterToInterpreterInvoke S)"
    using wf by (simp add: as m3_def ClearFastInterpretFlag_def fl1)
  have "GetAccessFlags S m3 b = fl" by (simp add: bs copy fl1)
  then show "GetAccessFlags S m' b = (if has_flag fl kAccStatic then fl else private_flags fl)"
    using wf by (simp add: m' IsStatic_def SetPrivate_flags)
qed

end
