(* ===== verification/Trampoline.thy ===== *)
theory Trampoline
  imports Art_Method
begin

text \<open>
  The trampolines of lsplant.cc: the machine code a hooked method's entry point leads to, and the
  pool of slots it is written into.

  \<^item> \<open>trampoline_template\<close>, \<open>entry_point_bit\<close>, \<open>art_method_offset\<close>: the per-architecture table.
  \<^item> \<open>UpdateTrampoline\<close>: patches the entry-point offset into the code.
  \<^item> \<open>WriteTrampoline\<close>: writes one trampoline and returns its \<^emph>\<open>slot\<close>, the place of the hook's
    address, or an odd address when the address is spread over move instructions (arm64).
  \<^item> \<open>GenerateTrampolineFor\<close>: takes the next slot of the current page, mapping a page when there
    is none. \<open>pool_step\<close> is the same code as the steps that threads interleave, on the atomic
    \<open>trampoline_pool\<close> and the flag \<open>trampoline_lock\<close>.

  The kernel's answers (\<open>open\<close>, \<open>lseek\<close>, \<open>mmap\<close>, \<open>mprotect\<close>) are fields of \<open>sys_calls\<close>.
\<close>

definition trampoline_template :: "arch \<Rightarrow> byte list" where
  "trampoline_template a =
     (if is_arch a [kArm64] then
        [0x60, 0x00, 0x00, 0x58, 0x10, 0x00, 0x40, 0xf8, 0x00, 0x02, 0x5f, 0xd6,
         0xef, 0xcd, 0xab, 0x90, 0x78, 0x56, 0x34, 0x12]
      else if is_arch a [kArm] then
        [0x00, 0x00, 0x9f, 0xe5, 0x00, 0xf0, 0x90, 0xe5, 0x78, 0x56, 0x34, 0x12]
      else if is_arch a [kX86] then
        [0xb8, 0x78, 0x56, 0x34, 0x12, 0xff, 0x70, 0x00, 0xc3]
      else if is_arch a [kX64] then
        [0x48, 0xbf, 0xef, 0xcd, 0xab, 0x90, 0x78, 0x56, 0x34, 0x12, 0xff, 0x77, 0x00, 0xc3]
      else if is_arch a [kRiscv64] then
        [0x17, 0x05, 0x00, 0x00, 0x03, 0x35, 0xe5, 0x00, 0x03, 0x3e, 0x05, 0x00, 0x02, 0x8e,
         0xef, 0xcd, 0xab, 0x90, 0x78, 0x56, 0x34, 0x12]
      else [])"

definition entry_point_bit :: "arch \<Rightarrow> nat" where
  "entry_point_bit a =
     (if is_arch a [kArm64] then 44 else if is_arch a [kArm] then 32
      else if is_arch a [kX86] then 56 else if is_arch a [kX64] then 96
      else if is_arch a [kRiscv64] then 84 else 0)"

definition art_method_offset :: "arch \<Rightarrow> nat" where
  "art_method_offset a =
     (if is_arch a [kArm64] then 12 else if is_arch a [kArm] then 8
      else if is_arch a [kX86] then 1 else if is_arch a [kX64] then 2
      else if is_arch a [kRiscv64] then 14 else 0)"

definition kTrampolineSize :: "arch \<Rightarrow> nat" where
  "kTrampolineSize a = RoundUpTo (length (trampoline_template a)) 2"

text \<open>\<open>imm\<close> is a \<open>uint8_t\<close>: the shifts are done in \<open>int\<close> and truncated by the assignment.\<close>

definition UpdateTrampoline :: "nat \<Rightarrow> 8 word \<Rightarrow> byte list \<Rightarrow> byte list" where
  "UpdateTrampoline imm_offset imm data =
     (let i = imm_offset div 8;
          data = data[i := data ! i OR push_bit (imm_offset mod 8) imm]
      in data[i + 1 := data ! (i + 1) OR drop_bit (8 - imm_offset mod 8) imm])"

definition move_wide_imm :: "nat \<Rightarrow> 16 word \<Rightarrow> byte list \<Rightarrow> byte list" where
  "move_wide_imm index imm data =
     (let old = word_of_nat (le_of_bytes (take 4 (drop (4 * index) data))) :: 32 word;
          inst = (old AND NOT (push_bit 5 0xFFFF)) OR push_bit 5 (ucast imm)
      in take (4 * index) data @ bytes_of_nat 4 (unat inst) @ drop (4 * index + 4) data)"

definition optimized_template :: "byte list" where
  "optimized_template =
     [0x80, 0x46, 0xc2, 0xd2, 0x00, 0xcf, 0xaa, 0xf2, 0x60, 0x15, 0x92, 0xf2,
      0x11, 0x00, 0x40, 0xf8, 0x20, 0x02, 0x5f, 0xd6]"

definition optimized_trampoline :: "8 word \<Rightarrow> addr \<Rightarrow> byte list" where
  "optimized_trampoline entry_imm hook =
     (let t = UpdateTrampoline 108 entry_imm optimized_template;
          t = move_wide_imm 0 (word_of_nat (hook div 2 ^ 32)) t;
          t = move_wide_imm 1 (word_of_nat (hook div 2 ^ 16 mod 2 ^ 16)) t
      in move_wide_imm 2 (word_of_nat (hook mod 2 ^ 16)) t)"

text \<open>\<open>tramp\<close> is the static array \<open>trampoline\<close>, patched once by \<open>InitNative\<close>; \<open>entry_imm\<close> is
  \<open>ArtMethod::GetEntryPointOffset()\<close> as the \<open>uint8_t\<close> it is passed as.\<close>

definition WriteTrampoline ::
  "arch \<Rightarrow> byte list \<Rightarrow> 8 word \<Rightarrow> addr \<Rightarrow> addr \<Rightarrow> memory \<Rightarrow> addr \<times> memory" where
  "WriteTrampoline a tramp entry_imm address hook m =
     (if is_arch a [kArm64] \<and> hook div 2 ^ 48 = 0
      then (address + 1, store_bytes address (optimized_trampoline entry_imm hook) m)
      else (let m = store_bytes address tramp m;
                slot = address + art_method_offset a
            in (slot, store slot (kPointerSize a) hook m)))"

section \<open>The pool of slots\<close>

record sys_calls =
  sc_page_size :: nat
  sc_open :: int
  sc_lseek :: int
  sc_mmap_file :: "nat \<Rightarrow> addr option"
  sc_mmap_anon :: "addr option"
  sc_mprotect_ok :: bool

text \<open>The union \<open>Trampoline\<close>: an address whose low bits are the count.\<close>

definition count_bits :: "nat \<Rightarrow> nat" where
  "count_bits page_size = (if page_size = 16384 then 14 else 12)"

definition get_count :: "nat \<Rightarrow> nat \<Rightarrow> nat" where
  "get_count page_size u = u mod 2 ^ count_bits page_size"

definition set_count :: "nat \<Rightarrow> nat \<Rightarrow> nat \<Rightarrow> nat" where
  "set_count page_size c u =
     u - u mod 2 ^ count_bits page_size + c mod 2 ^ count_bits page_size"

definition kTrampolineNumPerPage :: "arch \<Rightarrow> nat \<Rightarrow> nat" where
  "kTrampolineNumPerPage a page_size = page_size div kTrampolineSize a"

text \<open>Mapping a page: behind the end of libstdc++ when it opens, anonymous otherwise or when that
  fails.\<close>

definition map_trampoline_page :: "sys_calls \<Rightarrow> addr option" where
  "map_trampoline_page sc =
     (if sc_open sc > 0 then
        (let offset = (if sc_lseek sc > 0 then align_down (nat (sc_lseek sc)) (sc_page_size sc) else 0)
         in case sc_mmap_file sc offset of Some p \<Rightarrow> Some p | None \<Rightarrow> sc_mmap_anon sc)
      else sc_mmap_anon sc)"

text \<open>The loop of \<open>GenerateTrampolineFor\<close> when no other thread holds the lock: it runs once. The
  result is the slot's address, or \<open>None\<close> when no page could be mapped; the pool moves on in both
  cases.\<close>

definition next_slot :: "arch \<Rightarrow> sys_calls \<Rightarrow> nat \<Rightarrow> addr option \<times> nat" where
  "next_slot a sc pool =
     (let u = pool; pool = pool + 1;
          count = get_count (sc_page_size sc) u;
          address = align_down u (sc_page_size sc)
      in if address = 0 \<or> count \<ge> kTrampolineNumPerPage a (sc_page_size sc) then
           (case map_trampoline_page sc of
              None \<Rightarrow> (None, pool)
            | Some p \<Rightarrow> (Some (p + 0 * kTrampolineSize a), set_count (sc_page_size sc) 1 p))
         else (Some (address + count * kTrampolineSize a), pool))"

definition GenerateTrampolineFor ::
  "arch \<Rightarrow> sys_calls \<Rightarrow> byte list \<Rightarrow> 8 word \<Rightarrow> addr \<Rightarrow> nat \<times> memory
     \<Rightarrow> (addr \<times> addr) option \<times> nat \<times> memory" where
  "GenerateTrampolineFor a sc tramp entry_imm hook = (\<lambda>(pool, m).
     (case next_slot a sc pool of
        (None, pool) \<Rightarrow> (None, pool, m)
      | (Some address, pool) \<Rightarrow>
          if align_down address (sc_page_size sc) \<noteq> 0 \<and> \<not> sc_mprotect_ok sc
          then (None, pool, m)
          else (let (slot, m) = WriteTrampoline a tramp entry_imm address hook m
                in (Some (address, slot), pool, m))))"

section \<open>Sizes\<close>

lemma length_template [simp]:
  "length (trampoline_template kArm64) = 20" "length (trampoline_template kArm) = 12"
  "length (trampoline_template kX86) = 9" "length (trampoline_template kX64) = 14"
  "length (trampoline_template kRiscv64) = 22"
  by (simp_all add: trampoline_template_def)

lemma kTrampolineSize_simps [simp]:
  "kTrampolineSize kArm64 = 20" "kTrampolineSize kArm = 12" "kTrampolineSize kX86 = 10"
  "kTrampolineSize kX64 = 14" "kTrampolineSize kRiscv64 = 22"
  by (simp_all add: kTrampolineSize_def RoundUpTo_def align_up_def align_down_def)

lemma real_arch_cases: "real_arch a \<Longrightarrow> a = kArm64 \<or> a = kArm \<or> a = kX86 \<or> a = kX64 \<or> a = kRiscv64"
  by (simp add: real_arch_def)

lemma kTrampolineSize_pos: "real_arch a \<Longrightarrow> 0 < kTrampolineSize a"
  by (auto dest: real_arch_cases)

lemma length_UpdateTrampoline [simp]: "length (UpdateTrampoline k i d) = length d"
  by (simp add: UpdateTrampoline_def Let_def)

lemma length_move_wide_imm:
  "4 * index + 4 \<le> length d \<Longrightarrow> length (move_wide_imm index imm d) = length d"
  by (simp add: move_wide_imm_def Let_def)

lemma length_optimized [simp]: "length (optimized_trampoline e h) = 20"
  by (simp add: optimized_trampoline_def Let_def length_move_wide_imm optimized_template_def)

lemma slot_fits: "real_arch a \<Longrightarrow>
  art_method_offset a + kPointerSize a \<le> length (trampoline_template a)"
  by (auto dest!: real_arch_cases simp: art_method_offset_def)

text \<open>A trampoline stays inside its slot of the page.\<close>

lemma WriteTrampoline_frame:
  assumes "real_arch a" "length tramp = length (trampoline_template a)"
    and "WriteTrampoline a tramp e address hook m = (slot, m')"
  shows "same_outside address (kTrampolineSize a) m m'"
proof -
  have len: "length tramp \<le> kTrampolineSize a" "a = kArm64 \<Longrightarrow> kTrampolineSize a = 20"
    "art_method_offset a + kPointerSize a \<le> kTrampolineSize a"
    using assms(1,2) by (auto dest!: real_arch_cases simp: art_method_offset_def)
  show ?thesis
    using assms(3) len
    by (auto simp: WriteTrampoline_def Let_def split: if_splits
          intro!: same_outside_store_bytes
            same_outside_trans [OF same_outside_store_bytes same_outside_store])
qed

text \<open>Overwriting the slot of a trampoline with another method gives the trampoline of that method:
  the two ways \<open>SetHookEnabled\<close> rewrites a slot agree.\<close>

lemma slot_rewrite:
  assumes "real_arch a" "length tramp = length (trampoline_template a)"
    and "\<not> (a = kArm64 \<and> h div 2 ^ 48 = 0)" "\<not> (a = kArm64 \<and> h' div 2 ^ 48 = 0)"
    and "WriteTrampoline a tramp e address h m = (slot, m')"
  shows "WriteTrampoline a tramp e address h' m = (slot, store slot (kPointerSize a) h' m')"
  using assms(3-5) by (auto simp: WriteTrampoline_def Let_def store_store_same)

end
