(* ===== verification/Trampoline_Exec.thy ===== *)
theory Trampoline_Exec
  imports Trampoline
begin

text \<open>
  What running a trampoline does. The machine code of lsplant.cc is data for the compiler; the
  processors' manuals give it a meaning. This theory decodes just the instructions the
  trampolines consist of (arm64: \<open>LDR\<close> literal, \<open>LDUR\<close>, \<open>MOVZ\<close>, \<open>MOVK\<close>, \<open>RET\<close>; arm: two
  \<open>LDR\<close>s; x86 and x86-64: \<open>mov\<close>, \<open>push\<close>, \<open>ret\<close>; riscv64: \<open>auipc\<close>, \<open>ld\<close>, \<open>c.jr\<close>) and shows that
  a trampoline written for a hook puts the hook's \<open>ArtMethod\<close> into the first argument register
  and jumps to its entry point. A decoder yields \<open>None\<close> on any other code.
\<close>

section \<open>Decoders\<close>

text \<open>One arm64 instruction \<open>w\<close> at \<open>pc\<close>: new registers, the address returned to, or undecoded.\<close>

datatype a64_effect = Next "nat \<Rightarrow> nat" | Jump addr | Undecoded

definition a64_insn :: "memory \<Rightarrow> addr \<Rightarrow> (nat \<Rightarrow> nat) \<Rightarrow> nat \<Rightarrow> a64_effect" where
  "a64_insn m pc r w =
     (let rd = w mod 32; rn = w div 32 mod 32; imm16 = w div 32 mod 65536;
          sh = 2 ^ (16 * (w div 2097152 mod 4)) in
      if w div 16777216 = 88 \<and> w div 32 mod 524288 < 262144 then \<comment> \<open>LDR Xt, label\<close>
        Next (r(rd := load m (pc + 4 * (w div 32 mod 524288)) 8))
      else if w div 8388608 = 421 then \<comment> \<open>MOVZ Xd\<close>
        Next (r(rd := imm16 * sh))
      else if w div 8388608 = 485 then \<comment> \<open>MOVK Xd\<close>
        Next (r(rd := r rd - (r rd div sh mod 65536) * sh + imm16 * sh))
      else if w div 2097152 = 1986 \<and> w div 1024 mod 4 = 0 \<and> w div 4096 mod 512 < 256 then \<comment> \<open>LDUR Xt\<close>
        Next (r(rd := load m (r rn + w div 4096 mod 512) 8))
      else if w div 1024 = 3512256 \<and> rd = 0 then Jump (r rn) \<comment> \<open>RET Xn\<close>
      else Undecoded)"

primrec a64_run :: "nat \<Rightarrow> memory \<Rightarrow> addr \<Rightarrow> (nat \<Rightarrow> nat) \<Rightarrow> (addr \<times> addr) option" where
  "a64_run 0 m pc r = None"
| "a64_run (Suc k) m pc r =
     (case a64_insn m pc r (load m pc 4) of
        Next r' \<Rightarrow> a64_run k m (pc + 4) r'
      | Jump target \<Rightarrow> Some (r 0, target)
      | Undecoded \<Rightarrow> None)"

definition arm_run :: "memory \<Rightarrow> addr \<Rightarrow> (addr \<times> addr) option" where
  "arm_run m pc =
     (let w0 = load m pc 4; w1 = load m (pc + 4) 4 in
      if w0 div 4096 = 940528 \<and> w1 div 4096 = 940303 then \<comment> \<open>LDR R0, [PC, n]; LDR PC, [R0, n]\<close>
        (let r0 = load m (pc + 8 + w0 mod 4096) 4 in Some (r0, load m (r0 + w1 mod 4096) 4))
      else None)"

definition x86_run :: "memory \<Rightarrow> addr \<Rightarrow> (addr \<times> addr) option" where
  "x86_run m pc =
     (if m pc = 0xb8 \<and> m (pc + 5) = 0xff \<and> m (pc + 6) = 0x70 \<and> m (pc + 8) = 0xc3
         \<and> unat (m (pc + 7)) < 128
      then (let eax = load m (pc + 1) 4 in Some (eax, load m (eax + unat (m (pc + 7))) 4))
      else None)"

definition x64_run :: "memory \<Rightarrow> addr \<Rightarrow> (addr \<times> addr) option" where
  "x64_run m pc =
     (if m pc = 0x48 \<and> m (pc + 1) = 0xbf \<and> m (pc + 10) = 0xff \<and> m (pc + 11) = 0x77
         \<and> m (pc + 13) = 0xc3 \<and> unat (m (pc + 12)) < 128
      then (let rdi = load m (pc + 2) 8 in Some (rdi, load m (rdi + unat (m (pc + 12))) 8))
      else None)"

definition rv64_run :: "memory \<Rightarrow> addr \<Rightarrow> (addr \<times> addr) option" where
  "rv64_run m pc =
     (let w0 = load m pc 4; w1 = load m (pc + 4) 4; w2 = load m (pc + 8) 4 in
      if w0 = 0x00000517 \<comment> \<open>auipc a0, 0\<close>
         \<and> w1 mod 1048576 = 0x53503 \<and> w1 div 1048576 < 2048 \<comment> \<open>ld a0, n(a0)\<close>
         \<and> w2 mod 1048576 = 0x53e03 \<and> w2 div 1048576 < 2048 \<comment> \<open>ld t3, n(a0)\<close>
         \<and> m (pc + 12) = 0x02 \<and> m (pc + 13) = 0x8e \<comment> \<open>c.jr t3\<close>
      then (let a0 = load m (pc + w1 div 1048576) 8
            in Some (a0, load m (a0 + w2 div 1048576) 8))
      else None)"

text \<open>The first argument register and the address jumped to.\<close>

definition run_trampoline :: "arch \<Rightarrow> memory \<Rightarrow> addr \<Rightarrow> (addr \<times> addr) option" where
  "run_trampoline a m pc =
     (if a = kArm64 then a64_run 6 m pc (\<lambda>_. 0) else if a = kArm then arm_run m pc
      else if a = kX86 then x86_run m pc else if a = kX64 then x64_run m pc
      else if a = kRiscv64 then rv64_run m pc else None)"

section \<open>Reading code back\<close>

lemma load_code:
  "off + k \<le> length bs \<Longrightarrow> load (store_bytes p bs m) (p + off) k = le_of_bytes (take k (drop off bs))"
  unfolding load_def
  by (rule arg_cong [where f = le_of_bytes], rule nth_equalityI) (auto simp: store_bytes_def add.assoc)

lemma load_code0: "k \<le> length bs \<Longrightarrow> load (store_bytes p bs m) p k = le_of_bytes (take k bs)"
  using load_code [of 0 k bs p m] by simp

lemma byte_code: "off < length bs \<Longrightarrow> store_bytes p bs m (p + off) = bs ! off"
  by (simp add: store_bytes_def)

lemma byte_store_other: "x < a \<or> a + n \<le> x \<Longrightarrow> store a n v m x = m x"
  by (auto simp: store_def store_bytes_def)

lemma unat_push_byte: "unat (push_bit 4 (e :: 8 word)) = 16 * unat e mod 256"
  unfolding unsigned_push_bit_eq by (simp add: push_bit_eq_mult take_bit_eq_mod ac_simps)

lemma unat_drop_byte: "unat (drop_bit 4 (e :: 8 word)) = unat e div 16"
  unfolding unat_drop_bit_eq by (simp add: drop_bit_eq_div)

lemma nat_or_push: "a < 2 ^ k \<Longrightarrow> a OR push_bit k b = a + push_bit k (b :: nat)"
proof -
  assume "a < 2 ^ k"
  then have t: "take_bit k a = a" by (simp add: take_bit_nat_eq_self)
  have "a AND push_bit k b = 0"
    by (subst t [symmetric]) (rule bit_eqI, auto simp: bit_and_iff bit_push_bit_iff bit_take_bit_iff)
  then show ?thesis by (simp add: disjunctive_add_eq_or)
qed

lemma unat_or_drop_byte: "unat (64 OR drop_bit 4 (e :: 8 word)) = 64 + unat e div 16"
proof -
  have "unat e div 16 < 2 ^ 6" using unat_byte_less [of e] by simp
  from nat_or_push [OF this, of 1] have "(unat e div 16) OR 64 = (unat e div 16) + 64"
    by (simp add: push_bit_eq_mult)
  moreover have "unat (64 :: 8 word) = 64" by simp
  ultimately show ?thesis unfolding unsigned_or_eq unat_drop_byte by (simp only: or.commute add.commute)
qed

text \<open>An immediate of 8 bits at bit 4 of a byte, read back from the word it is part of.\<close>

lemma imm_split: "16 * e mod 256 + 256 * (e div 16) = 16 * (e :: nat)"
proof -
  have "16 * e mod (16 * 16) = 16 * (e mod 16)" by (rule mult_mod_right [symmetric])
  then have "16 * e mod 256 = 16 * (e mod 16)" by simp
  then show ?thesis using div_mult_mod_eq [of e 16] by linarith
qed

lemma drop_byte [simp]: "drop_bit 8 (e :: 8 word) = 0"
proof -
  have "unat (drop_bit 8 e) = 0"
    unfolding unat_drop_bit_eq using unat_byte_less [of e] by (simp add: drop_bit_eq_div)
  then show ?thesis by (simp add: unat_eq_zero)
qed

lemma unat_or_push_byte: "unat (5 OR push_bit 4 (e :: 8 word)) = 5 + 16 * unat e mod 256"
proof -
  have "16 * unat e mod (16 * 16) = 16 * (unat e mod 16)" by (rule mult_mod_right [symmetric])
  then have p: "16 * unat e mod 256 = push_bit 4 (unat e mod 16)" by (simp add: push_bit_eq_mult)
  have "unat (5 OR push_bit 4 e) = 5 OR push_bit 4 (unat e mod 16)"
    unfolding unsigned_or_eq unat_push_byte p by simp
  then show ?thesis unfolding p using nat_or_push [of 5 4] by simp
qed

section \<open>The trampolines with a literal slot\<close>

definition patched :: "arch \<Rightarrow> 8 word \<Rightarrow> byte list" where
  "patched a e = UpdateTrampoline (entry_point_bit a) e (trampoline_template a)"

lemma patched_simps:
  "patched kArm64 e = [0x60, 0, 0, 0x58, 0x10, push_bit 4 e, 0x40 OR drop_bit 4 e, 0xf8, 0, 2, 0x5f, 0xd6,
     0xef, 0xcd, 0xab, 0x90, 0x78, 0x56, 0x34, 0x12]"
  "patched kArm e = [0, 0, 0x9f, 0xe5, e, 0xf0, 0x90, 0xe5, 0x78, 0x56, 0x34, 0x12]"
  "patched kX86 e = [0xb8, 0x78, 0x56, 0x34, 0x12, 0xff, 0x70, e, 0xc3]"
  "patched kX64 e = [0x48, 0xbf, 0xef, 0xcd, 0xab, 0x90, 0x78, 0x56, 0x34, 0x12, 0xff, 0x77, e,
     0xc3]"
  "patched kRiscv64 e = [0x17, 5, 0, 0, 3, 0x35, 0xe5, 0, 3, 0x3e, 5 OR push_bit 4 e, drop_bit 4 e,
     2, 0x8e, 0xef, 0xcd, 0xab, 0x90, 0x78, 0x56, 0x34, 0x12]"
  by (simp_all add: patched_def UpdateTrampoline_def entry_point_bit_def trampoline_template_def)

text \<open>The memory after a trampoline with a literal slot is written.\<close>

definition tramp_mem :: "arch \<Rightarrow> 8 word \<Rightarrow> addr \<Rightarrow> addr \<Rightarrow> memory \<Rightarrow> memory" where
  "tramp_mem a e p hook m =
     store (p + art_method_offset a) (kPointerSize a) hook (store_bytes p (patched a e) m)"

lemma tramp_mem_code:
  "off + k \<le> art_method_offset a \<Longrightarrow> off + k \<le> length (patched a e) \<Longrightarrow>
   load (tramp_mem a e p hook m) (p + off) k = le_of_bytes (take k (drop off (patched a e)))"
  unfolding tramp_mem_def by (subst load_store_disj) (auto simp: disj_ranges_def load_code)

lemma tramp_mem_byte:
  "off < art_method_offset a \<or> art_method_offset a + kPointerSize a \<le> off \<Longrightarrow>
   off < length (patched a e) \<Longrightarrow> tramp_mem a e p hook m (p + off) = patched a e ! off"
  unfolding tramp_mem_def by (subst byte_store_other) (auto simp: byte_code)

lemma tramp_mem_slot:
  "hook < 256 ^ kPointerSize a \<Longrightarrow>
   load (tramp_mem a e p hook m) (p + art_method_offset a) (kPointerSize a) = hook"
  by (simp add: tramp_mem_def load_store_same)

lemma a64_words:
  "load (tramp_mem kArm64 e p hook m) p 4 = 0x58000060"
  "load (tramp_mem kArm64 e p hook m) (p + 4) 4 = 0xF8400010 + 4096 * unat e"
  "load (tramp_mem kArm64 e p hook m) (p + 8) 4 = 0xD65F0200"
proof -
  show "load (tramp_mem kArm64 e p hook m) p 4 = 0x58000060"
    using tramp_mem_code [of 0 4 kArm64 e p hook m] by (simp add: patched_simps art_method_offset_def)
  show "load (tramp_mem kArm64 e p hook m) (p + 8) 4 = 0xD65F0200"
    using tramp_mem_code [of 8 4 kArm64 e p hook m] by (simp add: patched_simps art_method_offset_def)
  have "load (tramp_mem kArm64 e p hook m) (p + 4) 4
      = le_of_bytes [0x10, push_bit 4 e, 0x40 OR drop_bit 4 e, 0xf8]"
    using tramp_mem_code [of 4 4 kArm64 e p hook m] by (simp add: patched_simps art_method_offset_def)
  also have "\<dots> = 16 + 256 * (16 * unat e mod 256 + 256 * (64 + unat e div 16 + 256 * 248))"
    by (simp only: le_of_bytes.simps unat_push_byte unat_or_drop_byte) simp
  also have "\<dots> = 0xF8400010 + 256 * (16 * unat e mod 256 + 256 * (unat e div 16))" by simp
  also have "\<dots> = 0xF8400010 + 4096 * unat e" unfolding imm_split by simp
  finally show "load (tramp_mem kArm64 e p hook m) (p + 4) 4 = 0xF8400010 + 4096 * unat e" .
qed

lemma a64_ldur_fields:
  assumes e: "e < (256 :: nat)" and k: "k < 32"
  defines "w \<equiv> 0xF8400000 + k + 4096 * e"
  shows "w div 16777216 = 248" "w div 8388608 = 496" "w div 2097152 = 1986"
    "w div 1024 mod 4 = 0" "w div 4096 mod 512 = e" "w mod 32 = k" "w div 32 mod 32 = 0"
proof -
  show "w div 16777216 = 248" "w div 8388608 = 496" "w div 2097152 = 1986"
    using e k by (auto intro!: div_nat_eqI simp: w_def)
  have "w div 1024 = 4 * (1016832 + e)" using k by (auto intro!: div_nat_eqI simp: w_def)
  then show "w div 1024 mod 4 = 0" by simp
  have "w div 4096 = e + 512 * 1986" using k by (auto intro!: div_nat_eqI simp: w_def)
  then have "w div 4096 mod 512 = e mod 512" by (simp only: mod_mult_self2)
  then show "w div 4096 mod 512 = e" using e by simp
  have w: "w = k + 32 * (130154496 + 128 * e)" by (simp add: w_def)
  show "w mod 32 = k" unfolding w mod_mult_self2 using k by simp
  have "w div 32 = 32 * (4067328 + 4 * e)" unfolding w using k by simp
  then show "w div 32 mod 32 = 0" by simp
qed

lemma a64_ldur:
  "e < 256 \<Longrightarrow> k < 32 \<Longrightarrow>
   a64_insn m pc r (0xF8400000 + k + 4096 * e) = Next (r(k := load m (r 0 + e) 8))"
  by (simp only: a64_insn_def Let_def a64_ldur_fields) simp

lemma run_arm64:
  assumes "hook < 256 ^ 8"
  shows "a64_run (Suc (Suc (Suc k))) (tramp_mem kArm64 e p hook m) p (\<lambda>_. 0) =
    Some (hook, load (tramp_mem kArm64 e p hook m) (hook + unat e) 8)"
proof -
  have slot: "load (tramp_mem kArm64 e p hook m) (p + 12) 8 = hook"
    using tramp_mem_slot [of hook kArm64 e p m] assms by (simp add: art_method_offset_def)
  have i0: "a64_insn M p r 0x58000060 = Next (r(0 := load M (p + 12) 8))" for M r
    by (simp add: a64_insn_def)
  have i2: "a64_insn M q r 0xD65F0200 = Jump (r 16)" for M q r
    by (simp add: a64_insn_def)
  show ?thesis
    using a64_ldur [of "unat e" 16, OF unat_byte_less]
    by (simp add: a64_words i0 i2 slot add.assoc)
qed

section \<open>The arm64 trampoline with the address in move instructions\<close>

lemma unat_ucast_imm: "unat (ucast (imm :: 16 word) :: 32 word) = unat imm"
proof -
  have "unat imm < 65536" using unsigned_less [of imm] by simp
  then show ?thesis by (simp add: unsigned_ucast_eq take_bit_nat_eq_self)
qed

lemma unat_move_wide:
  "unat (word_of_nat (push_bit 21 c) OR push_bit 5 (ucast (imm :: 16 word)) :: 32 word)
     = 2097152 * c + 32 * unat imm" if "c < 2048"
proof -
  have i: "unat imm < 65536" using unsigned_less [of imm] by simp
  have p: "unat (push_bit 5 (ucast imm :: 32 word)) = 32 * unat imm"
    unfolding unsigned_push_bit_eq unat_ucast_imm using i
    by (simp add: push_bit_eq_mult take_bit_nat_eq_self)
  have c: "unat (word_of_nat (push_bit 21 c) :: 32 word) = push_bit 21 c"
  proof -
    have "push_bit 21 c < 2 ^ 32" using that by (simp add: push_bit_eq_mult)
    then show ?thesis unfolding unat_of_nat by (simp add: take_bit_nat_eq_self)
  qed
  have "32 * unat imm OR push_bit 21 c = 32 * unat imm + push_bit 21 c"
    using i by (intro nat_or_push) simp
  then show ?thesis
    unfolding unsigned_or_eq p c by (simp add: or.commute push_bit_eq_mult)
qed

lemma a64_mov_fields:
  fixes c :: nat
  assumes "imm < (65536 :: nat)"
  defines "w \<equiv> 2097152 * c + 32 * imm"
  shows "w div 16777216 = c div 8" "w div 8388608 = c div 4" "w div 2097152 = c"
    "w mod 32 = 0" "w div 32 mod 65536 = imm"
proof -
  show c: "w div 2097152 = c" using assms by (auto intro!: div_nat_eqI)
  have "w div 16777216 = w div 2097152 div 8" "w div 8388608 = w div 2097152 div 4"
    by (simp_all add: div_mult2_eq [symmetric])
  then show "w div 16777216 = c div 8" "w div 8388608 = c div 4" unfolding c by simp_all
  have w: "w = 32 * (imm + 65536 * c)" by (simp add: w_def)
  show "w mod 32 = 0" unfolding w by simp
  have "w div 32 = imm + 65536 * c" unfolding w by simp
  then show "w div 32 mod 65536 = imm" using assms(1) by simp
qed

lemma a64_mov:
  assumes "imm < 65536"
  shows "a64_insn m pc r (2097152 * 1686 + 32 * imm) = Next (r(0 := imm * 2 ^ 32))"
    and "a64_insn m pc r (2097152 * 1941 + 32 * imm) =
      Next (r(0 := r 0 - (r 0 div 65536 mod 65536) * 65536 + imm * 65536))"
    and "a64_insn m pc r (2097152 * 1940 + 32 * imm) = Next (r(0 := r 0 - r 0 mod 65536 + imm))"
  unfolding a64_insn_def Let_def a64_mov_fields [OF assms] by simp_all

definition wide_bytes :: "16 word \<Rightarrow> byte list \<Rightarrow> byte list" where
  "wide_bytes imm xs = bytes_of_nat 4 (unat ((word_of_nat (le_of_bytes xs) AND NOT (push_bit 5 0xFFFF))
     OR push_bit 5 (ucast imm) :: 32 word))"

lemma length_wide_bytes [simp]: "length (wide_bytes imm xs) = 4"
  by (simp add: wide_bytes_def)

lemma move_wide_append:
  "length xs = 4 \<Longrightarrow> move_wide_imm 0 imm (xs @ rest) = wide_bytes imm xs @ rest"
  "length xs = 4 \<Longrightarrow> move_wide_imm (Suc i) imm (xs @ rest) = xs @ move_wide_imm i imm rest"
  by (simp_all add: move_wide_imm_def wide_bytes_def Let_def add.commute)

lemma le_wide_bytes:
  assumes "word_of_nat (le_of_bytes xs) AND NOT (push_bit 5 0xFFFF) = (word_of_nat (push_bit 21 c) :: 32 word)"
    and "c < 2048"
  shows "le_of_bytes (wide_bytes imm xs) = 2097152 * c + 32 * unat imm"
  unfolding wide_bytes_def assms(1) using unat_move_wide [OF assms(2), of imm]
    unat_flags_mod [of "word_of_nat (push_bit 21 c) OR push_bit 5 (ucast imm)"] by simp

lemma unat_imm16: "n < 65536 \<Longrightarrow> unat (word_of_nat n :: 16 word) = n"
  by (simp add: unat_of_nat take_bit_nat_eq_self)

lemma optimized_parts:
  "optimized_trampoline e h =
     wide_bytes (word_of_nat (h div 2 ^ 32)) [0x80, 0x46, 0xc2, 0xd2] @
     wide_bytes (word_of_nat (h div 2 ^ 16 mod 2 ^ 16)) [0, 0xcf, 0xaa, 0xf2] @
     wide_bytes (word_of_nat (h mod 2 ^ 16)) [0x60, 0x15, 0x92, 0xf2] @
     [0x11, push_bit 4 e, 0x40 OR drop_bit 4 e, 0xf8] @ [0x20, 2, 0x5f, 0xd6]"
proof -
  have u: "UpdateTrampoline 108 e optimized_template =
    [0x80, 0x46, 0xc2, 0xd2] @ [0, 0xcf, 0xaa, 0xf2] @ [0x60, 0x15, 0x92, 0xf2] @
      [0x11, push_bit 4 e, 0x40 OR drop_bit 4 e, 0xf8] @ [0x20, 2, 0x5f, 0xd6]"
    by (simp add: UpdateTrampoline_def optimized_template_def)
  have nums: "1 = Suc 0" "2 = Suc (Suc 0)" by simp_all
  show ?thesis
    unfolding optimized_trampoline_def Let_def u nums(1)
    by (simp only: nums(2) move_wide_append length_wide_bytes list.size)
qed

lemma le_ldur_bytes:
  "le_of_bytes [b, push_bit 4 e, 0x40 OR drop_bit 4 e, 0xf8] = 0xF8400000 + unat b + 4096 * unat e"
proof -
  have "le_of_bytes [b, push_bit 4 e, 0x40 OR drop_bit 4 e, 0xf8]
      = unat b + 256 * (16 * unat e mod 256 + 256 * (64 + unat e div 16 + 256 * 248))"
    by (simp only: le_of_bytes.simps unat_push_byte unat_or_drop_byte) simp
  also have "\<dots> = 0xF8400000 + unat b + 256 * (16 * unat e mod 256 + 256 * (unat e div 16))" by simp
  also have "\<dots> = 0xF8400000 + unat b + 4096 * unat e" unfolding imm_split by simp
  finally show ?thesis .
qed

lemma optimized_words:
  fixes e :: "8 word" and h p :: nat and m :: memory
  assumes h: "h div 2 ^ 48 = 0"
  defines "M \<equiv> store_bytes p (optimized_trampoline e h) m"
  shows "load M p 4 = 2097152 * 1686 + 32 * (h div 2 ^ 32)"
    and "load M (p + 4) 4 = 2097152 * 1941 + 32 * (h div 2 ^ 16 mod 2 ^ 16)"
    and "load M (p + 8) 4 = 2097152 * 1940 + 32 * (h mod 2 ^ 16)"
    and "load M (p + 12) 4 = 0xF8400011 + 4096 * unat e"
    and "load M (p + 16) 4 = 0xD65F0220"
proof -
  have imm: "h div 2 ^ 32 < 65536" using h by (simp add: div_eq_0_iff div_less_iff_less_mult)
  note code = load_code [where bs = "optimized_trampoline e h" and p = p and m = m, folded M_def]
  show "load M p 4 = 2097152 * 1686 + 32 * (h div 2 ^ 32)"
    using code [of 0 4] le_wide_bytes [of "[0x80, 0x46, 0xc2, 0xd2]" 1686] imm
    by (simp add: optimized_parts unat_imm16 push_bit_eq_mult)
  show "load M (p + 4) 4 = 2097152 * 1941 + 32 * (h div 2 ^ 16 mod 2 ^ 16)"
    using code [of 4 4] le_wide_bytes [of "[0, 0xcf, 0xaa, 0xf2]" 1941]
    by (simp add: optimized_parts unat_imm16 push_bit_eq_mult)
  show "load M (p + 8) 4 = 2097152 * 1940 + 32 * (h mod 2 ^ 16)"
    using code [of 8 4] le_wide_bytes [of "[0x60, 0x15, 0x92, 0xf2]" 1940]
    by (simp add: optimized_parts unat_imm16 push_bit_eq_mult)
  show "load M (p + 12) 4 = 0xF8400011 + 4096 * unat e"
    using code [of 12 4] by (simp add: optimized_parts le_ldur_bytes del: le_of_bytes.simps)
  show "load M (p + 16) 4 = 0xD65F0220"
    using code [of 16 4] by (simp add: optimized_parts)
qed

lemma address_parts:
  fixes h :: nat
  defines "x \<equiv> h div 2 ^ 32 * 2 ^ 32"
  defines "y \<equiv> x - (x div 65536 mod 65536) * 65536 + (h div 2 ^ 16 mod 2 ^ 16) * 65536"
  shows "y - y mod 65536 + h mod 2 ^ 16 = h"
proof -
  have "x div 65536 = h div 2 ^ 32 * 65536" by (simp add: x_def)
  then have "x div 65536 mod 65536 = 0" by simp
  then have y: "y = (h div 2 ^ 32 * 65536 + h div 2 ^ 16 mod 2 ^ 16) * 65536"
    by (simp add: y_def x_def algebra_simps)
  have "h div 2 ^ 32 * 65536 + h div 2 ^ 16 mod 2 ^ 16 = h div 2 ^ 16"
    using div_mult_mod_eq [of "h div 2 ^ 16" 65536] by (simp add: div_mult2_eq [symmetric])
  then have "y = h div 2 ^ 16 * 65536" unfolding y by simp
  then show ?thesis using div_mult_mod_eq [of h 65536] by simp
qed

lemma run_arm64_optimized:
  fixes h p :: nat and m :: memory and e :: byte
  assumes h: "h div 2 ^ 48 = 0"
  defines "M \<equiv> store_bytes p (optimized_trampoline e h) m"
  shows "a64_run (Suc (Suc (Suc (Suc (Suc k))))) M p (\<lambda>_. 0) = Some (h, load M (h + unat e) 8)"
proof -
  have imm: "h div 2 ^ 32 < 65536" "h div 2 ^ 16 mod 2 ^ 16 < 65536" "h mod 2 ^ 16 < 65536"
    using h by (simp_all add: div_eq_0_iff div_less_iff_less_mult)
  have w: "load M p 4 = 2097152 * 1686 + 32 * (h div 2 ^ 32)"
    "load M (p + 4) 4 = 2097152 * 1941 + 32 * (h div 2 ^ 16 mod 2 ^ 16)"
    "load M (p + 4 + 4) 4 = 2097152 * 1940 + 32 * (h mod 2 ^ 16)"
    "load M (p + 4 + 4 + 4) 4 = 0xF8400000 + 17 + 4096 * unat e"
    "load M (p + 4 + 4 + 4 + 4) 4 = 0xD65F0220"
    using optimized_words [OF h, of p e m] unfolding M_def by (simp_all add: add.assoc)
  have i: "a64_insn M q r 0xD65F0220 = Jump (r 17)" for q r by (simp add: a64_insn_def)
  have ld: "a64_insn M q r (0xF8400000 + 17 + 4096 * unat e) = Next (r(17 := load M (r 0 + unat e) 8))" for q r
    by (rule a64_ldur) (simp_all add: unat_byte_less)
  show ?thesis
    unfolding a64_run.simps w a64_mov(1) [OF imm(1)] a64_mov(2) [OF imm(2)] a64_mov(3) [OF imm(3)]
      a64_effect.case i ld fun_upd_same address_parts [of h]
    by simp
qed

lemma run_arm64_6:
  assumes "hook < 256 ^ 8"
  shows "a64_run 6 (tramp_mem kArm64 e p hook m) p (\<lambda>_. 0) =
    Some (hook, load (tramp_mem kArm64 e p hook m) (hook + unat e) 8)"
proof -
  have six: "6 = Suc (Suc (Suc 3))" by simp
  show ?thesis unfolding six by (rule run_arm64 [OF assms])
qed

lemma run_arm64_optimized_6:
  assumes "h div 2 ^ 48 = 0"
  shows "a64_run 6 (store_bytes p (optimized_trampoline e h) m) p (\<lambda>_. 0) =
    Some (h, load (store_bytes p (optimized_trampoline e h) m) (h + unat e) 8)"
proof -
  have six: "6 = Suc (Suc (Suc (Suc (Suc 1))))" by simp
  show ?thesis unfolding six by (rule run_arm64_optimized [OF assms])
qed

section \<open>The other architectures\<close>

lemma run_arm:
  assumes "hook < 256 ^ 4"
  shows "arm_run (tramp_mem kArm e p hook m) p =
    Some (hook, load (tramp_mem kArm e p hook m) (hook + unat e) 4)"
proof -
  let ?M = "tramp_mem kArm e p hook m"
  have "load ?M p 4 = 0xE59F0000"
    using tramp_mem_code [of 0 4 kArm e p hook m] by (simp add: patched_simps art_method_offset_def)
  moreover have "load ?M (p + 4) 4 = 0xE590F000 + unat e"
    using tramp_mem_code [of 4 4 kArm e p hook m] by (simp add: patched_simps art_method_offset_def)
  moreover have "(0xE590F000 + unat e) div 4096 = 940303" "(0xE590F000 + unat e) mod 4096 = unat e"
  proof -
    have "0xE590F000 + unat e = unat e + 4096 * 940303" by simp
    then show "(0xE590F000 + unat e) div 4096 = 940303" "(0xE590F000 + unat e) mod 4096 = unat e"
      using unat_byte_less [of e] by (simp_all only: mod_mult_self2 div_mult_self2) simp_all
  qed
  moreover have "load ?M (p + 8) 4 = hook"
    using tramp_mem_slot [of hook kArm e p m] assms by (simp add: art_method_offset_def)
  ultimately show ?thesis by (simp add: arm_run_def)
qed

lemma run_x86:
  assumes "hook < 256 ^ 4" "unat e < 128"
  shows "x86_run (tramp_mem kX86 e p hook m) p =
    Some (hook, load (tramp_mem kX86 e p hook m) (hook + unat e) 4)"
  using tramp_mem_byte [of 0 kX86 e p hook m] tramp_mem_byte [of 5 kX86 e p hook m]
    tramp_mem_byte [of 6 kX86 e p hook m] tramp_mem_byte [of 7 kX86 e p hook m]
    tramp_mem_byte [of 8 kX86 e p hook m]
    tramp_mem_slot [of hook kX86 e p m] assms
  by (simp add: x86_run_def art_method_offset_def patched_simps)

lemma run_x64:
  assumes "hook < 256 ^ 8" "unat e < 128"
  shows "x64_run (tramp_mem kX64 e p hook m) p =
    Some (hook, load (tramp_mem kX64 e p hook m) (hook + unat e) 8)"
  using tramp_mem_byte [of 0 kX64 e p hook m] tramp_mem_byte [of 1 kX64 e p hook m]
    tramp_mem_byte [of 10 kX64 e p hook m] tramp_mem_byte [of 11 kX64 e p hook m]
    tramp_mem_byte [of 12 kX64 e p hook m] tramp_mem_byte [of 13 kX64 e p hook m]
    tramp_mem_slot [of hook kX64 e p m] assms
  by (simp add: x64_run_def art_method_offset_def patched_simps)

lemma run_rv64:
  assumes "hook < 256 ^ 8"
  shows "rv64_run (tramp_mem kRiscv64 e p hook m) p =
    Some (hook, load (tramp_mem kRiscv64 e p hook m) (hook + unat e) 8)"
proof -
  let ?M = "tramp_mem kRiscv64 e p hook m"
  have w0: "load ?M p 4 = 0x517" and w1: "load ?M (p + 4) 4 = 0x00e53503"
    using tramp_mem_code [of 0 4 kRiscv64 e p hook m] tramp_mem_code [of 4 4 kRiscv64 e p hook m]
    by (simp_all add: patched_simps art_method_offset_def)
  have "load ?M (p + 8) 4 = le_of_bytes [3, 0x3e, 5 OR push_bit 4 e, drop_bit 4 e]"
    using tramp_mem_code [of 8 4 kRiscv64 e p hook m] by (simp add: patched_simps art_method_offset_def)
  also have "\<dots> = 3 + 256 * (62 + 256 * (5 + 16 * unat e mod 256 + 256 * (unat e div 16)))"
    by (simp only: le_of_bytes.simps unat_or_push_byte unat_drop_byte) simp
  also have "\<dots> = 0x53e03 + 65536 * (16 * unat e mod 256 + 256 * (unat e div 16))" by simp
  also have "\<dots> = 0x53e03 + 1048576 * unat e" unfolding imm_split by simp
  finally have w2: "load ?M (p + 8) 4 = 0x53e03 + 1048576 * unat e" .
  have d: "(0x53e03 + 1048576 * unat e) div 1048576 = unat e" "(0x53e03 + 1048576 * unat e) mod 1048576 = 0x53e03"
    by simp_all
  have b: "?M (p + 12) = 2" "?M (p + 13) = 0x8e"
    using tramp_mem_byte [of 12 kRiscv64 e p hook m] tramp_mem_byte [of 13 kRiscv64 e p hook m]
    by (simp_all add: patched_simps art_method_offset_def)
  have slot: "load ?M (p + 14) 8 = hook"
    using tramp_mem_slot [of hook kRiscv64 e p m] assms by (simp add: art_method_offset_def)
  show ?thesis
    unfolding rv64_run_def Let_def w0 w1 w2 d b
    using unat_byte_less [of e] by (simp add: slot)
qed

text \<open>C9. Running the trampoline that \<open>WriteTrampoline\<close> writes for a hook puts the hook's
  \<open>ArtMethod\<close> into the first argument register and jumps to the hook's entry point, on every
  architecture and for both forms of the arm64 code. The offset byte has to be below 128 on x86,
  where the processor sign-extends it, and the hook must not lie in the trampoline.\<close>

theorem run_written_trampoline:
  assumes arch: "real_arch a"
    and tramp: "tramp = UpdateTrampoline (entry_point_bit a) e (trampoline_template a)"
    and hook: "hook < 256 ^ kPointerSize a" and e: "unat e < 128"
    and sep: "disj_ranges p (kTrampolineSize a) (hook + unat e) (kPointerSize a)"
    and wr: "WriteTrampoline a tramp e p hook m = (slot, m')"
  shows "run_trampoline a m' p = Some (hook, load m (hook + unat e) (kPointerSize a))"
proof -
  have len: "length tramp = length (trampoline_template a)" by (simp add: tramp)
  have same: "load m' (hook + unat e) (kPointerSize a) = load m (hook + unat e) (kPointerSize a)"
    by (rule same_outside_load [OF WriteTrampoline_frame [OF arch len wr] sep])
  have "run_trampoline a m' p = Some (hook, load m' (hook + unat e) (kPointerSize a))"
  proof (cases "a = kArm64 \<and> hook div 2 ^ 48 = 0")
    case True
    then have "m' = store_bytes p (optimized_trampoline e hook) m"
      using wr by (simp add: WriteTrampoline_def)
    then show ?thesis
      using True run_arm64_optimized_6 by (simp add: run_trampoline_def)
  next
    case False
    then have m': "m' = tramp_mem a e p hook m"
      using wr tramp by (auto simp: WriteTrampoline_def tramp_mem_def patched_def Let_def)
    show ?thesis
      using arch hook e
      by (auto dest!: real_arch_cases
            simp: m' run_trampoline_def run_arm64_6 run_arm run_x86 run_x64 run_rv64)
  qed
  then show ?thesis by (simp add: same)
qed

theorem run_written_trampoline_witness:
  "\<exists>slot m'. WriteTrampoline kX64 (patched kX64 24) 24 4096 65536 (\<lambda>_. 7) = (slot, m') \<and>
     run_trampoline kX64 m' 4096 = Some (65536, load (\<lambda>_. 7) (65536 + 24) 8)"
proof -
  obtain slot m' where w: "WriteTrampoline kX64 (patched kX64 24) 24 4096 65536 (\<lambda>_. 7) = (slot, m')"
    by (metis prod.exhaust)
  have "run_trampoline kX64 m' 4096 = Some (65536, load (\<lambda>_. 7) (65536 + unat (24 :: byte)) (kPointerSize kX64))"
    by (rule run_written_trampoline [OF _ patched_def _ _ _ w]) (simp_all add: real_arch_def disj_ranges_def)
  then show ?thesis using w by auto
qed

end
