(* ===== verification/Step_Systems.thy ===== *)
theory Step_Systems
  imports Main
begin

text \<open>
  Step relations and their runs: what holds of every run once it has been shown of single steps. The
  concurrent parts of the library and its interplay with ART are inductive step relations; each proves its
  laws for one step and interprets these contracts.
\<close>

section \<open>Invariants\<close>

locale step_invariant =
  fixes step :: "'s \<Rightarrow> 's \<Rightarrow> bool"
    and inv :: "'s \<Rightarrow> bool"
  assumes step_inv: "inv s \<Longrightarrow> step s s' \<Longrightarrow> inv s'"
begin

lemma run_inv: "step\<^sup>*\<^sup>* s s' \<Longrightarrow> inv s \<Longrightarrow> inv s'"
  by (induction rule: rtranclp_induct) (auto intro: step_inv)

text \<open>A property that every step keeps in the states of the invariant.\<close>

lemma run_keeps:
  assumes "step\<^sup>*\<^sup>* s s'" "inv s" "P s" and keep: "\<And>y z. inv y \<Longrightarrow> P y \<Longrightarrow> step y z \<Longrightarrow> P z"
  shows "inv s' \<and> P s'"
  using assms(1)
proof (induction rule: rtranclp_induct)
  case (step y z)
  then show ?case using step_inv keep by blast
qed (use assms(2,3) in simp)

end

section \<open>Refinement\<close>

text \<open>A step relation that implements an abstract one: seen through \<open>view\<close>, a step is a step of the
  specification or not visible at all.\<close>

locale refinement_map = step_invariant step inv
  for step :: "'s \<Rightarrow> 's \<Rightarrow> bool"
    and inv :: "'s \<Rightarrow> bool" +
  fixes view :: "'s \<Rightarrow> 'a"
    and spec :: "'a \<Rightarrow> 'a \<Rightarrow> bool"
  assumes step_spec: "inv s \<Longrightarrow> step s s' \<Longrightarrow> view s' = view s \<or> spec (view s) (view s')"
begin

lemma run_spec:
  assumes "step\<^sup>*\<^sup>* s s'" "inv s"
  shows "spec\<^sup>*\<^sup>* (view s) (view s')"
  using assms(1)
proof (induction rule: rtranclp_induct)
  case (step y z)
  have "inv y" using run_inv [OF step.hyps(1) assms(2)] .
  from step_spec [OF this step.hyps(2)] step.IH show ?case by (auto intro: rtranclp.rtrancl_into_rtrancl)
qed simp

text \<open>What the specification keeps, the implementation keeps.\<close>

lemma spec_invariant:
  assumes "step_invariant spec I" "step\<^sup>*\<^sup>* s s'" "inv s" "I (view s)"
  shows "I (view s')"
  using step_invariant.run_inv [OF assms(1) run_spec [OF assms(2,3)] assms(4)] .

end

end
