(* ===== verification/Trampoline_Pool.thy ===== *)
theory Trampoline_Pool
  imports Trampoline Step_Systems
begin

text \<open>
  The loop of \<open>GenerateTrampolineFor\<close> (lsplant.cc) under concurrency. Each thread runs
  \<open>fetch_add\<close>, tests the slot, tries the lock \<open>trampoline_lock\<close>, waits or maps a page, stores the
  pool and releases the lock; every atomic access is one step, and the steps of \<open>n\<close> threads
  interleave. A thread may call again after it returned.

  A call that has a slot then makes its page writable: \<open>Protect\<close>. \<open>mprotect\<close> may refuse, for instance a
  page that is not mapped; then the call fails and the slot is lost.

  \<open>ps_given\<close> is the history of the slots the loop has settled on; \<open>Got\<close> is one that is handed out. \<open>ps_round\<close> and \<open>ps_since\<close> are ghosts: they
  count the times the lock's holder moved on, in all and since the pool was last stored; a
  thread is tagged with the round of its failed fetch.
\<close>

datatype tstate = Fetch | TryLock nat | Waiting nat | Mapping nat | Releasing addr | Protect addr | Got addr | Failed

record pool_state =
  ps_pool :: nat
  ps_lock :: bool
  ps_pages :: "addr list"
  ps_given :: "addr list"
  ps_thread :: "nat \<Rightarrow> tstate"
  ps_round :: nat
  ps_since :: nat

definition pool_init :: pool_state where
  "pool_init = \<lparr> ps_pool = 0, ps_lock = False, ps_pages = [], ps_given = [],
     ps_thread = (\<lambda>_. Fetch), ps_round = 0, ps_since = 0 \<rparr>"

text \<open>\<open>n\<close> threads; at most \<open>F\<close> mappings in a row fail.\<close>

inductive pool_step :: "arch \<Rightarrow> nat \<Rightarrow> nat \<Rightarrow> nat \<Rightarrow> pool_state \<Rightarrow> pool_state \<Rightarrow> bool"
  for a :: arch and pg n F :: nat where
  fetch_ok: "i < n \<Longrightarrow> ps_thread s i = Fetch \<Longrightarrow> address = align_down (ps_pool s) pg \<Longrightarrow>
    count = get_count pg (ps_pool s) \<Longrightarrow> address \<noteq> 0 \<Longrightarrow> count < kTrampolineNumPerPage a pg \<Longrightarrow>
    slot = address + count * kTrampolineSize a \<Longrightarrow>
    pool_step a pg n F s (s\<lparr> ps_pool := ps_pool s + 1, ps_given := slot # ps_given s,
      ps_thread := (ps_thread s)(i := Protect slot) \<rparr>)"
| fetch_full: "i < n \<Longrightarrow> ps_thread s i = Fetch \<Longrightarrow> address = align_down (ps_pool s) pg \<Longrightarrow>
    count = get_count pg (ps_pool s) \<Longrightarrow> address = 0 \<or> count \<ge> kTrampolineNumPerPage a pg \<Longrightarrow>
    pool_step a pg n F s (s\<lparr> ps_pool := ps_pool s + 1,
      ps_thread := (ps_thread s)(i := TryLock (ps_round s)) \<rparr>)"
| lock_busy: "i < n \<Longrightarrow> ps_thread s i = TryLock r \<Longrightarrow> ps_lock s \<Longrightarrow>
    pool_step a pg n F s (s\<lparr> ps_thread := (ps_thread s)(i := Waiting r) \<rparr>)"
| lock_taken: "i < n \<Longrightarrow> ps_thread s i = TryLock r \<Longrightarrow> \<not> ps_lock s \<Longrightarrow>
    pool_step a pg n F s (s\<lparr> ps_lock := True, ps_thread := (ps_thread s)(i := Mapping r) \<rparr>)"
| wake: "i < n \<Longrightarrow> ps_thread s i = Waiting r \<Longrightarrow> \<not> ps_lock s \<Longrightarrow>
    pool_step a pg n F s (s\<lparr> ps_thread := (ps_thread s)(i := Fetch) \<rparr>)"
| map_ok: "i < n \<Longrightarrow> ps_thread s i = Mapping r \<Longrightarrow> pg dvd p \<Longrightarrow> p \<noteq> 0 \<Longrightarrow> p \<notin> set (ps_pages s) \<Longrightarrow>
    pool_step a pg n F s (s\<lparr> ps_pool := set_count pg 1 p, ps_pages := p # ps_pages s,
      ps_given := p # ps_given s, ps_thread := (ps_thread s)(i := Releasing p),
      ps_round := ps_round s + 1, ps_since := 0 \<rparr>)"
| map_fail: "i < n \<Longrightarrow> ps_thread s i = Mapping r \<Longrightarrow> ps_since s \<le> F \<Longrightarrow> 0 < F \<Longrightarrow>
    pool_step a pg n F s (s\<lparr> ps_lock := False, ps_thread := (ps_thread s)(i := Failed),
      ps_round := ps_round s + 1, ps_since := ps_since s + 1 \<rparr>)"
| release: "i < n \<Longrightarrow> ps_thread s i = Releasing p \<Longrightarrow>
    pool_step a pg n F s (s\<lparr> ps_lock := False, ps_thread := (ps_thread s)(i := Protect p),
      ps_round := ps_round s + 1, ps_since := ps_since s + 1 \<rparr>)"
| protect_ok: "i < n \<Longrightarrow> ps_thread s i = Protect p \<Longrightarrow>
    pool_step a pg n F s (s\<lparr> ps_thread := (ps_thread s)(i := Got p) \<rparr>)"
| protect_fail: "i < n \<Longrightarrow> ps_thread s i = Protect p \<Longrightarrow>
    pool_step a pg n F s (s\<lparr> ps_thread := (ps_thread s)(i := Failed) \<rparr>)"
| again: "i < n \<Longrightarrow> ps_thread s i = Got p \<or> ps_thread s i = Failed \<Longrightarrow>
    pool_step a pg n F s (s\<lparr> ps_thread := (ps_thread s)(i := Fetch) \<rparr>)"

inductive_cases pool_stepE: "pool_step a pg n F s s'"

abbreviation pool_reachable :: "arch \<Rightarrow> nat \<Rightarrow> nat \<Rightarrow> nat \<Rightarrow> pool_state \<Rightarrow> bool" where
  "pool_reachable a pg n F \<equiv> (pool_step a pg n F)\<^sup>*\<^sup>* pool_init"

section \<open>Tags, holders and the invariant\<close>

fun tag :: "tstate \<Rightarrow> nat option" where
  "tag (TryLock r) = Some r" | "tag (Waiting r) = Some r" | "tag (Mapping r) = Some r"
| "tag _ = None"

fun holds_lock :: "tstate \<Rightarrow> bool" where
  "holds_lock (Mapping r) = True" | "holds_lock (Releasing p) = True" | "holds_lock _ = False"

definition tagged :: "nat \<Rightarrow> nat \<Rightarrow> (nat \<Rightarrow> tstate) \<Rightarrow> nat set" where
  "tagged n r T = {i. i < n \<and> tag (T i) = Some r}"

definition base :: "pool_state \<Rightarrow> addr" where
  "base s = (case ps_pages s of [] \<Rightarrow> 0 | p # _ \<Rightarrow> p)"

definition in_page :: "arch \<Rightarrow> nat \<Rightarrow> pool_state \<Rightarrow> addr \<Rightarrow> bool" where
  "in_page a pg s x \<longleftrightarrow> (\<exists>p \<in> set (ps_pages s). \<exists>j < kTrampolineNumPerPage a pg.
     x = p + j * kTrampolineSize a \<and> (p = base s \<longrightarrow> j < ps_pool s - base s))"

text \<open>The lock: one holder, and no waiter of the current round once it is free.\<close>

definition lock_inv :: "nat \<Rightarrow> pool_state \<Rightarrow> bool" where
  "lock_inv n s \<longleftrightarrow>
     (\<forall>i < n. holds_lock (ps_thread s i) \<longrightarrow> ps_lock s) \<and>
     (\<forall>i < n. \<forall>j < n. holds_lock (ps_thread s i) \<longrightarrow> holds_lock (ps_thread s j) \<longrightarrow> i = j) \<and>
     (\<forall>i < n. \<forall>r. tag (ps_thread s i) = Some r \<longrightarrow> r \<le> ps_round s) \<and>
     (\<forall>i < n. ps_thread s i = Waiting (ps_round s) \<longrightarrow> ps_lock s)"

text \<open>The count: how far the pool can run past the last slot of its page.\<close>

definition count_inv :: "arch \<Rightarrow> nat \<Rightarrow> nat \<Rightarrow> nat \<Rightarrow> pool_state \<Rightarrow> bool" where
  "count_inv a pg n F s \<longleftrightarrow>
     (\<forall>p \<in> set (ps_pages s). pg dvd p \<and> p \<noteq> 0) \<and> distinct (ps_pages s) \<and>
     base s \<le> ps_pool s \<and> ps_since s \<le> F + 1 \<and>
     (\<forall>i < n. \<forall>p. ps_thread s i = Releasing p \<longrightarrow> ps_since s = 0) \<and>
     ps_pool s - base s \<le> kTrampolineNumPerPage a pg + ps_since s * n
       + card (tagged n (ps_round s) (ps_thread s))"

text \<open>The history: every slot handed out lies in a mapped page, and no two are the same.\<close>

definition given_inv :: "arch \<Rightarrow> nat \<Rightarrow> pool_state \<Rightarrow> bool" where
  "given_inv a pg s \<longleftrightarrow> (\<forall>x \<in> set (ps_given s). in_page a pg s x) \<and> distinct (ps_given s)"

text \<open>What a call is about to hand out, or has, is in the history.\<close>

fun slot_of :: "tstate \<Rightarrow> addr option" where
  "slot_of (Releasing p) = Some p" | "slot_of (Protect p) = Some p" | "slot_of (Got p) = Some p"
| "slot_of _ = None"

definition held_inv :: "nat \<Rightarrow> pool_state \<Rightarrow> bool" where
  "held_inv n s \<longleftrightarrow> (\<forall>i < n. \<forall>x. slot_of (ps_thread s i) = Some x \<longrightarrow> x \<in> set (ps_given s))"

definition pool_inv :: "arch \<Rightarrow> nat \<Rightarrow> nat \<Rightarrow> nat \<Rightarrow> pool_state \<Rightarrow> bool" where
  "pool_inv a pg n F s \<longleftrightarrow> lock_inv n s \<and> count_inv a pg n F s \<and> given_inv a pg s \<and> held_inv n s"

text \<open>The pages the kernel uses, and enough room in the count for all threads to overshoot.\<close>

definition pool_params :: "arch \<Rightarrow> nat \<Rightarrow> nat \<Rightarrow> nat \<Rightarrow> bool" where
  "pool_params a pg n F \<longleftrightarrow> real_arch a \<and> (pg = 4096 \<or> pg = 16384) \<and>
     kTrampolineNumPerPage a pg + (F + 2) * n < pg"

lemma finite_tagged [simp]: "finite (tagged n r T)"
  by (simp add: tagged_def)

lemma card_tagged: "card (tagged n r T) \<le> n"
proof -
  have "tagged n r T \<subseteq> {..<n}" by (auto simp: tagged_def)
  then have "card (tagged n r T) \<le> card {..<n}" by (rule card_mono [rotated]) simp
  then show ?thesis by simp
qed

lemma tagged_upd_new: "i < n \<Longrightarrow> tag (T i) = None \<Longrightarrow> tag x = Some r \<Longrightarrow>
  card (tagged n r (T(i := x))) = card (tagged n r T) + 1"
proof -
  assume "i < n" "tag (T i) = None" "tag x = Some r"
  then have "tagged n r (T(i := x)) = insert i (tagged n r T)" "i \<notin> tagged n r T"
    by (auto simp: tagged_def)
  then show ?thesis by simp
qed

lemma tagged_upd_same: "tag x = tag (T i) \<Longrightarrow> tagged n r (T(i := x)) = tagged n r T"
  by (auto simp: tagged_def)

lemma tagged_upd_other: "tag (T i) \<noteq> Some r \<Longrightarrow> tag x \<noteq> Some r \<Longrightarrow> tagged n r (T(i := x)) = tagged n r T"
  by (auto simp: tagged_def)

lemma page_bits: "pg = 4096 \<or> pg = 16384 \<Longrightarrow> 2 ^ count_bits pg = pg"
  by (auto simp: count_bits_def)

lemma count_of_page: "pg = 4096 \<or> pg = 16384 \<Longrightarrow> pg dvd p \<Longrightarrow> c < pg \<Longrightarrow> get_count pg (p + c) = c"
  by (simp add: get_count_def page_bits mod_of_aligned)

lemma set_count_page: "pg = 4096 \<or> pg = 16384 \<Longrightarrow> pg dvd p \<Longrightarrow> set_count pg 1 p = p + 1"
  by (auto simp: set_count_def page_bits dvd_eq_mod_eq_0)

lemma num_pos: "real_arch a \<Longrightarrow> pg = 4096 \<or> pg = 16384 \<Longrightarrow> 0 < kTrampolineNumPerPage a pg"
  by (auto dest!: real_arch_cases simp: kTrampolineNumPerPage_def)

lemma num_fits: "real_arch a \<Longrightarrow> j < kTrampolineNumPerPage a pg \<Longrightarrow>
  j * kTrampolineSize a + kTrampolineSize a \<le> pg"
proof -
  assume a: "real_arch a" and "j < kTrampolineNumPerPage a pg"
  then have "Suc j \<le> pg div kTrampolineSize a" by (simp add: kTrampolineNumPerPage_def)
  then have "Suc j * kTrampolineSize a \<le> pg div kTrampolineSize a * kTrampolineSize a"
    by (rule mult_le_mono1)
  also have "\<dots> \<le> pg" by simp
  finally show ?thesis by simp
qed

section \<open>Preservation\<close>

lemma pool_inv_init: "pool_inv a pg n F pool_init"
  by (simp add: pool_inv_def lock_inv_def count_inv_def given_inv_def held_inv_def pool_init_def base_def)

lemma lock_invD:
  assumes "lock_inv n s" "i < n"
  shows "holds_lock (ps_thread s i) \<Longrightarrow> ps_lock s"
    "j < n \<Longrightarrow> holds_lock (ps_thread s i) \<Longrightarrow> holds_lock (ps_thread s j) \<Longrightarrow> j = i"
    "tag (ps_thread s i) = Some r \<Longrightarrow> r \<le> ps_round s"
    "ps_thread s i = Waiting (ps_round s) \<Longrightarrow> ps_lock s"
  using assms unfolding lock_inv_def by blast+

lemma no_future_tag: "lock_inv n s \<Longrightarrow> i < n \<Longrightarrow> tag (ps_thread s i) \<noteq> Some (Suc (ps_round s))"
  using lock_invD(3) [of n s i "Suc (ps_round s)"] by auto

lemma no_future_waiter: "lock_inv n s \<Longrightarrow> i < n \<Longrightarrow> ps_thread s i \<noteq> Waiting (Suc (ps_round s))"
  using no_future_tag [of n s i] by auto

text \<open>A step that moves thread \<open>i\<close> alone and does not take the lock.\<close>

lemma lock_inv_upd:
  assumes inv: "lock_inv n s" and i: "i < n"
    and hold: "holds_lock x \<Longrightarrow> holds_lock (ps_thread s i) \<and> l"
    and free: "\<not> l \<Longrightarrow> \<not> ps_lock s \<or> (holds_lock (ps_thread s i) \<and> Suc (ps_round s) \<le> r)"
    and tags: "\<And>q. tag x = Some q \<Longrightarrow> q \<le> r" and r: "r = ps_round s \<or> r = Suc (ps_round s)"
    and wait: "x = Waiting r \<Longrightarrow> l"
    and s': "ps_thread s' = (ps_thread s)(i := x)" "ps_lock s' = l" "ps_round s' = r"
  shows "lock_inv n s'"
  unfolding lock_inv_def s'
proof (intro conjI allI impI)
  fix j assume j: "j < n" and h: "holds_lock (((ps_thread s)(i := x)) j)"
  show l
  proof (rule ccontr)
    assume nl: "\<not> l"
    then have "j \<noteq> i" using h hold by auto
    then have hj: "holds_lock (ps_thread s j)" using h by simp
    then have "ps_lock s" by (rule lock_invD(1) [OF inv j])
    then have "holds_lock (ps_thread s i)" using free nl by blast
    then show False using lock_invD(2) [OF inv i j] hj \<open>j \<noteq> i\<close> by blast
  qed
next
  fix j k assume jk: "j < n" "k < n"
    and "holds_lock (((ps_thread s)(i := x)) j)" "holds_lock (((ps_thread s)(i := x)) k)"
  then have "holds_lock (ps_thread s j)" "holds_lock (ps_thread s k)"
    using hold by (auto split: if_splits)
  then show "j = k" using lock_invD(2) [OF inv jk(2,1)] by blast
next
  fix j q assume "j < n" "tag (((ps_thread s)(i := x)) j) = Some q"
  then show "q \<le> r" using tags r lock_invD(3) [OF inv, of j q] by (auto split: if_splits)
next
  fix j assume j: "j < n" and w: "((ps_thread s)(i := x)) j = Waiting r"
  show l
  proof (cases "j = i")
    case False
    then have wj: "ps_thread s j = Waiting r" using w by simp
    then have "r = ps_round s" using no_future_waiter [OF inv j] r by auto
    moreover have "ps_lock s" using lock_invD(4) [OF inv j] wj calculation by simp
    ultimately show ?thesis using free by auto
  qed (use w wait in auto)
qed

lemma lock_inv_step:
  assumes inv: "lock_inv n s" and step: "pool_step a pg n F s s'"
  shows "lock_inv n s'"
  using step
proof cases
  case (lock_taken i r)
  then have none: "\<not> holds_lock (ps_thread s j)" if "j < n" for j
    using lock_invD(1) [OF inv that] by auto
  show ?thesis
    unfolding lock_inv_def lock_taken(1)
    using lock_invD(3) [OF inv] lock_taken none by auto
next
  case (map_ok i r p)
  then show ?thesis using lock_invD(1) [OF inv map_ok(2)]
    by (intro lock_inv_upd [OF inv map_ok(2)]) auto
qed (intro lock_inv_upd [OF inv]; use lock_invD(3) [OF inv] in auto)+

lemma count_bound:
  assumes "pool_params a pg n F" "count_inv a pg n F s"
  shows "ps_pool s - base s < pg"
proof -
  have "ps_since s \<le> F + 1" using assms(2) by (simp add: count_inv_def)
  then have "ps_since s * n \<le> (F + 1) * n" by (rule mult_le_mono1)
  then show ?thesis
    using assms card_tagged [of n "ps_round s" "ps_thread s"]
    by (auto simp: count_inv_def pool_params_def)
qed

lemma base_dvd: "count_inv a pg n F s \<Longrightarrow> pg dvd base s"
  by (auto simp: count_inv_def base_def split: list.split)

text \<open>What a fetch reads: the current page and its count.\<close>

lemma fetch_reads:
  assumes "pool_params a pg n F" "count_inv a pg n F s"
  shows "align_down (ps_pool s) pg = base s" "get_count pg (ps_pool s) = ps_pool s - base s"
proof -
  have c: "ps_pool s - base s < pg" by (rule count_bound [OF assms])
  have pg: "pg = 4096 \<or> pg = 16384" using assms(1) by (simp add: pool_params_def)
  have u: "ps_pool s = base s + (ps_pool s - base s)" using assms(2) by (simp add: count_inv_def)
  show "align_down (ps_pool s) pg = base s"
    using align_down_add [of pg "base s" "ps_pool s - base s"] u c base_dvd [OF assms(2)] pg by auto
  show "get_count pg (ps_pool s) = ps_pool s - base s"
    using count_of_page [OF pg base_dvd [OF assms(2)] c] u by simp
qed

lemma since_card: "count_inv a pg n F s \<Longrightarrow>
  ps_pool s - base s \<le> kTrampolineNumPerPage a pg + (ps_since s + 1) * n"
  using card_tagged [of n "ps_round s" "ps_thread s"] by (auto simp: count_inv_def)

lemma count_inv_step:
  assumes par: "pool_params a pg n F" and inv: "count_inv a pg n F s" and lk: "lock_inv n s"
    and step: "pool_step a pg n F s s'"
  shows "count_inv a pg n F s'"
proof -
  have pg: "pg = 4096 \<or> pg = 16384" and arch: "real_arch a" using par by (simp_all add: pool_params_def)
  have keep: "count_inv a pg n F s'"
    if "ps_pages s' = ps_pages s" "ps_since s' = ps_since s" "ps_pool s \<le> ps_pool s'"
      "ps_pool s' - base s \<le> kTrampolineNumPerPage a pg + ps_since s * n
        + card (tagged n (ps_round s') (ps_thread s'))"
      "\<And>i p. ps_thread s' i = Releasing p \<Longrightarrow> ps_thread s i = Releasing p" for s'
    using inv that unfolding count_inv_def base_def by auto
  have alone: "ps_thread s j \<noteq> Releasing p" if "i < n" "holds_lock (ps_thread s i)" "j < n" "j \<noteq> i" for i j p
    using lock_invD(2) [OF lk that(1,3,2)] that(4) by auto
  show ?thesis
    using step
  proof cases
    case (fetch_ok i address count slot)
    have "count = ps_pool s - base s" using fetch_reads [OF par inv] fetch_ok by simp
    with fetch_ok inv show ?thesis by (intro keep) (auto simp: count_inv_def split: if_splits)
  next
    case (fetch_full i address count)
    then have "card (tagged n (ps_round s) ((ps_thread s)(i := TryLock (ps_round s))))
        = card (tagged n (ps_round s) (ps_thread s)) + 1"
      by (intro tagged_upd_new) simp_all
    with fetch_full inv show ?thesis by (intro keep) (auto simp: count_inv_def split: if_splits)
  next
    case (lock_busy i r)
    with inv show ?thesis by (intro keep) (auto simp: count_inv_def tagged_upd_same split: if_splits)
  next
    case (lock_taken i r)
    with inv show ?thesis by (intro keep) (auto simp: count_inv_def tagged_upd_same split: if_splits)
  next
    case (wake i r)
    then have "r \<noteq> ps_round s" using lock_invD(4) [OF lk wake(2)] by auto
    then have "tagged n (ps_round s) ((ps_thread s)(i := Fetch)) = tagged n (ps_round s) (ps_thread s)"
      using wake by (intro tagged_upd_other) simp_all
    with wake inv show ?thesis by (intro keep) (auto simp: count_inv_def split: if_splits)
  next
    case (map_ok i r p)
    then show ?thesis
      using inv num_pos [OF arch pg] set_count_page [OF pg] by (auto simp: count_inv_def base_def)
  next
    case (map_fail i r)
    then show ?thesis
      using inv since_card [OF inv] alone [of i] by (auto simp: count_inv_def base_def algebra_simps)
  next
    case (release i p)
    then have "ps_since s = 0" using inv by (simp add: count_inv_def)
    then show ?thesis
      using inv since_card [OF inv] alone [of i] release
      by (auto simp: count_inv_def base_def algebra_simps)
  next
    case (again i p)
    then have "tagged n (ps_round s) ((ps_thread s)(i := Fetch)) = tagged n (ps_round s) (ps_thread s)"
      by (intro tagged_upd_other) auto
    with again inv show ?thesis by (intro keep) (auto simp: count_inv_def split: if_splits)
  next
    case (protect_ok i p)
    with inv show ?thesis by (intro keep) (auto simp: count_inv_def tagged_upd_same split: if_splits)
  next
    case (protect_fail i p)
    with inv show ?thesis by (intro keep) (auto simp: count_inv_def tagged_upd_same split: if_splits)
  qed
qed

lemma pages_apart:
  assumes "pg dvd p" "pg dvd q" "p + x = q + y" "x < pg" "y < (pg :: nat)"
  shows "p = q"
  using assms align_down_add [of pg p x] align_down_add [of pg q y] by auto

lemma in_page_mono:
  "in_page a pg s x \<Longrightarrow> ps_pages s' = ps_pages s \<Longrightarrow> ps_pool s \<le> ps_pool s' \<Longrightarrow> in_page a pg s' x"
  unfolding in_page_def base_def by (auto, metis diff_le_mono order_less_le_trans)

lemma given_inv_mono:
  "given_inv a pg s \<Longrightarrow> ps_pages s' = ps_pages s \<Longrightarrow> ps_given s' = ps_given s \<Longrightarrow>
   ps_pool s \<le> ps_pool s' \<Longrightarrow> given_inv a pg s'"
  by (auto simp: given_inv_def intro: in_page_mono)

lemma base_in_pages: "base s \<noteq> 0 \<Longrightarrow> base s \<in> set (ps_pages s)"
  by (auto simp: base_def split: list.splits)

lemma fresh_slot:
  assumes par: "pool_params a pg n F" and cnt: "count_inv a pg n F s" and giv: "given_inv a pg s"
    and b: "base s \<noteq> 0" and c: "ps_pool s - base s < kTrampolineNumPerPage a pg"
  shows "base s + (ps_pool s - base s) * kTrampolineSize a \<notin> set (ps_given s)"
proof
  let ?c = "ps_pool s - base s" and ?z = "kTrampolineSize a"
  have arch: "real_arch a" using par by (simp add: pool_params_def)
  note z = kTrampolineSize_pos [OF arch]
  assume "base s + ?c * ?z \<in> set (ps_given s)"
  then obtain p j where p: "p \<in> set (ps_pages s)" and j: "j < kTrampolineNumPerPage a pg"
    and eq: "base s + ?c * ?z = p + j * ?z" and lt: "p = base s \<longrightarrow> j < ?c"
    using giv by (auto simp: given_inv_def in_page_def)
  have "base s = p"
    using p base_in_pages [OF b] cnt num_fits [OF arch j] num_fits [OF arch c] z
    by (intro pages_apart [where pg = pg, OF _ _ eq]) (auto simp: count_inv_def)
  then show False using eq lt z by simp
qed

lemma given_inv_step:
  assumes par: "pool_params a pg n F" and cnt: "count_inv a pg n F s" and giv: "given_inv a pg s"
    and step: "pool_step a pg n F s s'"
  shows "given_inv a pg s'"
  using step
proof cases
  case (fetch_ok i address count slot)
  have pg: "pg = 4096 \<or> pg = 16384" using par by (simp add: pool_params_def)
  have slot: "slot = base s + (ps_pool s - base s) * kTrampolineSize a" and b: "base s \<noteq> 0"
    and c: "ps_pool s - base s < kTrampolineNumPerPage a pg"
    using fetch_reads [OF par cnt] fetch_ok by simp_all
  have "slot \<notin> set (ps_given s)" unfolding slot by (rule fresh_slot [OF par cnt giv b c])
  moreover have "in_page a pg s' slot"
    using base_in_pages [OF b] c slot cnt fetch_ok(1)
    by (auto simp: in_page_def base_def count_inv_def intro!: bexI [of _ "base s"] exI [of _ "ps_pool s - base s"])
  moreover have "in_page a pg s' x" if "x \<in> set (ps_given s)" for x
    using giv that fetch_ok(1) by (auto simp: given_inv_def intro: in_page_mono)
  ultimately show ?thesis using giv fetch_ok(1) by (auto simp: given_inv_def)
next
  case (map_ok i r p)
  have pg: "pg = 4096 \<or> pg = 16384" and arch: "real_arch a" using par by (simp_all add: pool_params_def)
  have old: "in_page a pg s' x" if "x \<in> set (ps_given s)" for x
    using giv that map_ok by (fastforce simp: given_inv_def in_page_def base_def)
  have new: "in_page a pg s' p"
    using map_ok num_pos [OF arch pg] set_count_page [OF pg] by (auto simp: in_page_def base_def)
  have "p \<notin> set (ps_given s)"
  proof
    assume "p \<in> set (ps_given s)"
    then obtain q j where q: "q \<in> set (ps_pages s)" and j: "j < kTrampolineNumPerPage a pg"
      and eq: "p + 0 = q + j * kTrampolineSize a"
      using giv by (auto simp: given_inv_def in_page_def)
    have "p = q"
      using q map_ok cnt num_fits [OF arch j] pg kTrampolineSize_pos [OF arch]
      by (intro pages_apart [where pg = pg, OF _ _ eq]) (auto simp: count_inv_def)
    then show False using q map_ok by simp
  qed
  then show ?thesis using giv map_ok(1) old new by (auto simp: given_inv_def)
qed (use given_inv_mono [OF giv] in auto)

lemma held_inv_step: "held_inv n s \<Longrightarrow> pool_step a pg n F s s' \<Longrightarrow> held_inv n s'"
  by (erule pool_stepE) (auto simp: held_inv_def)

lemma pool_inv_step:
  assumes "pool_params a pg n F" "pool_inv a pg n F s" "pool_step a pg n F s s'"
  shows "pool_inv a pg n F s'"
proof -
  note i = assms(2) [unfolded pool_inv_def]
  show ?thesis
    using lock_inv_step [OF _ assms(3)] count_inv_step [OF assms(1) _ _ assms(3)]
      given_inv_step [OF assms(1) _ _ assms(3)] held_inv_step [OF _ assms(3)] i
    by (simp add: pool_inv_def)
qed

interpretation pool: step_invariant "pool_step a pg n F" "\<lambda>s. pool_params a pg n F \<and> pool_inv a pg n F s" for a pg n F
  by unfold_locales (auto intro: pool_inv_step)

lemma pool_inv_reachable:
  assumes "pool_params a pg n F" and "pool_reachable a pg n F s"
  shows "pool_inv a pg n F s"
  using pool.run_inv [OF assms(2)] assms(1) pool_inv_init by blast

text \<open>C10. However the threads interleave, the slots \<open>GenerateTrampolineFor\<close> hands out are some its loop has
  settled on, and all of those lie inside mapped pages and never overlap, as long as the page's count has room for the threads that may overshoot it:
  each of the \<open>n\<close> threads once per released lock, with at most \<open>F\<close> failed mappings in a row.\<close>

theorem trampoline_slots_disjoint:
  assumes par: "pool_params a pg n F" and reach: "pool_reachable a pg n F s"
  shows "(\<forall>i < n. \<forall>x. ps_thread s i = Got x \<longrightarrow> x \<in> set (ps_given s)) \<and>
    (\<forall>x \<in> set (ps_given s). \<exists>p \<in> set (ps_pages s). p \<le> x \<and> x + kTrampolineSize a \<le> p + pg) \<and>
    distinct (ps_given s) \<and>
    (\<forall>x \<in> set (ps_given s). \<forall>y \<in> set (ps_given s). x \<noteq> y \<longrightarrow>
       disj_ranges x (kTrampolineSize a) y (kTrampolineSize a))"
proof -
  have inv: "count_inv a pg n F s" "given_inv a pg s" and held: "held_inv n s"
    using pool_inv_reachable [OF assms] by (simp_all add: pool_inv_def)
  have arch: "real_arch a" using par by (simp add: pool_params_def)
  note z = kTrampolineSize_pos [OF arch]
  have inside: "\<exists>p \<in> set (ps_pages s). \<exists>j < kTrampolineNumPerPage a pg. x = p + j * kTrampolineSize a"
    if "x \<in> set (ps_given s)" for x
    using inv(2) that unfolding given_inv_def in_page_def by blast
  have "\<forall>i < n. \<forall>x. ps_thread s i = Got x \<longrightarrow> x \<in> set (ps_given s)"
    using held by (auto simp: held_inv_def)
  moreover have "\<exists>p \<in> set (ps_pages s). p \<le> x \<and> x + kTrampolineSize a \<le> p + pg"
    if xg: "x \<in> set (ps_given s)" for x
  proof -
    obtain p j where p: "p \<in> set (ps_pages s)" "j < kTrampolineNumPerPage a pg" "x = p + j * kTrampolineSize a"
      using inside [OF xg] by blast
    then show ?thesis using num_fits [OF arch p(2)] by (intro bexI [of _ p]) simp_all
  qed
  moreover have "disj_ranges x (kTrampolineSize a) y (kTrampolineSize a)"
    if xy: "x \<in> set (ps_given s)" "y \<in> set (ps_given s)" "x \<noteq> y" for x y
  proof -
    obtain p j q k where p: "p \<in> set (ps_pages s)" "j < kTrampolineNumPerPage a pg" "x = p + j * kTrampolineSize a"
      and q: "q \<in> set (ps_pages s)" "k < kTrampolineNumPerPage a pg" "y = q + k * kTrampolineSize a"
      using inside [OF xy(1)] inside [OF xy(2)] by blast
    have d: "pg dvd p" "pg dvd q" using p q inv(1) by (auto simp: count_inv_def)
    show ?thesis
    proof (cases "p = q")
      case True
      then have "j < k \<or> k < j" using xy(3) p q by auto
      then have "Suc j * kTrampolineSize a \<le> k * kTrampolineSize a \<or> Suc k * kTrampolineSize a \<le> j * kTrampolineSize a"
        by (metis Suc_leI mult_le_mono1)
      then show ?thesis using True p q by (auto simp: disj_ranges_def)
    next
      case False
      then have "p + pg \<le> q \<or> q + pg \<le> p"
        using d by (metis dvd_add_right_iff dvd_diff_nat dvd_imp_le le_add_diff_inverse linorder_neqE_nat
            nat_add_left_cancel_le nat_le_linear order_less_imp_le zero_less_diff)
      then show ?thesis
        using num_fits [OF arch p(2)] num_fits [OF arch q(2)] p q by (auto simp: disj_ranges_def)
    qed
  qed
  ultimately show ?thesis using inv(2) by (simp add: given_inv_def)
qed

text \<open>A state of two threads on arm64, reached by eight steps: the second thread's slot is on the page
  the first one mapped.\<close>

definition pool_demo :: pool_state where
  "pool_demo = \<lparr> ps_pool = 8194, ps_lock = False, ps_pages = [8192], ps_given = [8212, 8192],
     ps_thread = (\<lambda>_. Fetch)(0 := Got 8192, 1 := Got 8212), ps_round = 2, ps_since = 1 \<rparr>"

lemma pool_step_then:
  "pool_step a pg n F s t \<Longrightarrow> (pool_step a pg n F)\<^sup>*\<^sup>* t u \<Longrightarrow> (pool_step a pg n F)\<^sup>*\<^sup>* s u"
  by (rule converse_rtranclp_into_rtranclp)

lemma page_params: "pool_params kArm64 4096 2 0"
  by (simp add: pool_params_def real_arch_def kTrampolineNumPerPage_def)

lemma pool_demo_reachable: "pool_reachable kArm64 4096 2 0 pool_demo"
  unfolding pool_init_def
  apply (rule pool_step_then, rule fetch_full [of 0 _ _ 0 _ 0], simp_all add: align_down_def get_count_def)
  apply (rule pool_step_then, rule lock_taken [of 0 _ _ 0], simp_all)
  apply (rule pool_step_then, rule map_ok [of 0 _ _ 0 _ 8192], simp_all)
  apply (rule pool_step_then, rule release [of 0 _ _ 8192], simp_all)
  apply (rule pool_step_then, rule protect_ok [of 0 _ _ 8192], simp_all)
  apply (rule pool_step_then, rule fetch_ok [of 1 _ _ 8192 _ 1 _ 8212],
    simp_all add: align_down_def get_count_def set_count_def count_bits_def kTrampolineNumPerPage_def)
  apply (rule pool_step_then, rule protect_ok [of 1 _ _ 8212], simp_all)
  apply (simp add: pool_demo_def fun_upd_twist numeral_2_eq_2)
  done

theorem trampoline_slots_disjoint_witness:
  "pool_params kArm64 4096 2 0 \<and> pool_reachable kArm64 4096 2 0 pool_demo \<and>
   disj_ranges 8212 20 8192 20 \<and> set (ps_given pool_demo) = {8212, 8192}"
  using trampoline_slots_disjoint [OF page_params pool_demo_reachable] page_params pool_demo_reachable
  by (simp add: pool_demo_def disj_ranges_def)

section \<open>A call without contention\<close>

text \<open>A thread that maps a page: it gets the first slot, or fails.\<close>

lemma mapping_run:
  assumes i: "i < n" "ps_thread s i = Mapping k" and since: "ps_since s \<le> F" "0 < F"
    and map: "\<And>p. map_trampoline_page sc = Some p \<Longrightarrow> sc_page_size sc dvd p \<and> p \<noteq> 0 \<and> p \<notin> set (ps_pages s)"
  shows "\<exists>s'. (pool_step a (sc_page_size sc) n F)\<^sup>*\<^sup>* s s' \<and> \<not> ps_lock s' \<and>
    (case map_trampoline_page sc of
       None \<Rightarrow> ps_pool s' = ps_pool s \<and> ps_thread s' i = Failed
     | Some p \<Rightarrow> ps_pool s' = set_count (sc_page_size sc) 1 p \<and> ps_thread s' i = Protect p)"
proof (cases "map_trampoline_page sc")
  case None
  have "\<exists>s'. pool_step a (sc_page_size sc) n F s s' \<and> \<not> ps_lock s' \<and> ps_pool s' = ps_pool s \<and> ps_thread s' i = Failed"
    by (intro exI conjI, rule map_fail [OF i]) (use since in simp_all)
  then show ?thesis using None by (auto intro: r_into_rtranclp)
next
  case (Some p)
  let ?t = "s\<lparr> ps_pool := set_count (sc_page_size sc) 1 p, ps_pages := p # ps_pages s,
    ps_given := p # ps_given s, ps_thread := (ps_thread s)(i := Releasing p),
    ps_round := ps_round s + 1, ps_since := 0 \<rparr>"
  have t: "pool_step a (sc_page_size sc) n F s ?t" by (rule map_ok [OF i]) (use map [OF Some] in simp_all)
  have "\<exists>s'. pool_step a (sc_page_size sc) n F ?t s' \<and> \<not> ps_lock s' \<and> ps_pool s' = set_count (sc_page_size sc) 1 p \<and>
      ps_thread s' i = Protect p"
    by (intro exI conjI, rule release [OF i(1)]) simp_all
  then obtain s' where s': "pool_step a (sc_page_size sc) n F ?t s'" "\<not> ps_lock s'"
    "ps_pool s' = set_count (sc_page_size sc) 1 p" "ps_thread s' i = Protect p" by blast
  have "(pool_step a (sc_page_size sc) n F)\<^sup>*\<^sup>* s s'"
    by (rule pool_step_then [OF t r_into_rtranclp [of _ ?t]]) (rule s')
  then show ?thesis using Some s' by auto
qed

text \<open>With the lock free, the sequential reading of the loop (\<open>next_slot\<close>) is a run of the
  interleaved one: the thread settles on the same slot and leaves the same pool.\<close>

lemma next_slot_refines:
  assumes i: "i < n" "ps_thread s i = Fetch" "\<not> ps_lock s" and since: "ps_since s \<le> F" "0 < F"
    and map: "\<And>p. map_trampoline_page sc = Some p \<Longrightarrow>
      sc_page_size sc dvd p \<and> p \<noteq> 0 \<and> p \<notin> set (ps_pages s)"
    and nxt: "next_slot a sc (ps_pool s) = (r, pool')"
  shows "\<exists>s'. (pool_step a (sc_page_size sc) n F)\<^sup>*\<^sup>* s s' \<and> ps_pool s' = pool' \<and> \<not> ps_lock s' \<and>
    ps_thread s' i = (case r of Some x \<Rightarrow> Protect x | None \<Rightarrow> Failed)"
proof (cases "align_down (ps_pool s) (sc_page_size sc) = 0 \<or>
    get_count (sc_page_size sc) (ps_pool s) \<ge> kTrampolineNumPerPage a (sc_page_size sc)")
  case False
  then have r: "r = Some (align_down (ps_pool s) (sc_page_size sc)
        + get_count (sc_page_size sc) (ps_pool s) * kTrampolineSize a)" "pool' = ps_pool s + 1"
    using nxt by (auto simp: next_slot_def Let_def)
  have "\<exists>s'. pool_step a (sc_page_size sc) n F s s' \<and> ps_pool s' = pool' \<and> \<not> ps_lock s' \<and>
      ps_thread s' i = (case r of Some x \<Rightarrow> Protect x | None \<Rightarrow> Failed)"
    by (intro exI conjI, rule fetch_ok [OF i(1,2) refl refl _ _ refl]) (use False i r in auto)
  then show ?thesis by blast
next
  case True
  let ?s1 = "s\<lparr> ps_pool := ps_pool s + 1, ps_thread := (ps_thread s)(i := TryLock (ps_round s)) \<rparr>"
  let ?s2 = "?s1\<lparr> ps_lock := True, ps_thread := (ps_thread ?s1)(i := Mapping (ps_round s)) \<rparr>"
  have s1: "pool_step a (sc_page_size sc) n F s ?s1" by (rule fetch_full [OF i(1,2) refl refl True])
  have s2: "pool_step a (sc_page_size sc) n F ?s1 ?s2" by (rule lock_taken) (use i in simp_all)
  have m: "ps_thread ?s2 i = Mapping (ps_round s)" by simp
  have f: "ps_pages ?s2 = ps_pages s" "ps_since ?s2 = ps_since s" "ps_pool ?s2 = ps_pool s + 1" by simp_all
  obtain s' where s': "(pool_step a (sc_page_size sc) n F)\<^sup>*\<^sup>* ?s2 s'" "\<not> ps_lock s'"
    "case map_trampoline_page sc of None \<Rightarrow> ps_pool s' = ps_pool s + 1 \<and> ps_thread s' i = Failed
     | Some p \<Rightarrow> ps_pool s' = set_count (sc_page_size sc) 1 p \<and> ps_thread s' i = Protect p"
    using mapping_run [OF i(1) m since(1) [folded f(2)] since(2), where sc = sc and a = a, unfolded f] map by blast
  have "(pool_step a (sc_page_size sc) n F)\<^sup>*\<^sup>* s s'" by (rule pool_step_then [OF s1 pool_step_then [OF s2 s'(1)]])
  moreover have "(r, pool') = (case map_trampoline_page sc of None \<Rightarrow> (None, ps_pool s + 1)
      | Some p \<Rightarrow> (Some p, set_count (sc_page_size sc) 1 p))"
    using nxt True by (auto simp: next_slot_def Let_def split: option.splits)
  ultimately show ?thesis
    using s'(2,3) by (intro exI [of _ s']) (cases "map_trampoline_page sc"; simp)
qed

section \<open>When mappings keep failing\<close>

text \<open>Calls of \<open>GenerateTrampolineFor\<close> one after the other, each with the kernel's answers and the hook.\<close>

fun generate_calls ::
  "arch \<Rightarrow> byte list \<Rightarrow> 8 word \<Rightarrow> (sys_calls \<times> addr) list \<Rightarrow> nat \<times> memory
     \<Rightarrow> (addr \<times> addr) option list \<times> nat \<times> memory" where
  "generate_calls a tramp entry_imm [] s = ([], s)"
| "generate_calls a tramp entry_imm ((sc, hook) # calls) s =
     (let (r, s) = GenerateTrampolineFor a sc tramp entry_imm hook s;
          (rs, s) = generate_calls a tramp entry_imm calls s
      in (r # rs, s))"

lemma generate_calls_append:
  "generate_calls a tramp e (xs @ ys) s =
     (let (rs, s) = generate_calls a tramp e xs s; (qs, s) = generate_calls a tramp e ys s in (rs @ qs, s))"
  by (induction xs arbitrary: s) (auto simp: Let_def split: prod.split)

text \<open>The page is 0 as long as only mappings failed: every call tries to map one.\<close>

lemma calls_without_memory:
  assumes "\<forall>(sc, h) \<in> set calls. sc_page_size sc = pg \<and> map_trampoline_page sc = None" "u + length calls \<le> pg"
  shows "generate_calls a tramp e calls (u, m) = (replicate (length calls) None, u + length calls, m)"
  using assms
proof (induction calls arbitrary: u)
  case (Cons c calls)
  obtain sc h where c: "c = (sc, h)" by (metis prod.exhaust)
  have "align_down u pg = 0" using Cons.prems(2) by (simp add: align_down_def)
  then have "GenerateTrampolineFor a sc tramp e h (u, m) = (None, u + 1, m)"
    using Cons.prems(1) by (simp add: c GenerateTrampolineFor_def next_slot_def Let_def)
  then show ?case using Cons.IH [of "u + 1"] Cons.prems by (simp add: c)
qed simp

text \<open>The page is \<open>pg\<close>, which is not mapped: no call tries to map one, and \<open>mprotect\<close> refuses.\<close>

lemma calls_on_no_page:
  assumes pg: "pg = 4096 \<or> pg = 16384" and arch: "real_arch a"
    and "\<forall>(sc, h) \<in> set calls. sc_page_size sc = pg \<and> \<not> sc_mprotect_ok sc"
    and "c + length calls \<le> kTrampolineNumPerPage a pg"
  shows "generate_calls a tramp e calls (pg + c, m) = (replicate (length calls) None, pg + c + length calls, m)"
  using assms(3,4)
proof (induction calls arbitrary: c)
  case (Cons d calls)
  obtain sc h where d: "d = (sc, h)" by (metis prod.exhaust)
  have c: "c < kTrampolineNumPerPage a pg" using Cons.prems(2) by simp
  note fits = num_fits [OF arch c]
  have z: "1 \<le> kTrampolineSize a" using kTrampolineSize_pos [OF arch] by simp
  then have "c * 1 \<le> c * kTrampolineSize a" by (rule mult_le_mono2)
  then have lt: "c * kTrampolineSize a < pg" "c < pg" using fits z by linarith+
  have "align_down (pg + c) pg = pg" "align_down (pg + c * kTrampolineSize a) pg = pg"
    using lt by (auto simp: align_down_add)
  moreover have "get_count pg (pg + c) = c" by (rule count_of_page [OF pg dvd_refl lt(2)])
  moreover have "pg \<noteq> 0" using pg by auto
  ultimately have "GenerateTrampolineFor a sc tramp e h (pg + c, m) = (None, pg + c + 1, m)"
    using Cons.prems(1) c by (simp add: d GenerateTrampolineFor_def next_slot_def Let_def)
  then show ?case using Cons.IH [of "c + 1"] Cons.prems by (simp add: d add.assoc)
qed simp

text \<open>C38. The count of a failed call is not taken back. After a page's size of calls that could not map a page
  the count has carried into the address, which is now that of a page nobody has mapped. So for as many
  calls as a page has slots the library does not try to map a page even if there is memory again: it takes a
  slot of that page, \<open>mprotect\<close> refuses, and the call fails. Only then the count sends a call to the mapping
  again, and it succeeds.\<close>

theorem failed_mappings_block_pool:
  assumes pg: "pg = 4096 \<or> pg = 16384" and arch: "real_arch a"
    and none: "\<forall>(sc, h) \<in> set early. sc_page_size sc = pg \<and> map_trampoline_page sc = None" "length early = pg"
    and late: "\<forall>(sc, h) \<in> set late. sc_page_size sc = pg \<and> \<not> sc_mprotect_ok sc"
      "length late = kTrampolineNumPerPage a pg"
    and again: "sc_page_size sc = pg" "map_trampoline_page sc = Some p" "sc_mprotect_ok sc"
      "WriteTrampoline a tramp e p h m = (slot, m')"
  shows "generate_calls a tramp e (early @ late @ [(sc, h)]) (0, m) =
    (replicate (pg + kTrampolineNumPerPage a pg) None @ [Some (p, slot)], set_count pg 1 p, m')"
proof -
  let ?n = "kTrampolineNumPerPage a pg"
  have 1: "generate_calls a tramp e early (0, m) = (replicate pg None, pg, m)"
    using calls_without_memory [OF none(1), of 0] none(2) by simp
  have 2: "generate_calls a tramp e late (pg, m) = (replicate ?n None, pg + ?n, m)"
    using calls_on_no_page [OF pg arch late(1), of 0] late(2) by simp
  have "kTrampolineSize a \<ge> 2" using arch by (auto dest: real_arch_cases)
  then have "?n < pg" using pg by (auto simp: kTrampolineNumPerPage_def)
  then have "get_count pg (pg + ?n) = ?n" by (intro count_of_page [OF pg]) simp
  then have 3: "GenerateTrampolineFor a sc tramp e h (pg + ?n, m) = (Some (p, slot), set_count pg 1 p, m')"
    using again by (simp add: GenerateTrampolineFor_def next_slot_def Let_def)
  show ?thesis by (simp add: generate_calls_append 1 2 3 Let_def replicate_add)
qed

text \<open>On arm64, a kernel without memory for 4096 calls.\<close>

definition demo_sys :: "bool \<Rightarrow> sys_calls" where
  "demo_sys memory = \<lparr> sc_page_size = 4096, sc_open = 3, sc_lseek = 10000,
     sc_mmap_file = (\<lambda>off. if memory \<and> off = 8192 then Some 65536 else None), sc_mmap_anon = None,
     sc_mprotect_ok = memory \<rparr>"

theorem failed_mappings_block_pool_witness:
  "\<exists>slot m'. generate_calls kArm64 (trampoline_template kArm64) 24
      (replicate 4096 (demo_sys False, 64) @ replicate 204 ((demo_sys True)\<lparr> sc_mprotect_ok := False \<rparr>, 64) @
       [(demo_sys True, 64)]) (0, \<lambda>_. 0) = (replicate 4300 None @ [Some (65536, slot)], 65537, m')"
proof -
  let ?late = "(demo_sys True)\<lparr> sc_mprotect_ok := False \<rparr>"
  have map: "map_trampoline_page (demo_sys b) = (if b then Some 65536 else None)" for b
    by (simp add: map_trampoline_page_def demo_sys_def align_down_def)
  have n: "kTrampolineNumPerPage kArm64 4096 = 204" by (simp add: kTrampolineNumPerPage_def)
  have c: "set_count 4096 1 65536 = 65537" by (simp add: set_count_def count_bits_def)
  obtain slot m' where w: "WriteTrampoline kArm64 (trampoline_template kArm64) 24 65536 64 (\<lambda>_. 0) = (slot, m')"
    by (metis prod.exhaust)
  have a: "real_arch kArm64" by (simp add: real_arch_def)
  have ps: "sc_page_size (demo_sys b) = 4096" "sc_mprotect_ok (demo_sys b) = b" for b by (simp_all add: demo_sys_def)
  show ?thesis
    using failed_mappings_block_pool [of 4096 kArm64 "replicate 4096 (demo_sys False, 64)" "replicate 204 (?late, 64)"
        "demo_sys True" 65536 "trampoline_template kArm64" 24 64 "\<lambda>_. 0" slot m'] a map n c w ps
    by simp
qed

end
