(* ===== verification/Object_Collections.thy ===== *)
theory Object_Collections
  imports Prelude
begin

text \<open>
  \<open>JBasicObjectList\<close> and \<open>JBasicObjectMap\<close> of include/utils/jni_helper.hpp: a list and a map of Java
  objects kept in Java arrays, so that one global reference keeps all of them alive.

  A Java array is a list of \<open>'o option\<close>, \<open>None\<close> being \<open>null\<close>; objects are values and
  \<open>IsSameObject\<close> is equality on them. \<open>array_\<close> is an option, \<open>None\<close> before the first allocation.
  Local and global references are not counted. The end of \<open>add\<close>, \<open>std::unreachable()\<close>, is the
  result \<open>None\<close>: reaching it is undefined behaviour.
\<close>

section \<open>Arrays\<close>

definition new_object_array :: "nat \<Rightarrow> 'o option list" where
  "new_object_array n = replicate n None"

text \<open>\<open>System.arraycopy\<close> with both positions 0.\<close>

definition arraycopy :: "'o option list \<Rightarrow> 'o option list \<Rightarrow> nat \<Rightarrow> 'o option list" where
  "arraycopy src dest len = take len src @ drop len dest"

definition nulls :: "'o option list \<Rightarrow> nat" where
  "nulls xs = length (filter (\<lambda>x. x = None) xs)"

text \<open>The probe of \<open>add\<close>: the first null slot from \<open>start\<close>, wrapping around.\<close>

definition probe :: "'o option list \<Rightarrow> nat \<Rightarrow> nat \<Rightarrow> nat option" where
  "probe xs start n = find (\<lambda>idx. xs ! idx = None) (map (\<lambda>i. (start + i) mod n) [0..<n])"

definition growth :: "nat \<Rightarrow> nat" where
  "growth len = (if len = 0 then 16 else min len 128)"

section \<open>The list\<close>

record 'o jlist =
  jl_array :: "'o option list option"
  jl_cursor :: nat
  jl_available :: nat
  jl_length :: nat

definition jl_empty :: "'o jlist" where
  "jl_empty = \<lparr> jl_array = None, jl_cursor = 0, jl_available = 0, jl_length = 0 \<rparr>"

definition jl_elems :: "'o jlist \<Rightarrow> 'o option list" where
  "jl_elems l = (case jl_array l of None \<Rightarrow> [] | Some xs \<Rightarrow> xs)"

definition jl_size :: "'o jlist \<Rightarrow> nat" where
  "jl_size l = jl_length l - jl_available l"

definition jl_grow_to :: "nat \<Rightarrow> 'o jlist \<Rightarrow> 'o jlist" where
  "jl_grow_to new_length l =
     (case jl_array l of
        None \<Rightarrow> l\<lparr> jl_array := Some (new_object_array new_length), jl_length := new_length,
                  jl_available := new_length, jl_cursor := 0 \<rparr>
      | Some xs \<Rightarrow> l\<lparr> jl_array := Some (arraycopy xs (new_object_array new_length) (jl_length l)),
                     jl_available := jl_available l + (new_length - jl_length l),
                     jl_length := new_length \<rparr>)"

definition jl_reserve :: "nat \<Rightarrow> 'o jlist \<Rightarrow> 'o jlist" where
  "jl_reserve new_capacity l = (if new_capacity \<le> jl_length l then l else jl_grow_to new_capacity l)"

definition jl_add :: "'o option \<Rightarrow> 'o jlist \<Rightarrow> (int \<times> 'o jlist) option" where
  "jl_add obj l =
     (if obj = None then Some (-1, l)
      else (let l = (if jl_available l = 0 then jl_grow_to (jl_length l + growth (jl_length l)) l else l)
            in case probe (jl_elems l) (jl_cursor l) (jl_length l) of
                 Some idx \<Rightarrow> Some (int idx,
                   l\<lparr> jl_array := Some ((jl_elems l)[idx := obj]), jl_available := jl_available l - 1,
                      jl_cursor := (idx + 1) mod jl_length l \<rparr>)
               | None \<Rightarrow> None))"

definition jl_get :: "'o jlist \<Rightarrow> int \<Rightarrow> 'o option" where
  "jl_get l index = (if index < 0 \<or> index \<ge> int (jl_length l) then None else jl_elems l ! nat index)"

definition jl_update :: "int \<Rightarrow> 'o option \<Rightarrow> 'o jlist \<Rightarrow> 'o jlist" where
  "jl_update index obj l =
     (if index < 0 \<or> index \<ge> int (jl_length l) then l
      else l\<lparr> jl_array := Some ((jl_elems l)[nat index := obj]) \<rparr>)"

definition jl_remove :: "int \<Rightarrow> 'o jlist \<Rightarrow> 'o jlist" where
  "jl_remove index l =
     (if index < 0 \<or> index \<ge> int (jl_length l) then l
      else l\<lparr> jl_array := Some ((jl_elems l)[nat index := None]),
              jl_available := jl_available l + 1, jl_cursor := nat index \<rparr>)"

text \<open>The scan of \<open>finalize\<close> from the end for the last slot in use, plus one.\<close>

fun last_used :: "'o option list \<Rightarrow> nat \<Rightarrow> nat" where
  "last_used xs 0 = 0"
| "last_used xs (Suc i) = (if xs ! i = None then last_used xs i else Suc i)"

definition jl_finalize :: "'o jlist \<Rightarrow> 'o jlist" where
  "jl_finalize l =
     (if jl_array l = None \<or> jl_length l = 0 \<or> jl_available l = 0 then l
      else (let new_length = last_used (jl_elems l) (jl_length l) in
        if new_length = jl_length l then l
        else l\<lparr> jl_array := Some (arraycopy (jl_elems l) (new_object_array new_length) new_length),
                jl_length := new_length, jl_available := 0,
                jl_cursor := (if new_length = 0 then 0 else new_length - 1) \<rparr>))"

definition jl_clear :: "'o jlist \<Rightarrow> 'o jlist" where
  "jl_clear l =
     (case jl_array l of None \<Rightarrow> l
      | Some xs \<Rightarrow> l\<lparr> jl_array := Some (new_object_array (jl_length l)), jl_cursor := 0,
                     jl_available := jl_length l \<rparr>)"

definition jl_recycle :: "'o jlist \<Rightarrow> 'o jlist" where
  "jl_recycle l = l\<lparr> jl_array := None, jl_length := 0, jl_available := 0, jl_cursor := 0 \<rparr>"

definition jl_move_from :: "'o jlist \<Rightarrow> 'o jlist \<times> 'o jlist" where
  "jl_move_from other =
     (\<lparr> jl_array = jl_array other, jl_cursor = jl_cursor other, jl_available = jl_available other,
        jl_length = jl_length other \<rparr>,
      other\<lparr> jl_array := None, jl_cursor := 0, jl_available := 0, jl_length := 0 \<rparr>)"

subsection \<open>Invariant of the list\<close>

text \<open>The recorded length is the array's, and at least \<open>available_\<close> slots are null, so that a probe
  after a successful capacity test finds one. \<open>jl_exact\<close> is the stronger reading under which
  \<open>size()\<close> is the number of objects.\<close>

definition jl_wf :: "'o jlist \<Rightarrow> bool" where
  "jl_wf l \<longleftrightarrow> length (jl_elems l) = jl_length l \<and> jl_available l \<le> nulls (jl_elems l)
     \<and> (jl_array l = None \<longrightarrow> jl_length l = 0)"

definition jl_exact :: "'o jlist \<Rightarrow> bool" where
  "jl_exact l \<longleftrightarrow> jl_wf l \<and> jl_available l = nulls (jl_elems l)"

lemma nulls_le: "nulls xs \<le> length xs"
  by (simp add: nulls_def)

lemma nulls_replicate [simp]: "nulls (replicate n None) = n"
  by (simp add: nulls_def)

lemma nulls_append [simp]: "nulls (xs @ ys) = nulls xs + nulls ys"
  by (simp add: nulls_def)

lemma nulls_update_some:
  "i < length xs \<Longrightarrow> xs ! i = None \<Longrightarrow> nulls (xs[i := Some y]) + 1 = nulls xs"
  by (induction xs arbitrary: i) (auto simp: nulls_def split: nat.split)

lemma nulls_update_none:
  "i < length xs \<Longrightarrow> xs ! i \<noteq> None \<Longrightarrow> nulls (xs[i := None]) = nulls xs + 1"
  by (induction xs arbitrary: i) (auto simp: nulls_def split: nat.split)

lemma nulls_update_same:
  "i < length xs \<Longrightarrow> (xs ! i = None) = (y = None) \<Longrightarrow> nulls (xs[i := y]) = nulls xs"
  by (induction xs arbitrary: i) (auto simp: nulls_def split: nat.split)

lemma nulls_pos: "0 < nulls xs \<longleftrightarrow> (\<exists>i < length xs. xs ! i = None)"
  by (auto simp: nulls_def filter_empty_conv in_set_conv_nth)

lemma probe_set: "set (map (\<lambda>i. (start + i) mod n) [0..<n]) = {0..<n}"
proof (cases "n = 0")
  case False
  have "\<exists>i < n. j = (start + i) mod n" if j: "j < n" for j
  proof -
    have "(start + (j + (n - start mod n)) mod n) mod n = (start + (j + (n - start mod n))) mod n"
      by (rule mod_add_right_eq)
    also have "start + (j + (n - start mod n)) = j + n + n * (start div n)"
      using False mod_less_divisor [of n start] mult_div_mod_eq [of n start] by linarith
    also have "(j + n + n * (start div n)) mod n = j" using j by simp
    finally show ?thesis using False by (metis mod_less_divisor not_gr_zero)
  qed
  then have "{0..<n} \<subseteq> (\<lambda>i. (start + i) mod n) ` {0..<n}" by force
  then show ?thesis using False by auto
qed simp

lemma probe_Some: "probe xs start n = Some idx \<Longrightarrow> idx < n \<and> xs ! idx = None"
proof -
  assume p: "probe xs start n = Some idx"
  then have "idx \<in> set (map (\<lambda>i. (start + i) mod n) [0..<n])" "xs ! idx = None"
    unfolding probe_def by (auto simp: find_Some_iff)
  then show ?thesis by (simp only: probe_set) simp
qed

lemma probe_None: "probe xs start n = None \<longleftrightarrow> (\<forall>idx < n. xs ! idx \<noteq> None)"
  unfolding probe_def find_None_iff probe_set by auto

lemma probe_finds:
  "length xs = n \<Longrightarrow> 0 < nulls xs \<Longrightarrow> \<exists>idx. probe xs start n = Some idx"
  using probe_None [of xs start n] nulls_pos [of xs] by fastforce

lemma jl_wf_empty: "jl_exact jl_empty"
  by (simp add: jl_exact_def jl_wf_def jl_empty_def jl_elems_def nulls_def)

lemma jl_grow_to_elems:
  assumes "jl_wf l" "jl_length l \<le> n"
  shows "jl_elems (jl_grow_to n l) = jl_elems l @ replicate (n - jl_length l) None"
  using assms
  by (auto simp: jl_wf_def jl_grow_to_def jl_elems_def arraycopy_def new_object_array_def
        split: option.split)

lemma jl_wf_grow_to: "jl_wf l \<Longrightarrow> jl_length l \<le> n \<Longrightarrow> jl_wf (jl_grow_to n l)"
  using jl_grow_to_elems [of l n]
  by (cases "jl_array l") (auto simp: jl_wf_def jl_grow_to_def jl_elems_def nulls_def split: option.splits)

lemma jl_grow_to_fields:
  "jl_length (jl_grow_to n l) = n" "jl_wf l \<Longrightarrow> jl_length l \<le> n \<Longrightarrow>
   jl_available (jl_grow_to n l) = jl_available l + (n - jl_length l)"
  by (auto simp: jl_grow_to_def jl_wf_def jl_elems_def nulls_def split: option.splits)

lemma jl_exact_grow_to: "jl_exact l \<Longrightarrow> jl_length l \<le> n \<Longrightarrow> jl_exact (jl_grow_to n l)"
  using jl_grow_to_elems [of l n] jl_grow_to_fields [where l = l and n = n] jl_wf_grow_to [of l n]
  by (auto simp: jl_exact_def)

lemma growth_pos: "0 < growth n"
  by (simp add: growth_def)

text \<open>The state in which \<open>add\<close> probes: there is a free slot.\<close>

definition jl_room :: "'o jlist \<Rightarrow> 'o jlist" where
  "jl_room l = (if jl_available l = 0 then jl_grow_to (jl_length l + growth (jl_length l)) l else l)"

lemma jl_room:
  assumes "jl_wf l"
  shows "jl_wf (jl_room l)" "0 < jl_available (jl_room l)"
    "\<exists>k. jl_elems (jl_room l) = jl_elems l @ replicate k None"
    "jl_exact l \<Longrightarrow> jl_exact (jl_room l)"
  using jl_wf_grow_to [OF assms, of "jl_length l + growth (jl_length l)"]
    jl_grow_to_fields(2) [OF assms, of "jl_length l + growth (jl_length l)"]
    jl_grow_to_elems [OF assms, of "jl_length l + growth (jl_length l)"]
    jl_exact_grow_to [of l "jl_length l + growth (jl_length l)"]
    growth_pos [of "jl_length l"] assms
  by (auto simp: jl_room_def intro: exI [of _ 0])

lemma jl_add_room:
  "jl_add (Some x) l =
     (case probe (jl_elems (jl_room l)) (jl_cursor (jl_room l)) (jl_length (jl_room l)) of
        Some idx \<Rightarrow> Some (int idx, (jl_room l)\<lparr> jl_array := Some ((jl_elems (jl_room l))[idx := Some x]),
          jl_available := jl_available (jl_room l) - 1, jl_cursor := (idx + 1) mod jl_length (jl_room l) \<rparr>)
      | None \<Rightarrow> None)"
  unfolding jl_add_def Let_def jl_room_def [symmetric] by simp

lemma jl_add_spec:
  assumes wf: "jl_wf l"
  shows "\<exists>idx l'. jl_add (Some x) l = Some (int idx, l') \<and> idx < jl_length l' \<and>
    jl_get l (int idx) = None \<and> jl_get l' (int idx) = Some x \<and>
    (\<forall>j. j \<noteq> int idx \<longrightarrow> jl_get l' j = jl_get l j) \<and> jl_wf l' \<and> (jl_exact l \<longrightarrow> jl_exact l')"
proof -
  let ?r = "jl_room l"
  note room = jl_room [OF wf]
  have len: "length (jl_elems ?r) = jl_length ?r" using room(1) by (simp add: jl_wf_def)
  have "0 < nulls (jl_elems ?r)" using room(1,2) by (auto simp: jl_wf_def)
  then obtain idx where p: "probe (jl_elems ?r) (jl_cursor ?r) (jl_length ?r) = Some idx"
    using probe_finds [OF len] by blast
  then have idx: "idx < jl_length ?r" "jl_elems ?r ! idx = None" by (auto dest: probe_Some)
  let ?l = "?r\<lparr> jl_array := Some ((jl_elems ?r)[idx := Some x]),
    jl_available := jl_available ?r - 1, jl_cursor := (idx + 1) mod jl_length ?r \<rparr>"
  have n: "nulls ((jl_elems ?r)[idx := Some x]) + 1 = nulls (jl_elems ?r)"
    using idx len by (intro nulls_update_some) simp_all
  have old: "jl_get ?r j = jl_get l j" for j
  proof -
    obtain k where k: "jl_elems ?r = jl_elems l @ replicate k None" using room(3) by blast
    have "jl_length ?r = jl_length l + k" using len k wf by (simp add: jl_wf_def)
    then show ?thesis using k wf by (auto simp: jl_get_def nth_append jl_wf_def)
  qed
  have "jl_wf ?l" using room(1) len n by (auto simp: jl_wf_def jl_elems_def)
  moreover have "jl_exact l \<longrightarrow> jl_exact ?l"
    using room(4) \<open>jl_wf ?l\<close> n by (auto simp: jl_exact_def jl_elems_def)
  moreover have "jl_get l (int idx) = None" using old [of "int idx"] idx by (simp add: jl_get_def)
  moreover have "jl_get ?l j = jl_get l j" if "j \<noteq> int idx" for j
    using old [of j] that len by (auto simp: jl_get_def jl_elems_def)
  moreover have "jl_get ?l (int idx) = Some x" using idx len by (simp add: jl_get_def jl_elems_def)
  moreover have "jl_add (Some x) l = Some (int idx, ?l)" by (simp add: jl_add_room p)
  ultimately show ?thesis using idx(1) by (intro exI [of _ idx] exI [of _ ?l]) simp
qed

text \<open>C25. \<open>add\<close> of an object to a well-formed list never reaches the unreachable end: it returns the
  index of a slot that was free, stores the object there, leaves all other slots as they were (new
  ones are null) and keeps the list well-formed, and exact when it was.\<close>

theorem jl_add_correct:
  assumes wf: "jl_wf l"
  shows "\<exists>idx l'. jl_add (Some x) l = Some (int idx, l') \<and> idx < jl_length l' \<and>
    jl_get l (int idx) = None \<and> jl_get l' (int idx) = Some x \<and>
    (\<forall>j. j \<noteq> int idx \<longrightarrow> jl_get l' j = jl_get l j) \<and> jl_wf l' \<and> (jl_exact l \<longrightarrow> jl_exact l')"
  by (rule jl_add_spec [OF wf])

text \<open>Removing the object of a slot in use keeps the list exact; so do the other operations.\<close>

lemma jl_remove_exact:
  "jl_exact l \<Longrightarrow> jl_get l i \<noteq> None \<Longrightarrow> jl_exact (jl_remove i l) \<and> jl_get (jl_remove i l) i = None"
  using nulls_update_none [of "nat i" "jl_elems l"]
  by (auto simp: jl_exact_def jl_wf_def jl_remove_def jl_get_def jl_elems_def split: if_splits)

lemma jl_clear_exact: "jl_exact l \<Longrightarrow> jl_exact (jl_clear l)"
  by (auto simp: jl_exact_def jl_wf_def jl_clear_def jl_elems_def new_object_array_def split: option.split)

lemma jl_recycle_exact: "jl_exact (jl_recycle l)"
  by (simp add: jl_exact_def jl_wf_def jl_recycle_def jl_elems_def nulls_def)

lemma jl_reserve_exact: "jl_exact l \<Longrightarrow> jl_exact (jl_reserve n l)"
  by (simp add: jl_reserve_def jl_exact_grow_to)

lemma last_used_spec: "last_used xs n \<le> n \<and> (\<forall>i. last_used xs n \<le> i \<and> i < n \<longrightarrow> xs ! i = None) \<and>
    (0 < last_used xs n \<longrightarrow> xs ! (last_used xs n - 1) \<noteq> None)"
  by (induction xs n rule: last_used.induct) (auto simp: less_Suc_eq)

text \<open>\<open>finalize\<close> drops the null slots at the end only.\<close>

lemma jl_finalize_get:
  assumes "jl_wf l"
  shows "jl_get (jl_finalize l) j = jl_get l j" and "jl_wf (jl_finalize l)"
proof -
  have u: "last_used (jl_elems l) (jl_length l) \<le> length (jl_elems l)"
    using last_used_spec [of "jl_elems l" "jl_length l"] assms by (simp add: jl_wf_def)
  show "jl_wf (jl_finalize l)"
    using assms u by (auto simp: jl_finalize_def jl_wf_def Let_def jl_elems_def arraycopy_def new_object_array_def)
  show "jl_get (jl_finalize l) j = jl_get l j"
  proof (cases "jl_array l = None \<or> jl_length l = 0 \<or> jl_available l = 0
      \<or> last_used (jl_elems l) (jl_length l) = jl_length l")
    case True
    then show ?thesis by (auto simp: jl_finalize_def Let_def)
  next
    case False
    let ?n = "last_used (jl_elems l) (jl_length l)"
    have "jl_elems (jl_finalize l) = take ?n (jl_elems l)" "jl_length (jl_finalize l) = ?n"
      using False by (auto simp: jl_finalize_def Let_def jl_elems_def arraycopy_def new_object_array_def)
    moreover have "jl_elems l ! nat j = None" if "int ?n \<le> j" "j < int (jl_length l)"
      using last_used_spec [of "jl_elems l" "jl_length l"] that by (auto simp: le_nat_iff)
    ultimately show ?thesis using u assms by (auto simp: jl_get_def jl_wf_def not_le)
  qed
qed

text \<open>The witness: the first object of a list goes to slot 0 of sixteen.\<close>

theorem jl_add_correct_witness:
  "\<exists>l'. jl_add (Some (7::nat)) jl_empty = Some (0, l') \<and> jl_get l' 0 = Some 7 \<and> jl_exact l'"
proof -
  obtain idx l' where a: "jl_add (Some (7::nat)) jl_empty = Some (int idx, l')"
    and g: "jl_get l' (int idx) = Some 7" and e: "jl_exact jl_empty \<longrightarrow> jl_exact l'"
    using jl_add_correct [of "jl_empty :: nat jlist" 7] jl_wf_empty by (auto simp: jl_exact_def)
  have "fst (the (jl_add (Some (7::nat)) jl_empty)) = 0" by code_simp
  then have "idx = 0" using a by simp
  then show ?thesis using a g e jl_wf_empty by auto
qed

subsection \<open>What goes wrong outside the invariant\<close>

text \<open>Adding the objects of a list one by one.\<close>

fun jl_adds :: "'o list \<Rightarrow> 'o jlist \<Rightarrow> 'o jlist option" where
  "jl_adds [] l = Some l"
| "jl_adds (x # xs) l = (case jl_add (Some x) l of None \<Rightarrow> None | Some (_, l') \<Rightarrow> jl_adds xs l')"

text \<open>\<open>remove\<close> does not look whether the slot it clears is in use: removing the same index twice
  counts the slot twice, and a later \<open>add\<close> of one object per counted slot ends in
  \<open>std::unreachable()\<close>.\<close>

theorem jl_double_remove_unreachable:
  "\<exists>l. jl_adds [0::nat] jl_empty = Some l \<and> jl_adds [1..<18] (jl_remove 0 (jl_remove 0 l)) = None"
proof -
  have "case jl_adds [0::nat] jl_empty of None \<Rightarrow> False
      | Some l \<Rightarrow> jl_adds [1..<18] (jl_remove 0 (jl_remove 0 l)) = None"
    by code_simp
  then show ?thesis by (auto split: option.splits)
qed

text \<open>\<open>finalize\<close> forgets the free slots inside the list: it keeps every object, but \<open>size()\<close>
  counts the holes from then on.\<close>

theorem jl_finalize_size:
  "\<exists>h. jl_exact (h :: nat jlist) \<and> (\<forall>j. jl_get (jl_finalize h) j = jl_get h j) \<and>
     jl_size h = 1 \<and> jl_size (jl_finalize h) = 2"
proof -
  let ?h = "\<lparr> jl_array = Some [None, Some 5, None], jl_cursor = 0, jl_available = 2, jl_length = 3 \<rparr> :: nat jlist"
  have "jl_exact ?h" "jl_size ?h = 1"
    by (simp_all add: jl_exact_def jl_wf_def jl_elems_def nulls_def jl_size_def)
  moreover have "jl_size (jl_finalize ?h) = 2" by code_simp
  ultimately show ?thesis using jl_finalize_get(1) [of ?h] by (auto simp: jl_exact_def)
qed

section \<open>The map\<close>

text \<open>Keys and values are two arrays of one length. They are allocated, replaced and recycled
  together, so one option stands for both.\<close>

record 'o jmap =
  jm_arrays :: "('o option list \<times> 'o option list) option"
  jm_cursor :: nat
  jm_available :: nat
  jm_length :: nat

definition jm_empty :: "'o jmap" where
  "jm_empty = \<lparr> jm_arrays = None, jm_cursor = 0, jm_available = 0, jm_length = 0 \<rparr>"

definition jm_keys :: "'o jmap \<Rightarrow> 'o option list" where
  "jm_keys m = (case jm_arrays m of None \<Rightarrow> [] | Some (ks, vs) \<Rightarrow> ks)"

definition jm_values :: "'o jmap \<Rightarrow> 'o option list" where
  "jm_values m = (case jm_arrays m of None \<Rightarrow> [] | Some (ks, vs) \<Rightarrow> vs)"

definition jm_size :: "'o jmap \<Rightarrow> nat" where
  "jm_size m = jm_length m - jm_available m"

definition jm_allocate_arrays :: "nat \<Rightarrow> 'o jmap \<Rightarrow> 'o jmap" where
  "jm_allocate_arrays n m =
     m\<lparr> jm_arrays := Some (new_object_array n, new_object_array n), jm_length := n,
        jm_available := n, jm_cursor := 0 \<rparr>"

definition jm_grow_to :: "nat \<Rightarrow> 'o jmap \<Rightarrow> 'o jmap" where
  "jm_grow_to new_length m =
     (case jm_arrays m of
        None \<Rightarrow> jm_allocate_arrays new_length m
      | Some (ks, vs) \<Rightarrow>
          m\<lparr> jm_arrays := Some (arraycopy ks (new_object_array new_length) (jm_length m),
                              arraycopy vs (new_object_array new_length) (jm_length m)),
             jm_available := jm_available m + (new_length - jm_length m),
             jm_length := new_length \<rparr>)"

definition jm_reserve :: "nat \<Rightarrow> 'o jmap \<Rightarrow> 'o jmap" where
  "jm_reserve new_capacity m = (if new_capacity \<le> jm_length m then m else jm_grow_to new_capacity m)"

text \<open>The linear search all operations share: the first slot whose key is the one given.\<close>

definition jm_index :: "'o \<Rightarrow> 'o jmap \<Rightarrow> nat option" where
  "jm_index key m = find (\<lambda>i. jm_keys m ! i = Some key) [0..<jm_length m]"

definition jm_put :: "nat \<Rightarrow> 'o option \<Rightarrow> 'o option \<Rightarrow> 'o jmap \<Rightarrow> 'o jmap" where
  "jm_put i k v m = m\<lparr> jm_arrays := Some ((jm_keys m)[i := k], (jm_values m)[i := v]) \<rparr>"

definition jm_add :: "'o option \<Rightarrow> 'o option \<Rightarrow> 'o jmap \<Rightarrow> (bool \<times> 'o jmap) option" where
  "jm_add key val m =
     (case key of
        None \<Rightarrow> Some (False, m)
      | Some k \<Rightarrow>
          (case jm_index k m of
             Some i \<Rightarrow> Some (True, m\<lparr> jm_arrays := Some (jm_keys m, (jm_values m)[i := val]) \<rparr>)
           | None \<Rightarrow>
               (let m = (if jm_available m = 0 then jm_grow_to (jm_length m + growth (jm_length m)) m else m)
                in case probe (jm_keys m) (jm_cursor m) (jm_length m) of
                     Some idx \<Rightarrow> Some (True, (jm_put idx key val m)\<lparr> jm_available := jm_available m - 1,
                       jm_cursor := (idx + 1) mod jm_length m \<rparr>)
                   | None \<Rightarrow> None)))"

definition jm_get :: "'o jmap \<Rightarrow> 'o option \<Rightarrow> 'o option" where
  "jm_get m key =
     (case key of
        None \<Rightarrow> None
      | Some k \<Rightarrow> if jm_arrays m = None then None
          else (case jm_index k m of Some i \<Rightarrow> jm_values m ! i | None \<Rightarrow> None))"

definition jm_remove :: "'o option \<Rightarrow> 'o jmap \<Rightarrow> 'o jmap" where
  "jm_remove key m =
     (case key of
        None \<Rightarrow> m
      | Some k \<Rightarrow> if jm_arrays m = None then m
          else (case jm_index k m of
                  Some i \<Rightarrow> (jm_put i None None m)\<lparr> jm_available := jm_available m + 1, jm_cursor := i \<rparr>
                | None \<Rightarrow> m))"

definition jm_clear :: "'o jmap \<Rightarrow> 'o jmap" where
  "jm_clear m =
     (if jm_arrays m = None then m
      else m\<lparr> jm_arrays := Some (new_object_array (jm_length m), new_object_array (jm_length m)),
              jm_cursor := 0, jm_available := jm_length m \<rparr>)"

text \<open>\<open>finalize\<close> moves the pairs in use to the front of arrays of their number.\<close>

definition jm_finalize :: "'o jmap \<Rightarrow> 'o jmap" where
  "jm_finalize m =
     (if jm_arrays m = None \<or> jm_length m = 0 \<or> jm_available m = 0 then m
      else if jm_size m = 0 then jm_clear m
      else if jm_size m = jm_length m then m
      else (let used = filter (\<lambda>(k, v). k \<noteq> None) (zip (jm_keys m) (jm_values m)) in
        m\<lparr> jm_arrays := Some (arraycopy (map fst used) (new_object_array (jm_size m)) (length used),
                            arraycopy (map snd used) (new_object_array (jm_size m)) (length used)),
           jm_length := jm_size m, jm_available := 0, jm_cursor := 0 \<rparr>))"

definition jm_recycle :: "'o jmap \<Rightarrow> 'o jmap" where
  "jm_recycle m = m\<lparr> jm_arrays := None, jm_length := 0, jm_available := 0, jm_cursor := 0 \<rparr>"

definition jm_move_from :: "'o jmap \<Rightarrow> 'o jmap \<times> 'o jmap" where
  "jm_move_from other =
     (\<lparr> jm_arrays = jm_arrays other, jm_cursor = jm_cursor other, jm_available = jm_available other,
        jm_length = jm_length other \<rparr>,
      other\<lparr> jm_arrays := None, jm_cursor := 0, jm_available := 0, jm_length := 0 \<rparr>)"

subsection \<open>Invariant and abstraction\<close>

definition jm_wf :: "'o jmap \<Rightarrow> bool" where
  "jm_wf m \<longleftrightarrow> length (jm_keys m) = jm_length m \<and> length (jm_values m) = jm_length m \<and>
     jm_available m = nulls (jm_keys m) \<and>
     (\<forall>i < jm_length m. \<forall>j < jm_length m. jm_keys m ! i = jm_keys m ! j \<longrightarrow> jm_keys m ! i \<noteq> None \<longrightarrow> i = j)"

text \<open>The finite map the arrays stand for. A key may have the value \<open>null\<close>.\<close>

definition jm_abs :: "'o jmap \<Rightarrow> 'o \<rightharpoonup> 'o option" where
  "jm_abs m = (\<lambda>k. map_option (\<lambda>i. jm_values m ! i) (jm_index k m))"

lemma jm_index_Some: "jm_index k m = Some i \<Longrightarrow> i < jm_length m \<and> jm_keys m ! i = Some k"
  by (auto simp: jm_index_def find_Some_iff)

lemma jm_index_None: "jm_index k m = None \<longleftrightarrow> (\<forall>i < jm_length m. jm_keys m ! i \<noteq> Some k)"
  by (auto simp: jm_index_def find_None_iff)

lemma jm_index_eq:
  "jm_wf m \<Longrightarrow> i < jm_length m \<Longrightarrow> jm_keys m ! i = Some k \<Longrightarrow> jm_index k m = Some i"
  using jm_index_Some [of k m] jm_index_None [of k m]
  by (cases "jm_index k m") (auto simp: jm_wf_def)

lemma jm_abs_Some:
  "jm_wf m \<Longrightarrow> jm_abs m k = Some v \<longleftrightarrow> (\<exists>i < jm_length m. jm_keys m ! i = Some k \<and> jm_values m ! i = v)"
  by (auto simp: jm_abs_def dest: jm_index_Some jm_index_eq)

lemma jm_abs_eqI:
  assumes "jm_wf m" "\<And>k v. f k = Some v \<longleftrightarrow> (\<exists>i < jm_length m. jm_keys m ! i = Some k \<and> jm_values m ! i = v)"
  shows "jm_abs m = f"
proof
  fix k
  have "jm_abs m k = Some v \<longleftrightarrow> f k = Some v" for v
    by (simp only: jm_abs_Some [OF assms(1)] assms(2))
  then show "jm_abs m k = f k" by (metis option.exhaust)
qed

lemma jm_wf_empty: "jm_wf jm_empty"
  by (simp add: jm_wf_def jm_empty_def jm_keys_def jm_values_def nulls_def)

lemma jm_abs_empty [simp]: "jm_abs jm_empty = Map.empty"
  by (simp add: jm_abs_def jm_index_def jm_empty_def fun_eq_iff)

lemma jm_grow_to:
  assumes wf: "jm_wf m" and n: "jm_length m \<le> n"
  shows "jm_keys (jm_grow_to n m) = jm_keys m @ replicate (n - jm_length m) None"
    "jm_values (jm_grow_to n m) = jm_values m @ replicate (n - jm_length m) None"
    "jm_length (jm_grow_to n m) = n"
    "jm_available (jm_grow_to n m) = jm_available m + (n - jm_length m)"
  using assms
  by (auto simp: jm_wf_def jm_grow_to_def jm_allocate_arrays_def jm_keys_def jm_values_def arraycopy_def
        new_object_array_def nulls_def split: option.split)

lemma jm_wf_grow_to:
  assumes wf: "jm_wf m" and n: "jm_length m \<le> n"
  shows "jm_wf (jm_grow_to n m)" "jm_abs (jm_grow_to n m) = jm_abs m"
proof -
  note g = jm_grow_to [OF assms]
  have r: "replicate (n - jm_length m) None ! (i - jm_length m) = None"
    if "\<not> i < jm_length m" "i < n" for i
    using that by simp
  show w: "jm_wf (jm_grow_to n m)"
    using wf n unfolding jm_wf_def g by (auto simp: nth_append r)
  have len: "length (jm_keys m) = jm_length m" "length (jm_values m) = jm_length m"
    using wf by (simp_all add: jm_wf_def)
  have iff: "i < n \<and> (jm_keys m @ replicate (n - jm_length m) None) ! i = Some k \<longleftrightarrow>
      i < jm_length m \<and> jm_keys m ! i = Some k" for i k
    using len n r [of i] by (cases "i < jm_length m") (auto simp: nth_append)
  show "jm_abs (jm_grow_to n m) = jm_abs m"
  proof (rule jm_abs_eqI [OF w], unfold g)
    fix k v
    have "(\<exists>i<n. (jm_keys m @ replicate (n - jm_length m) None) ! i = Some k \<and>
        (jm_values m @ replicate (n - jm_length m) None) ! i = v) \<longleftrightarrow>
      (\<exists>i. (i < jm_length m \<and> jm_keys m ! i = Some k) \<and>
        (jm_values m @ replicate (n - jm_length m) None) ! i = v)"
      unfolding iff [symmetric] by blast
    then show "(jm_abs m k = Some v) = (\<exists>i<n. (jm_keys m @ replicate (n - jm_length m) None) ! i = Some k \<and>
        (jm_values m @ replicate (n - jm_length m) None) ! i = v)"
      using len by (auto simp: jm_abs_Some [OF wf] nth_append)
  qed
qed

definition jm_room :: "'o jmap \<Rightarrow> 'o jmap" where
  "jm_room m = (if jm_available m = 0 then jm_grow_to (jm_length m + growth (jm_length m)) m else m)"

lemma jm_room:
  assumes "jm_wf m"
  shows "jm_wf (jm_room m)" "jm_abs (jm_room m) = jm_abs m" "0 < jm_available (jm_room m)"
  using jm_wf_grow_to [OF assms] jm_grow_to [OF assms] growth_pos [of "jm_length m"] assms
  by (simp_all add: jm_room_def)

text \<open>Filling a free slot with a new key.\<close>

lemma jm_put_new:
  fixes v :: "'o option" and c :: nat
  assumes wf: "jm_wf m" and i: "i < jm_length m" "jm_keys m ! i = None" and k: "jm_abs m k = None"
  defines "m' \<equiv> (jm_put i (Some k) v m)\<lparr> jm_available := jm_available m - 1, jm_cursor := c \<rparr>"
  shows "jm_wf m'" "jm_abs m' = (jm_abs m)(k \<mapsto> v)"
proof -
  have f: "jm_keys m' = (jm_keys m)[i := Some k]" "jm_values m' = (jm_values m)[i := v]"
    "jm_length m' = jm_length m" "jm_available m' = jm_available m - 1"
    by (simp_all add: m'_def jm_put_def jm_keys_def jm_values_def)
  have len: "length (jm_keys m) = jm_length m" "length (jm_values m) = jm_length m"
    using wf by (simp_all add: jm_wf_def)
  have n: "nulls ((jm_keys m)[i := Some k]) + 1 = nulls (jm_keys m)"
    using i len by (intro nulls_update_some) simp_all
  have none: "jm_keys m ! j \<noteq> Some k" if "j < jm_length m" for j
    using k that jm_index_None [of k m] by (auto simp: jm_abs_def)
  note none' = none [THEN not_sym]
  show w: "jm_wf m'"
    using wf n i none none' unfolding jm_wf_def f by (auto simp: nth_list_update)
  show "jm_abs m' = (jm_abs m)(k \<mapsto> v)"
    by (rule jm_abs_eqI [OF w], unfold f)
      (use i len none in \<open>auto simp: jm_abs_Some [OF wf] nth_list_update, metis option.distinct(1)\<close>)
qed

text \<open>The operations are those of a finite map. An absent key and a key whose value is \<open>null\<close> both
  look up as \<open>null\<close>.\<close>

lemma jm_add_abs:
  assumes wf: "jm_wf m"
  shows "\<exists>m'. jm_add (Some k) v m = Some (True, m') \<and> jm_wf m' \<and> jm_abs m' = (jm_abs m)(k \<mapsto> v)"
proof (cases "jm_index k m")
  case (Some i)
  then have i: "i < jm_length m" "jm_keys m ! i = Some k" by (auto dest: jm_index_Some)
  let ?m = "m\<lparr> jm_arrays := Some (jm_keys m, (jm_values m)[i := v]) \<rparr>"
  have f: "jm_keys ?m = jm_keys m" "jm_values ?m = (jm_values m)[i := v]" by (simp_all add: jm_keys_def jm_values_def)
  have w: "jm_wf ?m" using wf by (simp add: jm_wf_def f)
  have "jm_abs ?m = (jm_abs m)(k \<mapsto> v)"
  proof (rule jm_abs_eqI [OF w], unfold f, simp, intro conjI impI)
    fix k' w
    show "(v = w) = (\<exists>j<jm_length m. jm_keys m ! j = Some k \<and> (jm_values m)[i := v] ! j = w)"
      using i wf by (auto simp: jm_wf_def nth_list_update intro!: exI [of _ i])
    assume "k' \<noteq> k"
    then show "(jm_abs m k' = Some w) = (\<exists>j<jm_length m. jm_keys m ! j = Some k' \<and> (jm_values m)[i := v] ! j = w)"
    proof -
      have "(jm_values m)[i := v] ! j = jm_values m ! j" if "jm_keys m ! j = Some k'" for j
        using that i \<open>k' \<noteq> k\<close> by (cases "j = i") auto
      then show ?thesis by (auto simp: jm_abs_Some [OF wf])
    qed
  qed
  then show ?thesis using w Some by (auto simp: jm_add_def)
next
  case None
  let ?r = "jm_room m"
  note room = jm_room [OF wf]
  have none: "jm_abs ?r k = None" using None room(2) by (simp add: jm_abs_def)
  have "0 < nulls (jm_keys ?r)" using room(1,3) by (simp add: jm_wf_def)
  then obtain idx where p: "probe (jm_keys ?r) (jm_cursor ?r) (jm_length ?r) = Some idx"
    using probe_finds [of "jm_keys ?r" "jm_length ?r" "jm_cursor ?r"] room(1) unfolding jm_wf_def by blast
  then have idx: "idx < jm_length ?r" "jm_keys ?r ! idx = None" by (auto dest: probe_Some)
  have "jm_add (Some k) v m = Some (True, (jm_put idx (Some k) v ?r)\<lparr> jm_available := jm_available ?r - 1,
      jm_cursor := (idx + 1) mod jm_length ?r \<rparr>)"
    using None p unfolding jm_add_def Let_def jm_room_def [symmetric] by simp
  then show ?thesis using jm_put_new [OF room(1) idx none] room(2) by auto
qed

lemma jm_unallocated: "jm_wf m \<Longrightarrow> jm_arrays m = None \<Longrightarrow> jm_length m = 0"
  by (simp add: jm_wf_def jm_keys_def)

lemma jm_get_abs:
  "jm_wf m \<Longrightarrow> jm_get m (Some k) = (case jm_abs m k of Some v \<Rightarrow> v | None \<Rightarrow> None)"
  using jm_unallocated [of m]
  by (cases "jm_arrays m = None") (auto simp: jm_get_def jm_abs_def jm_index_def split: option.split)

lemma jm_remove_abs:
  assumes wf: "jm_wf m"
  shows "jm_wf (jm_remove (Some k) m)" "jm_abs (jm_remove (Some k) m) = (jm_abs m)(k := None)"
proof -
  have "jm_wf (jm_remove (Some k) m) \<and> jm_abs (jm_remove (Some k) m) = (jm_abs m)(k := None)"
  proof (cases "jm_index k m")
    case None
    then have "jm_remove (Some k) m = m" "jm_abs m k = None" by (simp_all add: jm_remove_def jm_abs_def)
    then show ?thesis using wf by (simp add: fun_upd_idem)
  next
    case (Some i)
    let ?m = "(jm_put i None None m)\<lparr> jm_available := jm_available m + 1, jm_cursor := i \<rparr>"
    have i: "i < jm_length m" "jm_keys m ! i = Some k" using Some by (auto dest: jm_index_Some)
    have rm: "jm_remove (Some k) m = ?m"
      using Some i jm_unallocated [OF wf] by (auto simp: jm_remove_def)
    have f: "jm_keys ?m = (jm_keys m)[i := None]" "jm_values ?m = (jm_values m)[i := None]"
      "jm_length ?m = jm_length m" "jm_available ?m = jm_available m + 1"
      by (simp_all add: jm_put_def jm_keys_def jm_values_def)
    have len: "length (jm_keys m) = jm_length m" "length (jm_values m) = jm_length m"
      and uniq: "\<And>j. j < jm_length m \<Longrightarrow> jm_keys m ! j = Some k \<Longrightarrow> j = i"
      using wf i by (auto simp: jm_wf_def)
    have n: "nulls ((jm_keys m)[i := None]) = nulls (jm_keys m) + 1"
      using i len by (intro nulls_update_none) simp_all
    have w: "jm_wf ?m" using wf n i unfolding jm_wf_def f by (auto simp: nth_list_update)
    have "jm_abs ?m = (jm_abs m)(k := None)"
    proof (rule jm_abs_eqI [OF w], unfold f)
      fix k' v
      show "(((jm_abs m)(k := None)) k' = Some v) = (\<exists>j<jm_length m.
          (jm_keys m)[i := None] ! j = Some k' \<and> (jm_values m)[i := None] ! j = v)"
      proof (cases "k' = k")
        case True
        have "(jm_keys m)[i := None] ! j \<noteq> Some k" if "j < jm_length m" for j
          using uniq [OF that] i len by (cases "j = i") auto
        then show ?thesis using True by auto
      next
        case False
        have eq: "(jm_keys m)[i := None] ! j = Some k' \<and> (jm_values m)[i := None] ! j = v \<longleftrightarrow>
            jm_keys m ! j = Some k' \<and> jm_values m ! j = v" for j
          using i len False by (cases "j = i") simp_all
        show ?thesis unfolding eq using False by (simp add: jm_abs_Some [OF wf])
      qed
    qed
    then show ?thesis using w rm by simp
  qed
  then show "jm_wf (jm_remove (Some k) m)" "jm_abs (jm_remove (Some k) m) = (jm_abs m)(k := None)" by simp_all
qed

lemma jm_clear_abs:
  assumes "jm_wf m"
  shows "jm_wf (jm_clear m)" "jm_abs (jm_clear m) = Map.empty"
proof -
  have "jm_wf (jm_clear m) \<and> jm_abs (jm_clear m) = Map.empty"
  proof (cases "jm_arrays m = None")
    case True
    then have "jm_length m = 0" by (rule jm_unallocated [OF assms])
    then show ?thesis using True assms by (auto simp: jm_clear_def jm_abs_def jm_index_def fun_eq_iff)
  next
    case False
    then have f: "jm_keys (jm_clear m) = replicate (jm_length m) None"
      "jm_values (jm_clear m) = replicate (jm_length m) None"
      "jm_length (jm_clear m) = jm_length m" "jm_available (jm_clear m) = jm_length m"
      by (auto simp: jm_clear_def jm_keys_def jm_values_def new_object_array_def)
    have "jm_index k (jm_clear m) = None" for k by (simp add: jm_index_None f)
    then show ?thesis by (simp add: jm_wf_def f jm_abs_def fun_eq_iff)
  qed
  then show "jm_wf (jm_clear m)" "jm_abs (jm_clear m) = Map.empty" by simp_all
qed

lemma jm_recycle_abs: "jm_wf (jm_recycle m)" "jm_abs (jm_recycle m) = Map.empty"
  by (auto simp: jm_recycle_def jm_wf_def jm_keys_def jm_values_def nulls_def jm_abs_def jm_index_def fun_eq_iff)

lemma jm_reserve_abs: "jm_wf m \<Longrightarrow> jm_wf (jm_reserve n m) \<and> jm_abs (jm_reserve n m) = jm_abs m"
  by (simp add: jm_reserve_def jm_wf_grow_to)

text \<open>\<open>finalize\<close> keeps the pairs: it packs them, with nothing left free.\<close>

lemma used_pairs:
  assumes "length ks = length vs"
  shows "length (filter (\<lambda>(k, v). k \<noteq> None) (zip ks vs)) + nulls ks = length ks"
  using assms by (induction ks vs rule: list_induct2) (auto simp: nulls_def)

lemma index_of_pairs:
  "map_of (filter (\<lambda>(k, v). k \<noteq> None) (zip ks vs)) (Some k) = map_of (zip ks vs) (Some k)"
  by (induction ks vs rule: list_induct2') auto

lemma find_map: "find P (map f xs) = map_option f (find (P \<circ> f) xs)"
  by (induction xs) auto

lemma jm_abs_map_of:
  assumes wf: "jm_wf m"
  shows "jm_abs m k = map_of (zip (jm_keys m) (jm_values m)) (Some k)"
proof -
  have len: "length (jm_keys m) = jm_length m" "length (jm_values m) = jm_length m"
    using wf by (simp_all add: jm_wf_def)
  have "map_of (zip ks vs) (Some k) = map_option (\<lambda>i. vs ! i) (find (\<lambda>i. ks ! i = Some k) [0..<length ks])"
    if "length ks = length vs" for ks vs :: "'a option list"
    using that
  proof (induction ks vs rule: list_induct2)
    case (Cons x xs y ys)
    have "find (\<lambda>i. (x # xs) ! i = Some k) (map Suc [0..<length xs])
        = map_option Suc (find (\<lambda>i. xs ! i = Some k) [0..<length xs])"
      by (simp add: find_map comp_def)
    then show ?case using Cons by (simp add: upt_conv_Cons map_Suc_upt [symmetric] option.map_comp comp_def del: upt_Suc)
  qed simp
  then show ?thesis using len by (simp add: jm_abs_def jm_index_def)
qed

lemma all_null: "nulls xs = length xs \<Longrightarrow> i < length xs \<Longrightarrow> xs ! i = None"
proof (induction xs arbitrary: i)
  case (Cons x xs)
  have x: "x = None"
  proof (rule ccontr)
    assume "x \<noteq> None"
    then have "nulls (x # xs) = nulls xs" by (simp add: nulls_def)
    then show False using Cons.prems(1) nulls_le [of xs] by simp
  qed
  then have "nulls xs = length xs" using Cons.prems(1) by (simp add: nulls_def)
  then show ?case using Cons x by (cases i) simp_all
qed simp

lemma used_keys: "length ks = length vs \<Longrightarrow>
  map fst (filter (\<lambda>(k, v). k \<noteq> None) (zip ks vs)) = filter (\<lambda>k. k \<noteq> None) ks"
  by (induction ks vs rule: list_induct2) auto

lemma distinct_used:
  "(\<And>i j. i < length ks \<Longrightarrow> j < length ks \<Longrightarrow> ks ! i = ks ! j \<Longrightarrow> ks ! i \<noteq> None \<Longrightarrow> i = j) \<Longrightarrow>
   distinct (filter (\<lambda>k. k \<noteq> None) ks)"
proof (induction ks)
  case (Cons x ks)
  have "distinct (filter (\<lambda>k. k \<noteq> None) ks)"
  proof (rule Cons.IH)
    fix i j assume "i < length ks" "j < length ks" "ks ! i = ks ! j" "ks ! i \<noteq> None"
    then show "i = j" using Cons.prems [of "Suc i" "Suc j"] by simp
  qed
  moreover have "x \<notin> set ks" if "x \<noteq> None"
  proof
    assume "x \<in> set ks"
    then obtain j where "j < length ks" "ks ! j = x" by (auto simp: in_set_conv_nth)
    then show False using Cons.prems [of 0 "Suc j"] that by simp
  qed
  ultimately show ?case by simp
qed simp

lemma jm_finalize_abs:
  assumes wf: "jm_wf m"
  shows "jm_wf (jm_finalize m)" "jm_abs (jm_finalize m) = jm_abs m"
proof -
  have len: "length (jm_keys m) = jm_length m" "length (jm_values m) = jm_length m"
    using wf by (simp_all add: jm_wf_def)
  have "jm_wf (jm_finalize m) \<and> jm_abs (jm_finalize m) = jm_abs m"
  proof (cases "jm_arrays m = None \<or> jm_length m = 0 \<or> jm_available m = 0 \<or> jm_size m = jm_length m")
    case True
    moreover have "jm_size m = 0" if "jm_length m = 0" using that by (simp add: jm_size_def)
    moreover have "jm_available m = 0" if "jm_size m = jm_length m" "jm_length m \<noteq> 0"
      using that by (simp add: jm_size_def)
    ultimately show ?thesis using wf by (auto simp: jm_finalize_def)
  next
    case False
    show ?thesis
    proof (cases "jm_size m = 0")
      case True
      then have "nulls (jm_keys m) = jm_length m"
        using nulls_le [of "jm_keys m"] wf by (simp add: jm_size_def jm_wf_def)
      then have "jm_keys m ! i = None" if "i < jm_length m" for i
        using that len all_null [of "jm_keys m"] by simp
      then have "jm_abs m = Map.empty" by (auto simp: jm_abs_def jm_index_None fun_eq_iff)
      then show ?thesis using True False jm_clear_abs [OF wf] by (auto simp: jm_finalize_def)
    next
      case size: False
      let ?u = "filter (\<lambda>(k, v). k \<noteq> None) (zip (jm_keys m) (jm_values m))"
      have n: "length ?u = jm_size m"
        using used_pairs [of "jm_keys m" "jm_values m"] len wf by (simp add: jm_size_def jm_wf_def)
      have f: "jm_keys (jm_finalize m) = map fst ?u" "jm_values (jm_finalize m) = map snd ?u"
        "jm_length (jm_finalize m) = length ?u" "jm_available (jm_finalize m) = 0"
        using False size n
        by (simp_all add: jm_finalize_def Let_def jm_keys_def jm_values_def arraycopy_def new_object_array_def)
      have "map fst ?u = filter (\<lambda>k. k \<noteq> None) (jm_keys m)"
        using len by (intro used_keys) simp
      then have d: "distinct (map fst ?u)"
        using wf by (simp only:) (rule distinct_used, auto simp: jm_wf_def)
      have "nulls (map fst ?u) = 0" by (auto simp: nulls_def filter_empty_conv)
      then have w: "jm_wf (jm_finalize m)"
        unfolding jm_wf_def f using nth_eq_iff_index_eq [OF d] by simp
      have "jm_abs (jm_finalize m) = jm_abs m"
        unfolding fun_eq_iff jm_abs_map_of [OF w] jm_abs_map_of [OF wf] f
        by (simp only: zip_map_fst_snd index_of_pairs simp_thms)
      then show ?thesis using w by simp
    qed
  qed
  then show "jm_wf (jm_finalize m)" "jm_abs (jm_finalize m) = jm_abs m" by simp_all
qed

section \<open>The interface its clients use\<close>

text \<open>A cache of objects: an insert is seen by the next lookup of its key and by no other.\<close>

locale object_cache =
  fixes ok :: "'s \<Rightarrow> bool"
    and view :: "'s \<Rightarrow> 'k \<rightharpoonup> 'v option"
    and look :: "'s \<Rightarrow> 'k \<Rightarrow> 'v option"
    and ins :: "'k \<Rightarrow> 'v option \<Rightarrow> 's \<Rightarrow> 's"
    and del :: "'k \<Rightarrow> 's \<Rightarrow> 's"
  assumes look_view: "ok s \<Longrightarrow> look s k = (case view s k of Some v \<Rightarrow> v | None \<Rightarrow> None)"
    and ins_ok: "ok s \<Longrightarrow> ok (ins k v s)"
    and ins_view: "ok s \<Longrightarrow> view (ins k v s) = (view s)(k \<mapsto> v)"
    and del_ok: "ok s \<Longrightarrow> ok (del k s)"
    and del_view: "ok s \<Longrightarrow> view (del k s) = (view s)(k := None)"
begin

lemma look_ins: "ok s \<Longrightarrow> look (ins k v s) j = (if j = k then v else look s j)"
  by (simp add: look_view ins_ok ins_view)

lemma look_del: "ok s \<Longrightarrow> look (del k s) j = (if j = k then None else look s j)"
  by (simp add: look_view del_ok del_view)

text \<open>Look up, and on a miss insert what was made: the second time is a hit.\<close>

lemma fill_once:
  "ok s \<Longrightarrow> look s k = None \<Longrightarrow> look (ins k (Some v) s) k = Some v \<and>
   (\<forall>j. j \<noteq> k \<longrightarrow> look (ins k (Some v) s) j = look s j)"
  by (simp add: look_ins)

end

definition jm_insert :: "'o \<Rightarrow> 'o option \<Rightarrow> 'o jmap \<Rightarrow> 'o jmap" where
  "jm_insert k v m = snd (the (jm_add (Some k) v m))"

lemma jm_insert: "jm_wf m \<Longrightarrow> jm_add (Some k) v m = Some (True, jm_insert k v m) \<and>
    jm_wf (jm_insert k v m) \<and> jm_abs (jm_insert k v m) = (jm_abs m)(k \<mapsto> v)"
  using jm_add_abs [of m k v] by (auto simp: jm_insert_def)

interpretation jmap: object_cache jm_wf jm_abs "\<lambda>m k. jm_get m (Some k)" jm_insert "\<lambda>k. jm_remove (Some k)"
  by unfold_locales (simp_all add: jm_get_abs jm_insert jm_remove_abs)

text \<open>C24. On a well-formed map, \<open>add\<close> never reaches its unreachable end; it updates the key and no
  other, \<open>remove\<close> forgets its key and no other, and \<open>finalize\<close> changes no lookup. All of them keep the
  map well-formed.\<close>

theorem jm_map_laws:
  assumes wf: "jm_wf m"
  shows "(\<exists>m'. jm_add (Some k) v m = Some (True, m') \<and> jm_wf m' \<and>
      (\<forall>j. jm_get m' (Some j) = (if j = k then v else jm_get m (Some j)))) \<and>
    jm_wf (jm_remove (Some k) m) \<and>
    jm_get (jm_remove (Some k) m) (Some j) = (if j = k then None else jm_get m (Some j)) \<and>
    jm_wf (jm_finalize m) \<and> jm_get (jm_finalize m) (Some j) = jm_get m (Some j)"
  using jm_insert [OF wf, of k v] jmap.look_ins [OF wf, of k v] jmap.del_ok [OF wf, of k]
    jmap.look_del [OF wf, of k j] jm_finalize_abs [OF wf] wf
  by (auto simp: jm_get_abs)

theorem jm_map_laws_witness:
  "\<exists>m'. jm_add (Some (3::nat)) (Some 4) jm_empty = Some (True, m') \<and> jm_get m' (Some 3) = Some 4"
  using jm_map_laws [OF jm_wf_empty, of "3::nat" "Some 4" 3] by auto

end
