(* ===== verification/Arena.thy ===== *)
theory Arena
  imports Arch
begin

text \<open>
  art/base/arena_allocator.cxx: \<open>Arena\<close>, \<open>MemMapArena\<close>, \<open>MemMapArenaPool\<close> and
  \<open>ArenaAllocator\<close>, the bump allocator lsplant.cc copies hooker dex files into.

  A chain of arenas linked by \<open>next_\<close> is a list, the head first; the allocator's chain and the
  pool's free list are two lists of \<open>arena_state\<close>, next to the bytes of memory. The kernel's
  \<open>mmap\<close> (length to address) and libc's \<open>malloc\<close> are parameters; fresh mappings and
  \<open>MADV_DONTNEED\<close> give zeroed pages, as Linux documents.
\<close>

definition kArenaDefaultSize :: nat where "kArenaDefaultSize = 64 * 1024"

definition kAlignment :: nat where "kAlignment = 8"

record arena =
  ar_bytes :: nat
  ar_memory :: addr
  ar_size :: nat

record arena_state =
  st_begin :: addr
  st_end :: addr
  st_ptr :: addr
  st_arenas :: "arena list"
  st_free :: "arena list"
  st_mem :: memory

definition memzero :: "addr \<Rightarrow> nat \<Rightarrow> memory \<Rightarrow> memory" where
  "memzero a n m = store_bytes a (replicate n 0) m"

section \<open>Arenas\<close>

definition arena_Reset :: "arena \<Rightarrow> memory \<Rightarrow> arena \<times> memory" where
  "arena_Reset a m =
     (if ar_bytes a > 0 then (a\<lparr> ar_bytes := 0 \<rparr>, memzero (ar_memory a) (ar_bytes a) m) else (a, m))"

definition arena_Release :: "arena \<Rightarrow> memory \<Rightarrow> arena \<times> memory" where
  "arena_Release a m =
     (if ar_bytes a > 0 then (a\<lparr> ar_bytes := 0 \<rparr>, memzero (ar_memory a) (ar_size a) m) else (a, m))"

definition arena_RemainingSpace :: "arena \<Rightarrow> nat" where
  "arena_RemainingSpace a = ar_size a - ar_bytes a"

definition arena_Contains :: "arena \<Rightarrow> addr \<Rightarrow> bool" where
  "arena_Contains a p \<longleftrightarrow> ar_memory a \<le> p \<and> p < ar_memory a + ar_size a"

text \<open>\<open>MemMapArena::Allocate\<close>: the length is rounded up to a page; the kernel gives zeroed pages.\<close>

definition MemMapArena_Allocate ::
  "nat \<Rightarrow> (nat \<Rightarrow> addr option) \<Rightarrow> nat \<Rightarrow> memory \<Rightarrow> (addr \<times> memory) option" where
  "MemMapArena_Allocate page_size mmap sz m =
     (let sz = align_up sz page_size
      in case mmap sz of None \<Rightarrow> None | Some p \<Rightarrow> Some (p, memzero p sz m))"

section \<open>The pool\<close>

definition AllocArena ::
  "nat \<Rightarrow> (nat \<Rightarrow> addr option) \<Rightarrow> nat \<Rightarrow> arena_state \<Rightarrow> (arena \<times> arena_state) option" where
  "AllocArena page_size mmap sz S =
     (case st_free S of
        a # rest \<Rightarrow>
          if ar_size a \<ge> sz then
            (let (a, m) = arena_Reset a (st_mem S) in Some (a, S\<lparr> st_free := rest, st_mem := m \<rparr>))
          else (case MemMapArena_Allocate page_size mmap sz (st_mem S) of
                  None \<Rightarrow> None
                | Some (p, m) \<Rightarrow> Some (\<lparr> ar_bytes = 0, ar_memory = p, ar_size = sz \<rparr>, S\<lparr> st_mem := m \<rparr>))
      | [] \<Rightarrow>
          (case MemMapArena_Allocate page_size mmap sz (st_mem S) of
             None \<Rightarrow> None
           | Some (p, m) \<Rightarrow> Some (\<lparr> ar_bytes = 0, ar_memory = p, ar_size = sz \<rparr>, S\<lparr> st_mem := m \<rparr>)))"

definition FreeArenaChain :: "arena list \<Rightarrow> arena_state \<Rightarrow> arena_state" where
  "FreeArenaChain chain S = S\<lparr> st_free := chain @ st_free S \<rparr>"

definition pool_GetBytesAllocated :: "arena_state \<Rightarrow> nat" where
  "pool_GetBytesAllocated S = sum_list (map ar_bytes (st_free S))"

definition ReclaimMemory :: "arena_state \<Rightarrow> arena_state" where
  "ReclaimMemory S = S\<lparr> st_free := [] \<rparr>"

fun trim_arenas :: "arena list \<Rightarrow> memory \<Rightarrow> arena list \<times> memory" where
  "trim_arenas [] m = ([], m)"
| "trim_arenas (a # as) m =
     (let (a, m) = arena_Release a m; (as, m) = trim_arenas as m in (a # as, m))"

definition TrimMaps :: "arena_state \<Rightarrow> arena_state" where
  "TrimMaps S = (let (fs, m) = trim_arenas (st_free S) (st_mem S) in S\<lparr> st_free := fs, st_mem := m \<rparr>)"

section \<open>The allocator\<close>

definition UpdateBytesAllocated :: "arena_state \<Rightarrow> arena_state" where
  "UpdateBytesAllocated S =
     (case st_arenas S of
        [] \<Rightarrow> S
      | a # as \<Rightarrow> S\<lparr> st_arenas := a\<lparr> ar_bytes := st_ptr S - st_begin S \<rparr> # as \<rparr>)"

text \<open>The old arena is kept in use when it has more room left than the new one; it then has a head,
  since \<open>end_ - ptr_\<close> is positive.\<close>

definition AllocFromNewArena ::
  "nat \<Rightarrow> (nat \<Rightarrow> addr option) \<Rightarrow> nat \<Rightarrow> arena_state \<Rightarrow> (addr \<times> arena_state) option" where
  "AllocFromNewArena page_size mmap bytes S =
     (case AllocArena page_size mmap (max kArenaDefaultSize bytes) S of
        None \<Rightarrow> None
      | Some (new_arena, S) \<Rightarrow>
          if st_end S - st_ptr S > ar_size new_arena - bytes then
            Some (ar_memory new_arena,
              S\<lparr> st_arenas := (case st_arenas S of
                   [] \<Rightarrow> [] | h # rest \<Rightarrow> h # new_arena\<lparr> ar_bytes := bytes \<rparr> # rest) \<rparr>)
          else
            (let S = UpdateBytesAllocated S
             in Some (ar_memory new_arena,
               S\<lparr> st_arenas := new_arena # st_arenas S, st_begin := ar_memory new_arena,
                  st_ptr := ar_memory new_arena + bytes,
                  st_end := ar_memory new_arena + ar_size new_arena \<rparr>)))"

definition arena_Alloc ::
  "nat \<Rightarrow> (nat \<Rightarrow> addr option) \<Rightarrow> (nat \<Rightarrow> addr) \<Rightarrow> nat \<Rightarrow> arena_state \<Rightarrow> addr \<times> arena_state" where
  "arena_Alloc page_size mmap malloc bytes S =
     (let bytes = align_up bytes kAlignment in
      if bytes > st_end S - st_ptr S then
        (case AllocFromNewArena page_size mmap bytes S of
           Some (p, S) \<Rightarrow> (p, S)
         | None \<Rightarrow> (malloc bytes, S))
      else (st_ptr S, S\<lparr> st_ptr := st_ptr S + bytes \<rparr>))"

definition arena_AllocAlign16 ::
  "nat \<Rightarrow> (nat \<Rightarrow> addr option) \<Rightarrow> (nat \<Rightarrow> addr) \<Rightarrow> nat \<Rightarrow> arena_state \<Rightarrow> addr \<times> arena_state" where
  "arena_AllocAlign16 page_size mmap memalign16 bytes S =
     (let padding = align_up (st_ptr S) 16 - st_ptr S in
      if padding + bytes > st_end S - st_ptr S then
        (case AllocFromNewArena page_size mmap bytes S of
           Some (p, S) \<Rightarrow> (p, S)
         | None \<Rightarrow> (memalign16 bytes, S))
      else (st_ptr S + padding, S\<lparr> st_ptr := st_ptr S + padding + bytes \<rparr>))"

text \<open>\<open>size_delta\<close> is unsigned: when the block shrinks it wraps to a value no arena has room for.\<close>

definition arena_Realloc ::
  "nat \<Rightarrow> (nat \<Rightarrow> addr option) \<Rightarrow> (nat \<Rightarrow> addr) \<Rightarrow> addr \<Rightarrow> nat \<Rightarrow> nat \<Rightarrow> arena_state
     \<Rightarrow> addr \<times> arena_state" where
  "arena_Realloc page_size mmap malloc ptr ptr_size new_size S =
     (let aligned_ptr_size = align_up ptr_size kAlignment;
          aligned_new_size = align_up new_size kAlignment
      in if ptr + aligned_ptr_size = st_ptr S \<and> aligned_ptr_size \<le> aligned_new_size
            \<and> st_end S - st_ptr S \<ge> aligned_new_size - aligned_ptr_size
         then (ptr, S\<lparr> st_ptr := st_ptr S + (aligned_new_size - aligned_ptr_size) \<rparr>)
         else (let (new_ptr, S) = arena_Alloc page_size mmap malloc new_size S
               in (new_ptr, S\<lparr> st_mem := memcpy new_ptr ptr ptr_size (st_mem S) \<rparr>)))"

text \<open>The product of \<open>AllocArray\<close> is a \<open>size_t\<close>; \<open>sz\<close> is \<open>sizeof(T)\<close>.\<close>

definition arena_AllocArray ::
  "arch \<Rightarrow> nat \<Rightarrow> (nat \<Rightarrow> addr option) \<Rightarrow> (nat \<Rightarrow> addr) \<Rightarrow> nat \<Rightarrow> nat \<Rightarrow> arena_state \<Rightarrow> addr \<times> arena_state" where
  "arena_AllocArray a page_size mmap malloc sz len S =
     arena_Alloc page_size mmap malloc ((len * sz) mod 256 ^ kPointerSize a) S"

definition arena_Alloc_object ::
  "arch \<Rightarrow> nat \<Rightarrow> (nat \<Rightarrow> addr option) \<Rightarrow> (nat \<Rightarrow> addr) \<Rightarrow> nat \<Rightarrow> arena_state \<Rightarrow> addr \<times> arena_state" where
  "arena_Alloc_object a page_size mmap malloc sz S = arena_AllocArray a page_size mmap malloc sz 1 S"

definition CurrentArenaUnusedBytes :: "arena_state \<Rightarrow> nat" where
  "CurrentArenaUnusedBytes S = st_end S - st_ptr S"

lemma arena_AllocArray_fits:
  "len * sz < 256 ^ kPointerSize a \<Longrightarrow>
    arena_AllocArray a page_size mmap malloc sz len S = arena_Alloc page_size mmap malloc (len * sz) S"
  by (simp add: arena_AllocArray_def)

definition arena_BytesUsed :: "arena_state \<Rightarrow> nat" where
  "arena_BytesUsed S = (st_ptr S - st_begin S) + sum_list (map ar_bytes (List.tl (st_arenas S)))"

definition ResetCurrentArena :: "arena_state \<Rightarrow> arena_state" where
  "ResetCurrentArena S = (UpdateBytesAllocated S)\<lparr> st_begin := 0, st_ptr := 0, st_end := 0 \<rparr>"

definition allocator_Contains :: "arena_state \<Rightarrow> addr \<Rightarrow> bool" where
  "allocator_Contains S p \<longleftrightarrow>
     (p \<ge> st_begin S \<and> p < st_end S) \<or> (\<exists>a \<in> set (st_arenas S). arena_Contains a p)"

text \<open>The destructor gives all arenas back.\<close>

definition arena_destroy :: "arena_state \<Rightarrow> arena_state" where
  "arena_destroy S =
     (let S = UpdateBytesAllocated S in (FreeArenaChain (st_arenas S) S)\<lparr> st_arenas := [] \<rparr>)"

definition arena_init :: "memory \<Rightarrow> arena_state" where
  "arena_init m = \<lparr> st_begin = 0, st_end = 0, st_ptr = 0, st_arenas = [], st_free = [], st_mem = m \<rparr>"

section \<open>Invariant\<close>

definition zero_range :: "memory \<Rightarrow> addr \<Rightarrow> nat \<Rightarrow> bool" where
  "zero_range m a n \<longleftrightarrow> (\<forall>x. a \<le> x \<and> x < a + n \<longrightarrow> m x = 0)"

definition arena_apart :: "arena \<Rightarrow> arena \<Rightarrow> bool" where
  "arena_apart a b \<longleftrightarrow> disj_ranges (ar_memory a) (ar_size a) (ar_memory b) (ar_size b)"

text \<open>An arena that is not the current one: what lies behind its allocated bytes is zero.\<close>

definition arena_ok :: "memory \<Rightarrow> arena \<Rightarrow> bool" where
  "arena_ok m a \<longleftrightarrow> ar_bytes a \<le> ar_size a \<and> 8 dvd ar_memory a \<and>
     zero_range m (ar_memory a + ar_bytes a) (ar_size a - ar_bytes a)"

definition current_ok :: "arena_state \<Rightarrow> bool" where
  "current_ok S \<longleftrightarrow>
     (case st_arenas S of
        [] \<Rightarrow> st_begin S = 0 \<and> st_ptr S = 0 \<and> st_end S = 0
      | a # as \<Rightarrow> st_begin S = ar_memory a \<and> st_end S = ar_memory a + ar_size a \<and>
          st_begin S \<le> st_ptr S \<and> st_ptr S \<le> st_end S \<and> 8 dvd st_ptr S \<and> 8 dvd ar_memory a \<and>
          zero_range (st_mem S) (st_ptr S) (st_end S - st_ptr S) \<and> (\<forall>b \<in> set as. arena_ok (st_mem S) b))"

text \<open>The ranges handed out so far.\<close>

definition used_ranges :: "arena_state \<Rightarrow> (addr \<times> nat) list" where
  "used_ranges S =
     (st_begin S, st_ptr S - st_begin S) # map (\<lambda>a. (ar_memory a, ar_bytes a)) (List.tl (st_arenas S))"

definition inside :: "(addr \<times> nat) \<Rightarrow> (addr \<times> nat) \<Rightarrow> bool" where
  "inside r s \<longleftrightarrow> snd r = 0 \<or> (fst s \<le> fst r \<and> fst r + snd r \<le> fst s + snd s)"

text \<open>Two blocks share no byte.\<close>

definition blocks_apart :: "(addr \<times> nat) \<Rightarrow> (addr \<times> nat) \<Rightarrow> bool" where
  "blocks_apart r s \<longleftrightarrow> (\<forall>x. fst r \<le> x \<and> x < fst r + snd r \<longrightarrow> \<not> (fst s \<le> x \<and> x < fst s + snd s))"

definition arena_inv :: "arena_state \<Rightarrow> (addr \<times> nat) list \<Rightarrow> bool" where
  "arena_inv S live \<longleftrightarrow> current_ok S \<and> (\<forall>a \<in> set (st_free S). arena_ok (st_mem S) a) \<and>
     sorted_wrt arena_apart (st_arenas S @ st_free S) \<and>
     (\<forall>r \<in> set live. \<exists>s \<in> set (used_ranges S). inside r s) \<and>
     sorted_wrt blocks_apart live"

text \<open>What the kernel promises of a mapping: page-aligned (so a multiple of 8) and apart from the
  memory in use.\<close>

definition mmap_ok :: "nat \<Rightarrow> (nat \<Rightarrow> addr option) \<Rightarrow> arena_state \<Rightarrow> bool" where
  "mmap_ok page_size mmap S \<longleftrightarrow> 0 < page_size \<and> 8 dvd page_size \<and>
     (\<forall>n. \<exists>p. mmap n = Some p \<and> page_size dvd p \<and>
        (\<forall>a \<in> set (st_arenas S @ st_free S). disj_ranges p n (ar_memory a) (ar_size a)))"

section \<open>Facts on memory and arenas\<close>

lemma memzero_same: "x < a \<or> a + n \<le> x \<Longrightarrow> memzero a n m x = m x"
  by (auto simp: memzero_def store_bytes_def)

lemma memzero_in: "a \<le> x \<Longrightarrow> x < a + n \<Longrightarrow> memzero a n m x = 0"
  by (auto simp: memzero_def store_bytes_def)

lemma zero_range_cong:
  "(\<And>x. a \<le> x \<Longrightarrow> x < a + n \<Longrightarrow> m' x = m x) \<Longrightarrow> zero_range m' a n = zero_range m a n"
  by (simp add: zero_range_def)

lemma zero_range_sub: "zero_range m a n \<Longrightarrow> a \<le> b \<Longrightarrow> b + k \<le> a + n \<Longrightarrow> zero_range m b k"
  by (auto simp: zero_range_def)

definition same_on :: "memory \<Rightarrow> memory \<Rightarrow> arena \<Rightarrow> bool" where
  "same_on m m' a \<longleftrightarrow> (\<forall>x. ar_memory a \<le> x \<and> x < ar_memory a + ar_size a \<longrightarrow> m' x = m x)"

lemma arena_ok_same: "same_on m m' a \<Longrightarrow> arena_ok m a \<Longrightarrow> arena_ok m' a"
  by (auto simp: same_on_def arena_ok_def zero_range_def)

lemma current_ok_same:
  assumes "current_ok S" "\<And>a. a \<in> set (st_arenas S) \<Longrightarrow> same_on (st_mem S) m' a"
  shows "current_ok (S\<lparr> st_mem := m' \<rparr>)"
proof (cases "st_arenas S")
  case Nil
  then show ?thesis using assms(1) by (simp add: current_ok_def)
next
  case (Cons a as)
  have "zero_range m' (st_ptr S) (st_end S - st_ptr S)"
    using assms(1) assms(2) [of a] Cons by (auto simp: current_ok_def zero_range_def same_on_def)
  moreover have "\<forall>b \<in> set as. arena_ok m' b"
    using assms Cons by (auto simp: current_ok_def intro: arena_ok_same)
  ultimately show ?thesis using assms(1) Cons by (simp add: current_ok_def)
qed

lemma arena_apart_sym: "arena_apart a b \<Longrightarrow> arena_apart b a"
  by (auto simp: arena_apart_def disj_ranges_def)

text \<open>A list of arenas apart from each other stays one when an arena moves to the front.\<close>

lemma sorted_apart_move:
  assumes "sorted_wrt arena_apart (as @ a # bs)"
  shows "sorted_wrt arena_apart (a # as @ bs)"
  using assms by (auto simp: sorted_wrt_append intro: arena_apart_sym)

lemma apart_same_on: "arena_apart a b \<Longrightarrow> k \<le> ar_size a \<Longrightarrow> same_on m (memzero (ar_memory a) k m) b"
  by (auto simp: same_on_def arena_apart_def disj_ranges_def intro!: memzero_same)

lemma MemMapArena_Allocate_ok:
  assumes "mmap_ok pg mmap S"
  obtains p where "mmap (align_up sz pg) = Some p"
    "MemMapArena_Allocate pg mmap sz m = Some (p, memzero p (align_up sz pg) m)"
    "8 dvd p" "sz \<le> align_up sz pg"
    "\<forall>a \<in> set (st_arenas S @ st_free S). disj_ranges p (align_up sz pg) (ar_memory a) (ar_size a)"
proof -
  obtain p where p: "mmap (align_up sz pg) = Some p" "pg dvd p"
    "\<forall>a \<in> set (st_arenas S @ st_free S). disj_ranges p (align_up sz pg) (ar_memory a) (ar_size a)"
    using assms unfolding mmap_ok_def by blast
  moreover have "8 dvd p" using p(2) assms unfolding mmap_ok_def by (blast intro: dvd_trans)
  moreover have "sz \<le> align_up sz pg" using assms by (simp add: mmap_ok_def align_up_ge)
  ultimately show ?thesis using that by (simp add: MemMapArena_Allocate_def)
qed

text \<open>What \<open>AllocArena\<close> gives: a zeroed arena of the size asked for, apart from all others, whose bytes
  it leaves alone.\<close>

lemma AllocArena_spec:
  assumes inv: "arena_inv S live" and mm: "mmap_ok pg mmap S"
  obtains a S1 where "AllocArena pg mmap sz S = Some (a, S1)" "sz \<le> ar_size a" "ar_bytes a = 0"
    "8 dvd ar_memory a" "zero_range (st_mem S1) (ar_memory a) (ar_size a)"
    "S1 = S\<lparr> st_free := st_free S1, st_mem := st_mem S1 \<rparr>" "set (st_free S1) \<subseteq> set (st_free S)"
    "sorted_wrt arena_apart (a # st_arenas S @ st_free S1)"
    "\<forall>b \<in> set (st_arenas S @ st_free S1). same_on (st_mem S) (st_mem S1) b"
proof (cases "\<exists>a rest. st_free S = a # rest \<and> sz \<le> ar_size a")
  case True
  then obtain a rest where f: "st_free S = a # rest" "sz \<le> ar_size a" by blast
  have ok: "arena_ok (st_mem S) a" and sorted: "sorted_wrt arena_apart (st_arenas S @ a # rest)"
    using inv f by (simp_all add: arena_inv_def)
  let ?S = "S\<lparr> st_free := rest, st_mem := memzero (ar_memory a) (ar_bytes a) (st_mem S) \<rparr>"
  have m: "memzero (ar_memory a) 0 (st_mem S) = st_mem S" by (rule ext, rule memzero_same) auto
  have "AllocArena pg mmap sz S = Some (a\<lparr> ar_bytes := 0 \<rparr>, ?S)"
    using f m by (cases "ar_bytes a = 0") (auto simp: AllocArena_def arena_Reset_def Let_def)
  moreover have "zero_range (st_mem ?S) (ar_memory a) (ar_size a)"
    using ok by (auto simp: zero_range_def arena_ok_def memzero_def store_bytes_def)
  moreover have srt: "sorted_wrt arena_apart (a # st_arenas S @ rest)" by (rule sorted_apart_move [OF sorted])
  moreover have "sorted_wrt arena_apart (a\<lparr> ar_bytes := 0 \<rparr> # st_arenas S @ rest)"
    using srt by (simp add: arena_apart_def)
  moreover have "same_on (st_mem S) (st_mem ?S) b" if "b \<in> set (st_arenas S @ rest)" for b
    using srt that ok by (auto simp: arena_ok_def intro!: apart_same_on)
  ultimately show ?thesis using that [of "a\<lparr> ar_bytes := 0 \<rparr>" ?S] f ok by (auto simp: arena_ok_def)
next
  case False
  obtain p where p: "MemMapArena_Allocate pg mmap sz (st_mem S) = Some (p, memzero p (align_up sz pg) (st_mem S))"
    "8 dvd p" "sz \<le> align_up sz pg"
    "\<forall>a \<in> set (st_arenas S @ st_free S). disj_ranges p (align_up sz pg) (ar_memory a) (ar_size a)"
    by (rule MemMapArena_Allocate_ok [OF mm])
  let ?a = "\<lparr> ar_bytes = 0, ar_memory = p, ar_size = sz \<rparr>"
  let ?S = "S\<lparr> st_mem := memzero p (align_up sz pg) (st_mem S) \<rparr>"
  have "AllocArena pg mmap sz S = Some (?a, ?S)"
    using False p(1) by (auto simp: AllocArena_def split: list.split)
  moreover have "zero_range (st_mem ?S) p sz" using p(3) by (auto simp: zero_range_def intro!: memzero_in)
  moreover have "sorted_wrt arena_apart (?a # st_arenas S @ st_free S)"
  proof -
    have "arena_apart ?a b" if "b \<in> set (st_arenas S @ st_free S)" for b
      using bspec [OF p(4) that] p(3) by (auto simp: arena_apart_def disj_ranges_def)
    then show ?thesis using inv by (auto simp: arena_inv_def)
  qed
  moreover have "same_on (st_mem S) (st_mem ?S) b" if "b \<in> set (st_arenas S @ st_free S)" for b
    using bspec [OF p(4) that] by (auto simp: same_on_def disj_ranges_def intro!: memzero_same)
  ultimately show ?thesis using that [of ?a ?S] p(2) by auto
qed

section \<open>Allocation\<close>

lemma inside_head:
  "arena_inv S live \<Longrightarrow> r \<in> set live \<Longrightarrow>
   inside r (st_begin S, st_ptr S - st_begin S) \<or> (\<exists>b \<in> set (List.tl (st_arenas S)). inside r (ar_memory b, ar_bytes b))"
  by (auto simp: arena_inv_def used_ranges_def)

text \<open>Every block in use lies in an arena of the chain, so what leaves the chain's arenas alone leaves
  the blocks alone.\<close>

lemma block_in_arena:
  assumes inv: "arena_inv S live" and r: "r \<in> set live" and x: "fst r \<le> x" "x < fst r + snd r"
  obtains b where "b \<in> set (st_arenas S)" "ar_memory b \<le> x" "x < ar_memory b + ar_size b"
proof -
  note cur = inv [unfolded arena_inv_def current_ok_def]
  from inside_head [OF inv r] show ?thesis
  proof
    assume i: "inside r (st_begin S, st_ptr S - st_begin S)"
    then obtain a as where as: "st_arenas S = a # as"
      using x cur by (cases "st_arenas S") (auto simp: inside_def)
    show ?thesis by (rule that [of a]) (use i x as cur in \<open>auto simp: inside_def\<close>)
  next
    assume "\<exists>b \<in> set (List.tl (st_arenas S)). inside r (ar_memory b, ar_bytes b)"
    then obtain a as b where b: "st_arenas S = a # as" "b \<in> set as" "inside r (ar_memory b, ar_bytes b)"
      by (cases "st_arenas S") auto
    then have "ar_bytes b \<le> ar_size b" using cur by (auto simp: arena_ok_def)
    then show ?thesis using that [of b] b x by (auto simp: inside_def)
  qed
qed

definition same_blocks :: "memory \<Rightarrow> memory \<Rightarrow> (addr \<times> nat) list \<Rightarrow> bool" where
  "same_blocks m m' live \<longleftrightarrow> (\<forall>r \<in> set live. \<forall>x. fst r \<le> x \<and> x < fst r + snd r \<longrightarrow> m' x = m x)"

lemma same_blocks_arenas:
  assumes "arena_inv S live" "\<And>b. b \<in> set (st_arenas S) \<Longrightarrow> same_on (st_mem S) m' b"
  shows "same_blocks (st_mem S) m' live"
  unfolding same_blocks_def
proof (intro ballI allI impI)
  fix r x assume "r \<in> set live" "fst r \<le> x \<and> x < fst r + snd r"
  then obtain b where "b \<in> set (st_arenas S)" "ar_memory b \<le> x" "x < ar_memory b + ar_size b"
    using block_in_arena [OF assms(1), of r x] by blast
  then show "m' x = st_mem S x" using assms(2) [of b] by (simp add: same_on_def)
qed

text \<open>A block of a new arena is apart from all blocks in use.\<close>

lemma new_block_apart:
  assumes inv: "arena_inv S live" and r: "r \<in> set live"
    and a: "\<And>b. b \<in> set (st_arenas S) \<Longrightarrow> arena_apart a b" and n: "n \<le> ar_size a"
  shows "blocks_apart (ar_memory a, n) r"
  unfolding blocks_apart_def
proof (intro allI impI notI)
  fix x assume x: "fst (ar_memory a, n) \<le> x \<and> x < fst (ar_memory a, n) + snd (ar_memory a, n)"
    and "fst r \<le> x \<and> x < fst r + snd r"
  then obtain b where "b \<in> set (st_arenas S)" "ar_memory b \<le> x" "x < ar_memory b + ar_size b"
    using block_in_arena [OF inv r, of x] by blast
  then show False using a [of b] x n by (auto simp: arena_apart_def disj_ranges_def)
qed

lemma arena_ok_bytes: "n \<le> ar_size a \<Longrightarrow> 8 dvd ar_memory a \<Longrightarrow> zero_range m (ar_memory a) (ar_size a) \<Longrightarrow>
  arena_ok m (a\<lparr> ar_bytes := n \<rparr>)"
  by (auto simp: arena_ok_def zero_range_def)

text \<open>An arena \<open>a\<close> that \<open>AllocArena\<close> has just given, with room for \<open>n\<close> bytes; \<open>S1\<close> is the state then.\<close>

definition new_arena :: "arena_state \<Rightarrow> (addr \<times> nat) list \<Rightarrow> arena \<Rightarrow> nat \<Rightarrow> arena_state \<Rightarrow> bool" where
  "new_arena S live a n S1 \<longleftrightarrow>
     n \<le> ar_size a \<and> ar_bytes a = 0 \<and> 8 dvd ar_memory a \<and> zero_range (st_mem S1) (ar_memory a) (ar_size a) \<and>
     st_begin S1 = st_begin S \<and> st_end S1 = st_end S \<and> st_ptr S1 = st_ptr S \<and> st_arenas S1 = st_arenas S \<and>
     sorted_wrt arena_apart (a # st_arenas S @ st_free S1) \<and> (\<forall>b \<in> set (st_free S1). arena_ok (st_mem S1) b) \<and>
     current_ok S1 \<and> same_blocks (st_mem S) (st_mem S1) live \<and> (\<forall>r \<in> set live. blocks_apart (ar_memory a, n) r)"

lemma new_arenaD:
  assumes "new_arena S live a n S1"
  shows "n \<le> ar_size a" "ar_bytes a = 0" "8 dvd ar_memory a" "zero_range (st_mem S1) (ar_memory a) (ar_size a)"
    "st_begin S1 = st_begin S" "st_end S1 = st_end S" "st_ptr S1 = st_ptr S" "st_arenas S1 = st_arenas S"
    "sorted_wrt arena_apart (a # st_arenas S @ st_free S1)" "\<forall>b \<in> set (st_free S1). arena_ok (st_mem S1) b"
    "current_ok S1" "same_blocks (st_mem S) (st_mem S1) live" "\<forall>r \<in> set live. blocks_apart (ar_memory a, n) r"
  using assms by (simp_all add: new_arena_def)

lemma AllocArena_new:
  assumes inv: "arena_inv S live" and mm: "mmap_ok pg mmap S" and sz: "n \<le> sz"
  obtains a S1 where "AllocArena pg mmap sz S = Some (a, S1)" "new_arena S live a n S1"
proof -
  obtain a S1 where al: "AllocArena pg mmap sz S = Some (a, S1)" and size: "sz \<le> ar_size a"
    and a: "ar_bytes a = 0" "8 dvd ar_memory a" "zero_range (st_mem S1) (ar_memory a) (ar_size a)"
    and S1: "S1 = S\<lparr> st_free := st_free S1, st_mem := st_mem S1 \<rparr>" and sub: "set (st_free S1) \<subseteq> set (st_free S)"
    and apart: "sorted_wrt arena_apart (a # st_arenas S @ st_free S1)"
    and same': "\<forall>b \<in> set (st_arenas S @ st_free S1). same_on (st_mem S) (st_mem S1) b"
    by (rule AllocArena_spec [OF inv mm, where sz = sz])
  have same: "same_on (st_mem S) (st_mem S1) b" if "b \<in> set (st_arenas S @ st_free S1)" for b
    using same' that by blast
  have f: "st_begin S1 = st_begin S" "st_end S1 = st_end S" "st_ptr S1 = st_ptr S" "st_arenas S1 = st_arenas S"
    by (subst S1, simp)+
  have na: "n \<le> ar_size a" using sz size by simp
  have free: "\<forall>b \<in> set (st_free S1). arena_ok (st_mem S1) b"
  proof
    fix b assume b: "b \<in> set (st_free S1)"
    then have "arena_ok (st_mem S) b" using sub inv by (auto simp: arena_inv_def)
    then show "arena_ok (st_mem S1) b" using arena_ok_same [OF same] b by simp
  qed
  have "current_ok (S\<lparr> st_mem := st_mem S1 \<rparr>)"
    by (rule current_ok_same) (use inv same in \<open>simp_all add: arena_inv_def\<close>)
  then have cur: "current_ok S1" by (cases "st_arenas S") (auto simp: current_ok_def f)
  have blocks: "same_blocks (st_mem S) (st_mem S1) live"
    by (rule same_blocks_arenas [OF inv]) (use same in simp)
  have "\<forall>r \<in> set live. blocks_apart (ar_memory a, n) r"
    using new_block_apart [OF inv _ _ na] apart by auto
  then show ?thesis using that [OF al] na a f apart free cur blocks by (simp add: new_arena_def)
qed

text \<open>The two ways to use it: behind the current arena, or in front as the new current one.\<close>

lemma arena_inv_behind:
  assumes inv: "arena_inv S live" and new: "new_arena S live a n S1" and h: "st_arenas S = h # as"
  shows "arena_inv (S1\<lparr> st_arenas := h # a\<lparr> ar_bytes := n \<rparr> # as \<rparr>) ((ar_memory a, n) # live)"
    (is "arena_inv ?S _")
proof -
  note d = new_arenaD [OF new]
  have live: "\<forall>r \<in> set live. \<exists>s \<in> set (used_ranges S). inside r s" "sorted_wrt blocks_apart live"
    using inv by (simp_all add: arena_inv_def)
  have "current_ok ?S" using d(5-8,11) h arena_ok_bytes [OF d(1,3,4)] by (auto simp: current_ok_def)
  moreover have "sorted_wrt arena_apart (st_arenas ?S @ st_free ?S)"
    using d(9) h by (auto simp: arena_apart_def disj_ranges_def)
  moreover have "\<exists>s \<in> set (used_ranges ?S). inside r s" if r: "r \<in> set ((ar_memory a, n) # live)" for r
    using r live(1) h d(5-8) by (auto simp: used_ranges_def inside_def)
  ultimately show ?thesis using d(10,13) live(2) by (simp add: arena_inv_def)
qed

lemma arena_inv_front:
  assumes inv: "arena_inv S live" and new: "new_arena S live a n S1" and n: "8 dvd n"
  defines "U \<equiv> UpdateBytesAllocated S1"
  shows "arena_inv (U\<lparr> st_arenas := a # st_arenas U, st_begin := ar_memory a, st_ptr := ar_memory a + n,
      st_end := ar_memory a + ar_size a \<rparr>) ((ar_memory a, n) # live)" (is "arena_inv ?S _")
proof -
  note d = new_arenaD [OF new]
  have live: "sorted_wrt blocks_apart live" using inv by (simp add: arena_inv_def)
  have mem: "st_mem ?S = st_mem S1" "st_free ?S = st_free S1"
    by (simp_all add: U_def UpdateBytesAllocated_def split: list.split)
  have olds: "\<forall>b \<in> set (st_arenas U). arena_ok (st_mem S1) b"
    using d(11) by (auto simp: current_ok_def U_def UpdateBytesAllocated_def arena_ok_def add.commute split: list.splits)
  have "zero_range (st_mem S1) (ar_memory a + n) (ar_size a - n)"
    by (rule zero_range_sub [OF d(4)]) (use d(1) in auto)
  then have "current_ok ?S" using d(1,3) n olds mem by (auto simp: current_ok_def)
  moreover have "sorted_wrt arena_apart (st_arenas ?S @ st_free ?S)"
    using d(8,9) by (auto simp: U_def UpdateBytesAllocated_def arena_apart_def split: list.split)
  moreover have "\<exists>s \<in> set (used_ranges ?S). inside r s" if r: "r \<in> set ((ar_memory a, n) # live)" for r
  proof (cases "r = (ar_memory a, n)")
    case True
    then show ?thesis by (auto simp: used_ranges_def inside_def)
  next
    case False
    then have rl: "r \<in> set live" using r by simp
    show ?thesis
    proof (cases "st_arenas S")
      case Nil
      then show ?thesis using inside_head [OF inv rl] inv
        by (auto simp: arena_inv_def current_ok_def used_ranges_def inside_def)
    next
      case (Cons h as)
      then show ?thesis using inside_head [OF inv rl] d(5-8,11)
        by (auto simp: used_ranges_def U_def UpdateBytesAllocated_def current_ok_def)
    qed
  qed
  ultimately show ?thesis using d(10,13) live mem by (simp add: arena_inv_def)
qed

lemma AllocFromNewArena_correct:
  assumes inv: "arena_inv S live" and mm: "mmap_ok pg mmap S" and n: "8 dvd n"
    and big: "n > st_end S - st_ptr S"
  obtains p S' where "AllocFromNewArena pg mmap n S = Some (p, S')" "arena_inv S' ((p, n) # live)"
    "zero_range (st_mem S') p n" "8 dvd p" "same_blocks (st_mem S) (st_mem S') live"
proof -
  obtain a S1 where al: "AllocArena pg mmap (max kArenaDefaultSize n) S = Some (a, S1)"
    and new: "new_arena S live a n S1"
    by (rule AllocArena_new [OF inv mm, of n "max kArenaDefaultSize n"]) simp
  note d = new_arenaD [OF new]
  have zero: "zero_range (st_mem S1) (ar_memory a) n" by (rule zero_range_sub [OF d(4)]) (use d(1) in auto)
  show ?thesis
  proof (cases "st_end S - st_ptr S > ar_size a - n")
    case True
    obtain h as where has: "st_arenas S = h # as"
      using True inv by (cases "st_arenas S") (auto simp: arena_inv_def current_ok_def)
    then have "AllocFromNewArena pg mmap n S = Some (ar_memory a, S1\<lparr> st_arenas := h # a\<lparr> ar_bytes := n \<rparr> # as \<rparr>)"
      using True al d(5-8) by (simp add: AllocFromNewArena_def)
    then show ?thesis using that arena_inv_behind [OF inv new has] zero d(3,12) by simp
  next
    case False
    let ?U = "UpdateBytesAllocated S1"
    have "AllocFromNewArena pg mmap n S = Some (ar_memory a, ?U\<lparr> st_arenas := a # st_arenas ?U,
        st_begin := ar_memory a, st_ptr := ar_memory a + n, st_end := ar_memory a + ar_size a \<rparr>)"
      using False al d(5-8) by (simp add: AllocFromNewArena_def Let_def)
    moreover have "st_mem ?U = st_mem S1" by (simp add: UpdateBytesAllocated_def split: list.split)
    ultimately show ?thesis using that arena_inv_front [OF inv new n] zero d(3,12) by simp
  qed
qed

text \<open>A block taken from the rest of the current arena.\<close>

lemma rest_apart:
  assumes inv: "arena_inv S live" and room: "n \<le> st_end S - st_ptr S" and r: "r \<in> set live"
  shows "blocks_apart (st_ptr S, n) r"
  unfolding blocks_apart_def
proof (intro allI impI notI)
  note cur = inv [unfolded arena_inv_def current_ok_def]
  fix x assume x: "fst (st_ptr S, n) \<le> x \<and> x < fst (st_ptr S, n) + snd (st_ptr S, n)"
    and xr: "fst r \<le> x \<and> x < fst r + snd r"
  have b: "st_begin S \<le> st_ptr S" "st_ptr S \<le> st_end S" using cur by (auto split: list.splits)
  from inside_head [OF inv r] show False
  proof
    assume "inside r (st_begin S, st_ptr S - st_begin S)"
    then show False using x xr b by (auto simp: inside_def)
  next
    assume "\<exists>c \<in> set (List.tl (st_arenas S)). inside r (ar_memory c, ar_bytes c)"
    then obtain a as c where c: "st_arenas S = a # as" "c \<in> set as" "inside r (ar_memory c, ar_bytes c)"
      by (cases "st_arenas S") auto
    then have "arena_apart a c" "ar_bytes c \<le> ar_size c" "st_end S = ar_memory a + ar_size a"
      "ar_memory a \<le> st_ptr S"
      using cur by (auto simp: arena_ok_def)
    then show False using c(3) x xr room b(2) by (auto simp: inside_def arena_apart_def disj_ranges_def)
  qed
qed

lemma arena_inv_bump:
  assumes inv: "arena_inv S live" and room: "n \<le> st_end S - st_ptr S" and n8: "8 dvd n"
  defines "S' \<equiv> S\<lparr> st_ptr := st_ptr S + n \<rparr>"
  shows "arena_inv S' ((st_ptr S, n) # live) \<and> zero_range (st_mem S) (st_ptr S) n \<and> 8 dvd st_ptr S"
proof -
  note cur = inv [unfolded arena_inv_def current_ok_def]
  have b: "st_begin S \<le> st_ptr S" "8 dvd st_ptr S" "zero_range (st_mem S) (st_ptr S) (st_end S - st_ptr S)"
    "st_ptr S \<le> st_end S"
    using cur by (auto split: list.splits simp: zero_range_def)
  have zero: "zero_range (st_mem S) (st_ptr S) n" by (rule zero_range_sub [OF b(3)]) (use room in auto)
  have "current_ok S'"
  proof (cases "st_arenas S")
    case Nil
    then show ?thesis using cur room by (simp add: S'_def current_ok_def)
  next
    case (Cons a as)
    have "zero_range (st_mem S) (st_ptr S + n) (st_end S - (st_ptr S + n))"
      by (rule zero_range_sub [OF b(3)]) (use room b(4) in auto)
    then show ?thesis using cur Cons room b n8 by (auto simp: S'_def current_ok_def)
  qed
  moreover have "\<exists>s \<in> set (used_ranges S'). inside r s" if r: "r \<in> set ((st_ptr S, n) # live)" for r
  proof (cases "r = (st_ptr S, n)")
    case True
    then show ?thesis using b(1) by (simp add: used_ranges_def inside_def S'_def)
  next
    case False
    then show ?thesis using r inside_head [OF inv, of r] b(1) by (auto simp: used_ranges_def inside_def S'_def)
  qed
  ultimately have "arena_inv S' ((st_ptr S, n) # live)"
    using inv rest_apart [OF inv room] by (simp add: arena_inv_def S'_def)
  then show ?thesis using zero b(2) by simp
qed

text \<open>C23. As long as the kernel maps memory, \<open>Alloc\<close> returns an aligned, zeroed block that shares no byte
  with any block in use, leaves the contents of those blocks alone and keeps the invariant.\<close>

theorem arena_Alloc_correct:
  assumes inv: "arena_inv S live" and mm: "mmap_ok pg mmap S"
    and call: "arena_Alloc pg mmap malloc bytes S = (p, S')"
  shows "arena_inv S' ((p, align_up bytes 8) # live) \<and> zero_range (st_mem S') p (align_up bytes 8) \<and>
    8 dvd p \<and> same_blocks (st_mem S) (st_mem S') live"
proof (cases "align_up bytes 8 > st_end S - st_ptr S")
  case True
  obtain p' T where "AllocFromNewArena pg mmap (align_up bytes 8) S = Some (p', T)"
    and T: "arena_inv T ((p', align_up bytes 8) # live)" "zero_range (st_mem T) p' (align_up bytes 8)" "8 dvd p'"
      "same_blocks (st_mem S) (st_mem T) live"
    by (rule AllocFromNewArena_correct [OF inv mm _ True]) simp
  then have "p = p'" "S' = T" using call True by (simp_all add: arena_Alloc_def kAlignment_def Let_def)
  then show ?thesis using T by simp
next
  case False
  have "p = st_ptr S" "S' = S\<lparr> st_ptr := st_ptr S + align_up bytes 8 \<rparr>"
    using call False by (auto simp: arena_Alloc_def kAlignment_def Let_def)
  then show ?thesis
    using arena_inv_bump [OF inv, of "align_up bytes 8"] False by (simp add: same_blocks_def)
qed

lemma arena_inv_init: "arena_inv (arena_init m) []"
  by (simp add: arena_inv_def current_ok_def arena_init_def)

theorem arena_Alloc_correct_witness:
  "\<exists>p S'. arena_Alloc 4096 (\<lambda>_. Some 8192) (\<lambda>_. 0) 100 (arena_init (\<lambda>_. 7)) = (p, S') \<and>
     arena_inv S' [(p, 104)] \<and> zero_range (st_mem S') p 104"
proof -
  obtain p S' where c: "arena_Alloc 4096 (\<lambda>_. Some 8192) (\<lambda>_. 0) 100 (arena_init (\<lambda>_. 7)) = (p, S')"
    by (metis prod.exhaust)
  have "mmap_ok 4096 (\<lambda>_. Some 8192) (arena_init (\<lambda>_. 7))" by (simp add: mmap_ok_def arena_init_def)
  moreover have "align_up 100 8 = 104" by (simp add: align_up_def align_down_def)
  ultimately show ?thesis using arena_Alloc_correct [OF arena_inv_init _ c] c by auto
qed

end
