(* ===== verification/Slices.thy ===== *)
theory Slices
  imports Prelude
begin

text \<open>
  art/base/stride_iterator.cxx and art/base/array_slice.cxx: a view of an array whose elements may
  be larger than the C++ type they are seen as (ART's \<open>ArtMethod\<close> arrays), and its iterator.

  Pointers are words of the machine's width \<open>'w\<close>; \<open>+\<close>, \<open>-\<close> and \<open>*\<close> wrap as \<open>uintptr_t\<close> does. An
  element reference is its address. The pointer difference is a signed word, printed here as the
  bits \<open>(ptr_ - rhs.ptr_) / stride_\<close> leaves, with the unsigned division of the source.
\<close>

section \<open>StrideIterator\<close>

record 'p stride_iterator =
  si_ptr :: 'p
  si_stride :: 'p

definition si_eq :: "'w::len word stride_iterator \<Rightarrow> 'w word stride_iterator \<Rightarrow> bool" where
  "si_eq i j \<longleftrightarrow> si_ptr i = si_ptr j"

definition si_inc :: "'w::len word stride_iterator \<Rightarrow> 'w word stride_iterator" where
  "si_inc i = i\<lparr> si_ptr := si_ptr i + si_stride i \<rparr>"

definition si_dec :: "'w::len word stride_iterator \<Rightarrow> 'w word stride_iterator" where
  "si_dec i = i\<lparr> si_ptr := si_ptr i - si_stride i \<rparr>"

definition si_plus :: "'w::len word stride_iterator \<Rightarrow> 'w word \<Rightarrow> 'w word stride_iterator" where
  "si_plus i delta = i\<lparr> si_ptr := si_ptr i + si_stride i * delta \<rparr>"

definition si_minus :: "'w::len word stride_iterator \<Rightarrow> 'w word \<Rightarrow> 'w word stride_iterator" where
  "si_minus i delta = i\<lparr> si_ptr := si_ptr i - si_stride i * delta \<rparr>"

definition si_distance :: "'w::len word stride_iterator \<Rightarrow> 'w word stride_iterator \<Rightarrow> 'w word" where
  "si_distance i rhs = (si_ptr i - si_ptr rhs) div si_stride i"

definition si_index :: "'w::len word stride_iterator \<Rightarrow> 'w word \<Rightarrow> 'w word" where
  "si_index i n = si_ptr (si_plus i n)"

definition si_less :: "'w::len word stride_iterator \<Rightarrow> 'w word stride_iterator \<Rightarrow> bool" where
  "si_less i j \<longleftrightarrow> si_ptr i < si_ptr j"

definition si_greater :: "'w::len word stride_iterator \<Rightarrow> 'w word stride_iterator \<Rightarrow> bool" where
  "si_greater i j \<longleftrightarrow> si_less j i"

definition si_le :: "'w::len word stride_iterator \<Rightarrow> 'w word stride_iterator \<Rightarrow> bool" where
  "si_le i j \<longleftrightarrow> \<not> si_less j i"

definition si_ge :: "'w::len word stride_iterator \<Rightarrow> 'w word stride_iterator \<Rightarrow> bool" where
  "si_ge i j \<longleftrightarrow> \<not> si_less i j"

section \<open>ArraySlice\<close>

record 'p array_slice =
  sl_array :: 'p
  sl_size :: nat
  sl_element_size :: 'p

text \<open>The slice without elements. The other constructor keeps 32 bits of the length.\<close>

definition sl_none :: "'w::len word array_slice" where
  "sl_none = \<lparr> sl_array = 0, sl_size = 0, sl_element_size = 0 \<rparr>"

definition ArraySlice :: "'w::len word \<Rightarrow> nat \<Rightarrow> 'w word \<Rightarrow> 'w word array_slice" where
  "ArraySlice array len element_size =
     \<lparr> sl_array = array, sl_size = len mod 2 ^ 32, sl_element_size = element_size \<rparr>"

definition AtUnchecked :: "'w::len word array_slice \<Rightarrow> nat \<Rightarrow> 'w word" where
  "AtUnchecked s index = sl_array s + word_of_nat index * sl_element_size s"

definition sl_begin :: "'w::len word array_slice \<Rightarrow> 'w word stride_iterator" where
  "sl_begin s = \<lparr> si_ptr = AtUnchecked s 0, si_stride = sl_element_size s \<rparr>"

definition sl_end :: "'w::len word array_slice \<Rightarrow> 'w word stride_iterator" where
  "sl_end s = \<lparr> si_ptr = AtUnchecked s (sl_size s), si_stride = sl_element_size s \<rparr>"

definition sl_empty :: "'w::len word array_slice \<Rightarrow> bool" where
  "sl_empty s \<longleftrightarrow> sl_size s = 0"

definition sl_index :: "'w::len word array_slice \<Rightarrow> nat \<Rightarrow> 'w word" where
  "sl_index s index = AtUnchecked s index"

definition sl_front :: "'w::len word array_slice \<Rightarrow> 'w word" where
  "sl_front s = sl_index s 0"

text \<open>\<open>size_ - 1U\<close> wraps for an empty slice.\<close>

definition sl_back :: "'w::len word array_slice \<Rightarrow> 'w word" where
  "sl_back s = sl_index s (unat (word_of_nat (sl_size s) - 1 :: 'w word))"

definition SubArray :: "nat \<Rightarrow> nat \<Rightarrow> 'w::len word array_slice \<Rightarrow> 'w word array_slice" where
  "SubArray pos len s = ArraySlice (AtUnchecked s pos) len (sl_element_size s)"

definition SubArray_from :: "nat \<Rightarrow> 'w::len word array_slice \<Rightarrow> 'w word array_slice" where
  "SubArray_from pos s = SubArray pos (unat (word_of_nat (sl_size s) - word_of_nat pos :: 'w word)) s"

definition sl_Contains :: "'w::len word array_slice \<Rightarrow> 'w word \<Rightarrow> bool" where
  "sl_Contains s element \<longleftrightarrow>
     AtUnchecked s 0 \<le> element \<and> element < AtUnchecked s (sl_size s) \<and>
     (element - AtUnchecked s 0) mod sl_element_size s = 0"

definition OffsetOf :: "'w::len word array_slice \<Rightarrow> 'w word \<Rightarrow> 'w word" where
  "OffsetOf s element = (element - AtUnchecked s 0) div sl_element_size s"

text \<open>The loop \<open>for (auto &x : slice)\<close>: from \<open>begin\<close> by \<open>++\<close> until \<open>end\<close> is met. \<open>None\<close> means the fuel
  did not suffice.\<close>

fun slice_walk :: "nat \<Rightarrow> 'w::len word stride_iterator \<Rightarrow> 'w word stride_iterator \<Rightarrow> 'w word list option" where
  "slice_walk 0 i e = None"
| "slice_walk (Suc k) i e =
     (if si_eq i e then Some []
      else map_option (\<lambda>xs. si_ptr i # xs) (slice_walk k (si_inc i) e))"

definition slice_elements :: "'w::len word array_slice \<Rightarrow> 'w word list option" where
  "slice_elements s = slice_walk (Suc (sl_size s)) (sl_begin s) (sl_end s)"

text \<open>\<open>std::reverse_iterator\<close> holds the iterator behind its element: it is dereferenced after a step back
  and moved by \<open>--\<close>.\<close>

definition sl_rbegin :: "'w::len word array_slice \<Rightarrow> 'w word stride_iterator" where
  "sl_rbegin s = sl_end s"

definition sl_rend :: "'w::len word array_slice \<Rightarrow> 'w word stride_iterator" where
  "sl_rend s = sl_begin s"

definition ri_deref :: "'w::len word stride_iterator \<Rightarrow> 'w word" where
  "ri_deref i = si_ptr (si_dec i)"

fun reverse_walk :: "nat \<Rightarrow> 'w::len word stride_iterator \<Rightarrow> 'w word stride_iterator \<Rightarrow> 'w word list option" where
  "reverse_walk 0 i e = None"
| "reverse_walk (Suc k) i e =
     (if si_eq i e then Some []
      else map_option (\<lambda>xs. ri_deref i # xs) (reverse_walk k (si_dec i) e))"

definition slice_reversed :: "'w::len word array_slice \<Rightarrow> 'w word list option" where
  "slice_reversed s = reverse_walk (Suc (sl_size s)) (sl_rbegin s) (sl_rend s)"

section \<open>Iteration\<close>

text \<open>A slice whose bytes do not wrap around the address space.\<close>

definition slice_ok :: "'w::len word array_slice \<Rightarrow> bool" where
  "slice_ok s \<longleftrightarrow> 0 < sl_element_size s \<and> sl_size s < 2 ^ 32 \<and>
     unat (sl_array s) + sl_size s * unat (sl_element_size s) < 2 ^ LENGTH('w)"

lemma unat_At:
  assumes "slice_ok (s :: 'w::len word array_slice)" "i \<le> sl_size s"
  shows "unat (AtUnchecked s i) = unat (sl_array s) + i * unat (sl_element_size s)"
proof -
  have le: "i * unat (sl_element_size s) \<le> sl_size s * unat (sl_element_size s)"
    using assms(2) by (rule mult_le_mono1)
  then have fit: "unat (sl_array s) + i * unat (sl_element_size s) < 2 ^ LENGTH('w)"
    using assms(1) unfolding slice_ok_def by linarith
  have pos: "1 \<le> unat (sl_element_size s)"
    using assms(1) by (auto simp: slice_ok_def word_less_nat_alt)
  then have "i * 1 \<le> i * unat (sl_element_size s)" by (rule mult_le_mono2)
  then have "i < 2 ^ LENGTH('w)" using fit by linarith
  then have i: "unat (word_of_nat i :: 'w word) = i" by (simp add: unat_of_nat take_bit_nat_eq_self)
  show ?thesis
    unfolding AtUnchecked_def by (simp add: unat_word_ariths i mod_add_right_eq fit)
qed

lemma At_inj:
  assumes "slice_ok s" "i \<le> sl_size s" "j \<le> sl_size s" "AtUnchecked s i = AtUnchecked s j"
  shows "i = j"
proof -
  have "unat (sl_array s) + i * unat (sl_element_size s) = unat (sl_array s) + j * unat (sl_element_size s)"
    unfolding unat_At [OF assms(1,2), symmetric] unat_At [OF assms(1,3), symmetric] assms(4) ..
  moreover have "0 < unat (sl_element_size s)" using assms(1) by (auto simp: slice_ok_def word_less_nat_alt)
  ultimately show ?thesis by simp
qed

lemma At_Suc: "AtUnchecked s i + sl_element_size s = AtUnchecked s (Suc i)"
  by (simp add: AtUnchecked_def algebra_simps)

lemma walk_from:
  assumes ok: "slice_ok s" and "i + n = sl_size s"
  shows "slice_walk (Suc n) \<lparr> si_ptr = AtUnchecked s i, si_stride = sl_element_size s \<rparr> (sl_end s)
    = Some (map (AtUnchecked s) [i..<sl_size s])"
  using assms(2)
proof (induction n arbitrary: i)
  case 0
  then show ?case by (simp add: si_eq_def sl_end_def)
next
  case (Suc n)
  have ne: "AtUnchecked s i \<noteq> AtUnchecked s (sl_size s)"
    using At_inj [OF ok, of i "sl_size s"] Suc.prems by auto
  have "i < sl_size s" using Suc.prems by simp
  then have "[i..<sl_size s] = i # [Suc i..<sl_size s]" by (rule upt_conv_Cons)
  then show ?case
    using Suc.IH [of "Suc i"] Suc.prems ne by (simp add: si_eq_def sl_end_def si_inc_def At_Suc)
qed

lemma reverse_walk_from:
  assumes ok: "slice_ok s" and "i \<le> sl_size s"
  shows "reverse_walk (Suc i) \<lparr> si_ptr = AtUnchecked s i, si_stride = sl_element_size s \<rparr> (sl_rend s)
    = Some (rev (map (AtUnchecked s) [0..<i]))"
  using assms(2)
proof (induction i)
  case (Suc i)
  have "AtUnchecked s (Suc i) \<noteq> AtUnchecked s 0" using At_inj [OF ok, of "Suc i" 0] Suc.prems by auto
  moreover have "AtUnchecked s (Suc i) - sl_element_size s = AtUnchecked s i"
    by (simp flip: At_Suc)
  ultimately show ?case
    using Suc.IH Suc.prems by (simp add: si_eq_def sl_rend_def sl_begin_def ri_deref_def si_dec_def)
qed (simp add: si_eq_def sl_rend_def sl_begin_def)

text \<open>The loop over \<open>rbegin\<close> and \<open>rend\<close> visits the same elements backwards, its first being \<open>back\<close>.\<close>

lemma reverse_iteration:
  assumes "slice_ok s"
  shows "slice_reversed s = map_option rev (slice_elements s)"
    and "ri_deref (sl_rbegin s) = sl_back s"
proof -
  show "slice_reversed s = map_option rev (slice_elements s)"
    using reverse_walk_from [OF assms, of "sl_size s"] walk_from [OF assms, of 0 "sl_size s"]
    by (simp add: slice_reversed_def sl_rbegin_def sl_end_def slice_elements_def sl_begin_def)
  show "ri_deref (sl_rbegin s) = sl_back s"
    by (simp add: ri_deref_def sl_rbegin_def sl_end_def si_dec_def sl_back_def sl_index_def AtUnchecked_def
        algebra_simps)
qed

text \<open>Iterating over a slice visits the addresses of its elements, in order and once each, and
  ends; an element is contained and its offset is its index.\<close>

theorem slice_iteration:
  assumes ok: "slice_ok s"
  shows "slice_elements s = Some (map (AtUnchecked s) [0..<sl_size s]) \<and>
    distinct (map (AtUnchecked s) [0..<sl_size s]) \<and>
    (\<forall>i < sl_size s. sl_Contains s (AtUnchecked s i) \<and> unat (OffsetOf s (AtUnchecked s i)) = i)"
proof -
  have pos: "0 < unat (sl_element_size s)" using ok by (auto simp: slice_ok_def word_less_nat_alt)
  have "sl_Contains s (AtUnchecked s i) \<and> unat (OffsetOf s (AtUnchecked s i)) = i" if i: "i < sl_size s" for i
  proof -
    have u: "unat (AtUnchecked s i) = unat (sl_array s) + i * unat (sl_element_size s)"
      "unat (AtUnchecked s 0) = unat (sl_array s)"
      "unat (AtUnchecked s (sl_size s)) = unat (sl_array s) + sl_size s * unat (sl_element_size s)"
      using unat_At [OF ok, of i] unat_At [OF ok, of 0] unat_At [OF ok, of "sl_size s"] i by simp_all
    have le: "AtUnchecked s 0 \<le> AtUnchecked s i" by (simp add: word_le_nat_alt u)
    have d: "unat (AtUnchecked s i - AtUnchecked s 0) = i * unat (sl_element_size s)"
      using le by (simp add: unat_sub u)
    have "unat ((AtUnchecked s i - AtUnchecked s 0) mod sl_element_size s) = 0"
      by (simp add: unat_mod_distrib d)
    then have "(AtUnchecked s i - AtUnchecked s 0) mod sl_element_size s = 0" by (simp add: unat_eq_zero)
    moreover have "AtUnchecked s i < AtUnchecked s (sl_size s)"
      using i pos by (simp add: word_less_nat_alt u)
    moreover have "unat (OffsetOf s (AtUnchecked s i)) = i"
      using pos by (simp add: OffsetOf_def unat_div_distrib d)
    ultimately show ?thesis using le by (simp add: sl_Contains_def)
  qed
  moreover have "slice_elements s = Some (map (AtUnchecked s) [0..<sl_size s])"
    using walk_from [OF ok, of 0 "sl_size s"] by (simp add: slice_elements_def sl_begin_def)
  moreover have "distinct (map (AtUnchecked s) [0..<sl_size s])"
    by (auto simp: distinct_map inj_on_def dest!: At_inj [OF ok, rotated 2])
  ultimately show ?thesis by blast
qed

theorem slice_iteration_witness:
  "slice_elements (ArraySlice (0x1000 :: 64 word) 3 40) = Some [0x1000, 0x1028, 0x1050]"
proof -
  have "slice_ok (ArraySlice (0x1000 :: 64 word) 3 40)" by (simp add: slice_ok_def ArraySlice_def)
  moreover have "[0..<3] = [0, 1, 2 :: nat]" by code_simp
  ultimately show ?thesis
    using slice_iteration [of "ArraySlice (0x1000 :: 64 word) 3 40"]
    by (simp add: ArraySlice_def AtUnchecked_def)
qed

text \<open>Moving an iterator by \<open>n\<close> elements and back. The distance of two iterators is right when the
  first is the later one; the unsigned division makes it wrong the other way round, unless the
  stride is a power of two.\<close>

lemma si_plus_minus: "si_minus (si_plus i n) n = i" "si_dec (si_inc i) = i"
  by (simp_all add: si_minus_def si_plus_def si_dec_def si_inc_def)

lemma si_distance_negative:
  "si_distance (sl_begin (ArraySlice (0x1000 :: 64 word) 1 40)) (sl_end (ArraySlice 0x1000 1 40))
     \<noteq> - 1"
  by (simp add: si_distance_def sl_begin_def sl_end_def ArraySlice_def AtUnchecked_def)

end
