(* ===== verification/Hook_Handler.thy ===== *)
theory Hook_Handler
  imports Arch
begin

text \<open>
  include/utils/hook_helper.hpp: how a symbol of libart.so becomes a callable \<open>Function\<close>, a
  \<open>Field\<close> or an inline \<open>Hooker\<close>.

  \<^item> The variables: a \<open>Function\<close>, \<open>Field\<close> or \<open>Hooker\<close> is a type with static members, so
    its state is one entry per declared variable, named as in the source: \<open>hs_raw\<close> is
    \<open>inner_.raw_function_\<close> (\<open>raw_field_\<close>), \<open>hs_handle\<close> is \<open>handle_\<close>.
  \<^item> The client: \<open>init_info\<close> is \<open>InitInfo\<close>'s callbacks. The inline hooker is the client's code; it
    may answer differently each time, so it is a function of the calls made so far.
  \<^item> \<open>handler_any\<close> is \<open>operator()\<close>, \<open>handler_all\<close> is \<open>all\<close>, \<open>handler_dexfile\<close> is
    \<open>dexfile\<close>: variadic templates over lists of arguments, with the flag \<open>match_prefix\<close> an
    argument may be followed by.
\<close>

section \<open>The hash of a symbol\<close>

definition gnu_step :: "32 word \<Rightarrow> char \<Rightarrow> 32 word" where
  "gnu_step hash ch = hash + (push_bit 5 hash + word_of_nat (of_char ch))"

definition GetGnuHash :: "string \<Rightarrow> 32 word" where
  "GetGnuHash s = foldl gnu_step 5381 s"

section \<open>State and arguments\<close>

record hook_state =
  hs_raw :: "string \<Rightarrow> addr"
  hs_handle :: "string \<Rightarrow> addr"
  hs_calls :: "(addr \<times> addr) list"

definition hook_state_init :: hook_state where
  "hook_state_init = \<lparr> hs_raw = (\<lambda>_. 0), hs_handle = (\<lambda>_. 0), hs_calls = [] \<rparr>"

record init_info =
  inline_hooker :: "(addr \<times> addr) list \<Rightarrow> addr \<Rightarrow> addr \<Rightarrow> addr \<times> addr option"
  inline_unhooker :: "(addr \<Rightarrow> bool) option"
  art_symbol_resolver :: "string \<Rightarrow> 32 word \<Rightarrow> addr"
  art_symbol_prefix_resolver :: "(string \<Rightarrow> addr) option"
  dexfile_symbol_resolver :: "(string \<Rightarrow> 32 word \<Rightarrow> addr) option"

text \<open>An argument of the handler: a function or field, a hook on a symbol, a hook on a given
  function pointer. The replacement's address is the hooker's \<open>replace_\<close>.\<close>

datatype harg =
    HFun string string
  | HHook string string addr
  | HPtr addr string addr

section \<open>Operations\<close>

definition dlsym :: "init_info \<Rightarrow> string \<Rightarrow> bool \<Rightarrow> addr" where
  "dlsym info symb match_prefix =
     (let m = art_symbol_resolver info symb (GetGnuHash symb) in
      if m \<noteq> 0 then m
      else if match_prefix then
        (case art_symbol_prefix_resolver info of Some f \<Rightarrow> f symb | None \<Rightarrow> 0)
      else 0)"

definition dlsym_dexfile :: "init_info \<Rightarrow> string \<Rightarrow> addr" where
  "dlsym_dexfile info symb =
     (case dexfile_symbol_resolver info of Some f \<Rightarrow> f symb (GetGnuHash symb) | None \<Rightarrow> 0)"

text \<open>\<open>hook\<close>: the client's hooker may write the backup pointer of the variable \<open>v\<close>.\<close>

definition hook :: "init_info \<Rightarrow> string \<Rightarrow> addr \<Rightarrow> addr \<Rightarrow> hook_state \<Rightarrow> addr \<times> hook_state" where
  "hook info v original replace_fn H =
     (if original \<noteq> 0 then
        (let (h, bk) = inline_hooker info (hs_calls H) original replace_fn;
             H = H\<lparr> hs_calls := hs_calls H @ [(original, replace_fn)] \<rparr>
         in (h, case bk of Some b \<Rightarrow> H\<lparr> hs_raw := (hs_raw H)(v := b) \<rparr> | None \<Rightarrow> H))
      else (0, H))"

definition install :: "init_info \<Rightarrow> string \<Rightarrow> addr \<Rightarrow> addr \<Rightarrow> hook_state \<Rightarrow> bool \<times> hook_state" where
  "install info v original replace_fn H =
     (let (h, H) = hook info v original replace_fn H in
      if h \<noteq> 0 then (True, H\<lparr> hs_handle := (hs_handle H)(v := h) \<rparr>) else (False, H))"

fun handle :: "init_info \<Rightarrow> harg \<times> bool \<Rightarrow> hook_state \<Rightarrow> bool \<times> hook_state" where
  "handle info (HFun v symb, match_prefix) H =
     (let f = dlsym info symb match_prefix
      in (f \<noteq> 0, H\<lparr> hs_raw := (hs_raw H)(v := f) \<rparr>))"
| "handle info (HHook v symb replace_fn, match_prefix) H =
     install info v (dlsym info symb match_prefix) replace_fn H"
| "handle info (HPtr original v replace_fn, _) H = install info v original replace_fn H"

fun handler_any :: "init_info \<Rightarrow> (harg \<times> bool) list \<Rightarrow> hook_state \<Rightarrow> bool \<times> hook_state" where
  "handler_any info [] H = (False, H)"
| "handler_any info (a # as) H =
     (let (ok, H) = handle info a H in if ok then (True, H) else handler_any info as H)"

fun handler_all :: "init_info \<Rightarrow> (harg \<times> bool) list \<Rightarrow> hook_state \<Rightarrow> bool \<times> hook_state" where
  "handler_all info [] H = (True, H)"
| "handler_all info (a # as) H =
     (let (ok, H) = handle info a H in if ok then handler_all info as H else (False, H))"

text \<open>\<open>dexfile\<close> takes pairs of a variable and its symbol.\<close>

definition handle_dexfile :: "init_info \<Rightarrow> string \<times> string \<Rightarrow> hook_state \<Rightarrow> bool \<times> hook_state" where
  "handle_dexfile info = (\<lambda>(v, symb) H.
     (let f = dlsym_dexfile info symb in (f \<noteq> 0, H\<lparr> hs_raw := (hs_raw H)(v := f) \<rparr>)))"

fun handler_dexfile :: "init_info \<Rightarrow> (string \<times> string) list \<Rightarrow> hook_state \<Rightarrow> bool \<times> hook_state" where
  "handler_dexfile info [] H = (False, H)"
| "handler_dexfile info (a # as) H =
     (let (ok, H) = handle_dexfile info a H in if ok then (True, H) else handler_dexfile info as H)"

definition unhook :: "init_info \<Rightarrow> string \<Rightarrow> hook_state \<Rightarrow> bool \<times> hook_state" where
  "unhook info v H =
     (case inline_unhooker info of
        Some f \<Rightarrow> if hs_handle H v \<noteq> 0 \<and> f (hs_handle H v)
          then (True, H\<lparr> hs_handle := (hs_handle H)(v := 0) \<rparr>) else (False, H)
      | None \<Rightarrow> (False, H))"

text \<open>\<open>operator bool\<close> of a \<open>Function\<close> looks at the raw pointer, of a \<open>Hooker\<close> at the handle.\<close>

definition raw_set :: "hook_state \<Rightarrow> string \<Rightarrow> bool" where
  "raw_set H v \<longleftrightarrow> hs_raw H v \<noteq> 0"

definition handle_set :: "hook_state \<Rightarrow> string \<Rightarrow> bool" where
  "handle_set H v \<longleftrightarrow> hs_handle H v \<noteq> 0"

abbreviation one :: "harg \<Rightarrow> (harg \<times> bool) list" where
  "one a \<equiv> [(a, False)]"

section \<open>What the handler does\<close>

fun harg_var :: "harg \<Rightarrow> string" where
  "harg_var (HFun v _) = v" | "harg_var (HHook v _ _) = v" | "harg_var (HPtr _ v _) = v"

fun harg_ready :: "hook_state \<Rightarrow> harg \<Rightarrow> bool" where
  "harg_ready H (HFun v _) = raw_set H v"
| "harg_ready H (HHook v _ _) = handle_set H v"
| "harg_ready H (HPtr _ v _) = handle_set H v"

lemma install_True: "install info v original r H = (True, H') \<Longrightarrow> handle_set H' v"
  by (auto simp: install_def handle_set_def split: prod.splits if_splits)

lemma install_frame:
  assumes "install info v original r H = (ok, H')"
  shows "w \<noteq> v \<Longrightarrow> hs_raw H' w = hs_raw H w" "w \<noteq> v \<Longrightarrow> hs_handle H' w = hs_handle H w"
    "\<not> ok \<Longrightarrow> hs_handle H' = hs_handle H"
    "\<exists>new. hs_calls H' = hs_calls H @ new \<and> length new \<le> 1"
  using assms
  by (auto simp: install_def hook_def Let_def split: prod.splits if_splits option.splits)

lemma handle_True: "handle info (a, p) H = (True, H') \<Longrightarrow> harg_ready H' a"
  by (cases a) (auto simp: raw_set_def Let_def dest: install_True)

lemma handle_frame:
  assumes "handle info (a, p) H = (ok, H')" and "w \<noteq> harg_var a"
  shows "hs_raw H' w = hs_raw H w" "hs_handle H' w = hs_handle H w"
  using assms by (cases a; auto simp: Let_def dest: install_frame(1,2))+

lemma handle_False_handle: "handle info (a, p) H = (False, H') \<Longrightarrow> hs_handle H' = hs_handle H"
  by (cases a) (auto simp: Let_def dest: install_frame(3))

lemma handler_any_frame:
  "handler_any info as H = (ok, H') \<Longrightarrow> w \<notin> (harg_var \<circ> fst) ` set as \<Longrightarrow>
   hs_raw H' w = hs_raw H w \<and> hs_handle H' w = hs_handle H w"
proof (induction info as H arbitrary: H' rule: handler_any.induct)
  case (2 info a as H)
  obtain ok1 H1 where h: "handle info a H = (ok1, H1)" by (metis prod.exhaust)
  moreover obtain x p where a: "a = (x, p)" by (metis prod.exhaust)
  ultimately have f: "hs_raw H1 w = hs_raw H w" "hs_handle H1 w = hs_handle H w"
    using handle_frame [of info x p H ok1 H1 w] 2(3) by auto
  show ?case
  proof (cases ok1)
    case True
    then show ?thesis using 2 h f by simp
  next
    case False
    then show ?thesis using "2.IH" [OF h [symmetric] refl _ _] 2 h f by simp
  qed
qed simp

lemma handler_any_False_handle: "handler_any info as H = (False, H') \<Longrightarrow> hs_handle H' = hs_handle H"
proof (induction info as H arbitrary: H' rule: handler_any.induct)
  case (2 info a as H)
  then show ?case
    by (cases a) (auto simp: Let_def split: prod.splits if_splits dest: handle_False_handle)
qed simp

lemma handler_any_ready: "handler_any info as H = (True, H') \<Longrightarrow> \<exists>(a, p) \<in> set as. harg_ready H' a"
proof (induction info as H arbitrary: H' rule: handler_any.induct)
  case (2 info x as H)
  obtain a p where x: "x = (a, p)" by (metis prod.exhaust)
  show ?case
  proof (cases "fst (handle info x H)")
    case True
    then have "handle info (a, p) H = (True, H')" using 2 x by (auto simp: Let_def split: prod.splits)
    then show ?thesis using handle_True x by fastforce
  next
    case False
    then have "handler_any info as (snd (handle info x H)) = (True, H')"
      using 2(2) by (auto simp: Let_def split: prod.splits)
    then show ?thesis using "2.IH" [OF prod.collapse refl] False by auto
  qed
qed simp

text \<open>Installed hooks stay installed.\<close>

definition handles_kept :: "hook_state \<Rightarrow> hook_state \<Rightarrow> bool" where
  "handles_kept H H' \<longleftrightarrow> (\<forall>v. handle_set H v \<longrightarrow> handle_set H' v)"

lemma handles_kept_refl [simp]: "handles_kept H H"
  by (simp add: handles_kept_def)

lemma handles_kept_trans: "handles_kept H H' \<Longrightarrow> handles_kept H' H'' \<Longrightarrow> handles_kept H H''"
  by (simp add: handles_kept_def)

lemma handle_kept: "handle info (a, p) H = (ok, H') \<Longrightarrow> handles_kept H H'"
proof -
  assume h: "handle info (a, p) H = (ok, H')"
  have "handle_set H' w" if w: "handle_set H w" for w
  proof (cases "w = harg_var a")
    case False
    then show ?thesis using handle_frame(2) [OF h False] w by (simp add: handle_set_def)
  next
    case True
    show ?thesis
    proof (cases ok)
      case True
      then show ?thesis
        using handle_True [of info a p H H'] h w \<open>w = harg_var a\<close>
        by (cases a) (auto simp: Let_def handle_set_def)
    next
      case False
      then show ?thesis using handle_False_handle [of info a p H H'] h w by (simp add: handle_set_def)
    qed
  qed
  then show "handles_kept H H'" by (simp add: handles_kept_def)
qed

lemma handler_any_kept: "handles_kept H (snd (handler_any info as H))"
proof (induction info as H rule: handler_any.induct)
  case (2 info a as H)
  obtain ok H1 where h: "handle info a H = (ok, H1)" by (metis prod.exhaust)
  have k: "handles_kept H H1" using handle_kept [of info "fst a" "snd a"] h by simp
  show ?case
  proof (cases ok)
    case False
    then show ?thesis using "2.IH" [OF h [symmetric] refl] h k by (auto intro: handles_kept_trans)
  qed (simp add: h k)
qed simp

lemma handler_all_kept: "handles_kept H (snd (handler_all info as H))"
proof (induction info as H rule: handler_all.induct)
  case (2 info a as H)
  obtain ok H1 where h: "handle info a H = (ok, H1)" by (metis prod.exhaust)
  have k: "handles_kept H H1" using handle_kept [of info "fst a" "snd a"] h by simp
  show ?case
  proof (cases ok)
    case True
    then show ?thesis using "2.IH" [OF h [symmetric] refl] h k by (auto intro: handles_kept_trans)
  qed (simp add: h k)
qed simp

fun is_hook :: "harg \<Rightarrow> bool" where
  "is_hook (HFun _ _) = False" | "is_hook _ = True"

lemma harg_ready_kept: "is_hook a \<Longrightarrow> handles_kept H H' \<Longrightarrow> harg_ready H a \<Longrightarrow> harg_ready H' a"
  by (cases a) (auto simp: handles_kept_def)

text \<open>When \<open>all\<close> accepts a list of hooks, every one of them is installed.\<close>

lemma handler_all_True:
  "handler_all info as H = (True, H') \<Longrightarrow> \<forall>(a, p) \<in> set as. is_hook a \<Longrightarrow>
   \<forall>(a, p) \<in> set as. harg_ready H' a"
proof (induction info as H rule: handler_all.induct)
  case (2 info x as H)
  obtain ok H1 where h: "handle info x H = (ok, H1)" by (metis prod.exhaust)
  obtain a p where x: "x = (a, p)" by (metis prod.exhaust)
  have ok: "ok" and rest: "handler_all info as H1 = (True, H')" using 2(2) h by (simp_all split: if_splits)
  have "harg_ready H1 a" using handle_True [of info a p H H1] h ok x by simp
  moreover have "handles_kept H1 H'" using handler_all_kept [of H1 info as] rest by simp
  ultimately have "harg_ready H' a" using harg_ready_kept 2(3) x by auto
  then show ?case using "2.IH" [OF h [symmetric] refl ok rest] 2(3) x by auto
qed simp

text \<open>Alternatives: when the handler accepts a list of alternatives, exactly one of them was
  installed, the first that works: all before it failed and installed no hook, all after it were
  not tried.\<close>

theorem handler_any_first:
  assumes "handler_any info as H = (True, H')"
  shows "\<exists>pre a p post H1. as = pre @ (a, p) # post \<and> handler_any info pre H = (False, H1) \<and>
    handle info (a, p) H1 = (True, H') \<and> harg_ready H' a \<and> hs_handle H1 = hs_handle H \<and>
    (\<forall>w. w \<noteq> harg_var a \<longrightarrow> hs_handle H' w = hs_handle H w)"
  using assms
proof (induction as arbitrary: H)
  case (Cons x as)
  obtain ok1 H1 where h: "handle info x H = (ok1, H1)" by (metis prod.exhaust)
  obtain a p where x: "x = (a, p)" by (metis prod.exhaust)
  show ?case
  proof (cases ok1)
    case True
    then have "handle info (a, p) H = (True, H')" using Cons.prems h x by simp
    moreover from this have "harg_ready H' a" by (rule handle_True)
    ultimately show ?thesis
      using handle_frame(2) [of info a p H True H'] x by (intro exI [of _ "[]"]) auto
  next
    case False
    then have "handler_any info as H1 = (True, H')" using Cons.prems h by simp
    from Cons.IH [OF this] obtain pre b q post H2 where
      b: "as = pre @ (b, q) # post" "handler_any info pre H1 = (False, H2)"
        "handle info (b, q) H2 = (True, H')" "harg_ready H' b" "hs_handle H2 = hs_handle H1"
        "\<forall>w. w \<noteq> harg_var b \<longrightarrow> hs_handle H' w = hs_handle H1 w" by blast
    have "hs_handle H1 = hs_handle H" using handle_False_handle [of info a p H H1] h x False by simp
    moreover have "handler_any info (x # pre) H = (False, H2)" using h False b(2) by simp
    ultimately show ?thesis
      using b by (intro exI [of _ "x # pre"] exI [of _ b]) auto
  qed
qed simp

definition demo_info :: init_info where
  "demo_info = \<lparr> inline_hooker = (\<lambda>calls original r. (original + 1, Some (original + 2))),
     inline_unhooker = None,
     art_symbol_resolver = (\<lambda>symb h. if symb = ''exit'' \<and> h = 0x7c967e3f then 4096 else 0),
     art_symbol_prefix_resolver = None, dexfile_symbol_resolver = None \<rparr>"

lemma GetGnuHash_exit: "GetGnuHash ''exit'' = 0x7c967e3f"
  by (simp add: GetGnuHash_def gnu_step_def)

theorem handler_any_first_witness:
  "\<exists>H'. handler_any demo_info [(HHook ''a_'' ''abort'' 64, False), (HHook ''b_'' ''exit'' 72, False)]
      hook_state_init = (True, H') \<and> handle_set H' ''b_'' \<and> \<not> handle_set H' ''a_''"
proof -
  let ?as = "[(HHook ''a_'' ''abort'' 64, False), (HHook ''b_'' ''exit'' 72, False)]"
  let ?H = "(snd (handler_any demo_info ?as hook_state_init))"
  have e: "handler_any demo_info ?as hook_state_init = (True, ?H)"
    "handle_set ?H ''b_''" "\<not> handle_set ?H ''a_''"
    by (simp_all add: demo_info_def dlsym_def install_def hook_def GetGnuHash_exit handle_set_def
          hook_state_init_def)
  from handler_any_first [OF e(1)] e show ?thesis by blast
qed

text \<open>The polynomial the hash of a name computes, its last character first.\<close>

fun djb_poly :: "string \<Rightarrow> nat" where
  "djb_poly [] = 5381"
| "djb_poly (c # cs) = of_char c + 33 * djb_poly cs"

lemma gnu_step_33: "gnu_step h c = 33 * h + word_of_nat (of_char c)"
proof -
  have "push_bit 5 h = 32 * h" by (simp add: push_bit_eq_mult)
  then show ?thesis by (simp add: gnu_step_def)
qed

lemma GetGnuHash_poly: "foldl gnu_step (word_of_nat (djb_poly p)) s = word_of_nat (djb_poly (rev s @ p))"
proof (induction s arbitrary: p)
  case (Cons c s)
  have "gnu_step (word_of_nat (djb_poly p)) c = word_of_nat (djb_poly (c # p))"
    by (simp add: gnu_step_33)
  then show ?case using Cons.IH [of "c # p"] by simp
qed simp

text \<open>The hash handed to the symbol resolver is the one dynamic linkers use in \<open>DT_GNU_HASH\<close>: the
  polynomial in 33 over the name's bytes that starts from 5381, modulo \<open>2 ^ 32\<close>.\<close>

theorem GetGnuHash_correct: "unat (GetGnuHash s) = djb_poly (rev s) mod 2 ^ 32"
proof -
  have "GetGnuHash s = word_of_nat (djb_poly (rev s))"
    using GetGnuHash_poly [of "[]" s] by (simp add: GetGnuHash_def)
  then show ?thesis by (simp add: unat_of_nat take_bit_nat_def)
qed

end
