(* ===== verification/Method_Set.thy ===== *)
theory Method_Set
  imports Art_Method
begin

text \<open>
  Sets of methods. The library's hooks change the entry points and the data of several methods in
  turn; the facts here are what their proofs use: an update of one method of a set of pairwise
  separate methods seen at any method of the set, and what an operation may change.
\<close>

named_theorems method_upd \<open>fields of a method after an update of another or the same\<close>

definition separate :: "art_statics \<Rightarrow> addr set \<Rightarrow> bool" where
  "separate S A \<longleftrightarrow> wf_statics S \<and> (\<forall>x\<in>A. \<forall>y\<in>A. x \<noteq> y \<longrightarrow> apart S x y)"

lemma separate_wf: "separate S A \<Longrightarrow> wf_statics S"
  by (simp add: separate_def)

lemma separate_apart: "separate S A \<Longrightarrow> x \<in> A \<Longrightarrow> y \<in> A \<Longrightarrow> x \<noteq> y \<Longrightarrow> apart S x y"
  by (simp add: separate_def)

lemma separate_mono: "separate S A \<Longrightarrow> B \<subseteq> A \<Longrightarrow> separate S B"
  by (auto simp: separate_def)

lemma GetEntryPoint_ptr [simp, intro]: "is_ptr S (GetEntryPoint S m a)"
  by (simp add: is_ptr_def GetEntryPoint_def load_bound)

lemma GetData_ptr [simp, intro]: "is_ptr S (GetData S m a)"
  by (simp add: is_ptr_def GetData_def load_bound)

section \<open>One update\<close>

lemma entry_SetEntryPoint [method_upd]:
  assumes "separate S A" "a \<in> A" "b \<in> A" "is_ptr S v"
  shows "GetEntryPoint S (SetEntryPoint S a v m) b = (if b = a then v else GetEntryPoint S m b)"
  using assms frame_apart_fields(2) [OF _ SetEntryPoint_frame, of S a b]
  by (auto simp: separate_wf entryf.get_put dest: separate_apart)

lemma SetEntryPoint_own:
  assumes "wf_statics S"
  shows "GetData S (SetEntryPoint S a v m) a = GetData S m a"
    "GetAccessFlags S (SetEntryPoint S a v m) a = GetAccessFlags S m a"
    "GetDeclaringClass S (SetEntryPoint S a v m) a = GetDeclaringClass S m a"
  using assms
  by (auto simp: SetEntryPoint_def GetData_def GetAccessFlags_def GetDeclaringClass_def Let_def
        wf_statics_def load_store_disj disj_ranges_sym)

lemma other_SetEntryPoint [method_upd]:
  assumes "separate S A" "a \<in> A" "b \<in> A"
  shows "GetData S (SetEntryPoint S a v m) b = GetData S m b"
    "GetAccessFlags S (SetEntryPoint S a v m) b = GetAccessFlags S m b"
    "GetDeclaringClass S (SetEntryPoint S a v m) b = GetDeclaringClass S m b"
  using assms frame_apart_fields [OF _ SetEntryPoint_frame, of S a b]
  by (cases "b = a"; auto simp: separate_wf SetEntryPoint_own dest: separate_apart)+

lemma SetData_frame: "wf_statics S \<Longrightarrow> same_outside a (art_method_size S) m (SetData S a v m)"
  by (rule dataf.put_frame)

lemma data_SetData [method_upd]:
  assumes "separate S A" "a \<in> A" "b \<in> A" "is_ptr S v"
  shows "GetData S (SetData S a v m) b = (if b = a then v else GetData S m b)"
  using assms frame_apart_fields(3) [OF _ SetData_frame, of S a b]
  by (auto simp: separate_wf dataf.get_put dest: separate_apart)

lemma SetData_own:
  assumes "wf_statics S"
  shows "GetEntryPoint S (SetData S a v m) a = GetEntryPoint S m a"
    "GetAccessFlags S (SetData S a v m) a = GetAccessFlags S m a"
    "GetDeclaringClass S (SetData S a v m) a = GetDeclaringClass S m a"
  using assms
  by (auto simp: SetData_def GetEntryPoint_def GetAccessFlags_def GetDeclaringClass_def
        wf_statics_def load_store_disj disj_ranges_sym)

lemma other_SetData [method_upd]:
  assumes "separate S A" "a \<in> A" "b \<in> A"
  shows "GetEntryPoint S (SetData S a v m) b = GetEntryPoint S m b"
    "GetAccessFlags S (SetData S a v m) b = GetAccessFlags S m b"
    "GetDeclaringClass S (SetData S a v m) b = GetDeclaringClass S m b"
  using assms frame_apart_fields [OF _ SetData_frame, of S a b]
  by (cases "b = a"; auto simp: separate_wf SetData_own dest: separate_apart)+

section \<open>What an operation may change\<close>

text \<open>\<open>touches S A B m m'\<close>: of the methods \<open>A\<close>, an operation that took \<open>m\<close> to \<open>m'\<close> changed fields of
  those in \<open>B\<close> only.\<close>

definition same_method :: "art_statics \<Rightarrow> memory \<Rightarrow> memory \<Rightarrow> addr \<Rightarrow> bool" where
  "same_method S m m' a \<longleftrightarrow> GetEntryPoint S m' a = GetEntryPoint S m a \<and> GetData S m' a = GetData S m a \<and>
     GetAccessFlags S m' a = GetAccessFlags S m a \<and> GetDeclaringClass S m' a = GetDeclaringClass S m a"

definition touches :: "art_statics \<Rightarrow> addr set \<Rightarrow> addr set \<Rightarrow> memory \<Rightarrow> memory \<Rightarrow> bool" where
  "touches S A B m m' \<longleftrightarrow> (\<forall>a \<in> A - B. same_method S m m' a)"

lemma same_method_refl [simp]: "same_method S m m a"
  by (simp add: same_method_def)

lemma same_method_trans: "same_method S m m' a \<Longrightarrow> same_method S m' m'' a \<Longrightarrow> same_method S m m'' a"
  by (simp add: same_method_def)

lemma touches_refl [simp]: "touches S A B m m"
  by (simp add: touches_def)

lemma touches_trans: "touches S A B m m' \<Longrightarrow> touches S A B m' m'' \<Longrightarrow> touches S A B m m''"
  by (auto simp: touches_def intro: same_method_trans)

lemma touches_mono: "touches S A B m m' \<Longrightarrow> B \<subseteq> C \<Longrightarrow> touches S A C m m'"
  by (auto simp: touches_def)

lemma touches_frame:
  assumes "separate S A" "a \<in> A" "same_outside a (art_method_size S) m m'"
  shows "touches S A {a} m m'"
  using assms frame_apart_fields [OF separate_wf [OF assms(1)] assms(3)]
  by (auto simp: touches_def same_method_def dest: separate_apart)

lemma touches_SetEntryPoint: "separate S A \<Longrightarrow> a \<in> A \<Longrightarrow> touches S A {a} m (SetEntryPoint S a v m)"
  by (rule touches_frame) (simp_all add: SetEntryPoint_frame separate_wf)

lemma touches_SetData: "separate S A \<Longrightarrow> a \<in> A \<Longrightarrow> touches S A {a} m (SetData S a v m)"
  by (rule touches_frame) (simp_all add: SetData_frame separate_wf)

lemma touches_flags_only: "separate S A \<Longrightarrow> a \<in> A \<Longrightarrow> flags_only S a m m' \<Longrightarrow> touches S A {a} m m'"
  by (rule touches_frame) (simp_all add: flags_only_frame separate_wf)

lemma touchesD:
  assumes "touches S A B m m'" "a \<in> A" "a \<notin> B"
  shows "GetEntryPoint S m' a = GetEntryPoint S m a" "GetData S m' a = GetData S m a"
    "GetAccessFlags S m' a = GetAccessFlags S m a" "GetDeclaringClass S m' a = GetDeclaringClass S m a"
  using assms by (simp_all add: touches_def same_method_def)

lemma IsNative_upd [method_upd]:
  assumes "separate S A" "a \<in> A" "b \<in> A"
  shows "IsNative S (SetEntryPoint S a v m) b = IsNative S m b"
    "IsNative S (SetData S a v m) b = IsNative S m b"
  by (simp_all add: IsNative_def other_SetEntryPoint(2) [OF assms] other_SetData(2) [OF assms])

section \<open>The methods of a registry\<close>

text \<open>The hooked targets and their backups; a backup is never itself hooked, which \<open>HookMethod\<close>
  checks (\<open>IsHooked(target) || IsBackup(target)\<close>).\<close>

definition targets :: "registry \<Rightarrow> addr set" where
  "targets R = dom (hooked_methods R)"

definition backups :: "registry \<Rightarrow> addr set" where
  "backups R = dom (backuped_methods R)"

definition reg_ok :: "registry \<Rightarrow> bool" where
  "reg_ok R \<longleftrightarrow> reg_inv R \<and> targets R \<inter> backups R = {}"

lemma IsHooked_target:
  assumes "reg_ok R" "t \<in> targets R"
  shows "IsHooked R t \<noteq> 0 \<and> IsHooked R t \<in> backups R"
proof -
  have R: "reg_inv R" using assms(1) by (simp add: reg_ok_def)
  obtain r where r: "hooked_methods R t = Some r" using assms(2) by (auto simp: targets_def)
  have b: "backuped_methods R (hr_backup r) = Some t" by (rule reg_inv_hooked [OF R r])
  moreover have "backuped_methods R 0 = None" using R by (simp add: reg_inv_def)
  ultimately have "hr_backup r \<noteq> 0" by (metis option.distinct(1))
  with r b show ?thesis by (auto simp: IsHooked_def backups_def)
qed

lemma IsHooked_nontarget: "t \<notin> targets R \<Longrightarrow> IsHooked R t = 0"
  by (auto simp: targets_def IsHooked_def split: option.split)

lemma IsHooked_iff: "reg_ok R \<Longrightarrow> IsHooked R t \<noteq> 0 \<longleftrightarrow> t \<in> targets R"
  by (cases "t \<in> targets R") (auto dest: IsHooked_target simp: IsHooked_nontarget)

lemma IsHooked_inj:
  assumes "reg_ok R" "t \<in> targets R" "u \<in> targets R" "IsHooked R t = IsHooked R u"
  shows "t = u"
proof -
  have "reg_inv R" using assms(1) by (simp add: reg_ok_def)
  then have "t = IsBackup R (IsHooked R t)" "u = IsBackup R (IsHooked R u)"
    using IsHooked_target [OF assms(1,2)] IsHooked_target [OF assms(1,3)]
    by (auto intro!: IsBackup_IsHooked [symmetric])
  then show ?thesis using assms(4) by metis
qed

lemma backup_not_target: "reg_ok R \<Longrightarrow> b \<in> backups R \<Longrightarrow> b \<notin> targets R"
  by (auto simp: reg_ok_def)

lemma IsHooked_neq_target: "reg_ok R \<Longrightarrow> t \<in> targets R \<Longrightarrow> u \<in> targets R \<Longrightarrow> IsHooked R t \<noteq> u"
  using IsHooked_target [of R t] backup_not_target [of R "IsHooked R t"] by auto

end
