(* ===== verification/Jni_Env.thy ===== *)
theory Jni_Env
  imports Hook_Handler Method_Set
begin

text \<open>
  The interface to the Java side.

  \<open>jni_env\<close> stands for the functions of \<open>JNIEnv\<close> the library calls to look things up. They are the
  virtual machine's code: each is a function of the handles it is given, 0 where JNI returns a
  null reference. References, classes, method and field ids are addresses.
\<close>

record jni_env =
  jni_FindClass :: "string \<Rightarrow> addr"
  jni_GetMethodID :: "addr \<Rightarrow> string \<Rightarrow> string \<Rightarrow> addr"
  jni_GetStaticMethodID :: "addr \<Rightarrow> string \<Rightarrow> string \<Rightarrow> addr"
  jni_GetFieldID :: "addr \<Rightarrow> string \<Rightarrow> string \<Rightarrow> addr"
  jni_GetStaticFieldID :: "addr \<Rightarrow> string \<Rightarrow> string \<Rightarrow> addr"
  jni_GetStaticObjectField :: "addr \<Rightarrow> addr \<Rightarrow> addr"
  jni_GetSuperclass :: "addr \<Rightarrow> addr"
  jni_ToReflectedField :: "addr \<Rightarrow> addr \<Rightarrow> addr"
  jni_ToReflectedMethod :: "addr \<Rightarrow> addr \<Rightarrow> bool \<Rightarrow> addr"
  jni_FromReflectedMethod :: "addr \<Rightarrow> addr"
  jni_GetLongField :: "addr \<Rightarrow> addr \<Rightarrow> nat"
  jni_GetIntField :: "addr \<Rightarrow> addr \<Rightarrow> 32 word"
  jni_CallObjectMethod :: "addr \<Rightarrow> addr \<Rightarrow> addr"
  jni_CallLongMethod :: "addr \<Rightarrow> addr \<Rightarrow> addr \<Rightarrow> nat"
  jni_CallIntMethod :: "addr \<Rightarrow> addr \<Rightarrow> addr \<Rightarrow> int"
  jni_CallStaticObjectMethod :: "addr \<Rightarrow> addr \<Rightarrow> addr"
  jni_CallNonvirtualBooleanMethod :: "addr \<Rightarrow> addr \<Rightarrow> addr \<Rightarrow> bool"
  jni_AllocObject :: "addr \<Rightarrow> addr"
  jni_array :: "addr \<Rightarrow> addr list"
  jni_IsInstanceOf :: "addr \<Rightarrow> addr \<Rightarrow> bool"
  jni_IsAssignableFrom :: "addr \<Rightarrow> addr \<Rightarrow> bool"
  jni_RegisterNatives_fn :: addr
  jni_UnregisterNatives_fn :: addr
  jni_GetJavaVM :: addr
  jni_Exception :: "memory \<Rightarrow> addr"

end
