(* ===== verification/Reflection.thy ===== *)
theory Reflection
  imports Jni_Env Object_Collections
begin

text \<open>
  reflection.cxx: the method and field ids the library looks up once (\<open>InitJNI\<close>), the classes it
  keeps as indices into one array of global references (\<open>GlobalRef\<close>, a client of the object
  list), the shorty of a reflected method, and the boxing of primitive values (\<open>wrapper\<close>).

  The global variables are maps from their names: \<open>rf_ids\<close> for ids, \<open>rf_refs\<close> for the indices of
  the \<open>GlobalRef\<close>s, which start at \<open>-1\<close>.
\<close>

record reflection =
  rf_ids :: "string \<Rightarrow> addr"
  rf_refs :: "string \<Rightarrow> int"
  rf_globals :: "addr jlist"

definition reflection_init :: reflection where
  "reflection_init = \<lparr> rf_ids = (\<lambda>_. 0), rf_refs = (\<lambda>_. -1), rf_globals = jl_empty \<rparr>"

definition set_id :: "string \<Rightarrow> addr \<Rightarrow> reflection \<Rightarrow> reflection" where
  "set_id v i F = F\<lparr> rf_ids := (rf_ids F)(v := i) \<rparr>"

section \<open>Global references\<close>

definition as_object :: "addr \<Rightarrow> addr option" where
  "as_object o' = (if o' = 0 then None else Some o')"

definition GlobalRef_get :: "reflection \<Rightarrow> string \<Rightarrow> addr" where
  "GlobalRef_get F v = (case jl_get (rf_globals F) (rf_refs F v) of Some x \<Rightarrow> x | None \<Rightarrow> 0)"

text \<open>\<open>add\<close> of the list is total on a well-formed list (\<open>jl_add_correct\<close>), so its unreachable end
  leaves the state alone here.\<close>

definition GlobalRef_set :: "string \<Rightarrow> addr \<Rightarrow> reflection \<Rightarrow> reflection" where
  "GlobalRef_set v obj F =
     (if rf_refs F v < 0 then
        (case jl_add (as_object obj) (rf_globals F) of
           Some (index, l) \<Rightarrow> F\<lparr> rf_refs := (rf_refs F)(v := index), rf_globals := l \<rparr>
         | None \<Rightarrow> F)
      else F\<lparr> rf_globals := jl_update (rf_refs F v) (as_object obj) (rf_globals F) \<rparr>)"

text \<open>The references in use name different slots, which hold objects.\<close>

definition ref_inv :: "reflection \<Rightarrow> bool" where
  "ref_inv F \<longleftrightarrow> jl_wf (rf_globals F) \<and>
     (\<forall>v. rf_refs F v < 0 \<or> jl_get (rf_globals F) (rf_refs F v) \<noteq> None) \<and>
     (\<forall>v w. v \<noteq> w \<longrightarrow> rf_refs F v = rf_refs F w \<longrightarrow> rf_refs F v < 0)"

lemma ref_inv_init: "ref_inv reflection_init"
  using jl_wf_empty [where 'a = addr] by (simp add: ref_inv_def reflection_init_def jl_exact_def)

lemma jl_get_update:
  assumes "jl_wf l" "jl_get l i \<noteq> None"
  shows "jl_get (jl_update i x l) j = (if j = i then x else jl_get l j)"
    "jl_wf (jl_update i (Some y) l)"
proof -
  have i: "0 \<le> i" "i < int (jl_length l)" "jl_elems l ! nat i \<noteq> None"
    using assms(2) by (auto simp: jl_get_def split: if_splits)
  have len: "length (jl_elems l) = jl_length l" using assms(1) by (simp add: jl_wf_def)
  show "jl_get (jl_update i x l) j = (if j = i then x else jl_get l j)"
    using i len by (auto simp: jl_get_def jl_update_def jl_elems_def nth_list_update)
  have "nulls ((jl_elems l)[nat i := Some y]) = nulls (jl_elems l)"
    using i len by (intro nulls_update_same) auto
  then show "jl_wf (jl_update i (Some y) l)"
    using i assms(1) by (simp add: jl_update_def jl_wf_def jl_elems_def split: option.splits)
qed

lemma GlobalRef_set_spec:
  assumes inv: "ref_inv F" and obj: "obj \<noteq> 0"
  shows "GlobalRef_get (GlobalRef_set v obj F) w = (if w = v then obj else GlobalRef_get F w)
    \<and> ref_inv (GlobalRef_set v obj F)"
proof (cases "rf_refs F v < 0")
  case True
  have wf: "jl_wf (rf_globals F)" using inv by (simp add: ref_inv_def)
  obtain idx l where a: "jl_add (Some obj) (rf_globals F) = Some (int idx, l)" "idx < jl_length l"
    "jl_get (rf_globals F) (int idx) = None" "jl_get l (int idx) = Some obj"
    "\<And>j. j \<noteq> int idx \<Longrightarrow> jl_get l j = jl_get (rf_globals F) j" "jl_wf l"
    using jl_add_spec [OF wf, of obj] by blast
  have e: "GlobalRef_set v obj F = F\<lparr> rf_refs := (rf_refs F)(v := int idx), rf_globals := l \<rparr>"
    using True obj a(1) by (simp add: GlobalRef_set_def as_object_def)
  have neq: "rf_refs F u \<noteq> int idx" for u
  proof (cases "rf_refs F u < 0")
    case False
    then show ?thesis using inv a(3) unfolding ref_inv_def by metis
  qed simp
  have "GlobalRef_get (GlobalRef_set v obj F) w = (if w = v then obj else GlobalRef_get F w)"
    using a(4) a(5) [OF neq [of w]] by (simp add: e GlobalRef_get_def)
  moreover have "ref_inv (GlobalRef_set v obj F)"
    using inv a(4,6) a(5) [OF neq] neq neq [symmetric] unfolding ref_inv_def e by auto
  ultimately show ?thesis by simp
next
  case False
  have wf: "jl_wf (rf_globals F)" and used: "jl_get (rf_globals F) (rf_refs F v) \<noteq> None"
    using inv False by (auto simp: ref_inv_def)
  have e: "GlobalRef_set v obj F = F\<lparr> rf_globals := jl_update (rf_refs F v) (Some obj) (rf_globals F) \<rparr>"
    using False obj by (simp add: GlobalRef_set_def as_object_def)
  have neq: "w \<noteq> v \<Longrightarrow> rf_refs F w \<noteq> rf_refs F v" for w
    using inv False unfolding ref_inv_def by metis
  have "GlobalRef_get (GlobalRef_set v obj F) w = (if w = v then obj else GlobalRef_get F w)"
    using neq [of w] by (simp add: e GlobalRef_get_def jl_get_update(1) [OF wf used])
  moreover have "ref_inv (GlobalRef_set v obj F)"
    using inv neq by (simp add: ref_inv_def e jl_get_update [OF wf used])
  ultimately show ?thesis by simp
qed

text \<open>Setting a global reference to an object makes \<open>get\<close> return it, and changes what no other
  reference returns; the slots stay distinct.\<close>

theorem GlobalRef_set_get:
  assumes "ref_inv F" and "obj \<noteq> 0"
  shows "GlobalRef_get (GlobalRef_set v obj F) w = (if w = v then obj else GlobalRef_get F w)
    \<and> ref_inv (GlobalRef_set v obj F)"
  by (rule GlobalRef_set_spec [OF assms])

theorem GlobalRef_set_get_witness:
  "GlobalRef_get (GlobalRef_set ''b'' 9 (GlobalRef_set ''a'' 7 reflection_init)) ''a'' = 7"
proof -
  have i: "ref_inv (GlobalRef_set ''a'' 7 reflection_init)"
    and g: "GlobalRef_get (GlobalRef_set ''a'' 7 reflection_init) ''a'' = 7"
    using GlobalRef_set_get [OF ref_inv_init, of 7 "''a''" "''a''"] by simp_all
  show ?thesis using GlobalRef_set_get [OF i, of 9 "''b''" "''a''"] g by simp
qed

section \<open>InitJNI\<close>

text \<open>\<open>need v x k F\<close>: the pattern \<open>if (v = x; !v) return false;\<close>, \<open>check\<close> the same for a local.\<close>

definition need :: "string \<Rightarrow> addr \<Rightarrow> (reflection \<Rightarrow> bool \<times> reflection) \<Rightarrow> reflection \<Rightarrow> bool \<times> reflection" where
  "need v x k F = (let F = set_id v x F in if x = 0 then (False, F) else k F)"

definition check :: "addr \<Rightarrow> (addr \<Rightarrow> reflection \<Rightarrow> bool \<times> reflection) \<Rightarrow> reflection \<Rightarrow> bool \<times> reflection" where
  "check x k F = (if x = 0 then (False, F) else k x F)"

definition get_primitive_class :: "jni_env \<Rightarrow> addr \<Rightarrow> addr" where
  "get_primitive_class E wrapper_class =
     jni_GetStaticObjectField E wrapper_class
       (jni_GetStaticFieldID E wrapper_class ''TYPE'' ''Ljava/lang/Class;'')"

text \<open>One of the blocks for a primitive type: its wrapper class, the class the value method is looked
  up in (\<open>Number\<close> or the wrapper), and the names.\<close>

definition init_primitive ::
  "jni_env \<Rightarrow> string \<Rightarrow> addr \<Rightarrow> addr \<Rightarrow> string \<Rightarrow> string \<Rightarrow> string \<Rightarrow> string \<Rightarrow> reflection \<Rightarrow> reflection" where
  "init_primitive E prim wrapper_class value_class value_name value_sig valueOf_sig class_ref F =
     (let F = GlobalRef_set class_ref wrapper_class F;
          F = GlobalRef_set (''primitive_'' @ class_ref) (get_primitive_class E wrapper_class) F;
          F = set_id (prim @ ''_value_method'') (jni_GetMethodID E value_class value_name value_sig) F
      in set_id (prim @ ''_value_of_method'')
           (jni_GetStaticMethodID E wrapper_class ''valueOf'' valueOf_sig) F)"

definition init_primitives :: "jni_env \<Rightarrow> reflection \<Rightarrow> reflection" where
  "init_primitives E F =
     (let number_class = jni_FindClass E ''java/lang/Number'';
          boolean_class = jni_FindClass E ''java/lang/Boolean'';
          byte_class = jni_FindClass E ''java/lang/Byte'';
          short_class = jni_FindClass E ''java/lang/Short'';
          char_class = jni_FindClass E ''java/lang/Character'';
          int_class = jni_FindClass E ''java/lang/Integer'';
          float_class = jni_FindClass E ''java/lang/Float'';
          long_class = jni_FindClass E ''java/lang/Long'';
          double_class = jni_FindClass E ''java/lang/Double'';
          void_class = jni_FindClass E ''java/lang/Void'';
          F = init_primitive E ''boolean'' boolean_class boolean_class ''booleanValue'' ''()Z''
                ''(Z)Ljava/lang/Boolean;'' ''boolean_class_ref'' F;
          F = init_primitive E ''byte'' byte_class number_class ''byteValue'' ''()B''
                ''(B)Ljava/lang/Byte;'' ''byte_class_ref'' F;
          F = init_primitive E ''short'' short_class number_class ''shortValue'' ''()S''
                ''(S)Ljava/lang/Short;'' ''short_class_ref'' F;
          F = init_primitive E ''char'' char_class char_class ''charValue'' ''()C''
                ''(C)Ljava/lang/Character;'' ''char_class_ref'' F;
          F = init_primitive E ''int'' int_class number_class ''intValue'' ''()I''
                ''(I)Ljava/lang/Integer;'' ''int_class_ref'' F;
          F = init_primitive E ''float'' float_class number_class ''floatValue'' ''()F''
                ''(F)Ljava/lang/Float;'' ''float_class_ref'' F;
          F = init_primitive E ''long'' long_class number_class ''longValue'' ''()J''
                ''(J)Ljava/lang/Long;'' ''long_class_ref'' F;
          F = init_primitive E ''double'' double_class number_class ''doubleValue'' ''()D''
                ''(D)Ljava/lang/Double;'' ''double_class_ref'' F
      in GlobalRef_set ''primitive_void_class_ref'' (get_primitive_class E void_class) F)"

definition init_loaders ::
  "jni_env \<Rightarrow> int \<Rightarrow> (reflection \<Rightarrow> bool \<times> reflection) \<Rightarrow> reflection \<Rightarrow> bool \<times> reflection" where
  "init_loaders E sdk_int k =
     check (jni_FindClass E ''dalvik/system/PathClassLoader'') (\<lambda>path_class_loader F.
       need ''path_class_loader_init''
         (jni_GetMethodID E path_class_loader ''<init>'' ''(Ljava/lang/String;Ljava/lang/ClassLoader;)V'')
      (check (jni_FindClass E ''dalvik/system/DexFile'') (\<lambda>dex_file_class F.
       (let F = (if sdk_int \<ge> API_Q
                 then set_id ''dex_file_init_with_cl'' (jni_GetMethodID E dex_file_class ''<init>''
                   ''([Ljava/nio/ByteBuffer;Ljava/lang/ClassLoader;[Ldalvik/system/DexPathList$Element;)V'') F
                 else if sdk_int \<ge> API_O
                 then set_id ''dex_file_init''
                   (jni_GetMethodID E dex_file_class ''<init>'' ''(Ljava/nio/ByteBuffer;)V'') F
                 else F)
        in if sdk_int \<ge> API_O \<and> rf_ids F ''dex_file_init_with_cl'' = 0 \<and> rf_ids F ''dex_file_init'' = 0
           then (False, F)
           else need ''load_class''
             (jni_GetMethodID E dex_file_class ''loadClass''
               ''(Ljava/lang/String;Ljava/lang/ClassLoader;)Ljava/lang/Class;'')
           (check (jni_FindClass E ''java/lang/reflect/AccessibleObject'') (\<lambda>accessible_object.
            need ''set_accessible'' (jni_GetMethodID E accessible_object ''setAccessible'' ''(Z)V'') k))
           F)))
       (GlobalRef_set ''path_class_loader_ref'' path_class_loader F))"

definition init_class ::
  "jni_env \<Rightarrow> (reflection \<Rightarrow> bool \<times> reflection) \<Rightarrow> reflection \<Rightarrow> bool \<times> reflection" where
  "init_class E k =
     check (jni_FindClass E ''java/lang/Class'') (\<lambda>clazz.
       need ''class_get_class_loader''
         (jni_GetMethodID E clazz ''getClassLoader'' ''()Ljava/lang/ClassLoader;'')
      (need ''class_get_declared_constructors''
         (jni_GetMethodID E clazz ''getDeclaredConstructors'' ''()[Ljava/lang/reflect/Constructor;'')
      (need ''class_get_declared_methods''
         (jni_GetMethodID E clazz ''getDeclaredMethods'' ''()[Ljava/lang/reflect/Method;'')
      (need ''class_get_name'' (jni_GetMethodID E clazz ''getName'' ''()Ljava/lang/String;'')
      (need ''class_access_flags'' (jni_GetFieldID E clazz ''accessFlags'' ''I'') k)))))"

definition init_executable ::
  "jni_env \<Rightarrow> int \<Rightarrow> addr \<Rightarrow> addr \<Rightarrow> (reflection \<Rightarrow> bool \<times> reflection) \<Rightarrow> reflection \<Rightarrow> bool \<times> reflection" where
  "init_executable E sdk_int meth executable k =
     need ''method_get_name'' (jni_GetMethodID E executable ''getName'' ''()Ljava/lang/String;'')
    (need ''method_get_declaring_class''
       (jni_GetMethodID E executable ''getDeclaringClass'' ''()Ljava/lang/Class;'')
    (need ''method_get_parameter_types''
       (jni_GetMethodID E executable ''getParameterTypes'' ''()[Ljava/lang/Class;'')
    (need ''method_get_return_type''
       (jni_GetMethodID E meth ''getReturnType'' ''()Ljava/lang/Class;'')
    (if sdk_int \<ge> API_M
     then need ''method_access_flags_field'' (jni_GetFieldID E executable ''accessFlags'' ''I'')
         (need ''method_declaring_class_field''
           (jni_GetFieldID E executable ''declaringClass'' ''Ljava/lang/Class;'') k)
     else k))))"

definition InitJNI :: "jni_env \<Rightarrow> int \<Rightarrow> reflection \<Rightarrow> bool \<times> reflection" where
  "InitJNI E sdk_int =
     check (jni_FindClass E ''java/lang/reflect/Method'') (\<lambda>meth F.
       (let executable = jni_GetSuperclass E meth;
            F = GlobalRef_set ''executable_ref'' executable F
        in init_executable E sdk_int meth executable
            (init_class E (init_loaders E sdk_int (\<lambda>F.
              (let F = GlobalRef_set ''object_class_ref'' (jni_FindClass E ''java/lang/Object'') F;
                   F = GlobalRef_set ''proxy_class_ref'' (jni_FindClass E ''java/lang/reflect/Proxy'') F
               in (True, init_primitives E F))))) F))"

text \<open>The ids that are replaced by the backup's when one of these methods is hooked itself.\<close>

definition kInternalMethods :: "string list" where
  "kInternalMethods =
     [''method_get_name'', ''method_get_declaring_class'', ''class_get_name'', ''class_get_class_loader'',
      ''class_get_declared_constructors'', ''class_get_declared_methods'', ''dex_file_init'',
      ''dex_file_init_with_cl'', ''load_class'', ''set_accessible'', ''method_get_parameter_types'',
      ''method_get_return_type'', ''path_class_loader_init'', ''unsafe_get_int_method'',
      ''unsafe_put_int_method'']"

text \<open>\<open>std::apply\<close> over the tuple with \<open>||\<close>: the first variable that holds \<open>from_id\<close> gets \<open>to_id\<close>.\<close>

definition propagate_internal :: "addr \<Rightarrow> addr \<Rightarrow> reflection \<Rightarrow> reflection" where
  "propagate_internal from_id to_id F =
     (case find (\<lambda>v. rf_ids F v = from_id) kInternalMethods of
        Some v \<Rightarrow> set_id v to_id F | None \<Rightarrow> F)"

section \<open>The shorty of a reflected method\<close>

definition primitive_types :: "(string \<times> char) list" where
  "primitive_types =
     [(''primitive_int_class_ref'', CHR ''I''), (''primitive_long_class_ref'', CHR ''J''),
      (''primitive_float_class_ref'', CHR ''F''), (''primitive_double_class_ref'', CHR ''D''),
      (''primitive_boolean_class_ref'', CHR ''Z''), (''primitive_byte_class_ref'', CHR ''B''),
      (''primitive_char_class_ref'', CHR ''C''), (''primitive_short_class_ref'', CHR ''S''),
      (''primitive_void_class_ref'', CHR ''V'')]"

definition type_to_shorty :: "reflection \<Rightarrow> addr \<Rightarrow> char" where
  "type_to_shorty F type =
     (case find (\<lambda>(r, c). type = GlobalRef_get F r) primitive_types of
        Some (r, c) \<Rightarrow> c | None \<Rightarrow> CHR ''L'')"

definition GetReflectedMethodShorty :: "jni_env \<Rightarrow> reflection \<Rightarrow> addr \<Rightarrow> string" where
  "GetReflectedMethodShorty E F reflected_method =
     (let return_type = jni_CallObjectMethod E reflected_method (rf_ids F ''method_get_return_type'');
          parameter_types = jni_array E
            (jni_CallObjectMethod E reflected_method (rf_ids F ''method_get_parameter_types''))
      in type_to_shorty F return_type # map (type_to_shorty F) parameter_types)"

section \<open>Boxing\<close>

text \<open>A \<open>jvalue\<close> is a union of eight bytes; reading or writing one of its members touches as many low
  bytes as the member's type has. \<open>box\<close> is \<open>CallStaticObjectMethodA\<close> on \<open>valueOf\<close>, \<open>unbox\<close> the
  \<open>Call<Type>Method\<close> on the wrapper's value method.\<close>

type_synonym jvalue = "64 word"

definition jvalue_bits :: "char \<Rightarrow> nat" where
  "jvalue_bits type =
     (if type = CHR ''Z'' \<or> type = CHR ''B'' then 8
      else if type = CHR ''S'' \<or> type = CHR ''C'' then 16
      else if type = CHR ''I'' \<or> type = CHR ''F'' then 32 else 64)"

definition primitive_name :: "char \<Rightarrow> string option" where
  "primitive_name type =
     map_of [(CHR ''Z'', ''boolean''), (CHR ''B'', ''byte''), (CHR ''S'', ''short''), (CHR ''C'', ''char''),
             (CHR ''I'', ''int''), (CHR ''F'', ''float''), (CHR ''J'', ''long''), (CHR ''D'', ''double'')] type"

record boxing =
  box :: "addr \<Rightarrow> addr \<Rightarrow> jvalue \<Rightarrow> addr"
  unbox :: "addr \<Rightarrow> addr \<Rightarrow> jvalue"

text \<open>The overloads of \<open>Wrap\<close> for one primitive type, and \<open>Unwrap<Type>\<close>.\<close>

definition Wrap_prim :: "boxing \<Rightarrow> reflection \<Rightarrow> string \<Rightarrow> jvalue \<Rightarrow> addr" where
  "Wrap_prim B F prim v =
     box B (GlobalRef_get F (prim @ ''_class_ref'')) (rf_ids F (prim @ ''_value_of_method'')) v"

definition Unwrap_prim :: "boxing \<Rightarrow> reflection \<Rightarrow> string \<Rightarrow> addr \<Rightarrow> jvalue" where
  "Unwrap_prim B F prim wrapped = unbox B wrapped (rf_ids F (prim @ ''_value_method''))"

text \<open>The dispatching \<open>Wrap\<close> and \<open>Unwrap\<close>; \<open>None\<close> is \<open>std::abort()\<close>.\<close>

definition Wrap :: "boxing \<Rightarrow> reflection \<Rightarrow> char \<Rightarrow> jvalue \<Rightarrow> addr option" where
  "Wrap B F type value =
     (case primitive_name type of
        Some prim \<Rightarrow> Some (Wrap_prim B F prim (take_bit (jvalue_bits type) value))
      | None \<Rightarrow> if type = CHR ''V'' then Some 0 else None)"

definition Unwrap :: "boxing \<Rightarrow> reflection \<Rightarrow> char \<Rightarrow> jvalue \<Rightarrow> addr \<Rightarrow> jvalue option" where
  "Unwrap B F type value wrapped =
     (case primitive_name type of
        Some prim \<Rightarrow>
          (let b = jvalue_bits type
           in Some ((value AND NOT (mask b)) OR take_bit b (Unwrap_prim B F prim wrapped)))
      | None \<Rightarrow>
          if type = CHR ''L'' then Some (word_of_nat wrapped)
          else if type = CHR ''V'' then Some 0 else None)"

section \<open>What InitJNI establishes\<close>

lemma GlobalRef_get_set [simp]:
  "ref_inv F \<Longrightarrow> obj \<noteq> 0 \<Longrightarrow>
   GlobalRef_get (GlobalRef_set v obj F) w = (if w = v then obj else GlobalRef_get F w)"
  and ref_inv_set [simp]: "ref_inv F \<Longrightarrow> obj \<noteq> 0 \<Longrightarrow> ref_inv (GlobalRef_set v obj F)"
  using GlobalRef_set_spec by simp_all

lemma rf_ids_GlobalRef_set [simp]: "rf_ids (GlobalRef_set v obj F) = rf_ids F"
  by (simp add: GlobalRef_set_def split: option.splits prod.splits)

lemma set_id_simps [simp]:
  "rf_ids (set_id v x F) = (rf_ids F)(v := x)" "ref_inv (set_id v x F) = ref_inv F"
  "GlobalRef_get (set_id v x F) w = GlobalRef_get F w"
  by (simp_all add: set_id_def ref_inv_def GlobalRef_get_def)

lemma need_True: "need v x k F = (True, F') \<longleftrightarrow> x \<noteq> 0 \<and> k (set_id v x F) = (True, F')"
  by (auto simp: need_def Let_def)

lemma check_True: "check x k F = (True, F') \<longleftrightarrow> x \<noteq> 0 \<and> k x F = (True, F')"
  by (auto simp: check_def)

text \<open>The variables that are set, and the stages of \<open>InitJNI\<close>: what a stage that lets the next one run
  has set, and that it resets nothing.\<close>

definition avail :: "reflection \<Rightarrow> string set" where
  "avail F = {v. rf_ids F v \<noteq> 0}"

lemma avail_set_id [simp]: "x \<noteq> 0 \<Longrightarrow> avail (set_id v x F) = insert v (avail F)"
  by (auto simp: avail_def)

lemma avail_GlobalRef_set [simp]: "avail (GlobalRef_set v obj F) = avail F"
  by (simp add: avail_def)

lemma avail_set_id_mono: "v \<in> N \<Longrightarrow> avail F - N \<subseteq> avail (set_id v x F)"
  by (auto simp: avail_def)

lemma init_executable_ids:
  assumes "init_executable E sdk_int meth executable k F = (True, F')"
  shows "\<exists>F1. k F1 = (True, F') \<and> avail F \<subseteq> avail F1 \<and>
    {''method_get_name'', ''method_get_declaring_class'', ''method_get_parameter_types'',
     ''method_get_return_type''} \<subseteq> avail F1 \<and>
    (sdk_int \<ge> API_M \<longrightarrow> {''method_access_flags_field'', ''method_declaring_class_field''} \<subseteq> avail F1)"
proof (cases "sdk_int \<ge> API_M")
  case True
  then show ?thesis
    using assms unfolding init_executable_def need_True if_P [OF True]
    by - (elim conjE, intro exI conjI, assumption, simp_all add: subset_insertI2)
next
  case False
  then show ?thesis
    using assms unfolding init_executable_def need_True if_not_P [OF False]
    by - (elim conjE, intro exI conjI, assumption, simp_all add: subset_insertI2)
qed

lemma init_class_ids:
  assumes "init_class E k F = (True, F')"
  shows "\<exists>F1. k F1 = (True, F') \<and> avail F \<subseteq> avail F1 \<and>
    {''class_get_class_loader'', ''class_get_declared_constructors'', ''class_get_declared_methods'',
     ''class_get_name'', ''class_access_flags''} \<subseteq> avail F1"
  using assms unfolding init_class_def need_True check_True
  by - (elim conjE, intro exI conjI, assumption, simp_all add: subset_insertI2)

definition loader_ids :: "string set" where
  "loader_ids = {''dex_file_init_with_cl'', ''dex_file_init''}"

lemma init_loaders_ids:
  assumes "init_loaders E sdk_int k F = (True, F')"
  shows "\<exists>F1. k F1 = (True, F') \<and> avail F - loader_ids \<subseteq> avail F1 \<and>
    {''path_class_loader_init'', ''load_class'', ''set_accessible''} \<subseteq> avail F1 \<and>
    (sdk_int \<ge> API_O \<longrightarrow> loader_ids \<inter> avail F1 \<noteq> {})"
proof -
  let ?dex = "jni_FindClass E ''dalvik/system/DexFile''"
  define F0 where "F0 = set_id ''path_class_loader_init''
    (jni_GetMethodID E (jni_FindClass E ''dalvik/system/PathClassLoader'') ''<init>''
      ''(Ljava/lang/String;Ljava/lang/ClassLoader;)V'')
    (GlobalRef_set ''path_class_loader_ref'' (jni_FindClass E ''dalvik/system/PathClassLoader'') F)"
  define F1 where "F1 = (if sdk_int \<ge> API_Q
      then set_id ''dex_file_init_with_cl'' (jni_GetMethodID E ?dex ''<init>''
        ''([Ljava/nio/ByteBuffer;Ljava/lang/ClassLoader;[Ldalvik/system/DexPathList$Element;)V'') F0
      else if sdk_int \<ge> API_O
      then set_id ''dex_file_init'' (jni_GetMethodID E ?dex ''<init>'' ''(Ljava/nio/ByteBuffer;)V'') F0
      else F0)"
  have run: "(if sdk_int \<ge> API_O \<and> rf_ids F1 ''dex_file_init_with_cl'' = 0 \<and> rf_ids F1 ''dex_file_init'' = 0
      then (False, F1)
      else need ''load_class'' (jni_GetMethodID E ?dex ''loadClass''
             ''(Ljava/lang/String;Ljava/lang/ClassLoader;)Ljava/lang/Class;'')
           (check (jni_FindClass E ''java/lang/reflect/AccessibleObject'') (\<lambda>accessible_object.
            need ''set_accessible'' (jni_GetMethodID E accessible_object ''setAccessible'' ''(Z)V'') k))
           F1) = (True, F')"
    and init: "jni_GetMethodID E (jni_FindClass E ''dalvik/system/PathClassLoader'') ''<init>''
      ''(Ljava/lang/String;Ljava/lang/ClassLoader;)V'' \<noteq> 0"
    using assms unfolding init_loaders_def need_True check_True Let_def F1_def F0_def
    by - (elim conjE, assumption)+
  have a0: "avail F0 = insert ''path_class_loader_init'' (avail F)"
    using init by (simp add: F0_def)
  have a1: "avail F0 - loader_ids \<subseteq> avail F1"
    unfolding F1_def by (auto simp: loader_ids_def avail_def)
  have ctor: "sdk_int \<ge> API_O \<longrightarrow> loader_ids \<inter> avail F1 \<noteq> {}"
    using run by (auto simp: loader_ids_def avail_def split: if_splits)
  let ?load = "jni_GetMethodID E ?dex ''loadClass'' ''(Ljava/lang/String;Ljava/lang/ClassLoader;)Ljava/lang/Class;''"
  let ?acc = "jni_GetMethodID E (jni_FindClass E ''java/lang/reflect/AccessibleObject'') ''setAccessible'' ''(Z)V''"
  let ?F2 = "set_id ''set_accessible'' ?acc (set_id ''load_class'' ?load F1)"
  have r: "?load \<noteq> 0" "?acc \<noteq> 0" "k ?F2 = (True, F')"
    using run by (simp_all add: need_True check_True split: if_splits)
  have av: "avail ?F2 = {''set_accessible'', ''load_class''} \<union> avail F1" using r(1,2) by simp
  have "''path_class_loader_init'' \<in> avail F1" using a0 a1 by (auto simp: loader_ids_def)
  then show ?thesis using r(3) a0 a1 ctor by (intro exI [of _ ?F2]) (unfold av, blast)
qed

definition primitive_ids :: "string set" where
  "primitive_ids = (\<lambda>p. p @ ''_value_method'') ` UNIV \<union> (\<lambda>p. p @ ''_value_of_method'') ` UNIV"

lemma avail_init_primitives: "avail F - primitive_ids \<subseteq> avail (init_primitives E F)"
proof -
  have step: "avail F - primitive_ids \<subseteq> avail G \<Longrightarrow>
      avail F - primitive_ids \<subseteq> avail (init_primitive E p w c vn vs os cr G)" for p w c vn vs os cr G
    unfolding init_primitive_def Let_def by (auto simp: avail_def primitive_ids_def)
  show ?thesis unfolding init_primitives_def Let_def avail_GlobalRef_set
    by (intro step Diff_subset)
qed

lemma primitive_ids_tail: "v \<in> primitive_ids \<Longrightarrow> take 6 (rev v) = ''dohtem''"
  by (auto simp: primitive_ids_def)

definition required_ids :: "string set" where
  "required_ids =
     {''method_get_name'', ''method_get_declaring_class'', ''method_get_parameter_types'',
      ''method_get_return_type''} \<union>
     {''class_get_class_loader'', ''class_get_declared_constructors'', ''class_get_declared_methods'',
      ''class_get_name'', ''class_access_flags''} \<union>
     {''path_class_loader_init'', ''load_class'', ''set_accessible''}"

lemma required_disjoint:
  "v \<in> required_ids \<union> {''method_access_flags_field'', ''method_declaring_class_field''} \<union> loader_ids \<Longrightarrow>
   v \<notin> primitive_ids"
  by (auto simp: required_ids_def loader_ids_def dest: primitive_ids_tail)

lemma required_not_loader:
  "v \<in> {''method_get_name'', ''method_get_declaring_class'', ''method_get_parameter_types'',
      ''method_get_return_type''} \<union>
     {''class_get_class_loader'', ''class_get_declared_constructors'', ''class_get_declared_methods'',
      ''class_get_name'', ''class_access_flags''} \<union>
     {''method_access_flags_field'', ''method_declaring_class_field''} \<Longrightarrow> v \<notin> loader_ids"
  by (auto simp: loader_ids_def)

text \<open>When \<open>InitJNI\<close> succeeds, every id the library uses without a further test is set; from Android
  8 on so is a constructor of \<open>DexFile\<close>, from Android 6 on so are the two fields of \<open>Executable\<close>.\<close>

theorem InitJNI_ids:
  assumes "InitJNI E sdk_int F = (True, F')"
  shows "required_ids \<subseteq> avail F' \<and> (sdk_int \<ge> API_O \<longrightarrow> loader_ids \<inter> avail F' \<noteq> {}) \<and>
    (sdk_int \<ge> API_M \<longrightarrow>
       {''method_access_flags_field'', ''method_declaring_class_field''} \<subseteq> avail F')"
proof -
  obtain G k1 where "init_executable E sdk_int (jni_FindClass E ''java/lang/reflect/Method'')
      (jni_GetSuperclass E (jni_FindClass E ''java/lang/reflect/Method''))
      (init_class E (init_loaders E sdk_int k1)) G = (True, F')"
    and k1: "k1 = (\<lambda>F. (let F = GlobalRef_set ''object_class_ref'' (jni_FindClass E ''java/lang/Object'') F;
                   F = GlobalRef_set ''proxy_class_ref'' (jni_FindClass E ''java/lang/reflect/Proxy'') F
               in (True, init_primitives E F)))"
    using assms by (auto simp: InitJNI_def check_True Let_def)
  from init_executable_ids [OF this(1)] obtain F1 where
    F1: "init_class E (init_loaders E sdk_int k1) F1 = (True, F')"
      "{''method_get_name'', ''method_get_declaring_class'', ''method_get_parameter_types'',
        ''method_get_return_type''} \<subseteq> avail F1"
      "sdk_int \<ge> API_M \<longrightarrow> {''method_access_flags_field'', ''method_declaring_class_field''} \<subseteq> avail F1"
    by blast
  from init_class_ids [OF F1(1)] obtain F2 where
    F2: "init_loaders E sdk_int k1 F2 = (True, F')" "avail F1 \<subseteq> avail F2"
      "{''class_get_class_loader'', ''class_get_declared_constructors'', ''class_get_declared_methods'',
        ''class_get_name'', ''class_access_flags''} \<subseteq> avail F2"
    by blast
  from init_loaders_ids [OF F2(1)] obtain F3 where
    F3: "k1 F3 = (True, F')" "avail F2 - loader_ids \<subseteq> avail F3"
      "{''path_class_loader_init'', ''load_class'', ''set_accessible''} \<subseteq> avail F3"
      "sdk_int \<ge> API_O \<longrightarrow> loader_ids \<inter> avail F3 \<noteq> {}"
    by blast
  have keep: "v \<in> avail F'" if "v \<in> avail F3"
    "v \<in> required_ids \<union> {''method_access_flags_field'', ''method_declaring_class_field''} \<union> loader_ids" for v
    using F3(1) that required_disjoint [OF that(2)]
      avail_init_primitives [of "GlobalRef_set ''proxy_class_ref'' (jni_FindClass E ''java/lang/reflect/Proxy'')
        (GlobalRef_set ''object_class_ref'' (jni_FindClass E ''java/lang/Object'') F3)" E]
    by (auto simp: k1 Let_def)
  have up: "N \<subseteq> avail F3" if "N \<subseteq> avail F2" "\<And>v. v \<in> N \<Longrightarrow> v \<notin> loader_ids" for N
    using that F3(2) by blast
  have "required_ids \<subseteq> avail F3"
    unfolding required_ids_def
    by (intro Un_least up F3(3) F2(3) order_trans [OF F1(2) F2(2)] required_not_loader) simp_all
  moreover have "sdk_int \<ge> API_M \<longrightarrow>
      {''method_access_flags_field'', ''method_declaring_class_field''} \<subseteq> avail F3"
    by (intro impI up required_not_loader order_trans [OF F1(3) [THEN mp] F2(2)]) auto
  ultimately show ?thesis using F3(4) keep by blast
qed

text \<open>An environment in which every lookup succeeds.\<close>

definition demo_env :: jni_env where
  "demo_env = \<lparr> jni_FindClass = (\<lambda>n. 16 + length n), jni_GetMethodID = (\<lambda>c n s. 512 + length n),
     jni_GetStaticMethodID = (\<lambda>c n s. 768 + length n), jni_GetFieldID = (\<lambda>c n s. 1024 + length n),
     jni_GetStaticFieldID = (\<lambda>c n s. 1280 + length n), jni_GetStaticObjectField = (\<lambda>c f. c + 4096),
     jni_GetSuperclass = (\<lambda>c. c + 8192), jni_ToReflectedField = (\<lambda>c f. f + 1),
     jni_ToReflectedMethod = (\<lambda>c m s. m + 1), jni_FromReflectedMethod = (\<lambda>m. m + 2),
     jni_GetLongField = (\<lambda>o' f. o' + f), jni_GetIntField = (\<lambda>o' f. 1), jni_CallObjectMethod = (\<lambda>o' m. o' + m),
     jni_CallLongMethod = (\<lambda>o' m f. 8), jni_CallIntMethod = (\<lambda>o' m f. 12),
     jni_CallStaticObjectMethod = (\<lambda>c m. c + m), jni_CallNonvirtualBooleanMethod = (\<lambda>o' c m. False),
     jni_AllocObject = (\<lambda>c. c + 3), jni_array = (\<lambda>a. [a, a + 1]), jni_IsInstanceOf = (\<lambda>o' c. True),
     jni_IsAssignableFrom = (\<lambda>a b. a = b), jni_RegisterNatives_fn = 40, jni_UnregisterNatives_fn = 44,
     jni_GetJavaVM = 48, jni_Exception = (\<lambda>m. 0) \<rparr>"

lemma demo_env_simps [simp]:
  "jni_FindClass demo_env n = 16 + length n" "jni_GetMethodID demo_env c n s = 512 + length n"
  "jni_GetFieldID demo_env c n s = 1024 + length n" "jni_GetSuperclass demo_env c = c + 8192"
  by (simp_all add: demo_env_def)

theorem InitJNI_ids_witness:
  "\<exists>F'. InitJNI demo_env 34 reflection_init = (True, F') \<and> ''load_class'' \<in> avail F'"
proof -
  have "fst (InitJNI demo_env 34 reflection_init)"
    by (simp add: InitJNI_def init_executable_def init_class_def init_loaders_def need_def check_def Let_def)
  then obtain F' where F': "InitJNI demo_env 34 reflection_init = (True, F')"
    by (metis (full_types) prod.collapse)
  have "''load_class'' \<in> required_ids" by (simp add: required_ids_def)
  then show ?thesis using InitJNI_ids [OF F'] F' by blast
qed

section \<open>Shorties and boxing\<close>

lemma find_distinct:
  assumes "distinct (map f xs)" "x \<in> set xs"
  shows "find (\<lambda>y. f x = f y) xs = Some x"
  using assms
proof (induction xs)
  case (Cons y ys)
  then show ?case by (cases "x = y") (auto simp: image_iff)
qed simp

text \<open>The shorty of a reflected method has one letter for the return type and one for each
  parameter; when the nine primitive classes are different objects, each is given its own letter,
  and every other class gets \<open>L\<close>.\<close>

theorem reflected_shorty:
  assumes "distinct (map (\<lambda>(r, c). GlobalRef_get F r) primitive_types)"
  shows "length (GetReflectedMethodShorty E F rm) =
      Suc (length (jni_array E (jni_CallObjectMethod E rm (rf_ids F ''method_get_parameter_types''))))
    \<and> (\<forall>(r, c) \<in> set primitive_types. type_to_shorty F (GlobalRef_get F r) = c)
    \<and> (\<forall>t. t \<notin> (\<lambda>(r, c). GlobalRef_get F r) ` set primitive_types \<longrightarrow> type_to_shorty F t = CHR ''L'')"
proof (intro conjI ballI allI impI)
  show "length (GetReflectedMethodShorty E F rm) =
      Suc (length (jni_array E (jni_CallObjectMethod E rm (rf_ids F ''method_get_parameter_types''))))"
    by (simp add: GetReflectedMethodShorty_def Let_def)
next
  fix x assume x: "x \<in> set primitive_types"
  obtain r c where rc: "x = (r, c)" by (metis prod.exhaust)
  have "distinct (map (\<lambda>y. GlobalRef_get F (fst y)) primitive_types)"
    using assms by (simp only: case_prod_beta')
  from find_distinct [OF this x]
  show "case x of (r, c) \<Rightarrow> type_to_shorty F (GlobalRef_get F r) = c"
    by (simp add: rc type_to_shorty_def case_prod_beta')
next
  fix t assume "t \<notin> (\<lambda>(r, c). GlobalRef_get F r) ` set primitive_types"
  then have "find (\<lambda>(r, c). t = GlobalRef_get F r) primitive_types = None"
    by (auto simp: find_None_iff)
  then show "type_to_shorty F t = CHR ''L''" by (simp add: type_to_shorty_def)
qed

definition demo_refs :: reflection where
  "demo_refs = reflection_init\<lparr>
     rf_globals := \<lparr> jl_array = Some (map Some [10..<19]), jl_cursor = 0, jl_available = 0, jl_length = 9 \<rparr>,
     rf_refs := (\<lambda>v. case map_of (zip (map fst primitive_types) [0..<9]) v of Some i \<Rightarrow> int i | None \<Rightarrow> -1) \<rparr>"

lemma demo_refs_distinct: "map (\<lambda>(r, c). GlobalRef_get demo_refs r) primitive_types = [10..<19]"
  by code_simp

theorem reflected_shorty_witness:
  "distinct (map (\<lambda>(r, c). GlobalRef_get demo_refs r) primitive_types) \<and>
   type_to_shorty demo_refs 99 = CHR ''L''"
proof -
  have d: "distinct (map (\<lambda>(r, c). GlobalRef_get demo_refs r) primitive_types)"
    by (simp only: demo_refs_distinct distinct_upt)
  have "(99::nat) \<notin> set (map (\<lambda>(r, c). GlobalRef_get demo_refs r) primitive_types)"
    by (simp only: demo_refs_distinct) simp
  then have "99 \<notin> (\<lambda>(r, c). GlobalRef_get demo_refs r) ` set primitive_types" by simp
  with reflected_shorty [OF d, of demo_env 0] d show ?thesis by blast
qed

text \<open>What \<open>valueOf\<close> and the value methods of the wrapper classes promise.\<close>

definition boxing_ok :: "boxing \<Rightarrow> reflection \<Rightarrow> bool" where
  "boxing_ok B F \<longleftrightarrow> (\<forall>type prim v. primitive_name type = Some prim \<longrightarrow>
     take_bit (jvalue_bits type) (Unwrap_prim B F prim (Wrap_prim B F prim v)) =
     take_bit (jvalue_bits type) v)"

text \<open>Boxing a primitive value and unboxing the object into another \<open>jvalue\<close> stores the value's
  bytes there and leaves the other bytes of the union as they were.\<close>

theorem wrap_unwrap:
  assumes B: "boxing_ok B F" and p: "primitive_name type = Some prim" and w: "Wrap B F type v = Some wrapped"
  shows "\<exists>v'. Unwrap B F type old wrapped = Some v' \<and>
    take_bit (jvalue_bits type) v' = take_bit (jvalue_bits type) v \<and>
    drop_bit (jvalue_bits type) v' = drop_bit (jvalue_bits type) old"
proof -
  let ?b = "jvalue_bits type"
  have wr: "wrapped = Wrap_prim B F prim (take_bit ?b v)" using w p by (simp add: Wrap_def)
  have u: "take_bit ?b (Unwrap_prim B F prim wrapped) = take_bit ?b v"
  proof -
    have "take_bit ?b (Unwrap_prim B F prim wrapped) = take_bit ?b (take_bit ?b v)"
      using B p unfolding wr boxing_ok_def by blast
    then show ?thesis by simp
  qed
  let ?v = "(old AND NOT (mask ?b)) OR take_bit ?b (Unwrap_prim B F prim wrapped)"
  have "take_bit ?b ?v = take_bit ?b v"
    unfolding u by (rule bit_eqI) (auto simp: bit_simps)
  moreover have "drop_bit ?b ?v = drop_bit ?b old"
    by (rule bit_eqI) (auto simp: bit_simps dest: bit_imp_le_length)
  ultimately show ?thesis using p by (simp add: Unwrap_def Let_def)
qed

definition demo_boxing :: boxing where
  "demo_boxing = \<lparr> box = (\<lambda>c m v. unat v), unbox = (\<lambda>w m. word_of_nat w) \<rparr>"

theorem wrap_unwrap_witness:
  "boxing_ok demo_boxing reflection_init \<and>
   (\<exists>v'. Unwrap demo_boxing reflection_init CHR ''S'' 0x11223344 0x5566 = Some v' \<and> take_bit 16 v' = 0x5566)"
proof -
  have ok: "boxing_ok demo_boxing reflection_init"
    by (simp add: boxing_ok_def Unwrap_prim_def Wrap_prim_def demo_boxing_def)
  have "primitive_name CHR ''S'' = Some ''short''" by (simp add: primitive_name_def)
  moreover have t: "take_bit 16 (0x5566 :: jvalue) = 0x5566" by (simp add: take_bit_eq_mod)
  then have "Wrap demo_boxing reflection_init CHR ''S'' 0x5566 = Some 0x5566"
    by (simp add: Wrap_def primitive_name_def Wrap_prim_def demo_boxing_def jvalue_bits_def)
  moreover have "jvalue_bits CHR ''S'' = 16" by (simp add: jvalue_bits_def)
  ultimately show ?thesis
    using wrap_unwrap [OF ok, of "CHR ''S''" "''short''" "0x5566" "0x5566" "0x11223344"] ok
    by (auto simp: t)
qed

end
