(* ===== verification/Unsafe.thy ===== *)
theory Unsafe
  imports Reflection
begin

text \<open>
  art/mirror/unsafe.cxx: field offsets and object addresses through \<open>sun.misc.Unsafe\<close>. The object
  itself is the global reference \<open>the_unsafe_ref_\<close>; the ids of \<open>getInt\<close> and \<open>putInt\<close> are among
  the global ids, since hooking these methods has to replace them.
\<close>

record unsafe_statics =
  object_field_offset_method :: addr
  object_array_base_offset :: int

definition unsafe_statics_init :: unsafe_statics where
  "unsafe_statics_init = \<lparr> object_field_offset_method = 0, object_array_base_offset = 0 \<rparr>"

definition Unsafe_Init :: "jni_env \<Rightarrow> reflection \<times> unsafe_statics \<Rightarrow> bool \<times> reflection \<times> unsafe_statics" where
  "Unsafe_Init E = (\<lambda>(F, U).
     (let unsafe_class = jni_FindClass E ''sun/misc/Unsafe'' in
      if unsafe_class = 0 then (True, F, U)
      else
        (let the_unsafe_field = jni_GetStaticFieldID E unsafe_class ''theUnsafe'' ''Lsun/misc/Unsafe;'';
             the_unsafe = (if the_unsafe_field \<noteq> 0
               then jni_GetStaticObjectField E unsafe_class the_unsafe_field else 0);
             the_unsafe = (if the_unsafe = 0 then jni_AllocObject E unsafe_class else the_unsafe);
             F = GlobalRef_set ''the_unsafe_ref_'' the_unsafe F;
             U = U\<lparr> object_field_offset_method := jni_GetMethodID E unsafe_class
                 ''objectFieldOffset'' ''(Ljava/lang/reflect/Field;)J'' \<rparr>;
             array_base_offset_method = jni_GetMethodID E unsafe_class
               ''arrayBaseOffset'' ''(Ljava/lang/Class;)I''
         in if array_base_offset_method \<noteq> 0 then
              (let U = U\<lparr> object_array_base_offset := jni_CallIntMethod E the_unsafe
                    array_base_offset_method (jni_FindClass E ''[Ljava/lang/Object;'') \<rparr>;
                   F = set_id ''unsafe_get_int_method''
                     (jni_GetMethodID E unsafe_class ''getInt'' ''(Ljava/lang/Object;J)I'') F;
                   F = set_id ''unsafe_put_int_method''
                     (jni_GetMethodID E unsafe_class ''putInt'' ''(Ljava/lang/Object;JI)V'') F
               in (True, F, U))
            else (True, F, U))))"

definition HasObjectFieldOffset :: "unsafe_statics \<Rightarrow> bool" where
  "HasObjectFieldOffset U \<longleftrightarrow> object_field_offset_method U \<noteq> 0"

text \<open>\<open>operator bool\<close> of the object \<open>GetUnsafe\<close> returns.\<close>

definition HasUnsafe :: "reflection \<Rightarrow> bool" where
  "HasUnsafe F \<longleftrightarrow> GlobalRef_get F ''the_unsafe_ref_'' \<noteq> 0"

text \<open>The result of the Java method is a \<open>jlong\<close>, narrowed to 32 bits.\<close>

definition ObjectFieldOffset :: "jni_env \<Rightarrow> reflection \<Rightarrow> unsafe_statics \<Rightarrow> addr \<Rightarrow> nat" where
  "ObjectFieldOffset E F U field =
     (if object_field_offset_method U = 0 then 0
      else jni_CallLongMethod E (GlobalRef_get F ''the_unsafe_ref_'') (object_field_offset_method U) field
        mod 2 ^ 32)"

text \<open>\<open>GetObjectAddress\<close> puts the object into an array of one and reads the element back as an
  integer; \<open>NewLocalRef\<close> writes the integer and takes the element as a reference. \<open>array_of\<close> is the
  array JNI creates around an object, \<open>get_int\<close> and \<open>put_int\<close> are the Java methods on an array. The
  \<open>jint\<close> that was read is converted to \<open>uintptr_t\<close>, which extends its sign.\<close>

definition uintptr_of_jint :: "arch \<Rightarrow> 32 word \<Rightarrow> nat" where
  "uintptr_of_jint a i = nat (sint i mod 2 ^ (8 * kPointerSize a))"

definition GetObjectAddress ::
  "arch \<Rightarrow> reflection \<Rightarrow> unsafe_statics \<Rightarrow> (addr \<Rightarrow> addr) \<Rightarrow> (addr \<Rightarrow> int \<Rightarrow> 32 word) \<Rightarrow> addr \<Rightarrow> addr" where
  "GetObjectAddress a F U array_of get_int obj =
     (if rf_ids F ''unsafe_get_int_method'' = 0 then 0
      else uintptr_of_jint a (get_int (array_of obj) (object_array_base_offset U)))"

definition NewLocalRef ::
  "reflection \<Rightarrow> unsafe_statics \<Rightarrow> (addr \<Rightarrow> addr) \<Rightarrow> (addr \<Rightarrow> int \<Rightarrow> 32 word \<Rightarrow> addr) \<Rightarrow> addr \<Rightarrow> addr" where
  "NewLocalRef F U array_of put_int obj =
     (if rf_ids F ''unsafe_put_int_method'' = 0 then 0
      else put_int (array_of 0) (object_array_base_offset U) (word_of_nat obj))"

lemma sint_of_32:
  assumes "x < 2 ^ 32"
  shows "sint (word_of_nat x :: 32 word) = (if x < 2 ^ 31 then int x else int x - 2 ^ 32)"
proof -
  have u: "uint (word_of_nat x :: 32 word) = int x"
    using assms by (simp add: uint_nat unat_of_nat take_bit_nat_eq_self)
  have s: "sint (word_of_nat x :: 32 word) = signed_take_bit 31 (int x)"
    by (simp add: sint_uint u)
  show ?thesis
  proof (cases "x < 2 ^ 31")
    case True
    then have "signed_take_bit 31 (int x) = int x" by (intro signed_take_bit_int_eq_self) simp_all
    then show ?thesis using True s by simp
  next
    case False
    have "take_bit (Suc 31) (int x) = take_bit (Suc 31) (int x - 2 ^ 32)"
      by (simp add: take_bit_eq_mod)
    then have "signed_take_bit 31 (int x) = signed_take_bit 31 (int x - 2 ^ 32)"
      by (simp only: signed_take_bit_eq_iff_take_bit_eq)
    also have "\<dots> = int x - 2 ^ 32"
      using assms False by (intro signed_take_bit_int_eq_self) simp_all
    finally show ?thesis using False s by simp
  qed
qed

lemma pointer_size_4_8: "kPointerSize a = 4 \<or> kPointerSize a = 8"
  by (cases a) (simp_all add: kPointerSize_def)

text \<open>C40. The two are inverse below 2 GB and on 32-bit devices. On a 64-bit device the address of an object
  between 2 GB and 4 GB, where the heap of ART may lie, comes back with its upper half set.\<close>

theorem object_address_sign_extended:
  assumes ids: "rf_ids F ''unsafe_get_int_method'' \<noteq> 0" "rf_ids F ''unsafe_put_int_method'' \<noteq> 0"
    and array: "\<And>x. get_int (array_of (put_int (array_of 0) (object_array_base_offset U) x))
          (object_array_base_offset U) = x"
    and obj: "obj < 2 ^ 32"
  shows "GetObjectAddress a F U array_of get_int (NewLocalRef F U array_of put_int obj) =
    (if obj < 2 ^ 31 \<or> kPointerSize a = 4 then obj else obj + (2 ^ 64 - 2 ^ 32))"
proof -
  have "GetObjectAddress a F U array_of get_int (NewLocalRef F U array_of put_int obj) =
      nat (sint (word_of_nat obj :: 32 word) mod 2 ^ (8 * kPointerSize a))"
    using ids by (simp add: GetObjectAddress_def NewLocalRef_def array uintptr_of_jint_def)
  also have "\<dots> = (if obj < 2 ^ 31 \<or> kPointerSize a = 4 then obj else obj + (2 ^ 64 - 2 ^ 32))"
  proof (cases "obj < 2 ^ 31")
    case True
    then have "int obj mod 2 ^ (8 * kPointerSize a) = int obj"
      using pointer_size_4_8 [of a] by (intro mod_pos_pos_trivial) auto
    then show ?thesis using True by (simp add: sint_of_32 [OF obj])
  next
    case False
    have s: "sint (word_of_nat obj :: 32 word) = int obj - 2 ^ 32" using False by (simp add: sint_of_32 [OF obj])
    show ?thesis
    proof (cases "kPointerSize a = 4")
      case True
      have "(int obj - 2 ^ 32) mod 2 ^ 32 = int obj mod 2 ^ 32"
        using minus_mod_self2 [of "int obj" "2 ^ 32"] by simp
      also have "\<dots> = int obj" using obj by (intro mod_pos_pos_trivial) simp_all
      finally show ?thesis using True by (simp add: s)
    next
      case False
      then have p: "kPointerSize a = 8" using pointer_size_4_8 [of a] by simp
      have "(int obj - 2 ^ 32) mod 2 ^ 64 = (int obj - 2 ^ 32 + 2 ^ 64) mod 2 ^ 64"
        using mod_add_self2 [of "int obj - 2 ^ 32" "2 ^ 64 :: int"] by simp
      also have "\<dots> = int obj - 2 ^ 32 + 2 ^ 64" using obj by (intro mod_pos_pos_trivial) simp_all
      finally show ?thesis using p \<open>\<not> obj < 2 ^ 31\<close> by (simp add: s)
    qed
  qed
  finally show ?thesis .
qed

text \<open>An object at 2 GB: a handle is its address plus one, an array is the handle it holds.\<close>

theorem object_address_sign_extended_witness:
  "GetObjectAddress kArm64 (reflection_init\<lparr> rf_ids := \<lambda>_. 1 \<rparr>) unsafe_statics_init (\<lambda>h. h) (\<lambda>h i. word_of_nat (h - 1))
     (NewLocalRef (reflection_init\<lparr> rf_ids := \<lambda>_. 1 \<rparr>) unsafe_statics_init (\<lambda>h. h) (\<lambda>h i x. unat x + 1) 0x80000000)
   = 0xFFFFFFFF80000000"
  using object_address_sign_extended [where F = "reflection_init\<lparr> rf_ids := \<lambda>_. 1 \<rparr>" and U = unsafe_statics_init
      and array_of = "\<lambda>h. h" and get_int = "\<lambda>h i. word_of_nat (h - 1)" and put_int = "\<lambda>h i x. unat x + 1"
      and obj = "0x80000000" and a = kArm64]
  by (simp add: kPointerSize_def kLPCurrent_def)

end
