(* ===== verification/Class_Init.thy ===== *)
theory Class_Init
  imports Unsafe "HOL-Library.AList"
begin

text \<open>
  art/mirror/class.cxx: when a class becomes initialized, ART overwrites the entry points of its
  static methods. The hooks on \<open>Class::SetStatus\<close> save the entry points of the hooked and
  deoptimized ones before (\<open>BackupClassMethods\<close>); the class linker's hooks take them out again
  (\<open>PopBackup\<close>) and restore them. The same file enumerates the methods of a class
  (\<open>VisitMethods\<close>).

  A hash map that is iterated is an association list in the order of the iteration; the order is
  arbitrary, and no theorem depends on it.
\<close>

type_synonym backup_methods = "(addr \<times> addr) list"

record class_state =
  cs_backup_methods :: "(addr \<times> (addr \<times> backup_methods) list) list"
  cs_initialized_status :: nat
  cs_access_flags_offset :: nat
  cs_methods_offset :: nat
  cs_virtual_methods_offset :: nat

definition class_state_init :: class_state where
  "class_state_init = \<lparr> cs_backup_methods = [], cs_initialized_status = 0,
     cs_access_flags_offset = 0, cs_methods_offset = 0, cs_virtual_methods_offset = 0 \<rparr>"

definition al_emplace :: "'k \<Rightarrow> 'v \<Rightarrow> ('k \<times> 'v) list \<Rightarrow> ('k \<times> 'v) list" where
  "al_emplace k v xs = (if map_of xs k = None then xs @ [(k, v)] else xs)"

definition al_merge :: "('k \<times> 'v) list \<Rightarrow> ('k \<times> 'v) list \<Rightarrow> ('k \<times> 'v) list" where
  "al_merge xs ys = fold (\<lambda>(k, v) acc. al_emplace k v acc) ys xs"

definition al_erase :: "'k \<Rightarrow> ('k \<times> 'v) list \<Rightarrow> ('k \<times> 'v) list" where
  "al_erase k xs = filter (\<lambda>(j, v). j \<noteq> k) xs"

section \<open>Backing up and popping\<close>

definition backup_static ::
  "art_statics \<Rightarrow> memory \<Rightarrow> addr list option \<Rightarrow> backup_methods \<Rightarrow> backup_methods" where
  "backup_static S m methods out =
     (case methods of
        None \<Rightarrow> out
      | Some ms \<Rightarrow> fold (\<lambda>method out. if IsStatic S m method
          then al_emplace method (GetEntryPoint S m method) out else out) ms out)"

definition BackupClassMethods ::
  "art_statics \<Rightarrow> registry \<Rightarrow> memory \<Rightarrow> addr \<Rightarrow> addr \<Rightarrow> class_state \<Rightarrow> class_state" where
  "BackupClassMethods S R m class_def self C =
     (if class_def = 0 then C
      else
        (let out = backup_static S m (hooked_classes R class_def) [];
             out = backup_static S m (deoptimized_classes R class_def) out
         in if out = [] then C
            else
              (let old = (case map_of (cs_backup_methods C) self of Some x \<Rightarrow> x | None \<Rightarrow> [])
               in C\<lparr> cs_backup_methods :=
                    AList.update self (al_emplace class_def out old) (cs_backup_methods C) \<rparr>)))"

text \<open>The four hooks on \<open>SetStatus\<close>: they differ in the type of the status only. \<open>class_def\<close> is what
  \<open>GetClassDef\<close> of libart answers for the class.\<close>

definition SetStatus_hook ::
  "art_statics \<Rightarrow> registry \<Rightarrow> (memory \<Rightarrow> memory) \<Rightarrow> addr \<Rightarrow> int \<Rightarrow> addr \<Rightarrow> class_state \<times> memory
     \<Rightarrow> class_state \<times> memory" where
  "SetStatus_hook S R original class_def new_status self = (\<lambda>(C, m).
     (let C = (if new_status = int (cs_initialized_status C)
               then BackupClassMethods S R m class_def self C else C)
      in (C, original m)))"

fun pop_class ::
  "addr \<Rightarrow> (addr \<times> (addr \<times> backup_methods) list) list \<Rightarrow> backup_methods
     \<Rightarrow> backup_methods \<times> (addr \<times> (addr \<times> backup_methods) list) list" where
  "pop_class class_def [] methods = (methods, [])"
| "pop_class class_def ((th, classes) # rest) methods =
     (let (methods, classes) =
            (case map_of classes class_def of
               Some found \<Rightarrow> (al_merge methods found, al_erase class_def classes)
             | None \<Rightarrow> (methods, classes));
          (methods, rest) = pop_class class_def rest methods
      in (methods, if classes = [] then rest else (th, classes) # rest))"

definition PopBackup :: "addr \<Rightarrow> addr \<Rightarrow> class_state \<Rightarrow> backup_methods \<times> class_state" where
  "PopBackup class_def self C =
     (if cs_backup_methods C = [] then ([], C)
      else if class_def \<noteq> 0 then
        (let (methods, rest) = pop_class class_def (cs_backup_methods C) []
         in (methods, C\<lparr> cs_backup_methods := rest \<rparr>))
      else if self \<noteq> 0 then
        (case map_of (cs_backup_methods C) self of
           None \<Rightarrow> ([], C)
         | Some classes \<Rightarrow>
             (fold (\<lambda>(c, ms) acc. al_merge acc ms) classes [],
              C\<lparr> cs_backup_methods := al_erase self (cs_backup_methods C) \<rparr>))
      else ([], C))"

subsection \<open>Lemmas on the saved entry points\<close>

lemma map_of_al_emplace:
  "map_of (al_emplace k v xs) j = (if map_of xs j = None \<and> j = k then Some v else map_of xs j)"
  by (auto simp: al_emplace_def map_add_def split: option.split)

lemma distinct_al_emplace: "distinct (map fst xs) \<Longrightarrow> distinct (map fst (al_emplace k v xs))"
  by (auto simp: al_emplace_def map_of_eq_None_iff)

lemma map_of_al_merge: "map_of (al_merge xs ys) = map_of ys ++ map_of xs"
proof (induction ys arbitrary: xs)
  case (Cons y ys)
  then show ?case
    by (cases y) (auto simp: al_merge_def map_of_al_emplace map_add_def fun_eq_iff split: option.split)
qed (simp add: al_merge_def)

lemma distinct_al_merge: "distinct (map fst xs) \<Longrightarrow> distinct (map fst (al_merge xs ys))"
proof (induction ys arbitrary: xs)
  case (Cons y ys)
  have "al_merge xs (y # ys) = al_merge (al_emplace (fst y) (snd y) xs) ys"
    by (simp add: al_merge_def case_prod_beta)
  then show ?case using Cons.IH [OF distinct_al_emplace [OF Cons.prems]] by simp
qed (simp add: al_merge_def)

lemma backup_static_spec:
  "map_of (backup_static S m ms out) k =
     (case map_of out k of Some v \<Rightarrow> Some v
      | None \<Rightarrow> if (\<exists>xs. ms = Some xs \<and> k \<in> set xs) \<and> IsStatic S m k then Some (GetEntryPoint S m k) else None)"
  "distinct (map fst out) \<Longrightarrow> distinct (map fst (backup_static S m ms out))"
proof -
  let ?step = "\<lambda>method out. if IsStatic S m method
    then al_emplace method (GetEntryPoint S m method) out else out"
  have 1: "map_of (fold ?step xs out) k = (case map_of out k of Some v \<Rightarrow> Some v
      | None \<Rightarrow> if k \<in> set xs \<and> IsStatic S m k then Some (GetEntryPoint S m k) else None)" for xs
    by (induction xs arbitrary: out) (auto simp: map_of_al_emplace split: option.splits)
  show "map_of (backup_static S m ms out) k =
     (case map_of out k of Some v \<Rightarrow> Some v
      | None \<Rightarrow> if (\<exists>xs. ms = Some xs \<and> k \<in> set xs) \<and> IsStatic S m k then Some (GetEntryPoint S m k) else None)"
    by (auto simp: backup_static_def 1 split: option.splits)
  have 2: "distinct (map fst out) \<Longrightarrow> distinct (map fst (fold ?step xs out))" for xs
    by (induction xs arbitrary: out) (auto simp: distinct_al_emplace)
  show "distinct (map fst out) \<Longrightarrow> distinct (map fst (backup_static S m ms out))"
    by (auto simp: backup_static_def 2 split: option.split)
qed

definition no_pending :: "addr \<Rightarrow> (addr \<times> (addr \<times> backup_methods) list) list \<Rightarrow> bool" where
  "no_pending c xs \<longleftrightarrow> (\<forall>(th, cl) \<in> set xs. map_of cl c = None)"

text \<open>What is saved for class \<open>c\<close>: the static methods among its hooked and deoptimized ones.\<close>

definition saved :: "art_statics \<Rightarrow> registry \<Rightarrow> memory \<Rightarrow> addr \<Rightarrow> backup_methods" where
  "saved S R m c =
     backup_static S m (deoptimized_classes R c) (backup_static S m (hooked_classes R c) [])"

lemma saved_spec:
  "map_of (saved S R m c) k =
     (if k \<in> class_members (hooked_classes R) c \<union> class_members (deoptimized_classes R) c \<and> IsStatic S m k
      then Some (GetEntryPoint S m k) else None)"
  by (auto simp: saved_def backup_static_spec(1) class_members_def split: option.splits)

lemma distinct_saved: "distinct (map fst (saved S R m c))"
  by (simp add: saved_def backup_static_spec(2))

lemma pop_class_none: "no_pending c xs \<Longrightarrow> fst (pop_class c xs acc) = acc"
  by (induction c xs acc rule: pop_class.induct)
    (auto simp: no_pending_def Let_def split: option.splits prod.splits)

lemma pop_class_update:
  "no_pending c xs \<Longrightarrow>
   fst (pop_class c (AList.update th (al_emplace c out (case map_of xs th of Some x \<Rightarrow> x | None \<Rightarrow> [])) xs) acc)
     = al_merge acc out"
proof (induction xs)
  case Nil
  then show ?case by (simp add: al_emplace_def)
next
  case (Cons x xs)
  obtain t cl where x: "x = (t, cl)" by (metis prod.exhaust)
  have np: "no_pending c xs" "map_of cl c = None" using Cons.prems by (simp_all add: x no_pending_def)
  show ?case
  proof (cases "t = th")
    case True
    have "map_of (al_emplace c out cl) c = Some out" using np by (simp add: map_of_al_emplace)
    then show ?thesis using True np
      by (simp add: x Let_def case_prod_beta pop_class_none)
  next
    case False
    then show ?thesis using Cons.IH [OF np(1)] np(2)
      by (simp add: x Let_def case_prod_beta)
  qed
qed

text \<open>Saving the methods of a class for which nothing is pending, and popping them again in any thread.\<close>

lemma backup_then_pop:
  assumes np: "no_pending c (cs_backup_methods C)" and c: "c \<noteq> 0"
  shows "fst (PopBackup c self' (BackupClassMethods S R m c self C)) = saved S R m c"
proof -
  let ?out = "saved S R m c"
  have merge: "al_merge [] ?out = ?out"
  proof -
    have gen: "distinct (map fst (acc @ ys)) \<Longrightarrow> al_merge acc ys = acc @ ys"
      for acc ys :: "(addr \<times> addr) list"
    proof (induction ys arbitrary: acc)
      case (Cons y ys)
      obtain k v where y: "y = (k, v)" by (metis prod.exhaust)
      have "al_merge acc (y # ys) = al_merge (acc @ [y]) ys"
        using Cons.prems by (auto simp: al_merge_def y al_emplace_def map_of_eq_None_iff)
      then show ?case using Cons.IH [of "acc @ [y]"] Cons.prems by simp
    qed (simp add: al_merge_def)
    show ?thesis using gen [of "[]" ?out] distinct_saved by simp
  qed
  show ?thesis
  proof (cases "?out = []")
    case True
    then have "BackupClassMethods S R m c self C = C"
      using c by (simp add: BackupClassMethods_def saved_def Let_def)
    then show ?thesis
      using True np c by (simp add: PopBackup_def Let_def case_prod_beta pop_class_none)
  next
    case False
    let ?old = "case map_of (cs_backup_methods C) self of Some x \<Rightarrow> x | None \<Rightarrow> []"
    have b: "BackupClassMethods S R m c self C =
        C\<lparr> cs_backup_methods := AList.update self (al_emplace c ?out ?old) (cs_backup_methods C) \<rparr>"
      using c False by (simp add: BackupClassMethods_def saved_def Let_def)
    have "AList.update self (al_emplace c ?out ?old) (cs_backup_methods C) \<noteq> []"
      by (cases "cs_backup_methods C") auto
    then show ?thesis
      unfolding b PopBackup_def
      using c by (simp add: Let_def case_prod_beta pop_class_update [OF np] merge)
  qed
qed

section \<open>Enumerating the methods of a class\<close>

text \<open>A visitor gets a method and a state, and says whether to stop.\<close>

type_synonym 's visitor = "addr \<Rightarrow> 's \<Rightarrow> bool \<times> 's"

fun visit_all :: "'s visitor \<Rightarrow> addr list \<Rightarrow> 's \<Rightarrow> bool \<times> 's" where
  "visit_all visitor [] s = (False, s)"
| "visit_all visitor (a # rest) s =
     (let (stop, s) = visitor a s in if stop then (True, s) else visit_all visitor rest s)"

definition GetDeclaredMethods :: "art_statics \<Rightarrow> class_state \<Rightarrow> memory \<Rightarrow> addr \<Rightarrow> addr list" where
  "GetDeclaredMethods S C m this =
     (let methods = load m (this + cs_methods_offset C) 8 mod 256 ^ psize S;
          array = methods + psize S;
          len = load m methods (psize S);
          element_size = art_method_size S
      in map (\<lambda>i. array + i * element_size) [0..<len])"

text \<open>On Android 6 the methods are an array of \<open>ArtMethod\<close> structures behind their length. Below, they
  are Java objects in an object array, whose elements start at \<open>base_offset\<close>; the code reads the
  elements at \<open>base_offset + 4 * i\<close>, without the array's own address.\<close>

definition VisitMethodsForMOrLower ::
  "art_statics \<Rightarrow> nat \<Rightarrow> memory \<Rightarrow> addr \<Rightarrow> 's visitor \<Rightarrow> nat \<Rightarrow> 's \<Rightarrow> bool \<times> 's" where
  "VisitMethodsForMOrLower S base_offset m this visitor offset s =
     (if am_api S = API_M then
        (let methods = load m (this + offset) 8 mod 256 ^ psize S;
             len = load m methods (psize S);
             element_size = art_method_size S
         in visit_all visitor (map (\<lambda>i. i * element_size + methods + psize S) [0..<len]) s)
      else
        (let methods = load m (this + offset) 4;
             len = load m (methods + base_offset - 4) 4
         in visit_all visitor (map (\<lambda>i. load m (i * 4 + base_offset) 4) [0..<len]) s))"

definition Class_VisitMethods ::
  "art_statics \<Rightarrow> class_state \<Rightarrow> nat \<Rightarrow> memory \<Rightarrow> addr \<Rightarrow> 's visitor \<Rightarrow> 's \<Rightarrow> bool \<times> 's" where
  "Class_VisitMethods S C base_offset m this visitor s =
     (if am_api S \<ge> API_N then
        (if cs_methods_offset C = 0 then (False, s)
         else (True, snd (visit_all visitor (GetDeclaredMethods S C m this) s)))
      else if cs_methods_offset C \<noteq> 0 \<and> cs_virtual_methods_offset C \<noteq> 0 then
        (let (stop, s) = VisitMethodsForMOrLower S base_offset m this visitor (cs_methods_offset C) s
         in (True, if \<not> stop
             then snd (VisitMethodsForMOrLower S base_offset m this visitor (cs_virtual_methods_offset C) s)
             else s))
      else (False, s))"

text \<open>The static \<open>VisitMethods\<close>: through the class's structure, or through reflection when that is not
  possible. \<open>mirror\<close> is the class \<open>DecodeJObject\<close> found (0 for none), \<open>constructors\<close> and \<open>methods\<close> are
  the \<open>ArtMethod\<close>s that \<open>FromReflectedMethod\<close> gives for the reflected members.\<close>

definition VisitMethods ::
  "art_statics \<Rightarrow> class_state \<Rightarrow> nat \<Rightarrow> memory \<Rightarrow> addr \<Rightarrow> addr list \<Rightarrow> addr list \<Rightarrow> 's visitor \<Rightarrow> 's \<Rightarrow> 's" where
  "VisitMethods S C base_offset m mirror constructors methods visitor s =
     (let (done, s1) = (if mirror \<noteq> 0 then Class_VisitMethods S C base_offset m mirror visitor s
                        else (False, s))
      in if done then s1
         else (let (stop, s) = visit_all visitor constructors s1
               in if stop then s else snd (visit_all visitor methods s)))"

subsection \<open>What is visited\<close>

definition never_stops :: "'s visitor \<Rightarrow> bool" where
  "never_stops v \<longleftrightarrow> (\<forall>a s. \<not> fst (v a s))"

lemma visit_all_never_stops:
  "never_stops v \<Longrightarrow> visit_all v as s = (False, fold (\<lambda>a s. snd (v a s)) as s)"
proof (induction as arbitrary: s)
  case (Cons a as)
  have "fst (v a s) = False" using Cons.prems by (simp add: never_stops_def)
  then show ?case using Cons by (simp add: case_prod_beta)
qed simp

lemma VisitMethods_all:
  assumes "never_stops v" "am_api S \<ge> API_N" "cs_methods_offset C \<noteq> 0" "mirror \<noteq> 0"
  shows "VisitMethods S C base_offset m mirror constructors methods v s =
    fold (\<lambda>a s. snd (v a s)) (GetDeclaredMethods S C m mirror) s"
  using assms by (simp add: VisitMethods_def Class_VisitMethods_def visit_all_never_stops)

text \<open>The methods of a class are apart from each other.\<close>

lemma GetDeclaredMethods_apart:
  assumes "0 < art_method_size S"
  shows "distinct (GetDeclaredMethods S C m this)"
    "x \<in> set (GetDeclaredMethods S C m this) \<Longrightarrow> y \<in> set (GetDeclaredMethods S C m this) \<Longrightarrow> x \<noteq> y \<Longrightarrow>
     apart S x y"
proof -
  show "distinct (GetDeclaredMethods S C m this)"
    using assms by (auto simp: GetDeclaredMethods_def Let_def distinct_map inj_on_def)
  assume xy: "x \<in> set (GetDeclaredMethods S C m this)" "y \<in> set (GetDeclaredMethods S C m this)" "x \<noteq> y"
  let ?z = "art_method_size S"
  obtain b i j where e: "x = b + i * ?z" "y = b + j * ?z"
    using xy(1,2) by (auto simp: GetDeclaredMethods_def Let_def)
  then have "i < j \<or> j < i" using xy(3) by auto
  then have "Suc i * ?z \<le> j * ?z \<or> Suc j * ?z \<le> i * ?z"
    using mult_le_mono1 [of "Suc i" j ?z] mult_le_mono1 [of "Suc j" i ?z] by linarith
  then show "apart S x y" by (auto simp: apart_def disj_ranges_def e)
qed

text \<open>Below Android 6 the enumeration does not look at the class's own array: two classes whose arrays
  have the same length are given the same methods, wherever the arrays are.\<close>

theorem pre_M_methods_ignore_array:
  assumes "am_api S < API_M"
    and "load m (load m (class1 + offset) 4 + base_offset - 4) 4 =
         load m (load m (class2 + offset) 4 + base_offset - 4) 4"
  shows "VisitMethodsForMOrLower S base_offset m class1 visitor offset s =
         VisitMethodsForMOrLower S base_offset m class2 visitor offset s"
  using assms by (simp add: VisitMethodsForMOrLower_def)

definition two_classes :: memory where
  "two_classes = (\<lambda>x. case map_of
     [(1000, 0), (1001, 1), (2000, 0), (2001, 2), (264, 1), (520, 1), (268, 77), (524, 88), (12, 5)] x of
     Some b \<Rightarrow> b | None \<Rightarrow> 0)"

theorem pre_M_methods_ignore_array_witness:
  "VisitMethodsForMOrLower (arm64_statics\<lparr> am_api := 21 \<rparr>) 12 two_classes 1000 (\<lambda>a s. (False, a # s)) 0 [] =
   VisitMethodsForMOrLower (arm64_statics\<lparr> am_api := 21 \<rparr>) 12 two_classes 2000 (\<lambda>a s. (False, a # s)) 0 [] \<and>
   load two_classes (load two_classes 1000 4 + 12) 4 \<noteq> load two_classes (load two_classes 2000 4 + 12) 4"
proof -
  have l: "load two_classes 1000 4 = 256" "load two_classes 2000 4 = 512"
    "load two_classes 264 4 = 1" "load two_classes 520 4 = 1" "load two_classes 268 4 = 77" "load two_classes 524 4 = 88"
    by (simp_all add: load_eval two_classes_def)
  have "am_api (arm64_statics\<lparr> am_api := 21 \<rparr>) < API_M" by simp
  from pre_M_methods_ignore_array [OF this, of two_classes 1000 0 12 2000] show ?thesis by (simp add: l)
qed

section \<open>Class flags\<close>

definition kAccClassIsProxy :: flags where "kAccClassIsProxy = 0x00040000"

definition Class_GetAccessFlags :: "class_state \<Rightarrow> memory \<Rightarrow> addr \<Rightarrow> flags option" where
  "Class_GetAccessFlags C m this =
     (if cs_access_flags_offset C = 0 then None
      else Some (word_of_nat (load m (this + cs_access_flags_offset C) 4)))"

definition IsProxyClass :: "class_state \<Rightarrow> memory \<Rightarrow> addr \<Rightarrow> bool option" where
  "IsProxyClass C m this =
     (case Class_GetAccessFlags C m this of
        None \<Rightarrow> None
      | Some fl \<Rightarrow> Some (fl AND kAccClassIsProxy \<noteq> 0))"

section \<open>Init\<close>

definition initialized_status_for :: "int \<Rightarrow> nat" where
  "initialized_status_for sdk_int =
     (if sdk_int \<ge> API_R then 15 else if sdk_int \<ge> API_P then 14
      else if sdk_int = API_O_MR1 then 11 else 10)"

definition get_offset_from_class :: "jni_env \<Rightarrow> reflection \<Rightarrow> unsafe_statics \<Rightarrow> addr \<Rightarrow> string \<Rightarrow> string \<Rightarrow> nat" where
  "get_offset_from_class E F U class_class name_s sig =
     (let field = jni_GetFieldID E class_class name_s sig in
      if field = 0 then 0 else ObjectFieldOffset E F U (jni_ToReflectedField E class_class field))"

definition GetClassDef_sym :: harg where
  "GetClassDef_sym = HFun ''GetClassDef_'' ''_ZN3art6mirror5Class11GetClassDefEv''"

definition class_offsets :: "jni_env \<Rightarrow> reflection \<Rightarrow> unsafe_statics \<Rightarrow> int \<Rightarrow> class_state \<Rightarrow> class_state" where
  "class_offsets E F U sdk_int C =
     (if HasUnsafe F \<and> HasObjectFieldOffset U then
        (let off = get_offset_from_class E F U (jni_FindClass E ''java/lang/Class'');
             C = C\<lparr> cs_access_flags_offset := off ''accessFlags'' ''I'' \<rparr>
         in if sdk_int \<ge> API_N then C\<lparr> cs_methods_offset := off ''methods'' ''J'' \<rparr>
            else if object_array_base_offset U = 0 then C
            else if sdk_int = API_M then
              C\<lparr> cs_methods_offset := off ''directMethods'' ''J'',
                 cs_virtual_methods_offset := off ''virtualMethods'' ''J'' \<rparr>
            else
              C\<lparr> cs_methods_offset := off ''directMethods'' ''[Ljava/lang/reflect/ArtMethod;'',
                 cs_virtual_methods_offset := off ''virtualMethods'' ''[Ljava/lang/reflect/ArtMethod;'' \<rparr>)
      else C)"

text \<open>\<open>repl\<close> gives the address of a hook's replacement.\<close>

definition set_status_hooks :: "(string \<Rightarrow> addr) \<Rightarrow> int \<Rightarrow> (harg \<times> bool) list" where
  "set_status_hooks repl sdk_int =
     (if sdk_int < API_O then
        [(HHook ''SetStatus_'' ''_ZN3art6mirror5Class9SetStatusENS_6HandleIS1_EENS1_6StatusEPNS_6ThreadE''
            (repl ''SetStatus_''), False),
         (HHook ''ClassSetStatus_'' ''_ZN3art6mirror5Class9SetStatusENS1_6StatusEPNS_6ThreadE''
            (repl ''ClassSetStatus_''), False)]
      else
        [(HHook ''SetClassStatus_'' ''_ZN3art6mirror5Class9SetStatusENS_6HandleIS1_EENS_11ClassStatusEPNS_6ThreadE''
            (repl ''SetClassStatus_''), False),
         (HHook ''TrivialSetStatus_'' ''_ZN3art6mirror5Class9SetStatusENS_6HandleIS1_EENS1_6StatusEPNS_6ThreadE''
            (repl ''TrivialSetStatus_''), False)])"

definition Class_Init ::
  "init_info \<Rightarrow> (string \<Rightarrow> addr) \<Rightarrow> jni_env \<Rightarrow> reflection \<Rightarrow> unsafe_statics \<Rightarrow> int \<Rightarrow> hook_state \<times> class_state
     \<Rightarrow> bool \<times> hook_state \<times> class_state" where
  "Class_Init info repl E F U sdk_int = (\<lambda>(H, C).
     (let (ok, H) = handler_any info (one GetClassDef_sym) H in
      if \<not> ok then (False, H, C)
      else
        (let (ok, H) = handler_any info (set_status_hooks repl sdk_int) H in
         if \<not> ok then (False, H, C)
         else (True, H, class_offsets E F U sdk_int
                 (C\<lparr> cs_initialized_status := initialized_status_for sdk_int \<rparr>)))))"

end
