(* ===== verification/Art_Runtime.thy ===== *)
theory Art_Runtime
  imports Jni_Env Step_Systems
begin

text \<open>
  art/runtime/runtime.cxx: \<open>Runtime\<close> (the offsets \<open>Init\<close> finds by scanning the runtime's memory, the
  debug state) and \<open>JavaDebuggableGuard\<close>, a lock-free reference count that makes the runtime
  debuggable while at least one guard is alive.

  libart's functions \<open>SetJavaDebuggable\<close> and \<open>SetRuntimeDebugState\<close> are parameters: they change
  the memory of the runtime they are called on.
\<close>

datatype debug_state = kNonJavaDebuggable | kJavaDebuggable | kJavaDebuggableAtInit

fun debug_value :: "debug_state \<Rightarrow> nat" where
  "debug_value kNonJavaDebuggable = 0"
| "debug_value kJavaDebuggable = 1"
| "debug_value kJavaDebuggableAtInit = 2"

record runtime_statics =
  rt_instance :: addr
  rt_debug_state_offset :: nat
  rt_jni_id_manager_offset :: nat
  rt_SetJavaDebuggable :: "(addr \<Rightarrow> bool \<Rightarrow> memory \<Rightarrow> memory) option"
  rt_SetRuntimeDebugState :: "(addr \<Rightarrow> debug_state \<Rightarrow> memory \<Rightarrow> memory) option"

definition Runtime_Current :: "arch \<Rightarrow> runtime_statics \<Rightarrow> memory \<Rightarrow> addr" where
  "Runtime_Current a RT m = load m (rt_instance RT) (kPointerSize a)"

definition GetJniIdManager :: "arch \<Rightarrow> runtime_statics \<Rightarrow> memory \<Rightarrow> addr \<Rightarrow> addr" where
  "GetJniIdManager a RT m this =
     (if rt_jni_id_manager_offset RT = 0 then 0
      else load m (this + rt_jni_id_manager_offset RT) (kPointerSize a))"

definition SetJavaDebuggable :: "runtime_statics \<Rightarrow> addr \<Rightarrow> debug_state \<Rightarrow> memory \<Rightarrow> memory" where
  "SetJavaDebuggable RT this v m =
     (case rt_SetJavaDebuggable RT of
        Some f \<Rightarrow> f this (v \<noteq> kNonJavaDebuggable) m
      | None \<Rightarrow>
          if rt_debug_state_offset RT > 0
          then store (this + rt_debug_state_offset RT) 4 (debug_value v) m else m)"

section \<open>Init\<close>

text \<open>The slot of the Java VM is looked for in the first 512 words of the runtime; the word before it is
  the id manager, unless it is too small to be a pointer. The result is an offset, 0 when nothing
  was found.\<close>

definition jni_id_manager_slot :: "arch \<Rightarrow> memory \<Rightarrow> addr \<Rightarrow> addr \<Rightarrow> nat \<Rightarrow> bool" where
  "jni_id_manager_slot a m runtime vm i \<longleftrightarrow>
     load m (runtime + i * kPointerSize a) (kPointerSize a) = vm \<and>
     \<not> load m (runtime + (i - 1) * kPointerSize a) (kPointerSize a) < 0x8000"

definition find_jni_id_manager :: "arch \<Rightarrow> memory \<Rightarrow> addr \<Rightarrow> addr \<Rightarrow> nat" where
  "find_jni_id_manager a m runtime vm =
     (case find (jni_id_manager_slot a m runtime vm) [1..<512] of
        Some i \<Rightarrow> (i - 1) * kPointerSize a
      | None \<Rightarrow> 0)"

text \<open>The debug state is found by calling \<open>SetRuntimeDebugState\<close> on a zeroed block of 4096 bytes and
  looking for the first place where the value of \<open>kJavaDebuggable\<close> can be read back.\<close>

definition kLargeEnoughSizeForRuntime :: nat where "kLargeEnoughSizeForRuntime = 4096"

definition find_debug_state :: "memory \<Rightarrow> addr \<Rightarrow> nat" where
  "find_debug_state m fake_runtime =
     (case find (\<lambda>i. load m (fake_runtime + i) 4 = debug_value kJavaDebuggable)
             [0..<kLargeEnoughSizeForRuntime] of
        Some i \<Rightarrow> i | None \<Rightarrow> 0)"

definition debug_hooks :: "(harg \<times> bool) list" where
  "debug_hooks =
     [(HFun ''SetRuntimeDebugState_'' ''_ZN3art7Runtime20SetRuntimeDebugStateENS0_17RuntimeDebugStateE'', False),
      (HFun ''SetJavaDebuggable_'' ''_ZN3art7Runtime17SetJavaDebuggableEb'', False)]"

text \<open>\<open>lib_set_debug\<close> and \<open>lib_set_state\<close> are the code behind the two symbols; a symbol's function is
  used when the symbol was found. \<open>fake\<close> is the address of the local array \<open>code\<close>, with the
  memory in which it is zeroed.\<close>

definition Runtime_Init ::
  "arch \<Rightarrow> int \<Rightarrow> init_info \<Rightarrow> jni_env \<Rightarrow> (addr \<Rightarrow> bool \<Rightarrow> memory \<Rightarrow> memory)
     \<Rightarrow> (addr \<Rightarrow> debug_state \<Rightarrow> memory \<Rightarrow> memory) \<Rightarrow> addr \<times> memory \<Rightarrow> memory
     \<Rightarrow> hook_state \<times> runtime_statics \<Rightarrow> bool \<times> hook_state \<times> runtime_statics" where
  "Runtime_Init a sdk_int info E lib_set_debug lib_set_state fake m = (\<lambda>(H, RT).
     (let (ok, H) = handler_any info (one (HFun ''instance_'' ''_ZN3art7Runtime9instance_E'')) H;
          RT = RT\<lparr> rt_instance := hs_raw H ''instance_'' \<rparr>
      in if \<not> ok \<or> Runtime_Current a RT m = 0 then (False, H, RT)
         else
           (let vm = jni_GetJavaVM E;
                RT = (if sdk_int \<ge> API_R \<and> vm \<noteq> 0
                      then RT\<lparr> rt_jni_id_manager_offset :=
                             find_jni_id_manager a m (Runtime_Current a RT m) vm \<rparr> else RT);
                (ok, H) = (if sdk_int \<ge> API_O then handler_any info debug_hooks H else (True, H));
                RT = RT\<lparr> rt_SetRuntimeDebugState :=
                           (if raw_set H ''SetRuntimeDebugState_'' then Some lib_set_state else None),
                         rt_SetJavaDebuggable :=
                           (if raw_set H ''SetJavaDebuggable_'' then Some lib_set_debug else None) \<rparr>
            in if \<not> ok then (False, H, RT)
               else case rt_SetRuntimeDebugState RT of
                      None \<Rightarrow> (True, H, RT)
                    | Some f \<Rightarrow>
                        (let off = find_debug_state (f (fst fake) kJavaDebuggable (snd fake)) (fst fake)
                         in (off \<noteq> 0, H, RT\<lparr> rt_debug_state_offset := off \<rparr>)))))"

section \<open>JavaDebuggableGuard\<close>

text \<open>
  The steps of the constructor and the destructor on the atomic \<open>count\<close>. A thread is outside,
  inside the constructor (about to compare, waiting at 1, or setting the state), holding a guard,
  or inside the destructor. \<open>count = 1\<close> is the transient value: some thread is changing the
  runtime's state.
\<close>

datatype guard_pc =
    Idle
  | CtorTry0
  | CtorWait
  | CtorSet
  | CtorAdd
  | CtorTryInc nat
  | Held
  | DtorTry2
  | DtorWait
  | DtorSet
  | DtorSub
  | DtorTryDec nat

record guard_state =
  gs_count :: nat
  gs_debuggable :: bool
  gs_pc :: "nat \<Rightarrow> guard_pc"

definition guard_init :: guard_state where
  "guard_init = \<lparr> gs_count = 0, gs_debuggable = False, gs_pc = (\<lambda>_. Idle) \<rparr>"

definition set_pc :: "nat \<Rightarrow> guard_pc \<Rightarrow> guard_state \<Rightarrow> guard_state" where
  "set_pc i p s = s\<lparr> gs_pc := (gs_pc s)(i := p) \<rparr>"

text \<open>One atomic step of thread \<open>i\<close>. A failed \<open>compare_exchange\<close> leaves the current count in
  \<open>expected\<close>; \<open>wait\<close> may return when the count is no longer 1.\<close>

inductive guard_step :: "nat \<Rightarrow> guard_state \<Rightarrow> guard_state \<Rightarrow> bool" for n where
  enter: "i < n \<Longrightarrow> gs_pc s i = Idle \<Longrightarrow> guard_step n s (set_pc i CtorTry0 s)"
| first: "i < n \<Longrightarrow> gs_pc s i = CtorTry0 \<Longrightarrow> gs_count s = 0 \<Longrightarrow>
    guard_step n s (set_pc i CtorSet (s\<lparr> gs_count := 1 \<rparr>))"
| busy: "i < n \<Longrightarrow> gs_pc s i = CtorTry0 \<Longrightarrow> gs_count s = 1 \<Longrightarrow> guard_step n s (set_pc i CtorWait s)"
| seen: "i < n \<Longrightarrow> gs_pc s i = CtorTry0 \<Longrightarrow> gs_count s \<ge> 2 \<Longrightarrow>
    guard_step n s (set_pc i (CtorTryInc (gs_count s)) s)"
| woken: "i < n \<Longrightarrow> gs_pc s i = CtorWait \<Longrightarrow> gs_count s \<noteq> 1 \<Longrightarrow> guard_step n s (set_pc i CtorTry0 s)"
| inc: "i < n \<Longrightarrow> gs_pc s i = CtorTryInc e \<Longrightarrow> gs_count s = e \<Longrightarrow>
    guard_step n s (set_pc i Held (s\<lparr> gs_count := e + 1 \<rparr>))"
| inc_fail: "i < n \<Longrightarrow> gs_pc s i = CtorTryInc e \<Longrightarrow> gs_count s \<noteq> e \<Longrightarrow>
    guard_step n s (set_pc i CtorTry0 s)"
| make_debuggable: "i < n \<Longrightarrow> gs_pc s i = CtorSet \<Longrightarrow>
    guard_step n s (set_pc i CtorAdd (s\<lparr> gs_debuggable := True \<rparr>))"
| ctor_done: "i < n \<Longrightarrow> gs_pc s i = CtorAdd \<Longrightarrow>
    guard_step n s (set_pc i Held (s\<lparr> gs_count := gs_count s + 1 \<rparr>))"
| leave: "i < n \<Longrightarrow> gs_pc s i = Held \<Longrightarrow> guard_step n s (set_pc i DtorTry2 s)"
| last: "i < n \<Longrightarrow> gs_pc s i = DtorTry2 \<Longrightarrow> gs_count s = 2 \<Longrightarrow>
    guard_step n s (set_pc i DtorSet (s\<lparr> gs_count := 1 \<rparr>))"
| dtor_busy: "i < n \<Longrightarrow> gs_pc s i = DtorTry2 \<Longrightarrow> gs_count s = 1 \<Longrightarrow> guard_step n s (set_pc i DtorWait s)"
| dtor_seen: "i < n \<Longrightarrow> gs_pc s i = DtorTry2 \<Longrightarrow> gs_count s \<noteq> 1 \<Longrightarrow> gs_count s \<noteq> 2 \<Longrightarrow>
    guard_step n s (set_pc i (DtorTryDec (gs_count s)) s)"
| dtor_woken: "i < n \<Longrightarrow> gs_pc s i = DtorWait \<Longrightarrow> gs_count s \<noteq> 1 \<Longrightarrow>
    guard_step n s (set_pc i DtorTry2 s)"
| dec: "i < n \<Longrightarrow> gs_pc s i = DtorTryDec e \<Longrightarrow> gs_count s = e \<Longrightarrow>
    guard_step n s (set_pc i Idle (s\<lparr> gs_count := e - 1 \<rparr>))"
| dec_fail: "i < n \<Longrightarrow> gs_pc s i = DtorTryDec e \<Longrightarrow> gs_count s \<noteq> e \<Longrightarrow>
    guard_step n s (set_pc i DtorTry2 s)"
| make_plain: "i < n \<Longrightarrow> gs_pc s i = DtorSet \<Longrightarrow>
    guard_step n s (set_pc i DtorSub (s\<lparr> gs_debuggable := False \<rparr>))"
| dtor_done: "i < n \<Longrightarrow> gs_pc s i = DtorSub \<Longrightarrow>
    guard_step n s (set_pc i Idle (s\<lparr> gs_count := gs_count s - 1 \<rparr>))"

definition guard_reachable :: "nat \<Rightarrow> guard_state \<Rightarrow> bool" where
  "guard_reachable n s \<longleftrightarrow> (guard_step n)\<^sup>*\<^sup>* guard_init s"

subsection \<open>The invariant\<close>

text \<open>A thread counts once the constructor incremented for it, until the destructor's decrement.\<close>

definition counted :: "guard_pc \<Rightarrow> bool" where
  "counted p \<longleftrightarrow> p \<in> {Held, DtorTry2, DtorWait} \<or> (\<exists>e. p = DtorTryDec e)"

definition switching :: "guard_pc \<Rightarrow> bool" where
  "switching p \<longleftrightarrow> p \<in> {CtorSet, CtorAdd, DtorSet, DtorSub}"

definition holders :: "nat \<Rightarrow> guard_state \<Rightarrow> nat" where
  "holders n s = card {i. i < n \<and> counted (gs_pc s i)}"

text \<open>With no thread switching, the count is 0 without holders and one more than their number
  otherwise, and the runtime is debuggable exactly when there are holders. While a thread switches
  the count is 1 and nobody holds a guard; the state is the one the thread has written.\<close>

definition quiet :: "nat \<Rightarrow> guard_state \<Rightarrow> bool" where
  "quiet n s \<longleftrightarrow> (\<forall>i. \<not> switching (gs_pc s i)) \<and>
     gs_count s = (if holders n s = 0 then 0 else holders n s + 1) \<and>
     (gs_debuggable s \<longleftrightarrow> holders n s > 0)"

definition switched_by :: "nat \<Rightarrow> guard_state \<Rightarrow> nat \<Rightarrow> bool" where
  "switched_by n s k \<longleftrightarrow> switching (gs_pc s k) \<and> (\<forall>j. j \<noteq> k \<longrightarrow> \<not> switching (gs_pc s j)) \<and>
     gs_count s = 1 \<and> holders n s = 0 \<and>
     (gs_debuggable s \<longleftrightarrow> gs_pc s k = CtorAdd \<or> gs_pc s k = DtorSet)"

definition guard_inv :: "nat \<Rightarrow> guard_state \<Rightarrow> bool" where
  "guard_inv n s \<longleftrightarrow>
     (\<forall>i \<ge> n. gs_pc s i = Idle) \<and>
     (\<forall>i e. gs_pc s i = CtorTryInc e \<longrightarrow> 2 \<le> e) \<and>
     (\<forall>i e. gs_pc s i = DtorTryDec e \<longrightarrow> 3 \<le> e) \<and>
     (quiet n s \<or> (\<exists>k. switched_by n s k))"

lemma holders_set_pc:
  assumes "i < n"
  shows "holders n (set_pc i p s) + of_bool (counted (gs_pc s i)) = holders n s + of_bool (counted p)"
proof -
  let ?A = "{j. j < n \<and> j \<noteq> i \<and> counted (gs_pc s j)}"
  have "{j. j < n \<and> counted (gs_pc (set_pc i p s) j)} = (if counted p then insert i ?A else ?A)"
    and "{j. j < n \<and> counted (gs_pc s j)} = (if counted (gs_pc s i) then insert i ?A else ?A)"
    using assms by (auto simp: set_pc_def)
  then show ?thesis by (simp add: holders_def)
qed

lemma holders_frame [simp]:
  "holders n (s\<lparr> gs_count := c \<rparr>) = holders n s" "holders n (s\<lparr> gs_debuggable := d \<rparr>) = holders n s"
  "holders n (set_pc i p (s\<lparr> gs_count := c \<rparr>)) = holders n (set_pc i p s)"
  "holders n (set_pc i p (s\<lparr> gs_count := c, gs_debuggable := d \<rparr>)) = holders n (set_pc i p s)"
  by (simp_all add: holders_def set_pc_def)

lemma set_pc_simps [simp]:
  "gs_pc (set_pc i p s) = (gs_pc s)(i := p)" "gs_count (set_pc i p s) = gs_count s"
  "gs_debuggable (set_pc i p s) = gs_debuggable s"
  by (simp_all add: set_pc_def)

lemma counted_simps [simp]:
  "counted Held" "counted DtorTry2" "counted DtorWait" "counted (DtorTryDec e)" "\<not> counted Idle"
  "\<not> counted CtorTry0" "\<not> counted CtorWait" "\<not> counted CtorSet" "\<not> counted CtorAdd"
  "\<not> counted (CtorTryInc e)" "\<not> counted DtorSet" "\<not> counted DtorSub"
  by (simp_all add: counted_def)

lemma switching_simps [simp]:
  "switching CtorSet" "switching CtorAdd" "switching DtorSet" "switching DtorSub" "\<not> switching Idle"
  "\<not> switching CtorTry0" "\<not> switching CtorWait" "\<not> switching Held" "\<not> switching (CtorTryInc e)"
  "\<not> switching DtorTry2" "\<not> switching DtorWait" "\<not> switching (DtorTryDec e)"
  by (simp_all add: switching_def)

text \<open>Two kinds of steps: those that neither count nor switch, and the others.\<close>

lemma guard_inv_plain:
  assumes inv: "guard_inv n s" and i: "i < n" and same: "counted p = counted (gs_pc s i)"
    and ns: "\<not> switching p" "\<not> switching (gs_pc s i)"
    and e: "\<And>e. p = CtorTryInc e \<Longrightarrow> 2 \<le> e" "\<And>e. p = DtorTryDec e \<Longrightarrow> 3 \<le> e"
  shows "guard_inv n (set_pc i p s)"
proof -
  have h: "holders n (set_pc i p s) = holders n s" using holders_set_pc [OF i, of p s] same by simp
  have "quiet n s \<Longrightarrow> quiet n (set_pc i p s)" using ns by (simp add: quiet_def h)
  moreover have "switched_by n s k \<Longrightarrow> switched_by n (set_pc i p s) k" for k
    using ns by (auto simp: switched_by_def h)
  ultimately have "quiet n (set_pc i p s) \<or> (\<exists>k. switched_by n (set_pc i p s) k)"
    using inv unfolding guard_inv_def by blast
  then show ?thesis using inv i e by (simp add: guard_inv_def)
qed

lemma quiet_of_count: "guard_inv n s \<Longrightarrow> gs_count s \<noteq> 1 \<Longrightarrow> quiet n s"
  by (auto simp: guard_inv_def switched_by_def)

lemma switched_of_pc:
  assumes "guard_inv n s" "switching (gs_pc s i)"
  shows "switched_by n s i"
proof -
  obtain k where k: "switched_by n s k" using assms by (auto simp: guard_inv_def quiet_def)
  then have "k = i" using assms(2) by (auto simp: switched_by_def)
  with k show ?thesis by simp
qed

lemma holders_pos: "i < n \<Longrightarrow> counted (gs_pc s i) \<Longrightarrow> holders n s > 0"
  using holders_set_pc [of i n Idle s] by simp

lemma guard_inv_bounds:
  "guard_inv n s \<Longrightarrow> gs_pc s i = CtorTryInc e \<Longrightarrow> 2 \<le> e"
  "guard_inv n s \<Longrightarrow> gs_pc s i = DtorTryDec e \<Longrightarrow> 3 \<le> e"
  by (simp_all add: guard_inv_def)

lemma guard_invI_quiet:
  assumes "guard_inv n s" "i < n" "quiet n (set_pc i p (s\<lparr> gs_count := c \<rparr>))"
    "\<And>e. p \<noteq> CtorTryInc e" "\<And>e. p \<noteq> DtorTryDec e"
  shows "guard_inv n (set_pc i p (s\<lparr> gs_count := c \<rparr>))"
  using assms by (auto simp: guard_inv_def)

lemma guard_invI_switch:
  assumes "guard_inv n s" "i < n" "switched_by n (set_pc i p (s\<lparr> gs_count := c, gs_debuggable := d \<rparr>)) i"
  shows "guard_inv n (set_pc i p (s\<lparr> gs_count := c, gs_debuggable := d \<rparr>))"
proof -
  have "switching p" using assms(3) by (simp add: switched_by_def)
  then have "p \<noteq> CtorTryInc e" "p \<noteq> DtorTryDec e" for e by auto
  then show ?thesis using assms by (auto simp: guard_inv_def)
qed

lemma guard_inv_step: "guard_step n s s' \<Longrightarrow> guard_inv n s \<Longrightarrow> guard_inv n s'"
proof (induction rule: guard_step.induct)
  case (first i s)
  have q: "quiet n s" by (rule quiet_of_count) (use first in simp_all)
  then have h0: "holders n s = 0" using first(3) by (simp add: quiet_def split: if_splits)
  have "holders n (set_pc i CtorSet s) = 0" using holders_set_pc [OF first(1), of CtorSet s] first(2) h0 by simp
  then have "switched_by n (set_pc i CtorSet (s\<lparr> gs_count := 1, gs_debuggable := gs_debuggable s \<rparr>)) i"
    using q h0 by (auto simp: switched_by_def quiet_def)
  from guard_invI_switch [OF first(4,1) this] show ?case by simp
next
  case (inc i s e)
  have e: "2 \<le> e" by (rule guard_inv_bounds(1)) (use inc in simp_all)
  have q: "quiet n s" by (rule quiet_of_count) (use inc e in simp_all)
  have "holders n (set_pc i Held s) = holders n s + 1" using holders_set_pc [OF inc(1), of Held s] inc(2) by simp
  then have "quiet n (set_pc i Held (s\<lparr> gs_count := e + 1 \<rparr>))"
    using q inc e by (auto simp: quiet_def split: if_splits)
  then show ?case by (intro guard_invI_quiet [OF inc(4,1)]) simp_all
next
  case (make_debuggable i s)
  have k: "switched_by n s i" by (rule switched_of_pc) (use make_debuggable in simp_all)
  have "holders n (set_pc i CtorAdd s) = holders n s"
    using holders_set_pc [OF make_debuggable(1), of CtorAdd s] make_debuggable(2) by simp
  then have "switched_by n (set_pc i CtorAdd (s\<lparr> gs_count := gs_count s, gs_debuggable := True \<rparr>)) i"
    using k by (auto simp: switched_by_def)
  from guard_invI_switch [OF make_debuggable(3,1) this] show ?case by simp
next
  case (ctor_done i s)
  have k: "switched_by n s i" by (rule switched_of_pc) (use ctor_done in simp_all)
  have "holders n (set_pc i Held s) = 1"
    using holders_set_pc [OF ctor_done(1), of Held s] ctor_done(2) k by (simp add: switched_by_def)
  then have "quiet n (set_pc i Held (s\<lparr> gs_count := gs_count s + 1 \<rparr>))"
    using k ctor_done(2) by (auto simp: switched_by_def quiet_def)
  then show ?case by (intro guard_invI_quiet [OF ctor_done(3,1)]) simp_all
next
  case (last i s)
  have q: "quiet n s" by (rule quiet_of_count) (use last in simp_all)
  then have "holders n s = 1" using last(3) by (simp add: quiet_def split: if_splits)
  then have "holders n (set_pc i DtorSet s) = 0" using holders_set_pc [OF last(1), of DtorSet s] last(2) by simp
  then have "switched_by n (set_pc i DtorSet (s\<lparr> gs_count := 1, gs_debuggable := gs_debuggable s \<rparr>)) i"
    using q last(3) by (auto simp: switched_by_def quiet_def split: if_splits)
  from guard_invI_switch [OF last(4,1) this] show ?case by simp
next
  case (dec i s e)
  have e: "3 \<le> e" by (rule guard_inv_bounds(2)) (use dec in simp_all)
  have q: "quiet n s" by (rule quiet_of_count) (use dec e in simp_all)
  have "holders n (set_pc i Idle s) + 1 = holders n s" using holders_set_pc [OF dec(1), of Idle s] dec(2) by simp
  then have "quiet n (set_pc i Idle (s\<lparr> gs_count := e - 1 \<rparr>))"
    using q dec(3) e by (auto simp: quiet_def split: if_splits)
  then show ?case by (intro guard_invI_quiet [OF dec(4,1)]) simp_all
next
  case (make_plain i s)
  have k: "switched_by n s i" by (rule switched_of_pc) (use make_plain in simp_all)
  have "holders n (set_pc i DtorSub s) = holders n s"
    using holders_set_pc [OF make_plain(1), of DtorSub s] make_plain(2) by simp
  then have "switched_by n (set_pc i DtorSub (s\<lparr> gs_count := gs_count s, gs_debuggable := False \<rparr>)) i"
    using k by (auto simp: switched_by_def)
  from guard_invI_switch [OF make_plain(3,1) this] show ?case by simp
next
  case (dtor_done i s)
  have k: "switched_by n s i" by (rule switched_of_pc) (use dtor_done in simp_all)
  have "holders n (set_pc i Idle s) = 0"
    using holders_set_pc [OF dtor_done(1), of Idle s] dtor_done(2) k by (simp add: switched_by_def)
  then have "quiet n (set_pc i Idle (s\<lparr> gs_count := gs_count s - 1 \<rparr>))"
    using k dtor_done(2) by (auto simp: switched_by_def quiet_def)
  then show ?case by (intro guard_invI_quiet [OF dtor_done(3,1)]) simp_all
next
  case (dtor_seen i s)
  have "holders n s > 0" by (rule holders_pos [OF dtor_seen(1)]) (use dtor_seen in simp)
  moreover have "quiet n s" by (rule quiet_of_count) (use dtor_seen in simp_all)
  ultimately have "3 \<le> gs_count s" using dtor_seen(4) by (auto simp: quiet_def)
  then show ?case using dtor_seen by (intro guard_inv_plain) auto
qed (auto intro!: guard_inv_plain)

lemma guard_inv_init: "guard_inv n guard_init"
  by (simp add: guard_inv_def quiet_def guard_init_def holders_def)

lemma guard_inv_debuggable: "guard_inv n s \<Longrightarrow> holders n s > 0 \<Longrightarrow> gs_debuggable s"
  by (auto simp: guard_inv_def quiet_def switched_by_def)

text \<open>What the guards are for: a counter of holders over a flag. Only with the flag set does a thread start
  or cease to hold a guard, and the flag changes only while nobody does.\<close>

inductive debug_lock :: "nat \<times> bool \<Rightarrow> nat \<times> bool \<Rightarrow> bool" where
  acquire: "debug_lock (k, True) (Suc k, True)"
| release: "debug_lock (Suc k, True) (k, True)"
| switch: "debug_lock (0, d) (0, \<not> d)"

definition guard_view :: "nat \<Rightarrow> guard_state \<Rightarrow> nat \<times> bool" where
  "guard_view n s = (holders n s, gs_debuggable s)"

lemma holders_set_pc_near:
  "i < n \<Longrightarrow> holders n (set_pc i p s) = holders n s \<or> holders n (set_pc i p s) = Suc (holders n s) \<or>
    holders n s = Suc (holders n (set_pc i p s))"
  using holders_set_pc [of i n p s] by (cases "counted p"; cases "counted (gs_pc s i)") auto

lemma guard_step_view:
  assumes "guard_step n s s'"
  shows "holders n s' = holders n s \<or>
    (holders n s' = Suc (holders n s) \<or> holders n s = Suc (holders n s')) \<and> gs_debuggable s' = gs_debuggable s"
  using assms
proof cases
  case (make_debuggable i)
  then show ?thesis using holders_set_pc [of i n CtorAdd "s\<lparr> gs_debuggable := True \<rparr>"] by simp
next
  case (make_plain i)
  then show ?thesis using holders_set_pc [of i n DtorSub "s\<lparr> gs_debuggable := False \<rparr>"] by simp
qed (simp_all add: holders_set_pc_near)

interpretation guards: refinement_map "guard_step n" "guard_inv n" "guard_view n" debug_lock for n
proof unfold_locales
  fix s s'
  show inv: "guard_inv n s \<Longrightarrow> guard_step n s s' \<Longrightarrow> guard_inv n s'" by (rule guard_inv_step)
  assume s: "guard_inv n s" and st: "guard_step n s s'"
  note d = guard_inv_debuggable [OF s] guard_inv_debuggable [OF inv [OF s st]]
  consider "holders n s' = holders n s" "gs_debuggable s' = gs_debuggable s"
    | "holders n s' = holders n s" "holders n s = 0" "gs_debuggable s' = (\<not> gs_debuggable s)"
    | "holders n s' = Suc (holders n s)" "gs_debuggable s" "gs_debuggable s'"
    | "holders n s = Suc (holders n s')" "gs_debuggable s" "gs_debuggable s'"
    using guard_step_view [OF st] d by (cases "holders n s = 0") auto
  then show "guard_view n s' = guard_view n s \<or> debug_lock (guard_view n s) (guard_view n s')"
    by cases (simp_all add: guard_view_def debug_lock.intros)
qed

lemma guard_inv_reachable: "guard_reachable n s \<Longrightarrow> guard_inv n s"
  unfolding guard_reachable_def by (rule guards.run_inv [OF _ guard_inv_init])

text \<open>C16. While any thread holds a \<open>JavaDebuggableGuard\<close> the runtime is debuggable; with no thread
  inside the constructor, the destructor or holding a guard, it is not, and the count is 0.\<close>

theorem guard_debuggable:
  assumes "guard_reachable n s"
  shows "(gs_pc s i = Held \<longrightarrow> gs_debuggable s) \<and>
    ((\<forall>i. gs_pc s i = Idle) \<longrightarrow> \<not> gs_debuggable s \<and> gs_count s = 0)"
proof -
  have inv: "guard_inv n s" using assms by (rule guard_inv_reachable)
  have "gs_debuggable s" if p: "gs_pc s i = Held"
  proof -
    have "i < n"
    proof (rule ccontr)
      assume "\<not> i < n"
      then have "gs_pc s i = Idle" using inv by (simp add: guard_inv_def)
      then show False using p by simp
    qed
    then have h: "holders n s > 0" using holders_pos [of i n s] p by simp
    then have "quiet n s" using inv by (auto simp: guard_inv_def switched_by_def)
    then show ?thesis using h by (simp add: quiet_def)
  qed
  moreover have "\<not> gs_debuggable s \<and> gs_count s = 0" if "\<forall>i. gs_pc s i = Idle"
    using inv that by (auto simp: guard_inv_def quiet_def switched_by_def holders_def)
  ultimately show ?thesis by blast
qed

text \<open>One thread that has constructed its guard.\<close>

definition guard_demo :: guard_state where
  "guard_demo = set_pc 0 Held (guard_init\<lparr> gs_count := 2, gs_debuggable := True \<rparr>)"

lemma guard_demo_reachable: "guard_reachable 1 guard_demo"
proof -
  let ?s1 = "set_pc 0 CtorTry0 guard_init"
  let ?s2 = "set_pc 0 CtorSet (?s1\<lparr> gs_count := 1 \<rparr>)"
  let ?s3 = "set_pc 0 CtorAdd (?s2\<lparr> gs_debuggable := True \<rparr>)"
  have "guard_step 1 guard_init ?s1" by (rule enter) (simp_all add: guard_init_def)
  moreover have "guard_step 1 ?s1 ?s2" by (rule first) (simp_all add: guard_init_def)
  moreover have "guard_step 1 ?s2 ?s3" by (rule make_debuggable) simp_all
  moreover have "guard_step 1 ?s3 (set_pc 0 Held (?s3\<lparr> gs_count := gs_count ?s3 + 1 \<rparr>))"
    by (rule ctor_done) simp_all
  moreover have "set_pc 0 Held (?s3\<lparr> gs_count := gs_count ?s3 + 1 \<rparr>) = guard_demo"
    by (simp add: guard_demo_def set_pc_def guard_init_def fun_eq_iff)
  ultimately show ?thesis
    unfolding guard_reachable_def by (metis converse_rtranclp_into_rtranclp rtranclp.rtrancl_refl)
qed

theorem guard_debuggable_witness:
  "guard_reachable 1 guard_demo \<and> gs_pc guard_demo 0 = Held \<and> gs_debuggable guard_demo"
  using guard_debuggable [OF guard_demo_reachable, of 0] guard_demo_reachable
  by (simp add: guard_demo_def)

subsection \<open>Without contention\<close>

text \<open>What the constructor and the destructor do on \<open>count\<close> and the runtime's memory when no other thread
  is switching: the sequential reading, for the callers that are modelled sequentially.\<close>

definition guard_construct :: "arch \<Rightarrow> runtime_statics \<Rightarrow> nat \<times> memory \<Rightarrow> nat \<times> memory" where
  "guard_construct a RT = (\<lambda>(count, m).
     (if count = 0 then (2, SetJavaDebuggable RT (Runtime_Current a RT m) kJavaDebuggableAtInit m)
      else (count + 1, m)))"

definition guard_destruct :: "arch \<Rightarrow> runtime_statics \<Rightarrow> nat \<times> memory \<Rightarrow> nat \<times> memory" where
  "guard_destruct a RT = (\<lambda>(count, m).
     (if count = 2 then (0, SetJavaDebuggable RT (Runtime_Current a RT m) kNonJavaDebuggable m)
      else (count - 1, m)))"

lemma set_pc_twice [simp]: "set_pc i p (set_pc i q s) = set_pc i p s"
  by (simp add: set_pc_def)

lemma set_pc_update [simp]:
  "(set_pc i p s)\<lparr> gs_count := c \<rparr> = set_pc i p (s\<lparr> gs_count := c \<rparr>)"
  "(set_pc i p s)\<lparr> gs_debuggable := d \<rparr> = set_pc i p (s\<lparr> gs_debuggable := d \<rparr>)"
  by (simp_all add: set_pc_def)

lemma steps2: "r x y \<Longrightarrow> r y z \<Longrightarrow> r\<^sup>*\<^sup>* x z"
  by (rule converse_rtranclp_into_rtranclp) (auto intro: r_into_rtranclp)

lemma steps3: "r x y \<Longrightarrow> r y z \<Longrightarrow> r z u \<Longrightarrow> r\<^sup>*\<^sup>* x u"
  by (rule converse_rtranclp_into_rtranclp) (auto intro: steps2)

lemma guard_construct_run:
  assumes i: "i < n" and pc: "gs_pc s i = CtorTry0" and c: "gs_count s \<noteq> 1"
  shows "(guard_step n)\<^sup>*\<^sup>* s (set_pc i Held (s\<lparr> gs_debuggable := (gs_debuggable s \<or> gs_count s = 0),
    gs_count := fst (guard_construct a RT (gs_count s, m)) \<rparr>))"
proof (cases "gs_count s = 0")
  case True
  let ?s1 = "set_pc i CtorSet (s\<lparr> gs_count := 1 \<rparr>)"
  let ?s2 = "set_pc i CtorAdd (?s1\<lparr> gs_debuggable := True \<rparr>)"
  have "guard_step n s ?s1" by (rule first [OF i pc True])
  moreover have "guard_step n ?s1 ?s2" by (rule make_debuggable) (use i in simp_all)
  moreover have "guard_step n ?s2 (set_pc i Held (?s2\<lparr> gs_count := gs_count ?s2 + 1 \<rparr>))"
    by (rule ctor_done) (use i in simp_all)
  ultimately have "(guard_step n)\<^sup>*\<^sup>* s (set_pc i Held (?s2\<lparr> gs_count := gs_count ?s2 + 1 \<rparr>))"
    by (rule steps3)
  then show ?thesis using True by (simp add: guard_construct_def numeral_2_eq_2)
next
  case False
  let ?s1 = "set_pc i (CtorTryInc (gs_count s)) s"
  have "guard_step n s ?s1" by (rule seen [OF i pc]) (use False c in simp)
  moreover have "guard_step n ?s1 (set_pc i Held (?s1\<lparr> gs_count := gs_count s + 1 \<rparr>))"
    by (rule inc) (use i in simp_all)
  ultimately have "(guard_step n)\<^sup>*\<^sup>* s (set_pc i Held (?s1\<lparr> gs_count := gs_count s + 1 \<rparr>))"
    by (rule steps2)
  then show ?thesis using False by (simp add: guard_construct_def)
qed

lemma guard_destruct_run:
  assumes i: "i < n" and pc: "gs_pc s i = DtorTry2" and c: "gs_count s \<noteq> 1"
  shows "(guard_step n)\<^sup>*\<^sup>* s (set_pc i Idle (s\<lparr> gs_debuggable := (gs_debuggable s \<and> gs_count s \<noteq> 2),
    gs_count := fst (guard_destruct a RT (gs_count s, m)) \<rparr>))"
proof (cases "gs_count s = 2")
  case True
  let ?s1 = "set_pc i DtorSet (s\<lparr> gs_count := 1 \<rparr>)"
  let ?s2 = "set_pc i DtorSub (?s1\<lparr> gs_debuggable := False \<rparr>)"
  have "guard_step n s ?s1" by (rule last [OF i pc True])
  moreover have "guard_step n ?s1 ?s2" by (rule make_plain) (use i in simp_all)
  moreover have "guard_step n ?s2 (set_pc i Idle (?s2\<lparr> gs_count := gs_count ?s2 - 1 \<rparr>))"
    by (rule dtor_done) (use i in simp_all)
  ultimately have "(guard_step n)\<^sup>*\<^sup>* s (set_pc i Idle (?s2\<lparr> gs_count := gs_count ?s2 - 1 \<rparr>))"
    by (rule steps3)
  then show ?thesis using True by (simp add: guard_destruct_def)
next
  case False
  let ?s1 = "set_pc i (DtorTryDec (gs_count s)) s"
  have "guard_step n s ?s1" by (rule dtor_seen [OF i pc]) (use False c in simp_all)
  moreover have "guard_step n ?s1 (set_pc i Idle (?s1\<lparr> gs_count := gs_count s - 1 \<rparr>))"
    by (rule dec) (use i in simp_all)
  ultimately have "(guard_step n)\<^sup>*\<^sup>* s (set_pc i Idle (?s1\<lparr> gs_count := gs_count s - 1 \<rparr>))"
    by (rule steps2)
  then show ?thesis using False by (simp add: guard_destruct_def)
qed

subsection \<open>Progress\<close>

text \<open>The thread that is switching needs two steps of its own, whatever the others do.\<close>

definition switch_target :: "guard_pc \<Rightarrow> guard_pc" where
  "switch_target p = (if p \<in> {CtorSet, CtorAdd} then Held else if p \<in> {DtorSet, DtorSub} then Idle else p)"

lemma guard_settles:
  assumes inv: "guard_inv n s"
  shows "\<exists>s'. (guard_step n)\<^sup>*\<^sup>* s s' \<and> gs_count s' \<noteq> 1 \<and> (\<forall>j. gs_pc s' j = switch_target (gs_pc s j))"
proof -
  consider "quiet n s" | k where "switched_by n s k" using inv by (auto simp: guard_inv_def)
  then show ?thesis
  proof cases
    case 1
    then have "gs_count s \<noteq> 1" "\<forall>j. gs_pc s j = switch_target (gs_pc s j)"
      by (auto simp: quiet_def switch_target_def switching_def)
    then show ?thesis by blast
  next
    case (2 k)
    then have k: "switching (gs_pc s k)" "gs_count s = 1" "\<And>j. j \<noteq> k \<Longrightarrow> switch_target (gs_pc s j) = gs_pc s j"
      by (auto simp: switched_by_def switch_target_def switching_def)
    have kn: "k < n" using inv k(1) by (metis guard_inv_def not_le switching_simps(5))
    have add: "\<exists>s'. (guard_step n)\<^sup>*\<^sup>* t s' \<and> gs_count s' \<noteq> 1 \<and> gs_pc s' = (gs_pc t)(k := Held)"
      if "gs_pc t k = CtorAdd" "gs_count t = 1" for t
      using ctor_done [of k n t] that kn by (intro exI [of _ "set_pc k Held (t\<lparr> gs_count := gs_count t + 1 \<rparr>)"]) auto
    have sub: "\<exists>s'. (guard_step n)\<^sup>*\<^sup>* t s' \<and> gs_count s' \<noteq> 1 \<and> gs_pc s' = (gs_pc t)(k := Idle)"
      if "gs_pc t k = DtorSub" "gs_count t = 1" for t
      using dtor_done [of k n t] that kn by (intro exI [of _ "set_pc k Idle (t\<lparr> gs_count := gs_count t - 1 \<rparr>)"]) auto
    have "\<exists>s'. (guard_step n)\<^sup>*\<^sup>* s s' \<and> gs_count s' \<noteq> 1 \<and> gs_pc s' = (gs_pc s)(k := switch_target (gs_pc s k))"
    proof -
      consider "gs_pc s k = CtorSet" | "gs_pc s k = CtorAdd" | "gs_pc s k = DtorSet" | "gs_pc s k = DtorSub"
        using k(1) by (auto simp: switching_def)
      then show ?thesis
      proof cases
        case 1
        let ?t = "set_pc k CtorAdd (s\<lparr> gs_debuggable := True \<rparr>)"
        have st: "guard_step n s ?t" by (rule make_debuggable [OF kn 1])
        obtain s' where "(guard_step n)\<^sup>*\<^sup>* ?t s'" "gs_count s' \<noteq> 1" "gs_pc s' = (gs_pc ?t)(k := Held)"
          using add [of ?t] k(2) by auto
        then show ?thesis
          using st 1 by (intro exI [of _ s']) (auto simp: switch_target_def intro: converse_rtranclp_into_rtranclp)
      next
        case 2
        then show ?thesis using add [of s] k(2) by (simp add: switch_target_def)
      next
        case 3
        let ?t = "set_pc k DtorSub (s\<lparr> gs_debuggable := False \<rparr>)"
        have st: "guard_step n s ?t" by (rule make_plain [OF kn 3])
        obtain s' where "(guard_step n)\<^sup>*\<^sup>* ?t s'" "gs_count s' \<noteq> 1" "gs_pc s' = (gs_pc ?t)(k := Idle)"
          using sub [of ?t] k(2) by auto
        then show ?thesis
          using st 3 by (intro exI [of _ s']) (auto simp: switch_target_def intro: converse_rtranclp_into_rtranclp)
      next
        case 4
        then show ?thesis using sub [of s] k(2) by (simp add: switch_target_def)
      qed
    qed
    then show ?thesis using k(3) by fastforce
  qed
qed

text \<open>From a count that is not 1, a thread can finish the constructor or the destructor by itself.\<close>

lemma guard_construct_finish:
  assumes i: "i < n" and c: "gs_count s \<noteq> 1" and pc: "gs_pc s i \<in> {CtorTry0, CtorWait} \<union> range CtorTryInc"
  shows "\<exists>s'. (guard_step n)\<^sup>*\<^sup>* s s' \<and> gs_pc s' i = Held"
proof -
  have again: "\<exists>s'. (guard_step n)\<^sup>*\<^sup>* t s' \<and> gs_pc s' i = Held" if "gs_pc t i = CtorTry0" "gs_count t \<noteq> 1" for t
  proof -
    have "gs_pc (set_pc i Held u) i = Held" for u by simp
    then show ?thesis using guard_construct_run [OF i that] by blast
  qed
  have more: "?thesis" if "guard_step n s (set_pc i CtorTry0 s)"
    using again [of "set_pc i CtorTry0 s"] c that by (auto intro: converse_rtranclp_into_rtranclp)
  consider "gs_pc s i = CtorTry0" | "gs_pc s i = CtorWait" | e where "gs_pc s i = CtorTryInc e" "gs_count s = e"
    | e where "gs_pc s i = CtorTryInc e" "gs_count s \<noteq> e" using pc by auto
  then show ?thesis
  proof cases
    case 1
    then show ?thesis using again c by blast
  next
    case 2
    then show ?thesis using woken [OF i _ c] more by blast
  next
    case (3 e)
    let ?t = "set_pc i Held (s\<lparr> gs_count := e + 1 \<rparr>)"
    have "guard_step n s ?t" by (rule inc [OF i 3])
    then show ?thesis by (intro exI [of _ ?t]) auto
  next
    case (4 e)
    then show ?thesis using inc_fail [OF i] more by blast
  qed
qed

lemma guard_destruct_finish:
  assumes i: "i < n" and c: "gs_count s \<noteq> 1" and pc: "gs_pc s i \<in> {DtorTry2, DtorWait} \<union> range DtorTryDec"
  shows "\<exists>s'. (guard_step n)\<^sup>*\<^sup>* s s' \<and> gs_pc s' i = Idle"
proof -
  have again: "\<exists>s'. (guard_step n)\<^sup>*\<^sup>* t s' \<and> gs_pc s' i = Idle" if "gs_pc t i = DtorTry2" "gs_count t \<noteq> 1" for t
  proof -
    have "gs_pc (set_pc i Idle u) i = Idle" for u by simp
    then show ?thesis using guard_destruct_run [OF i that] by blast
  qed
  have more: "?thesis" if "guard_step n s (set_pc i DtorTry2 s)"
    using again [of "set_pc i DtorTry2 s"] c that by (auto intro: converse_rtranclp_into_rtranclp)
  consider "gs_pc s i = DtorTry2" | "gs_pc s i = DtorWait" | e where "gs_pc s i = DtorTryDec e" "gs_count s = e"
    | e where "gs_pc s i = DtorTryDec e" "gs_count s \<noteq> e" using pc by auto
  then show ?thesis
  proof cases
    case 1
    then show ?thesis using again c by blast
  next
    case 2
    then show ?thesis using dtor_woken [OF i _ c] more by blast
  next
    case (3 e)
    let ?t = "set_pc i Idle (s\<lparr> gs_count := e - 1 \<rparr>)"
    have "guard_step n s ?t" by (rule dec [OF i 3])
    then show ?thesis by (intro exI [of _ ?t]) auto
  next
    case (4 e)
    then show ?thesis using dec_fail [OF i] more by blast
  qed
qed

definition constructing :: "guard_pc \<Rightarrow> bool" where
  "constructing p \<longleftrightarrow> p \<in> {CtorTry0, CtorWait, CtorSet, CtorAdd} \<union> range CtorTryInc"

definition destructing :: "guard_pc \<Rightarrow> bool" where
  "destructing p \<longleftrightarrow> p \<in> {DtorTry2, DtorWait, DtorSet, DtorSub} \<union> range DtorTryDec"

text \<open>C17. There is no deadlock: from every reachable state, a thread inside the constructor can get its guard
  and a thread inside the destructor can leave it, with the steps of the thread that is switching and
  its own.\<close>

theorem guard_progress:
  assumes "guard_reachable n s" "i < n"
  shows "(constructing (gs_pc s i) \<longrightarrow> (\<exists>s'. (guard_step n)\<^sup>*\<^sup>* s s' \<and> gs_pc s' i = Held)) \<and>
    (destructing (gs_pc s i) \<longrightarrow> (\<exists>s'. (guard_step n)\<^sup>*\<^sup>* s s' \<and> gs_pc s' i = Idle))"
proof -
  obtain t where t: "(guard_step n)\<^sup>*\<^sup>* s t" "gs_count t \<noteq> 1" "gs_pc t i = switch_target (gs_pc s i)"
    using guard_settles [OF guard_inv_reachable [OF assms(1)]] by blast
  have "\<exists>s'. (guard_step n)\<^sup>*\<^sup>* s s' \<and> gs_pc s' i = Held" if p: "constructing (gs_pc s i)"
  proof (cases "gs_pc s i \<in> {CtorSet, CtorAdd}")
    case True
    then show ?thesis using t by (auto simp: switch_target_def)
  next
    case False
    then have "gs_pc t i \<in> {CtorTry0, CtorWait} \<union> range CtorTryInc"
      using p t(3) by (auto simp: constructing_def switch_target_def)
    from guard_construct_finish [OF assms(2) t(2) this] show ?thesis using t(1) by (meson rtranclp_trans)
  qed
  moreover have "\<exists>s'. (guard_step n)\<^sup>*\<^sup>* s s' \<and> gs_pc s' i = Idle" if p: "destructing (gs_pc s i)"
  proof (cases "gs_pc s i \<in> {DtorSet, DtorSub}")
    case True
    then show ?thesis using t by (auto simp: switch_target_def)
  next
    case False
    then have "gs_pc t i \<in> {DtorTry2, DtorWait} \<union> range DtorTryDec"
      using p t(3) by (auto simp: destructing_def switch_target_def)
    from guard_destruct_finish [OF assms(2) t(2) this] show ?thesis using t(1) by (meson rtranclp_trans)
  qed
  ultimately show ?thesis by blast
qed

theorem guard_progress_witness:
  "\<exists>s'. guard_reachable 1 (set_pc 0 CtorTry0 guard_init) \<and>
     (guard_step 1)\<^sup>*\<^sup>* (set_pc 0 CtorTry0 guard_init) s' \<and> gs_pc s' 0 = Held"
proof -
  have r: "guard_reachable 1 (set_pc 0 CtorTry0 guard_init)"
    unfolding guard_reachable_def by (rule r_into_rtranclp, rule enter) (simp_all add: guard_init_def)
  then show ?thesis using guard_progress [OF r, of 0] by (simp add: constructing_def)
qed

end
