(* ===== verification/Method_Ids.thy ===== *)
theory Method_Ids
  imports Unsafe Art_Runtime
begin

text \<open>
  How an \<open>ArtMethod\<close> is found: from a reflected method or a method id
  (art/runtime/art_method.cxx, art/runtime/jni/jni_id_manager.cxx), the hooks that keep backups
  invisible to ids and frame queries, and \<open>ArtMethod::Init\<close>, which finds the layout of the
  structure.
\<close>

section \<open>JniIdManager\<close>

definition IsIndexId :: "arch \<Rightarrow> addr \<Rightarrow> bool" where
  "IsIndexId a v \<longleftrightarrow> v = 0 \<or> v mod kPointerSize a \<noteq> 0"

text \<open>\<open>decode\<close> is libart's \<open>DecodeMethodId\<close>, if the symbol was found.\<close>

definition DecodeMethodId :: "(addr \<Rightarrow> addr \<Rightarrow> addr) option \<Rightarrow> addr \<Rightarrow> addr \<Rightarrow> addr" where
  "DecodeMethodId decode this meth = (case decode of Some f \<Rightarrow> f this meth | None \<Rightarrow> 0)"

text \<open>The hook on \<open>EncodeGenericId\<close> gets a handle: the address of a reference whose value is a method.\<close>

definition EncodeGenericId_hook ::
  "art_statics \<Rightarrow> registry \<Rightarrow> (addr \<Rightarrow> memory \<Rightarrow> 'r \<times> memory) \<Rightarrow> addr \<Rightarrow> memory \<Rightarrow> 'r \<times> memory" where
  "EncodeGenericId_hook S R original reference m =
     (let target = IsBackup R (load m reference (psize S));
          m = (if target \<noteq> 0 then store reference (psize S) target m else m)
      in original reference m)"

definition JniIdManager_Init ::
  "init_info \<Rightarrow> (string \<Rightarrow> addr) \<Rightarrow> bool \<Rightarrow> int \<Rightarrow> hook_state \<Rightarrow> bool \<times> hook_state" where
  "JniIdManager_Init info repl debuggable sdk_int H =
     (if sdk_int \<ge> API_R then
        (let (_, H) = handler_any info (one (HFun ''DecodeMethodId_''
               ''_ZN3art3jni12JniIdManager14DecodeMethodIdEP10_jmethodID'')) H;
             (_, H) = (if debuggable then handler_any info (one (HHook ''EncodeGenericId_''
               ''_ZN3art3jni12JniIdManager15EncodeGenericIdINS_9ArtMethodEEEmNS_16ReflectiveHandleIT_EE''
               (repl ''EncodeGenericId_''))) H else (False, H))
         in (True, H))
      else (True, H))"

section \<open>From Java to ArtMethod\<close>

record art_lookup =
  al_art_method_field :: addr
  al_abstract_method :: addr
  al_decode :: "(addr \<Rightarrow> addr \<Rightarrow> addr) option"

definition FromReflectedMethod :: "art_statics \<Rightarrow> art_lookup \<Rightarrow> jni_env \<Rightarrow> addr \<Rightarrow> addr" where
  "FromReflectedMethod S L E meth =
     (if al_art_method_field L \<noteq> 0
      then jni_GetLongField E meth (al_art_method_field L) mod 256 ^ psize S
      else jni_FromReflectedMethod E meth)"

definition FromJMethodID ::
  "art_statics \<Rightarrow> art_lookup \<Rightarrow> jni_env \<Rightarrow> runtime_statics \<Rightarrow> memory \<Rightarrow> addr \<Rightarrow> addr \<Rightarrow> bool \<Rightarrow> addr" where
  "FromJMethodID S L E RT m clazz method_id is_static =
     (if am_api S < API_R \<or> \<not> IsIndexId (am_arch S) method_id then method_id
      else
        (let decoder = GetJniIdManager (am_arch S) RT m (Runtime_Current (am_arch S) RT m);
             meth = (if decoder \<noteq> 0 then DecodeMethodId (al_decode L) decoder method_id else 0)
         in if meth \<noteq> 0 then meth
            else FromReflectedMethod S L E (jni_ToReflectedMethod E clazz method_id is_static)))"

definition FindMethod ::
  "art_statics \<Rightarrow> art_lookup \<Rightarrow> jni_env \<Rightarrow> runtime_statics \<Rightarrow> memory \<Rightarrow> bool \<Rightarrow> addr \<Rightarrow> string \<Rightarrow> string \<Rightarrow> addr" where
  "FindMethod S L E RT m is_static clazz method_name signature =
     (let method_id = (if is_static then jni_GetStaticMethodID E clazz method_name signature
                       else jni_GetMethodID E clazz method_name signature)
      in FromJMethodID S L E RT m clazz method_id is_static)"

definition FindStaticMethod ::
  "art_statics \<Rightarrow> art_lookup \<Rightarrow> jni_env \<Rightarrow> runtime_statics \<Rightarrow> memory \<Rightarrow> addr \<Rightarrow> string \<Rightarrow> string \<Rightarrow> addr" where
  "FindStaticMethod S L E RT m = FindMethod S L E RT m True"

definition ToJMethodID :: "addr \<Rightarrow> addr" where
  "ToJMethodID this = this"

text \<open>libart's functions that print a method, those that were found.\<close>

record method_names =
  mn_GetShorty :: "(addr \<Rightarrow> string) option"
  mn_GetMethodShortyL :: "(addr \<Rightarrow> string) option"
  mn_GetMethodShorty :: "(addr \<Rightarrow> string) option"
  mn_PrettyMethod :: "(addr \<Rightarrow> bool \<Rightarrow> string) option"
  mn_PrettyMethodStatic :: "(addr \<Rightarrow> bool \<Rightarrow> string) option"
  mn_PrettyMethodMirror :: "(addr \<Rightarrow> bool \<Rightarrow> string) option"

definition GetShorty :: "method_names \<Rightarrow> addr \<Rightarrow> string" where
  "GetShorty N this =
     (case mn_GetShorty N of Some f \<Rightarrow> f this
      | None \<Rightarrow> (case mn_GetMethodShortyL N of Some f \<Rightarrow> f (ToJMethodID this)
          | None \<Rightarrow> (case mn_GetMethodShorty N of Some f \<Rightarrow> f (ToJMethodID this) | None \<Rightarrow> [])))"

definition CanGetMethodShorty :: "method_names \<Rightarrow> bool" where
  "CanGetMethodShorty N \<longleftrightarrow>
     mn_GetShorty N \<noteq> None \<or> mn_GetMethodShortyL N \<noteq> None \<or> mn_GetMethodShorty N \<noteq> None"

definition PrettyMethod :: "method_names \<Rightarrow> addr \<Rightarrow> bool \<Rightarrow> string" where
  "PrettyMethod N this with_signature =
     (case mn_PrettyMethod N of Some f \<Rightarrow> f this with_signature
      | None \<Rightarrow> (case mn_PrettyMethodStatic N of Some f \<Rightarrow> f this with_signature
          | None \<Rightarrow> (case mn_PrettyMethodMirror N of Some f \<Rightarrow> f this with_signature
              | None \<Rightarrow> ''null sym'')))"

text \<open>A hooked proxy method's backup is shown to the runtime as an abstract method.\<close>

definition GetQuickFrameInfo_hook :: "registry \<Rightarrow> art_lookup \<Rightarrow> (addr \<Rightarrow> 'r) \<Rightarrow> addr \<Rightarrow> 'r" where
  "GetQuickFrameInfo_hook R L original this =
     (if this \<in> backuped_proxy_methods R then original (al_abstract_method L) else original this)"

section \<open>ArtMethod::Init\<close>

text \<open>The values of the static members before \<open>Init\<close>.\<close>

definition art_statics_default :: "arch \<Rightarrow> int \<Rightarrow> art_statics" where
  "art_statics_default a api = \<lparr> am_arch = a, am_api = api, art_method_size = 0,
     entry_point_offset = 0, interpreter_entry_point_offset = 0, data_offset = 0,
     access_flags_offset = 0, declaring_class_offset = 0, kAccFastNative = 0x00080000,
     kAccPreCompiled = 0x00200000, kAccCompileDontBother = 0x02000000,
     kAccDefaultConflict = 0x01000000, kAccFastInterpreterToInterpreterInvoke = 0x40000000,
     kAccIntrinsic = 0x80000000, interpreter_bridge = 0, SetNotIntrinsic_fn = None \<rparr>"

text \<open>Subtraction on \<open>size_t\<close>.\<close>

definition usub :: "arch \<Rightarrow> nat \<Rightarrow> nat \<Rightarrow> nat" where
  "usub a x y = (x + 256 ^ kPointerSize a - y) mod 256 ^ kPointerSize a"

text \<open>The access flags are looked for, word by word, in the first constructor of \<open>Throwable\<close>.\<close>

definition find_access_flags :: "memory \<Rightarrow> addr \<Rightarrow> nat \<Rightarrow> 32 word \<Rightarrow> nat" where
  "find_access_flags m first sz real_flags =
     (case find (\<lambda>i. word_of_nat (load m (first + i) 4) = real_flags) (map ((*) 4) [0..<(sz + 3) div 4]) of
        Some i \<Rightarrow> i | None \<Rightarrow> 0)"

definition access_flags_offset_for :: "int \<Rightarrow> memory \<Rightarrow> addr \<Rightarrow> nat \<Rightarrow> 32 word \<Rightarrow> nat" where
  "access_flags_offset_for sdk_int m first sz real_flags =
     (let off = find_access_flags m first sz real_flags in
      if off = 0 then (if sdk_int = API_M then 12 else 4) else off)"

definition get_offset_from_art_method ::
  "jni_env \<Rightarrow> reflection \<Rightarrow> unsafe_statics \<Rightarrow> addr \<Rightarrow> string \<Rightarrow> string \<Rightarrow> nat" where
  "get_offset_from_art_method E F U executable name_s sig =
     (let field = jni_GetFieldID E executable name_s sig in
      if field = 0 then 0 else ObjectFieldOffset E F U (jni_ToReflectedField E executable field))"

text \<open>The layout on Android 5, where \<open>ArtMethod\<close> is a Java object.\<close>

definition mirror_layout ::
  "jni_env \<Rightarrow> reflection \<Rightarrow> unsafe_statics \<Rightarrow> int \<Rightarrow> addr \<Rightarrow> art_statics \<Rightarrow> art_statics" where
  "mirror_layout E F U sdk_int executable S =
     (let off = get_offset_from_art_method E F U executable;
          S = S\<lparr> access_flags_offset := off ''accessFlags'' ''I'',
                 declaring_class_offset := off ''declaringClass'' ''Ljava/lang/Class;'' \<rparr>
      in if sdk_int = API_L then
           S\<lparr> entry_point_offset := off ''entryPointFromQuickCompiledCode'' ''J'',
              interpreter_entry_point_offset := off ''entryPointFromInterpreter'' ''J'',
              data_offset := off ''entryPointFromJni'' ''J'' \<rparr>
         else S)"

definition layout_flags :: "int \<Rightarrow> art_statics \<Rightarrow> art_statics" where
  "layout_flags sdk_int S =
     (let S = (if sdk_int < API_R then S\<lparr> kAccPreCompiled := 0 \<rparr>
               else if sdk_int \<ge> API_S then S\<lparr> kAccPreCompiled := 0x00800000 \<rparr> else S);
          S = (if sdk_int < API_Q then S\<lparr> kAccFastInterpreterToInterpreterInvoke := 0 \<rparr> else S)
      in if sdk_int < API_O then S\<lparr> kAccFastNative := 0, kAccIntrinsic := 0 \<rparr> else S)"

text \<open>The size and the offsets. The second component of the result is false when \<open>Init\<close> fails.\<close>

definition ArtMethod_layout ::
  "jni_env \<Rightarrow> reflection \<Rightarrow> unsafe_statics \<Rightarrow> int \<Rightarrow> memory \<Rightarrow> art_lookup \<times> art_statics
     \<Rightarrow> bool \<times> art_lookup \<times> art_statics" where
  "ArtMethod_layout E F U sdk_int m = (\<lambda>(L, S).
     (let executable = (if sdk_int < API_M then jni_FindClass E ''java/lang/reflect/ArtMethod''
                        else GlobalRef_get F ''executable_ref'');
          L = (if sdk_int \<ge> API_M
               then L\<lparr> al_art_method_field := jni_GetFieldID E executable ''artMethod'' ''J'' \<rparr> else L);
          throwable = jni_FindClass E ''java/lang/Throwable'';
          constructors = jni_array E (jni_CallObjectMethod E throwable
            (rf_ids F ''class_get_declared_constructors''))
      in if sdk_int < API_M \<and> executable = 0 then (False, L, S)
         else if sdk_int \<ge> API_M \<and> al_art_method_field L = 0 then (False, L, S)
         else if throwable = 0 then (False, L, S)
         else if length constructors < 2 then (False, L, S)
         else
           (let first = FromReflectedMethod S L E (constructors ! 0);
                second = FromReflectedMethod S L E (constructors ! 1);
                a = am_arch S;
                S = S\<lparr> art_method_size := usub a second first \<rparr>;
                S = S\<lparr> entry_point_offset := usub a (art_method_size S) (psize S) \<rparr>;
                S = S\<lparr> data_offset := usub a (entry_point_offset S) (psize S) \<rparr>
            in if sdk_int \<ge> API_M then
                 (True, L, layout_flags sdk_int (S\<lparr> access_flags_offset :=
                    access_flags_offset_for sdk_int m first (art_method_size S)
                      (jni_GetIntField E (constructors ! 0) (rf_ids F ''method_access_flags_field'')) \<rparr>))
               else if HasUnsafe F \<and> HasObjectFieldOffset U then
                 (True, L, layout_flags sdk_int (mirror_layout E F U sdk_int executable S))
               else (False, L, S))))"

definition shorty_hooks :: "(harg \<times> bool) list" where
  "shorty_hooks =
     [(HFun ''GetShorty_'' ''_ZN3art9ArtMethod9GetShortyEPj'', False),
      (HFun ''GetMethodShortyL_'' ''_ZN3artL15GetMethodShortyEP7_JNIEnvP10_jmethodID'', True),
      (HFun ''GetMethodShorty_'' ''_ZN3art15GetMethodShortyEP7_JNIEnvP10_jmethodID'', False)]"

definition pretty_hooks :: "(harg \<times> bool) list" where
  "pretty_hooks =
     [(HFun ''PrettyMethod_'' ''_ZN3art9ArtMethod12PrettyMethodEPS0_b'', False),
      (HFun ''PrettyMethodStatic_'' ''_ZN3art12PrettyMethodEPNS_9ArtMethodEb'', False),
      (HFun ''PrettyMethodMirror_'' ''_ZN3art12PrettyMethodEPNS_6mirror9ArtMethodEb'', False)]"

text \<open>On Android 8.0 the flag that keeps a method from being compiled is found by raising the
  runtime's own error with it: \<open>throw_error\<close> is \<open>ThrowInvocationTimeError\<close>, and \<open>jni_Exception\<close>
  the exception pending afterwards. The flags of the probed method are put back.\<close>

definition probe_default_conflict ::
  "init_info \<Rightarrow> jni_env \<Rightarrow> addr \<Rightarrow> (addr \<Rightarrow> memory \<Rightarrow> memory) \<Rightarrow> addr
     \<Rightarrow> hook_state \<times> art_statics \<times> memory \<Rightarrow> hook_state \<times> art_statics \<times> memory" where
  "probe_default_conflict info E abstract_method_error throw_error abstract_method = (\<lambda>(H, S, m).
     (let access_flags = GetAccessFlags S m abstract_method;
          m = SetAccessFlags S abstract_method (access_flags OR kAccDefaultConflict S) m;
          (ok, H) = handler_any info (one (HFun ''ThrowInvocationTimeError_''
            ''_ZN3art9ArtMethod24ThrowInvocationTimeErrorEv'')) H;
          m = (if ok then throw_error abstract_method m else m);
          m = SetAccessFlags S abstract_method access_flags m;
          exception = jni_Exception E m
      in (H, if exception = 0 \<or> jni_IsInstanceOf E exception abstract_method_error
             then S\<lparr> kAccCompileDontBother := kAccDefaultConflict S \<rparr> else S, m)))"

text \<open>\<open>set_not_intrinsic\<close> is the code behind the symbol \<open>SetNotIntrinsic\<close>.\<close>

definition ArtMethod_Init ::
  "init_info \<Rightarrow> (string \<Rightarrow> addr) \<Rightarrow> jni_env \<Rightarrow> reflection \<Rightarrow> unsafe_statics \<Rightarrow> runtime_statics \<Rightarrow> int
     \<Rightarrow> (addr \<Rightarrow> memory \<Rightarrow> memory) \<Rightarrow> (addr \<Rightarrow> memory \<Rightarrow> memory)
     \<Rightarrow> hook_state \<times> art_lookup \<times> art_statics \<times> memory
     \<Rightarrow> bool \<times> hook_state \<times> art_lookup \<times> art_statics \<times> memory" where
  "ArtMethod_Init info repl E F U RT sdk_int set_not_intrinsic throw_error = (\<lambda>(H, L, S, m).
     (let (ok, L, S) = ArtMethod_layout E F U sdk_int m (L, S);
          executable = GlobalRef_get F ''executable_ref''
      in if \<not> ok then (False, H, L, S, m)
         else
           (let (_, H) = handler_any info shorty_hooks H;
                (_, H) = handler_any info pretty_hooks H;
                (found, H) = (if sdk_int \<ge> API_P then handler_any info (one (HFun ''SetNotIntrinsic_''
                    ''_ZN3art9ArtMethod15SetNotIntrinsicEv'')) H else (False, H));
                S = (if found then S\<lparr> SetNotIntrinsic_fn := Some set_not_intrinsic \<rparr> else S);
                abstract_method_error = jni_FindClass E ''java/lang/AbstractMethodError''
            in if sdk_int = API_O \<and> abstract_method_error = 0 then (False, H, L, S, m)
               else
                 (let abstract_method = FromJMethodID S L E RT m executable (rf_ids F ''method_get_name'') False;
                      (H, S, m) = (if sdk_int = API_O
                        then probe_default_conflict info E abstract_method_error throw_error abstract_method (H, S, m)
                        else (H, S, m));
                      L = (if sdk_int = API_M then L\<lparr> al_abstract_method := abstract_method \<rparr> else L);
                      (_, H) = (if sdk_int = API_M \<and> abstract_method \<noteq> 0 \<and> IsAbstract S m abstract_method
                        then handler_any info (one (HHook ''GetQuickFrameInfo_''
                          ''_ZN3art9ArtMethod17GetQuickFrameInfoEv'' (repl ''GetQuickFrameInfo_''))) H
                        else (False, H));
                      S = (if sdk_int < API_N then S\<lparr> kAccCompileDontBother := 0 \<rparr> else S)
                  in if sdk_int \<le> API_M then
                       (let (ok, H) = handler_any info (one (HFun ''art_interpreter_to_compiled_code_bridge_''
                              ''artInterpreterToCompiledCodeBridge'')) H;
                            S = S\<lparr> interpreter_bridge := hs_raw H ''art_interpreter_to_compiled_code_bridge_'' \<rparr>
                        in if \<not> ok then (False, H, L, S, m)
                           else (True, H, L, if sdk_int \<ge> API_L_MR1
                             then S\<lparr> interpreter_entry_point_offset :=
                               usub (am_arch S) (entry_point_offset S) (2 * psize S) \<rparr> else S, m))
                     else (True, H, L, S, m)))))"

section \<open>The layout Init finds\<close>

text \<open>The two constructors of \<open>Throwable\<close> lie side by side, so their distance is the size of a method.
  \<open>device_layout\<close> says what the device's \<open>ArtMethod\<close> is like: class pointer first, the two pointers
  last, the flags between them (or not recognisable, in which case the library assumes them right
  behind the class).\<close>

definition device_layout ::
  "jni_env \<Rightarrow> reflection \<Rightarrow> arch \<Rightarrow> art_lookup \<Rightarrow> memory \<Rightarrow> addr \<Rightarrow> nat \<Rightarrow> bool" where
  "device_layout E F a L m first sz \<longleftrightarrow>
     (let ctors = jni_array E (jni_CallObjectMethod E (jni_FindClass E ''java/lang/Throwable'')
            (rf_ids F ''class_get_declared_constructors''));
          flags_at = find_access_flags m first sz
            (jni_GetIntField E (ctors ! 0) (rf_ids F ''method_access_flags_field''))
      in first = FromReflectedMethod (art_statics_default a API_N) L E (ctors ! 0) \<and>
         first + sz = FromReflectedMethod (art_statics_default a API_N) L E (ctors ! 1) \<and>
         8 + 2 * kPointerSize a \<le> sz \<and> (flags_at = 0 \<or> 4 \<le> flags_at) \<and>
         flags_at + 4 + 2 * kPointerSize a \<le> sz)"

lemma FromReflectedMethod_arch:
  "am_arch S = am_arch T \<Longrightarrow> FromReflectedMethod S L E meth = FromReflectedMethod T L E meth"
  by (simp add: FromReflectedMethod_def)

lemma usub_le: "y \<le> x \<Longrightarrow> x < 256 ^ kPointerSize a \<Longrightarrow> usub a x y = x - y"
proof -
  assume "y \<le> x" "x < 256 ^ kPointerSize a"
  then have "x + 256 ^ kPointerSize a - y = (x - y) + 256 ^ kPointerSize a" by linarith
  moreover have "x - y < 256 ^ kPointerSize a" using \<open>x < 256 ^ kPointerSize a\<close> by linarith
  ultimately show ?thesis unfolding usub_def by (metis mod_add_self2 mod_less)
qed

lemma FromReflectedMethod_bound:
  "al_art_method_field L \<noteq> 0 \<Longrightarrow> FromReflectedMethod S L E meth < 256 ^ psize S"
  by (simp add: FromReflectedMethod_def)

lemma wf_statics_update [simp]:
  "wf_statics (S\<lparr> SetNotIntrinsic_fn := f \<rparr>) = wf_statics S"
  "wf_statics (S\<lparr> kAccCompileDontBother := v \<rparr>) = wf_statics S"
  "wf_statics (S\<lparr> kAccPreCompiled := v \<rparr>) = wf_statics S"
  "wf_statics (S\<lparr> kAccFastInterpreterToInterpreterInvoke := v \<rparr>) = wf_statics S"
  "wf_statics (S\<lparr> kAccFastNative := v, kAccIntrinsic := w \<rparr>) = wf_statics S"
  by (simp_all add: wf_statics_def fits_def)

lemma wf_statics_layout_flags [simp]: "wf_statics (layout_flags sdk_int S) = wf_statics S"
  by (simp add: layout_flags_def Let_def)

lemma layout_flags_size [simp]: "art_method_size (layout_flags sdk_int S) = art_method_size S"
  "am_arch (layout_flags sdk_int S) = am_arch S"
  by (simp_all add: layout_flags_def Let_def)

lemma wf_statics_tail:
  assumes "off = 0 \<or> 4 \<le> off" "off \<noteq> 0 \<longrightarrow> off + 4 + 2 * p \<le> sz" "8 + 2 * p \<le> sz" "p = psize S"
    and "art_method_size S = sz" "entry_point_offset S = sz - p" "data_offset S = sz - 2 * p"
      "access_flags_offset S = (if off = 0 then 4 else off)" "declaring_class_offset S = 0"
      "interpreter_entry_point_offset S = 0"
  shows "wf_statics S"
  using assms kPointerSize_ge4 [of "am_arch S"]
  by (auto simp: wf_statics_def fits_def disj_ranges_def)

lemma ArtMethod_layout_wf:
  assumes lay: "ArtMethod_layout E F U sdk_int m (L0, art_statics_default a sdk_int) = (True, L, S)"
    and api: "sdk_int \<ge> API_N" and dev: "device_layout E F a L m first sz"
  shows "wf_statics S \<and> art_method_size S = sz \<and> entry_point_offset S = sz - kPointerSize a"
proof -
  let ?D = "art_statics_default a sdk_int"
  let ?ctors = "jni_array E (jni_CallObjectMethod E (jni_FindClass E ''java/lang/Throwable'')
            (rf_ids F ''class_get_declared_constructors''))"
  let ?fl = "jni_GetIntField E (?ctors ! 0) (rf_ids F ''method_access_flags_field'')"
  have a: "am_arch ?D = a" by (simp add: art_statics_default_def)
  have eq: "FromReflectedMethod (art_statics_default a API_N) L E x = FromReflectedMethod ?D L E x" for x
    by (rule FromReflectedMethod_arch) (simp add: art_statics_default_def)
  have L: "al_art_method_field L \<noteq> 0"
    using lay api by (auto simp: ArtMethod_layout_def Let_def split: if_splits)
  note d = dev [unfolded device_layout_def Let_def eq]
  have f: "FromReflectedMethod ?D L E (?ctors ! 0) = first" "FromReflectedMethod ?D L E (?ctors ! 1) = first + sz"
    using d by - (elim conjE, rule sym, assumption)+
  have sz: "8 + 2 * kPointerSize a \<le> sz"
    and off: "find_access_flags m first sz ?fl = 0 \<or> 4 \<le> find_access_flags m first sz ?fl"
      "find_access_flags m first sz ?fl + 4 + 2 * kPointerSize a \<le> sz"
    using d by - (elim conjE, assumption)+
  have "first + sz < 256 ^ kPointerSize a" using FromReflectedMethod_bound [OF L, of ?D E "?ctors ! 1"] f a by simp
  then have u: "usub a (first + sz) first = sz" "usub a sz (kPointerSize a) = sz - kPointerSize a"
    "usub a (sz - kPointerSize a) (kPointerSize a) = sz - 2 * kPointerSize a"
    using sz by (simp_all add: usub_le)
  have S: "S = layout_flags sdk_int (?D\<lparr> art_method_size := sz, entry_point_offset := sz - kPointerSize a,
      data_offset := sz - 2 * kPointerSize a,
      access_flags_offset := access_flags_offset_for sdk_int m first sz ?fl \<rparr>)"
    using lay api f u by (auto simp: ArtMethod_layout_def Let_def a split: if_splits)
  have "wf_statics S"
    unfolding S wf_statics_layout_flags
    by (rule wf_statics_tail [OF off(1) impI [OF off(2)] sz])
      (use api in \<open>simp_all add: art_statics_default_def access_flags_offset_for_def Let_def\<close>)
  moreover have "entry_point_offset S = sz - kPointerSize a" by (simp add: S layout_flags_def Let_def)
  ultimately show ?thesis by (simp add: S)
qed

text \<open>From Android 7 on, when \<open>ArtMethod::Init\<close> succeeds on a device whose methods look the way the
  library expects, the offsets it has found are well-formed: all fields lie inside the method and
  do not overlap, so that the accessors can be used. The method size is the device's.\<close>

theorem ArtMethod_Init_wf:
  assumes run: "ArtMethod_Init info repl E F U RT sdk_int f g (H0, L0, art_statics_default a sdk_int, m) =
      (True, H, L, S, m')"
    and api: "sdk_int \<ge> API_N" and dev: "device_layout E F a L m first sz"
  shows "wf_statics S \<and> art_method_size S = sz \<and> entry_point_offset S = sz - kPointerSize a"
proof -
  obtain ok L1 S1 where lay: "ArtMethod_layout E F U sdk_int m (L0, art_statics_default a sdk_int) = (ok, L1, S1)"
    by (metis prod_cases3)
  have ok: "ok" "L = L1"
    using run lay api by (auto simp: ArtMethod_Init_def Let_def split: if_splits prod.splits)
  have fields: "art_method_size S = art_method_size S1 \<and> entry_point_offset S = entry_point_offset S1 \<and>
      wf_statics S = wf_statics S1"
    using run lay api
    by (auto simp: ArtMethod_Init_def probe_default_conflict_def Let_def split: if_splits prod.splits)
  have "ArtMethod_layout E F U sdk_int m (L0, art_statics_default a sdk_int) = (True, L, S1)"
    using lay ok by simp
  from ArtMethod_layout_wf [OF this api dev] show ?thesis using fields by simp
qed

text \<open>A device whose methods have 32 bytes.\<close>

definition init_env :: jni_env where
  "init_env = demo_env\<lparr> jni_array := (\<lambda>a. [0, 32]), jni_GetLongField := (\<lambda>o' f. 4096 + o') \<rparr>"

theorem ArtMethod_Init_wf_witness:
  "\<exists>H L S m'. ArtMethod_Init demo_info (\<lambda>_. 7) init_env reflection_init unsafe_statics_init
      \<lparr> rt_instance = 0, rt_debug_state_offset = 0, rt_jni_id_manager_offset = 0,
        rt_SetJavaDebuggable = None, rt_SetRuntimeDebugState = None \<rparr> API_U (\<lambda>a m. m) (\<lambda>a m. m)
      (hook_state_init, \<lparr> al_art_method_field = 0, al_abstract_method = 0, al_decode = None \<rparr>,
       art_statics_default kArm64 API_U, (\<lambda>x. if x = 4100 then 1 else 0)) = (True, H, L, S, m')
     \<and> wf_statics S \<and> art_method_size S = 32"
  (is "\<exists>H L S m'. ?run = _ \<and> _")
proof -
  let ?m = "(\<lambda>x. if x = 4100 then 1 else 0) :: memory"
  let ?L0 = "\<lparr> al_art_method_field = 0, al_abstract_method = 0, al_decode = None \<rparr>"
  obtain ok H L S m' where r: "?run = (ok, H, L, S, m')" by (metis prod_cases5)
  have ok: "ok" "al_art_method_field L \<noteq> 0"
    using r by (auto simp: ArtMethod_Init_def ArtMethod_layout_def init_env_def demo_env_def Let_def
        split: prod.splits if_splits)
  have c: "jni_array init_env x = [0, 32]" "jni_GetLongField init_env o' fid = 4096 + o'"
    "jni_GetIntField init_env o' fid = 1" for x o' fid
    by (simp_all add: init_env_def demo_env_def)
  have four: "[0..<8] = [0, 1, 2, 3, 4, 5, 6, 7 :: nat]" by code_simp
  have "find_access_flags ?m 4096 32 1 = 4"
    by (simp add: find_access_flags_def four load_eval)
  then have dev: "device_layout init_env reflection_init kArm64 L ?m 4096 32"
    using ok(2) by (simp add: device_layout_def Let_def c FromReflectedMethod_def art_statics_default_def)
  show ?thesis using ArtMethod_Init_wf [OF r [unfolded eqTrueI [OF ok(1)]] _ dev] r ok by auto
qed

end
