(* ===== verification/Class_Linker.thy ===== *)
theory Class_Linker
  imports Class_Init Method_Ids
begin

text \<open>
  art/runtime/class_linker.cxx: the hooks that keep hooked methods hooked while ART works on a
  class.

  \<^item> \<open>RestoreBackup\<close>: after \<open>FixupStaticTrampolines\<close> the saved entry points are put back; what ART
    wrote for a hooked method goes to its backup.
  \<^item> \<open>MayGetBackup\<close> and the hooks on \<open>RegisterNative\<close> / \<open>UnregisterNative\<close>: the native function of a
    hooked method is registered on its backup.
  \<^item> \<open>NativeMethodEntryPointUpdater\<close>: the same for runtimes where only \<open>RegisterNatives\<close> of the JNI
    table can be hooked, by looking at what changed.
  \<^item> \<open>SetEntryPointsToInterpreter\<close>: deoptimization.

  The hooked function of libart itself (\<open>backup(...)\<close> in the source) is the parameter \<open>original\<close>
  of a hook's definition.
\<close>

record interp_entry =
  ip_bridge :: addr
  ip_set :: "(addr \<Rightarrow> memory \<Rightarrow> memory) option"

definition CanSetEntryPointsToInterpreter :: "interp_entry \<Rightarrow> bool" where
  "CanSetEntryPointsToInterpreter I \<longleftrightarrow> ip_bridge I \<noteq> 0 \<or> ip_set I \<noteq> None"

definition SetEntryPointsToInterpreter ::
  "art_statics \<Rightarrow> interp_entry \<Rightarrow> addr \<Rightarrow> memory \<Rightarrow> bool \<times> memory" where
  "SetEntryPointsToInterpreter S I art_method m =
     (if ip_bridge I \<noteq> 0 then (True, SetEntryPoint S art_method (ip_bridge I) m)
      else (case ip_set I of Some f \<Rightarrow> (True, f art_method m) | None \<Rightarrow> (False, m)))"

definition ShouldUseInterpreterEntrypoint_hook ::
  "registry \<Rightarrow> (addr \<Rightarrow> addr \<Rightarrow> bool) \<Rightarrow> addr \<Rightarrow> addr \<Rightarrow> bool" where
  "ShouldUseInterpreterEntrypoint_hook R original art_method quick_code =
     (if quick_code \<noteq> 0 \<and> IsHooked R art_method \<noteq> 0 then False else original art_method quick_code)"

section \<open>Native registration\<close>

definition MayGetBackup :: "registry \<Rightarrow> addr \<Rightarrow> addr" where
  "MayGetBackup R meth = (let backup = IsHooked R meth in if backup \<noteq> 0 then backup else meth)"

text \<open>The eight hooks on \<open>RegisterNative\<close> and \<open>UnregisterNative\<close> differ in their other arguments
  (\<open>'x\<close>) and results (\<open>'r\<close>).\<close>

definition RegisterNative_hook ::
  "registry \<Rightarrow> (addr \<Rightarrow> 'x \<Rightarrow> memory \<Rightarrow> 'r \<times> memory) \<Rightarrow> addr \<Rightarrow> 'x \<Rightarrow> memory \<Rightarrow> 'r \<times> memory" where
  "RegisterNative_hook R original meth x m = original (MayGetBackup R meth) x m"

definition UnregisterNative_hook ::
  "registry \<Rightarrow> (addr \<Rightarrow> memory \<Rightarrow> 'r \<times> memory) \<Rightarrow> addr \<Rightarrow> memory \<Rightarrow> 'r \<times> memory" where
  "UnregisterNative_hook R original meth m = original (MayGetBackup R meth) m"

text \<open>\<open>NativeMethodEntryPointUpdater\<close>: the constructor notes data and entry point of the hooked native
  methods, the destructor compares. \<open>getter\<close> alternates between static and instance methods, and
  keeps the kind that was found last.\<close>

type_synonym updater = "(addr \<times> addr \<times> addr \<times> addr) list"

record native_method =
  nm_name :: string
  nm_signature :: string
  nm_fnPtr :: addr
  nm_null :: bool

definition updater_note ::
  "art_statics \<Rightarrow> registry \<Rightarrow> memory \<Rightarrow> addr \<Rightarrow> updater \<Rightarrow> updater" where
  "updater_note S R m meth methods =
     (let backup = IsHooked R meth in
      if backup = 0 \<or> \<not> IsNative S m backup then methods
      else AList.update meth (backup, GetData S m meth, GetEntryPoint S m meth) methods)"

definition updater_find ::
  "jni_env \<Rightarrow> addr \<Rightarrow> bool \<Rightarrow> string \<Rightarrow> string \<Rightarrow> addr" where
  "updater_find E clazz is_static name_s sig =
     (if is_static then jni_GetStaticMethodID E clazz name_s sig else jni_GetMethodID E clazz name_s sig)"

fun updater_scan ::
  "art_statics \<Rightarrow> registry \<Rightarrow> art_lookup \<Rightarrow> jni_env \<Rightarrow> runtime_statics \<Rightarrow> memory \<Rightarrow> addr
     \<Rightarrow> native_method list \<Rightarrow> bool \<Rightarrow> updater \<Rightarrow> updater" where
  "updater_scan S R L E RT m clazz [] is_static methods = methods"
| "updater_scan S R L E RT m clazz (nm # rest) is_static methods =
     (if nm_null nm \<or> nm_fnPtr nm = 0 then updater_scan S R L E RT m clazz rest is_static methods
      else
        (let method_id = updater_find E clazz is_static (nm_name nm) (nm_signature nm);
             is_static' = (if method_id = 0 then \<not> is_static else is_static);
             method_id' = (if method_id = 0
               then updater_find E clazz is_static' (nm_name nm) (nm_signature nm) else method_id)
         in if method_id' = 0 then updater_scan S R L E RT m clazz rest is_static' methods
            else updater_scan S R L E RT m clazz rest is_static'
              (updater_note S R m (FromJMethodID S L E RT m clazz method_id' is_static') methods)))"

definition updater_register ::
  "art_statics \<Rightarrow> registry \<Rightarrow> art_lookup \<Rightarrow> jni_env \<Rightarrow> runtime_statics \<Rightarrow> memory \<Rightarrow> addr
     \<Rightarrow> native_method list \<Rightarrow> updater" where
  "updater_register S R L E RT m clazz native_methods =
     (if clazz = 0 then [] else updater_scan S R L E RT m clazz native_methods True [])"

text \<open>The second constructor visits all methods of the class; \<open>visited\<close> are those \<open>VisitMethods\<close> hands to
  the visitor, which never stops it.\<close>

definition updater_visit :: "art_statics \<Rightarrow> registry \<Rightarrow> memory \<Rightarrow> updater visitor" where
  "updater_visit S R m meth methods =
     (False, if IsNative S m meth then updater_note S R m meth methods else methods)"

definition updater_finish_one ::
  "art_statics \<Rightarrow> addr \<times> addr \<times> addr \<times> addr \<Rightarrow> memory \<Rightarrow> memory" where
  "updater_finish_one S = (\<lambda>(meth, backup, data, entry_point) m.
     (if GetData S m meth = data \<and> GetEntryPoint S m meth = entry_point then m
      else
        (let m = SetData S backup (GetData S m meth) m;
             m = SetEntryPoint S backup (GetEntryPoint S m meth) m;
             m = SetData S meth data m
         in SetEntryPoint S meth entry_point m)))"

definition updater_finish :: "art_statics \<Rightarrow> updater \<Rightarrow> memory \<Rightarrow> memory" where
  "updater_finish S methods m = fold (updater_finish_one S) methods m"

definition RegisterNativesJNIEnv_hook ::
  "art_statics \<Rightarrow> updater \<Rightarrow> (memory \<Rightarrow> 'r \<times> memory) \<Rightarrow> memory \<Rightarrow> 'r \<times> memory" where
  "RegisterNativesJNIEnv_hook S methods original m =
     (let (r, m) = original m in (r, updater_finish S methods m))"

section \<open>Restoring entry points after class initialization\<close>

definition restore_one ::
  "art_statics \<Rightarrow> interp_entry \<Rightarrow> registry \<Rightarrow> addr \<times> addr \<Rightarrow> memory \<Rightarrow> memory" where
  "restore_one S I R = (\<lambda>(art_method, old_trampoline) m.
     (let new_trampoline = GetEntryPoint S m art_method;
          m = SetEntryPoint S art_method old_trampoline m;
          deoptimized = IsDeoptimized R art_method;
          backup_method = IsHooked R art_method
      in if backup_method \<noteq> 0 then
           (if \<not> deoptimized \<and> new_trampoline \<noteq> old_trampoline
            then SetEntryPoint S backup_method new_trampoline m else m)
         else if deoptimized then
           (if new_trampoline \<noteq> ip_bridge I \<and> \<not> IsNative S m art_method
            then snd (SetEntryPointsToInterpreter S I art_method m) else m)
         else m))"

definition RestoreBackup ::
  "art_statics \<Rightarrow> interp_entry \<Rightarrow> registry \<Rightarrow> addr \<Rightarrow> addr \<Rightarrow> class_state \<times> memory
     \<Rightarrow> class_state \<times> memory" where
  "RestoreBackup S I R class_def self = (\<lambda>(C, m).
     (let (methods, C) = PopBackup class_def self C in (C, fold (restore_one S I R) methods m)))"

text \<open>The three hooks on \<open>FixupStaticTrampolines\<close>: \<open>self\<close> is 0 in the two without a thread argument.\<close>

definition FixupStaticTrampolines_hook ::
  "art_statics \<Rightarrow> interp_entry \<Rightarrow> registry \<Rightarrow> (memory \<Rightarrow> memory) \<Rightarrow> addr \<Rightarrow> addr \<Rightarrow> class_state \<times> memory
     \<Rightarrow> class_state \<times> memory" where
  "FixupStaticTrampolines_hook S I R original class_def self = (\<lambda>(C, m).
     RestoreBackup S I R class_def self (C, original m))"

text \<open>\<open>AdjustThreadVisibilityCounter\<close> and \<open>MarkVisiblyInitialized\<close>: all classes of the thread.\<close>

definition MarkVisiblyInitialized_hook ::
  "art_statics \<Rightarrow> interp_entry \<Rightarrow> registry \<Rightarrow> (memory \<Rightarrow> memory) \<Rightarrow> addr \<Rightarrow> class_state \<times> memory
     \<Rightarrow> class_state \<times> memory" where
  "MarkVisiblyInitialized_hook S I R original self = (\<lambda>(C, m).
     RestoreBackup S I R 0 self (C, original m))"

section \<open>Init\<close>

definition hk :: "(string \<Rightarrow> addr) \<Rightarrow> string \<Rightarrow> string \<Rightarrow> harg \<times> bool" where
  "hk repl v symb = (HHook v symb (repl v), False)"

text \<open>The four ways to hook the registration of native methods, and the JNI table as the last one.\<close>

definition native_hooks :: "(string \<Rightarrow> addr) \<Rightarrow> jni_env \<Rightarrow> (harg \<times> bool) list list" where
  "native_hooks repl E =
     [[hk repl ''RegisterNativeClassLinker_'' ''_ZN3art11ClassLinker14RegisterNativeEPNS_6ThreadEPNS_9ArtMethodEPKv'',
       hk repl ''UnregisterNativeClassLinker_'' ''_ZN3art11ClassLinker16UnregisterNativeEPNS_6ThreadEPNS_9ArtMethodE''],
      [hk repl ''RegisterNative_'' ''_ZN3art9ArtMethod14RegisterNativeEPKv'',
       hk repl ''UnregisterNative_'' ''_ZN3art9ArtMethod16UnregisterNativeEv''],
      [hk repl ''RegisterNativeFast_'' ''_ZN3art9ArtMethod14RegisterNativeEPKvb'',
       hk repl ''UnregisterNativeFast_'' ''_ZN3art9ArtMethod16UnregisterNativeEv''],
      [hk repl ''RegisterNativeThread_'' ''_ZN3art6mirror9ArtMethod14RegisterNativeEPNS_6ThreadEPKvb'',
       hk repl ''UnregisterNativeThread_'' ''_ZN3art6mirror9ArtMethod16UnregisterNativeEPNS_6ThreadE''],
      [(HPtr (jni_RegisterNatives_fn E) ''RegisterNativesJNIEnv_'' (repl ''RegisterNativesJNIEnv_''), False),
       (HPtr (jni_UnregisterNatives_fn E) ''UnregisterNativesJNIEnv_'' (repl ''UnregisterNativesJNIEnv_''), False)]]"

text \<open>\<open>!all(..) && !all(..) && ..\<close>: the groups are tried until one is hooked completely.\<close>

fun first_group :: "init_info \<Rightarrow> (harg \<times> bool) list list \<Rightarrow> hook_state \<Rightarrow> bool \<times> hook_state" where
  "first_group info [] H = (False, H)"
| "first_group info (g # gs) H =
     (let (ok, H) = handler_all info g H in if ok then (True, H) else first_group info gs H)"

definition fixup_hooks :: "(string \<Rightarrow> addr) \<Rightarrow> arch \<Rightarrow> (harg \<times> bool) list" where
  "fixup_hooks repl a =
     (let plain = [hk repl ''FixupStaticTrampolines_''
                     ''_ZN3art11ClassLinker22FixupStaticTrampolinesENS_6ObjPtrINS_6mirror5ClassEEE'',
                   hk repl ''FixupStaticTrampolinesRaw_''
                     ''_ZN3art11ClassLinker22FixupStaticTrampolinesEPNS_6mirror5ClassE'']
      in if is_arch a [kX86] then plain
         else hk repl ''FixupStaticTrampolinesWithThread_''
           ''_ZN3art11ClassLinker22FixupStaticTrampolinesEPNS_6ThreadENS_6ObjPtrINS_6mirror5ClassEEE'' # plain)"

definition visibly_initialized_hooks :: "(string \<Rightarrow> addr) \<Rightarrow> arch \<Rightarrow> (harg \<times> bool) list" where
  "visibly_initialized_hooks repl a =
     [hk repl ''AdjustThreadVisibilityCounter_'' (SymbolLP a
        ''_ZN3art11ClassLinker26VisiblyInitializedCallback29AdjustThreadVisibilityCounterEPNS_6ThreadEi''
        ''_ZN3art11ClassLinker26VisiblyInitializedCallback29AdjustThreadVisibilityCounterEPNS_6ThreadEl''),
      hk repl ''MarkVisiblyInitialized_''
        ''_ZN3art11ClassLinker26VisiblyInitializedCallback22MarkVisiblyInitializedEPNS_6ThreadE'']"

text \<open>The bridge to the interpreter when the symbol is missing: the code libart gives for a clone of
  \<open>Object.equals\<close> that is marked non-native. \<open>new_block\<close> is the clone's memory (given back at the
  end of the block), \<open>optimized_code\<close> is \<open>GetOptimizedCodeFor\<close>; it runs under a
  \<open>JavaDebuggableGuard\<close>, which changes the runtime only.\<close>

definition bridge_from_dummy ::
  "art_statics \<Rightarrow> art_lookup \<Rightarrow> jni_env \<Rightarrow> runtime_statics \<Rightarrow> addr \<Rightarrow> (addr \<Rightarrow> memory \<Rightarrow> addr) \<Rightarrow> memory \<Rightarrow> addr" where
  "bridge_from_dummy S L E RT new_block optimized_code m =
     (let obj = jni_FindClass E ''java/lang/Object'';
          equals = FindMethod S L E RT m False obj ''equals'' ''(Ljava/lang/Object;)Z'';
          m = Clone S equals new_block m;
          m = SetNonNative S new_block m
      in optimized_code new_block m)"

text \<open>How methods are sent to the interpreter: \<open>lib_set\<close> is the code behind the symbol
  \<open>ClassLinker::SetEntryPointsToInterpreter\<close>, used before Android 13; otherwise the bridge is looked
  up or computed. Not finding any of them is not an error.\<close>

definition init_interpreter ::
  "init_info \<Rightarrow> art_statics \<Rightarrow> art_lookup \<Rightarrow> jni_env \<Rightarrow> runtime_statics \<Rightarrow> int \<Rightarrow> (addr \<Rightarrow> memory \<Rightarrow> memory)
     \<Rightarrow> addr \<Rightarrow> (addr \<Rightarrow> memory \<Rightarrow> addr) \<Rightarrow> memory \<Rightarrow> hook_state \<times> interp_entry \<Rightarrow> hook_state \<times> interp_entry" where
  "init_interpreter info S L E RT sdk_int lib_set new_block optimized_code m = (\<lambda>(H, I).
     (let (ok, H) = (if sdk_int < API_T then handler_any info (one (HFun ''SetEntryPointsToInterpreter_''
            ''_ZNK3art11ClassLinker27SetEntryPointsToInterpreterEPNS_9ArtMethodE'')) H else (False, H))
      in if ok then (H, I\<lparr> ip_set := Some lib_set \<rparr>)
         else
           (let (ok, H) = handler_any info (one (HFun ''art_quick_to_interpreter_bridge_''
                  ''art_quick_to_interpreter_bridge'')) H
            in if ok then (H, I\<lparr> ip_bridge := hs_raw H ''art_quick_to_interpreter_bridge_'' \<rparr>)
               else if sdk_int \<ge> API_T then
                 (let (ok, H) = handler_any info [(HFun ''GetOptimizedCodeFor_''
                        ''_ZN3art15instrumentationL19GetOptimizedCodeForEPNS_9ArtMethodE'', True)] H
                  in if ok then (H, I\<lparr> ip_bridge := bridge_from_dummy S L E RT new_block optimized_code m \<rparr>)
                     else (H, I))
               else (H, I))))"

definition ClassLinker_Init ::
  "init_info \<Rightarrow> (string \<Rightarrow> addr) \<Rightarrow> art_statics \<Rightarrow> art_lookup \<Rightarrow> jni_env \<Rightarrow> runtime_statics \<Rightarrow> int
     \<Rightarrow> (addr \<Rightarrow> memory \<Rightarrow> memory) \<Rightarrow> addr \<Rightarrow> (addr \<Rightarrow> memory \<Rightarrow> addr) \<Rightarrow> memory
     \<Rightarrow> hook_state \<times> interp_entry \<Rightarrow> bool \<times> hook_state \<times> interp_entry" where
  "ClassLinker_Init info repl S L E RT sdk_int lib_set new_block optimized_code m = (\<lambda>(H, I).
     (let (_, H) = (if sdk_int \<ge> API_N \<and> sdk_int < API_T
            then handler_any info [hk repl ''ShouldUseInterpreterEntrypoint_''
              ''_ZN3art11ClassLinker30ShouldUseInterpreterEntrypointEPNS_9ArtMethodEPKv''] H else (False, H));
          (ok, H) = first_group info (native_hooks repl E) H
      in if \<not> ok then (False, H, I)
         else
           (let (_, H) = handler_any info (fixup_hooks repl (am_arch S)) H;
                (_, H) = (if \<not> is_arch (am_arch S) [kX86, kX64] \<and> sdk_int \<ge> API_R
                  then handler_any info (visibly_initialized_hooks repl (am_arch S)) H else (False, H))
            in (True, init_interpreter info S L E RT sdk_int lib_set new_block optimized_code m (H, I)))))"

lemma init_interpreter_kept:
  "handles_kept H (fst (init_interpreter info S L E RT sdk_int f nb oc m (H, I)))"
proof -
  define H1 where "H1 = snd (if sdk_int < API_T then handler_any info (one (HFun ''SetEntryPointsToInterpreter_''
            ''_ZNK3art11ClassLinker27SetEntryPointsToInterpreterEPNS_9ArtMethodE'')) H else (False, H))"
  define H2 where "H2 = snd (handler_any info (one (HFun ''art_quick_to_interpreter_bridge_''
                  ''art_quick_to_interpreter_bridge'')) H1)"
  define H3 where "H3 = snd (handler_any info [(HFun ''GetOptimizedCodeFor_''
                        ''_ZN3art15instrumentationL19GetOptimizedCodeForEPNS_9ArtMethodE'', True)] H2)"
  have "handles_kept H H1" "handles_kept H1 H2" "handles_kept H2 H3"
    unfolding H1_def H2_def H3_def by (simp_all add: handler_any_kept del: handler_any.simps)
  then have "handles_kept H H1" "handles_kept H H2" "handles_kept H H3"
    by (blast intro: handles_kept_trans)+
  moreover have "fst (init_interpreter info S L E RT sdk_int f nb oc m (H, I)) \<in> {H1, H2, H3}"
    by (simp add: init_interpreter_def Let_def case_prod_beta H1_def H2_def H3_def del: handler_any.simps)
  ultimately show ?thesis by auto
qed

lemma first_group_True:
  "first_group info gs H = (True, H') \<Longrightarrow> \<forall>g \<in> set gs. \<forall>(a, p) \<in> set g. is_hook a \<Longrightarrow>
   \<exists>g \<in> set gs. \<forall>(a, p) \<in> set g. harg_ready H' a"
proof (induction gs arbitrary: H)
  case (Cons g gs)
  obtain ok H1 where h: "handler_all info g H = (ok, H1)" by (metis prod.exhaust)
  show ?case
  proof (cases ok)
    case True
    then have "handler_all info g H = (True, H')" using Cons.prems(1) h by simp
    from handler_all_True [OF this] show ?thesis using Cons.prems(2) by auto
  next
    case False
    then have "first_group info gs H1 = (True, H')" using Cons.prems(1) h by simp
    from Cons.IH [OF this] show ?thesis using Cons.prems(2) by auto
  qed
qed simp

lemma native_hooks_hooks: "g \<in> set (native_hooks repl E) \<Longrightarrow> (a, p) \<in> set g \<Longrightarrow> is_hook a"
  by (auto simp: native_hooks_def hk_def)

text \<open>When \<open>ClassLinker::Init\<close> succeeds, the registration of native methods is hooked completely in
  one of the five ways: both the hook for registering and the one for unregistering are installed.\<close>

theorem ClassLinker_Init_native:
  assumes "ClassLinker_Init info repl S L E RT sdk_int f nb oc m (H, I) = (True, H', I')"
  shows "\<exists>g \<in> set (native_hooks repl E). \<forall>(a, p) \<in> set g. harg_ready H' a"
proof -
  obtain H0 where H0: "H0 = snd (if sdk_int \<ge> API_N \<and> sdk_int < API_T
            then handler_any info [hk repl ''ShouldUseInterpreterEntrypoint_''
              ''_ZN3art11ClassLinker30ShouldUseInterpreterEntrypointEPNS_9ArtMethodEPKv''] H else (False, H))"
    by blast
  obtain ok H1 where g: "first_group info (native_hooks repl E) H0 = (ok, H1)" by (metis prod.exhaust)
  have ok: "ok" using assms g by (auto simp: ClassLinker_Init_def Let_def H0 case_prod_beta split: if_splits)
  define H2 where "H2 = snd (handler_any info (fixup_hooks repl (am_arch S)) H1)"
  define H3 where "H3 = snd (if \<not> is_arch (am_arch S) [kX86, kX64] \<and> sdk_int \<ge> API_R
                  then handler_any info (visibly_initialized_hooks repl (am_arch S)) H2 else (False, H2))"
  have k1: "handles_kept H1 H2" by (simp add: H2_def handler_any_kept)
  have k2: "handles_kept H2 H3" by (simp add: H3_def handler_any_kept)
  have "H' = fst (init_interpreter info S L E RT sdk_int f nb oc m (H3, I))"
    using assms g ok
    by (auto simp: ClassLinker_Init_def Let_def H0 H2_def H3_def case_prod_beta simp del: is_arch.simps split: if_splits)
  then have "handles_kept H3 H'" by (simp only: init_interpreter_kept)
  with k2 have "handles_kept H2 H'" by (rule handles_kept_trans)
  with k1 have kept: "handles_kept H1 H'" by (rule handles_kept_trans)
  have "first_group info (native_hooks repl E) H0 = (True, H1)" using g ok by simp
  moreover have "\<forall>g \<in> set (native_hooks repl E). \<forall>(a, p) \<in> set g. is_hook a"
    using native_hooks_hooks by auto
  ultimately obtain grp where grp: "grp \<in> set (native_hooks repl E)"
    "\<forall>(a, p) \<in> set grp. harg_ready H1 a" using first_group_True by blast
  show ?thesis
  proof (rule bexI [OF _ grp(1)], clarify)
    fix a p assume ap: "(a, p) \<in> set grp"
    show "harg_ready H' a"
      by (rule harg_ready_kept [OF native_hooks_hooks [OF grp(1) ap] kept]) (use grp(2) ap in auto)
  qed
qed

text \<open>A runtime without any of the symbols: the JNI table is hooked.\<close>

theorem ClassLinker_Init_native_witness:
  "\<exists>H' I'. ClassLinker_Init demo_info (\<lambda>_. 7) arm64_statics
      \<lparr> al_art_method_field = 0, al_abstract_method = 0, al_decode = None \<rparr> demo_env
      \<lparr> rt_instance = 0, rt_debug_state_offset = 0, rt_jni_id_manager_offset = 0,
        rt_SetJavaDebuggable = None, rt_SetRuntimeDebugState = None \<rparr> API_U (\<lambda>a m. m) 0 (\<lambda>a m. 0) (\<lambda>x. 0)
      (hook_state_init, \<lparr> ip_bridge = 0, ip_set = None \<rparr>) = (True, H', I') \<and>
    (\<exists>g \<in> set (native_hooks (\<lambda>_. 7) demo_env). \<forall>(a, p) \<in> set g. harg_ready H' a)"
  (is "\<exists>H' I'. ?run = _ \<and> _")
proof -
  have d: "dlsym demo_info n p = 0" if "n \<noteq> ''exit''" for n p
    using that by (simp add: dlsym_def demo_info_def)
  have h: "inline_hooker demo_info calls f r = (f + 1, Some (f + 2))" for calls f r
    by (simp add: demo_info_def)
  have fns: "jni_RegisterNatives_fn demo_env = 40" "jni_UnregisterNatives_fn demo_env = 44"
    by (simp_all add: demo_env_def)
  have "fst (first_group demo_info (native_hooks (\<lambda>_. 7) demo_env) hook_state_init)"
    by (simp add: native_hooks_def hk_def d h fns install_def hook_def)
  then have "fst ?run"
    by (simp add: ClassLinker_Init_def Let_def case_prod_beta del: handler_any.simps)
  then obtain H' I' where r: "?run = (True, H', I')" by (metis (full_types) prod.collapse)
  show ?thesis using ClassLinker_Init_native [OF r] r by blast
qed

section \<open>What restoring does\<close>

text \<open>The methods of a registry and those of the list that is restored are separate; libart's
  \<open>SetEntryPointsToInterpreter\<close> changes the method it is called on and nothing else.\<close>

definition interp_ok :: "art_statics \<Rightarrow> interp_entry \<Rightarrow> bool" where
  "interp_ok S I \<longleftrightarrow> (\<forall>f a m. ip_set I = Some f \<longrightarrow> same_outside a (art_method_size S) m (f a m))"

definition linker_ok :: "art_statics \<Rightarrow> interp_entry \<Rightarrow> registry \<Rightarrow> addr set \<Rightarrow> bool" where
  "linker_ok S I R A \<longleftrightarrow> reg_ok R \<and> separate S A \<and> interp_ok S I \<and> targets R \<union> backups R \<subseteq> A"

lemma linker_okD:
  assumes "linker_ok S I R A"
  shows "reg_ok R" "separate S A" "wf_statics S" "interp_ok S I" "t \<in> targets R \<Longrightarrow> t \<in> A"
    "b \<in> backups R \<Longrightarrow> b \<in> A"
  using assms by (auto simp: linker_ok_def dest: separate_wf)

lemma SetEntryPointsToInterpreter_frame:
  "wf_statics S \<Longrightarrow> interp_ok S I \<Longrightarrow>
   same_outside a (art_method_size S) m (snd (SetEntryPointsToInterpreter S I a m))"
  by (auto simp: SetEntryPointsToInterpreter_def interp_ok_def SetEntryPoint_frame split: option.split)

lemma SetEntryPointsToInterpreter_touches:
  "separate S A \<Longrightarrow> interp_ok S I \<Longrightarrow> a \<in> A \<Longrightarrow>
   touches S A {a} m (snd (SetEntryPointsToInterpreter S I a m))"
  by (rule touches_frame) (simp_all add: SetEntryPointsToInterpreter_frame separate_wf)

text \<open>One step sets the entry point of its own method, if that is hooked; of the other methods it
  changes at most the backup.\<close>

lemma restore_one_entry:
  assumes ok: "linker_ok S I R A" and a: "a \<in> A" and old: "is_ptr S old" and t: "t \<in> targets R"
  shows "GetEntryPoint S (restore_one S I R (a, old) m) t = (if t = a then old else GetEntryPoint S m t)"
proof -
  note d = linker_okD [OF ok]
  let ?m1 = "SetEntryPoint S a old m"
  have m1: "GetEntryPoint S ?m1 t = (if t = a then old else GetEntryPoint S m t)"
    using entry_SetEntryPoint [OF d(2) a d(5) [OF t] old] .
  show ?thesis
  proof (cases "IsHooked R a = 0")
    case False
    then have at: "a \<in> targets R" using IsHooked_iff [OF d(1), of a] by simp
    have b: "IsHooked R a \<in> A" "IsHooked R a \<noteq> t"
      using IsHooked_target [OF d(1) at] d(6) IsHooked_neq_target [OF d(1) at t] by auto
    have "GetEntryPoint S (SetEntryPoint S (IsHooked R a) (GetEntryPoint S m a) ?m1) t = GetEntryPoint S ?m1 t"
      using entry_SetEntryPoint [OF d(2) b(1) d(5) [OF t] GetEntryPoint_ptr] b(2) by simp
    then show ?thesis using False m1 by (cases "t = a") (simp_all add: restore_one_def Let_def)
  next
    case True
    then have ta: "t \<noteq> a" using IsHooked_iff [OF d(1), of t] t by auto
    then have "GetEntryPoint S (snd (SetEntryPointsToInterpreter S I a ?m1)) t = GetEntryPoint S ?m1 t"
      using touchesD(1) [OF SetEntryPointsToInterpreter_touches [OF d(2,4) a] d(5) [OF t]] by simp
    then show ?thesis using True m1 ta by (simp add: restore_one_def Let_def)
  qed
qed

lemma restore_all_entry:
  assumes ok: "linker_ok S I R A" and ms: "fst ` set ms \<subseteq> A" "\<forall>(a, old) \<in> set ms. is_ptr S old"
    and dist: "distinct (map fst ms)" and t: "t \<in> targets R"
  shows "GetEntryPoint S (fold (restore_one S I R) ms m) t =
    (case map_of ms t of Some old \<Rightarrow> old | None \<Rightarrow> GetEntryPoint S m t)"
  using ms dist
proof (induction ms arbitrary: m)
  case (Cons x ms)
  obtain a old where x: "x = (a, old)" by (metis prod.exhaust)
  have a: "a \<in> A" "is_ptr S old" using Cons.prems x by auto
  have "GetEntryPoint S (fold (restore_one S I R) (x # ms) m) t =
      (case map_of ms t of Some old \<Rightarrow> old | None \<Rightarrow> GetEntryPoint S (restore_one S I R x m) t)"
    using Cons.IH [of "restore_one S I R x m"] Cons.prems by auto
  moreover have "map_of ms a = None" using Cons.prems(3) by (simp add: x map_of_eq_None_iff)
  ultimately show ?case
    using restore_one_entry [OF ok a t, of m] by (auto simp: x split: option.split)
qed simp

text \<open>What ends up in the backup of a hooked method, when the backup itself is not among the methods
  that are restored.\<close>

lemma restore_one_backup:
  assumes ok: "linker_ok S I R A" and a: "a \<in> A" and old: "is_ptr S old" and t: "t \<in> targets R"
    and b: "IsHooked R t \<noteq> a"
  shows "GetEntryPoint S (restore_one S I R (a, old) m) (IsHooked R t) =
    (if t = a \<and> \<not> IsDeoptimized R t \<and> GetEntryPoint S m t \<noteq> old then GetEntryPoint S m t
     else GetEntryPoint S m (IsHooked R t))"
proof -
  note d = linker_okD [OF ok]
  let ?b = "IsHooked R t" and ?m1 = "SetEntryPoint S a old m"
  have bA: "?b \<in> A" using IsHooked_target [OF d(1) t] d(6) by blast
  have m1: "GetEntryPoint S ?m1 ?b = GetEntryPoint S m ?b"
    using entry_SetEntryPoint [OF d(2) a bA old] b by simp
  show ?thesis
  proof (cases "IsHooked R a = 0")
    case False
    then have at: "a \<in> targets R" using IsHooked_iff [OF d(1), of a] by simp
    have aA: "IsHooked R a \<in> A" using IsHooked_target [OF d(1) at] d(6) by blast
    have "IsHooked R a = ?b \<longleftrightarrow> a = t" using IsHooked_inj [OF d(1) at t] by auto
    then show ?thesis
      using False m1 entry_SetEntryPoint [OF d(2) aA bA GetEntryPoint_ptr, of m a ?m1]
      by (auto simp: restore_one_def Let_def)
  next
    case True
    then have "t \<noteq> a" using IsHooked_iff [OF d(1), of t] t by auto
    moreover have "GetEntryPoint S (snd (SetEntryPointsToInterpreter S I a ?m1)) ?b = GetEntryPoint S ?m1 ?b"
      using touchesD(1) [OF SetEntryPointsToInterpreter_touches [OF d(2,4) a] bA] b by simp
    ultimately show ?thesis using True m1 by (simp add: restore_one_def Let_def)
  qed
qed

lemma restore_all_backup:
  assumes ok: "linker_ok S I R A" and ms: "fst ` set ms \<subseteq> A" "\<forall>(a, old) \<in> set ms. is_ptr S old"
    and dist: "distinct (map fst ms)" and t: "t \<in> targets R" and b: "IsHooked R t \<notin> fst ` set ms"
  shows "GetEntryPoint S (fold (restore_one S I R) ms m) (IsHooked R t) =
    (case map_of ms t of
       Some old \<Rightarrow> if \<not> IsDeoptimized R t \<and> GetEntryPoint S m t \<noteq> old then GetEntryPoint S m t
         else GetEntryPoint S m (IsHooked R t)
     | None \<Rightarrow> GetEntryPoint S m (IsHooked R t))"
  using ms dist b
proof (induction ms arbitrary: m)
  case (Cons x ms)
  obtain a old where x: "x = (a, old)" by (metis prod.exhaust)
  have a: "a \<in> A" "is_ptr S old" "IsHooked R t \<noteq> a" using Cons.prems x by auto
  have none: "map_of ms a = None" using Cons.prems(3) by (simp add: x map_of_eq_None_iff)
  note step = Cons.IH [of "restore_one S I R x m"]
  show ?case
    using step Cons.prems none restore_one_entry [OF ok a(1,2) t, of m] restore_one_backup [OF ok a(1,2) t a(3), of m]
    by (auto simp: x split: option.splits)
qed simp

section \<open>Hooks survive class initialization\<close>

definition saved_methods :: "registry \<Rightarrow> addr \<Rightarrow> addr set" where
  "saved_methods R c = class_members (hooked_classes R) c \<union> class_members (deoptimized_classes R) c"

lemma saved_keys: "fst ` set (saved S R m c) \<subseteq> saved_methods R c"
proof
  fix k assume "k \<in> fst ` set (saved S R m c)"
  then have "map_of (saved S R m c) k \<noteq> None" by (metis map_of_eq_None_iff)
  then show "k \<in> saved_methods R c" by (auto simp: saved_spec saved_methods_def split: if_splits)
qed

lemma saved_values: "\<forall>(a, old) \<in> set (saved S R m c). is_ptr S old"
proof clarify
  fix a old assume "(a, old) \<in> set (saved S R m c)"
  then have "map_of (saved S R m c) a = Some old" by (rule map_of_is_SomeI [OF distinct_saved])
  then show "is_ptr S old" by (auto simp: saved_spec split: if_splits)
qed

lemma class_init_spec:
  fixes S m0
  assumes ok: "linker_ok S I R A" and ca: "saved_methods R c \<subseteq> A"
    and np: "no_pending c (cs_backup_methods C0)" and c: "c \<noteq> 0"
    and st: "SetStatus_hook S R art1 c (int (cs_initialized_status C0)) self (C0, m0) = (C1, m1)"
    and fx: "FixupStaticTrampolines_hook S I R art2 c self' (C1, m1) = (C2, m2)"
    and t: "t \<in> targets R"
  shows "GetEntryPoint S m2 t =
      (if t \<in> saved_methods R c \<and> IsStatic S m0 t then GetEntryPoint S m0 t
       else GetEntryPoint S (art2 m1) t)"
    and "IsHooked R t \<notin> saved_methods R c \<Longrightarrow> \<not> IsDeoptimized R t \<Longrightarrow>
      GetEntryPoint S m2 (IsHooked R t) =
      (if t \<in> saved_methods R c \<and> IsStatic S m0 t \<and> GetEntryPoint S (art2 m1) t \<noteq> GetEntryPoint S m0 t
       then GetEntryPoint S (art2 m1) t else GetEntryPoint S (art2 m1) (IsHooked R t))"
proof -
  let ?ms = "saved S R m0 c"
  have C1: "C1 = BackupClassMethods S R m0 c self C0"
    using st by (simp add: SetStatus_hook_def Let_def)
  have m2: "m2 = fold (restore_one S I R) ?ms (art2 m1)"
    using fx backup_then_pop [OF np c, of self' S R m0 self]
    by (auto simp: FixupStaticTrampolines_hook_def RestoreBackup_def C1 case_prod_beta Let_def)
  have keys: "fst ` set ?ms \<subseteq> A" using saved_keys ca by blast
  show "GetEntryPoint S m2 t =
      (if t \<in> saved_methods R c \<and> IsStatic S m0 t then GetEntryPoint S m0 t
       else GetEntryPoint S (art2 m1) t)"
    unfolding m2 restore_all_entry [OF ok keys saved_values distinct_saved t]
    by (simp add: saved_spec saved_methods_def)
  show "GetEntryPoint S m2 (IsHooked R t) =
      (if t \<in> saved_methods R c \<and> IsStatic S m0 t \<and> GetEntryPoint S (art2 m1) t \<noteq> GetEntryPoint S m0 t
       then GetEntryPoint S (art2 m1) t else GetEntryPoint S (art2 m1) (IsHooked R t))"
    if "IsHooked R t \<notin> saved_methods R c" "\<not> IsDeoptimized R t"
    unfolding m2
    using that saved_keys [of S R m0 c]
    by (subst restore_all_backup [OF ok keys saved_values distinct_saved t])
      (auto simp: saved_spec saved_methods_def)
qed

text \<open>C6. Initialization of a class keeps its hooks: whatever ART writes between \<open>SetStatus\<close> and the
  end of \<open>FixupStaticTrampolines\<close>, in whichever threads the two run, every static hooked method of
  the class has its trampoline again afterwards; the code ART wanted for it is in its backup, unless
  the method is deoptimized. The other hooked methods are not touched by the restoration.\<close>

theorem class_init_keeps_hooks:
  assumes "linker_ok S I R A" and "saved_methods R c \<subseteq> A"
    and "no_pending c (cs_backup_methods C0)" and "c \<noteq> 0"
    and "SetStatus_hook S R art1 c (int (cs_initialized_status C0)) self (C0, m0) = (C1, m1)"
    and "FixupStaticTrampolines_hook S I R art2 c self' (C1, m1) = (C2, m2)"
    and "t \<in> targets R"
  shows "GetEntryPoint S m2 t =
      (if t \<in> saved_methods R c \<and> IsStatic S m0 t then GetEntryPoint S m0 t
       else GetEntryPoint S (art2 m1) t) \<and>
    (IsHooked R t \<notin> saved_methods R c \<and> \<not> IsDeoptimized R t \<longrightarrow>
      GetEntryPoint S m2 (IsHooked R t) =
      (if t \<in> saved_methods R c \<and> IsStatic S m0 t \<and> GetEntryPoint S (art2 m1) t \<noteq> GetEntryPoint S m0 t
       then GetEntryPoint S (art2 m1) t else GetEntryPoint S (art2 m1) (IsHooked R t)))"
  using class_init_spec [OF assms] by blast

text \<open>One hooked static method, whose class ART initializes: it writes 5 into its entry point.\<close>

definition demo_reg :: registry where
  "demo_reg = RecordHooked 64 128 256 7 4096 9 empty_registry"

definition demo_interp :: interp_entry where
  "demo_interp = \<lparr> ip_bridge = 0, ip_set = None \<rparr>"

definition demo_mem :: memory where
  "demo_mem = (\<lambda>x. if x = 68 then 8 else if x = 88 then 16 else 0)"

lemma demo_reg_fields:
  "hooked_methods demo_reg = [64 \<mapsto> \<lparr> hr_hook = 128, hr_backup = 256, hr_slot = 4096, hr_backup_method = 9,
     hr_enabled = True \<rparr>]"
  "backuped_methods demo_reg = [256 \<mapsto> 64]" "hooked_classes demo_reg = [7 \<mapsto> [64]]"
  "deoptimized_classes demo_reg = Map.empty" "deoptimized_methods demo_reg = Map.empty"
  by (simp_all add: demo_reg_def RecordHooked_def empty_registry_def class_emplace_def)

lemma reg_inv_demo: "reg_inv demo_reg"
  unfolding demo_reg_def by (rule reg_inv_RecordHooked [OF reg_inv_empty]) (simp_all add: empty_registry_def)

lemma demo_reg_sets: "targets demo_reg = {64}" "backups demo_reg = {256}" "IsHooked demo_reg 64 = 256"
  by (simp_all add: targets_def backups_def IsHooked_def demo_reg_fields)

lemma demo_separate: "separate arm64_statics {64, 256}"
  using wf_arm64 by (auto simp: separate_def apart_def disj_ranges_def arm64_statics_def)

lemma demo_linker_ok: "linker_ok arm64_statics demo_interp demo_reg {64, 256}"
  using reg_inv_demo demo_separate
  by (simp add: linker_ok_def reg_ok_def demo_reg_sets interp_ok_def demo_interp_def)

lemma demo_mem_eval:
  "GetEntryPoint arm64_statics demo_mem 64 = 16" "IsStatic arm64_statics demo_mem 64"
  by (simp_all add: GetEntryPoint_def IsStatic_def has_flag_def GetAccessFlags_def load_eval demo_mem_def
      arm64_statics_def kAcc_defs)

theorem class_init_keeps_hooks_witness:
  "\<exists>C1 m1 C2 m2.
     SetStatus_hook arm64_statics demo_reg (\<lambda>m. m) 7 0 3 (class_state_init, demo_mem) = (C1, m1) \<and>
     FixupStaticTrampolines_hook arm64_statics demo_interp demo_reg (SetEntryPoint arm64_statics 64 5) 7 0 (C1, m1)
       = (C2, m2) \<and>
     GetEntryPoint arm64_statics m2 64 = 16 \<and> GetEntryPoint arm64_statics m2 256 = 5"
proof -
  let ?S = arm64_statics
  obtain C1 m1 where st: "SetStatus_hook ?S demo_reg (\<lambda>m. m) 7 (int (cs_initialized_status class_state_init)) 3
      (class_state_init, demo_mem) = (C1, m1)" by (metis prod.exhaust)
  obtain C2 m2 where fx: "FixupStaticTrampolines_hook ?S demo_interp demo_reg (SetEntryPoint ?S 64 5) 7 0 (C1, m1)
      = (C2, m2)" by (metis prod.exhaust)
  have m1: "m1 = demo_mem" using st by (simp add: SetStatus_hook_def Let_def)
  have sm: "saved_methods demo_reg 7 = {64}"
    by (simp add: saved_methods_def class_members_def demo_reg_fields)
  have p: "is_ptr ?S 5" by (simp add: is_ptr_def arm64_statics_def)
  have w: "GetEntryPoint ?S (SetEntryPoint ?S 64 5 demo_mem) 64 = 5"
    by (rule entryf.get_put [OF wf_arm64 p])
  have e: "linker_ok ?S demo_interp demo_reg {64, 256}" "saved_methods demo_reg 7 \<subseteq> {64, 256}"
    "no_pending 7 (cs_backup_methods class_state_init)" "(7::nat) \<noteq> 0" "64 \<in> targets demo_reg"
    by (simp_all add: demo_linker_ok sm no_pending_def class_state_init_def demo_reg_sets)
  have nd: "\<not> IsDeoptimized demo_reg 64" by (simp add: IsDeoptimized_def demo_reg_fields)
  have "cs_initialized_status class_state_init = 0" by (simp add: class_state_init_def)
  then show ?thesis
    using class_init_keeps_hooks [OF e(1-4) st fx e(5)] st fx nd
    by (auto simp: m1 w sm demo_mem_eval demo_reg_sets)
qed

subsection \<open>A method that is unhooked meanwhile\<close>

lemma restore_one_plain:
  assumes ok: "linker_ok S I R A" and a: "a \<in> A" and old: "is_ptr S old"
    and t: "t \<in> A" "t \<notin> targets R" "t \<notin> backups R" "\<not> IsDeoptimized R t"
  shows "GetEntryPoint S (restore_one S I R (a, old) m) t = (if t = a then old else GetEntryPoint S m t)"
proof -
  note d = linker_okD [OF ok]
  let ?m1 = "SetEntryPoint S a old m"
  have m1: "GetEntryPoint S ?m1 t = (if t = a then old else GetEntryPoint S m t)"
    using entry_SetEntryPoint [OF d(2) a t(1) old] .
  show ?thesis
  proof (cases "IsHooked R a = 0")
    case False
    then have at: "a \<in> targets R" using IsHooked_iff [OF d(1), of a] by simp
    have b: "IsHooked R a \<in> A" "IsHooked R a \<noteq> t"
      using IsHooked_target [OF d(1) at] d(6) t(3) by auto
    have "GetEntryPoint S (SetEntryPoint S (IsHooked R a) (GetEntryPoint S m a) ?m1) t = GetEntryPoint S ?m1 t"
      using entry_SetEntryPoint [OF d(2) b(1) t(1) GetEntryPoint_ptr] b(2) by simp
    then show ?thesis using False m1 by (cases "t = a") (simp_all add: restore_one_def Let_def)
  next
    case True
    have "GetEntryPoint S (snd (SetEntryPointsToInterpreter S I a ?m1)) t = GetEntryPoint S ?m1 t" if "t \<noteq> a"
      using touchesD(1) [OF SetEntryPointsToInterpreter_touches [OF d(2,4) a] t(1)] that by simp
    then show ?thesis using True m1 t(4) by (cases "t = a") (simp_all add: restore_one_def Let_def)
  qed
qed

lemma restore_all_plain:
  assumes ok: "linker_ok S I R A" and ms: "fst ` set ms \<subseteq> A" "\<forall>(a, old) \<in> set ms. is_ptr S old"
    and dist: "distinct (map fst ms)"
    and t: "t \<in> A" "t \<notin> targets R" "t \<notin> backups R" "\<not> IsDeoptimized R t"
  shows "GetEntryPoint S (fold (restore_one S I R) ms m) t =
    (case map_of ms t of Some old \<Rightarrow> old | None \<Rightarrow> GetEntryPoint S m t)"
  using ms dist
proof (induction ms arbitrary: m)
  case (Cons x ms)
  obtain a old where x: "x = (a, old)" by (metis prod.exhaust)
  have a: "a \<in> A" "is_ptr S old" using Cons.prems x by auto
  have "GetEntryPoint S (fold (restore_one S I R) (x # ms) m) t =
      (case map_of ms t of Some old \<Rightarrow> old | None \<Rightarrow> GetEntryPoint S (restore_one S I R x m) t)"
    using Cons.IH [of "restore_one S I R x m"] Cons.prems by auto
  moreover have "map_of ms a = None" using Cons.prems(3) by (simp add: x map_of_eq_None_iff)
  ultimately show ?case
    using restore_one_plain [OF ok a t, of m] by (auto simp: x split: option.split)
qed simp

text \<open>C36. What the restoration does not look at: a static method that is unhooked while its class is being
  initialized (hooked in \<open>R\<close> when the entry points are saved, in \<open>R'\<close> no longer when they are
  restored) gets the trampoline back, although it is no longer hooked.\<close>

theorem unhook_during_class_init:
  assumes ok: "linker_ok S I R' A" and ca: "saved_methods R c \<subseteq> A"
    and np: "no_pending c (cs_backup_methods C0)" and c: "c \<noteq> 0"
    and st: "SetStatus_hook S R art1 c (int (cs_initialized_status C0)) self (C0, m0) = (C1, m1)"
    and fx: "FixupStaticTrampolines_hook S I R' art2 c self' (C1, m) = (C2, m2)"
    and t: "t \<in> saved_methods R c" "IsStatic S m0 t" "t \<notin> targets R'" "t \<notin> backups R'" "\<not> IsDeoptimized R' t"
  shows "GetEntryPoint S m2 t = GetEntryPoint S m0 t"
proof -
  let ?ms = "saved S R m0 c"
  have C1: "C1 = BackupClassMethods S R m0 c self C0"
    using st by (simp add: SetStatus_hook_def Let_def)
  have m2: "m2 = fold (restore_one S I R') ?ms (art2 m)"
    using fx backup_then_pop [OF np c, of self' S R m0 self]
    by (auto simp: FixupStaticTrampolines_hook_def RestoreBackup_def C1 case_prod_beta Let_def)
  have keys: "fst ` set ?ms \<subseteq> A" using saved_keys ca by blast
  have "t \<in> A" using t(1) ca by blast
  then show ?thesis
    unfolding m2 using restore_all_plain [OF ok keys saved_values distinct_saved _ t(3-5)] t(1,2)
    by (simp add: saved_spec saved_methods_def)
qed

theorem unhook_during_class_init_witness:
  "\<exists>C1 C2 m2.
     SetStatus_hook arm64_statics demo_reg (\<lambda>m. m) 7 0 3 (class_state_init, demo_mem) = (C1, demo_mem) \<and>
     FixupStaticTrampolines_hook arm64_statics demo_interp empty_registry (\<lambda>m. m) 7 0
       (C1, SetEntryPoint arm64_statics 64 5 demo_mem) = (C2, m2) \<and> GetEntryPoint arm64_statics m2 64 = 16"
proof -
  let ?S = arm64_statics
  obtain C1 where st: "SetStatus_hook ?S demo_reg (\<lambda>m. m) 7 (int (cs_initialized_status class_state_init)) 3
      (class_state_init, demo_mem) = (C1, demo_mem)" by (simp add: SetStatus_hook_def Let_def)
  obtain C2 m2 where fx: "FixupStaticTrampolines_hook ?S demo_interp empty_registry (\<lambda>m. m) 7 0
      (C1, SetEntryPoint ?S 64 5 demo_mem) = (C2, m2)" by (metis prod.exhaust)
  have sm: "saved_methods demo_reg 7 = {64}"
    by (simp add: saved_methods_def class_members_def demo_reg_fields)
  have e: "linker_ok ?S demo_interp empty_registry {64, 256}" "saved_methods demo_reg 7 \<subseteq> {64, 256}"
    "no_pending 7 (cs_backup_methods class_state_init)" "(7::nat) \<noteq> 0"
    "64 \<in> saved_methods demo_reg 7" "64 \<notin> targets empty_registry" "64 \<notin> backups empty_registry"
    "\<not> IsDeoptimized empty_registry 64"
    using demo_separate reg_inv_empty
    by (simp_all add: sm no_pending_def class_state_init_def linker_ok_def reg_ok_def targets_def backups_def
        interp_ok_def demo_interp_def IsDeoptimized_def)
      (simp_all add: empty_registry_def)
  have "cs_initialized_status class_state_init = 0" by (simp add: class_state_init_def)
  then show ?thesis
    using unhook_during_class_init [OF e(1-4) st fx e(5) demo_mem_eval(2) e(6-8)] st fx
    by (auto simp: demo_mem_eval)
qed

section \<open>Native functions of hooked methods\<close>

text \<open>What the updater notes: hooked methods with a native backup, and their fields.\<close>

definition noted :: "art_statics \<Rightarrow> registry \<Rightarrow> memory \<Rightarrow> updater \<Rightarrow> bool" where
  "noted S R m ms \<longleftrightarrow> distinct (map fst ms) \<and>
     (\<forall>(t, b, d, e) \<in> set ms. IsHooked R t = b \<and> b \<noteq> 0 \<and> d = GetData S m t \<and> e = GetEntryPoint S m t)"

lemma noted_update:
  assumes "noted S R m ms"
  shows "noted S R m (updater_note S R m t ms)"
proof (cases "IsHooked R t = 0 \<or> \<not> IsNative S m (IsHooked R t)")
  case False
  have "set (AList.update t v ms) \<subseteq> insert (t, v) (set ms)" for v :: "addr \<times> addr \<times> addr"
    by (induction ms) auto
  then have "x \<in> set (AList.update t v ms) \<Longrightarrow> x = (t, v) \<or> x \<in> set ms" for x v by blast
  then show ?thesis
    using assms False
    by (fastforce simp: noted_def updater_note_def Let_def distinct_update)
qed (use assms in \<open>auto simp: updater_note_def Let_def\<close>)

lemma noted_scan: "noted S R m ms \<Longrightarrow> noted S R m (updater_scan S R L E RT m clazz nms st ms)"
  by (induction S R L E RT m clazz nms st ms rule: updater_scan.induct)
    (auto simp: Let_def noted_update)

lemma noted_register: "noted S R m (updater_register S R L E RT m clazz nms)"
proof -
  have "noted S R m []" by (simp add: noted_def)
  then show ?thesis by (simp add: updater_register_def noted_scan)
qed

lemma noted_visit: "noted S R m ms \<Longrightarrow> noted S R m (snd (updater_visit S R m t ms))"
  by (simp add: updater_visit_def noted_update)

lemma finish_one_fields:
  assumes ok: "linker_ok S I R A" and a: "a \<in> targets R" and t: "t \<in> targets R"
    and p: "is_ptr S d" "is_ptr S e"
  shows "GetData S (updater_finish_one S (a, IsHooked R a, d, e) m) t = (if t = a then d else GetData S m t)"
    "GetEntryPoint S (updater_finish_one S (a, IsHooked R a, d, e) m) t = (if t = a then e else GetEntryPoint S m t)"
    "GetData S (updater_finish_one S (a, IsHooked R a, d, e) m) (IsHooked R t) =
      (if t = a \<and> (GetData S m t \<noteq> d \<or> GetEntryPoint S m t \<noteq> e) then GetData S m t
       else GetData S m (IsHooked R t))"
    "GetEntryPoint S (updater_finish_one S (a, IsHooked R a, d, e) m) (IsHooked R t) =
      (if t = a \<and> (GetData S m t \<noteq> d \<or> GetEntryPoint S m t \<noteq> e) then GetEntryPoint S m t
       else GetEntryPoint S m (IsHooked R t))"
proof -
  note k = linker_okD [OF ok]
  have A: "a \<in> A" "t \<in> A" "IsHooked R a \<in> A" "IsHooked R t \<in> A"
    using k(5,6) a t IsHooked_target [OF k(1)] by auto
  have neq: "IsHooked R a \<noteq> t" "IsHooked R t \<noteq> a" "IsHooked R a \<noteq> a" "IsHooked R t \<noteq> t"
    "t \<noteq> IsHooked R a" "a \<noteq> IsHooked R a" "a \<noteq> IsHooked R t" "t \<noteq> IsHooked R t"
    using IsHooked_neq_target [OF k(1)] a t by metis+
  have inj: "IsHooked R t = IsHooked R a \<longleftrightarrow> t = a" using IsHooked_inj [OF k(1) t a] by auto
  note upd = data_SetData [OF k(2)] entry_SetEntryPoint [OF k(2)] other_SetData(1) [OF k(2)]
    other_SetEntryPoint(1) [OF k(2)]
  show "GetData S (updater_finish_one S (a, IsHooked R a, d, e) m) t = (if t = a then d else GetData S m t)"
    "GetEntryPoint S (updater_finish_one S (a, IsHooked R a, d, e) m) t = (if t = a then e else GetEntryPoint S m t)"
    "GetData S (updater_finish_one S (a, IsHooked R a, d, e) m) (IsHooked R t) =
      (if t = a \<and> (GetData S m t \<noteq> d \<or> GetEntryPoint S m t \<noteq> e) then GetData S m t
       else GetData S m (IsHooked R t))"
    "GetEntryPoint S (updater_finish_one S (a, IsHooked R a, d, e) m) (IsHooked R t) =
      (if t = a \<and> (GetData S m t \<noteq> d \<or> GetEntryPoint S m t \<noteq> e) then GetEntryPoint S m t
       else GetEntryPoint S m (IsHooked R t))"
    by (auto simp: updater_finish_one_def Let_def upd A p neq inj)
qed

lemma finish_fields:
  assumes ok: "linker_ok S I R A" and n: "noted S R m0 ms" and t: "t \<in> targets R"
  shows "case map_of ms t of
      Some (b, d, e) \<Rightarrow> GetData S (updater_finish S ms m) t = d \<and> GetEntryPoint S (updater_finish S ms m) t = e \<and>
        (if GetData S m t \<noteq> d \<or> GetEntryPoint S m t \<noteq> e
         then GetData S (updater_finish S ms m) b = GetData S m t \<and>
              GetEntryPoint S (updater_finish S ms m) b = GetEntryPoint S m t
         else GetData S (updater_finish S ms m) b = GetData S m b \<and>
              GetEntryPoint S (updater_finish S ms m) b = GetEntryPoint S m b)
    | None \<Rightarrow> GetData S (updater_finish S ms m) t = GetData S m t \<and>
        GetEntryPoint S (updater_finish S ms m) t = GetEntryPoint S m t \<and>
        GetData S (updater_finish S ms m) (IsHooked R t) = GetData S m (IsHooked R t) \<and>
        GetEntryPoint S (updater_finish S ms m) (IsHooked R t) = GetEntryPoint S m (IsHooked R t)"
  using n
proof (induction ms arbitrary: m)
  case Nil
  then show ?case by (simp add: updater_finish_def)
next
  case (Cons x ms)
  obtain a b d e where x0: "x = (a, b, d, e)" by (metis prod_cases4)
  have n': "noted S R m0 ms" and b: "b = IsHooked R a" "b \<noteq> 0"
    and p: "is_ptr S d" "is_ptr S e" and na: "map_of ms a = None"
    using Cons.prems by (auto simp: noted_def x0 map_of_eq_None_iff)
  then have x: "x = (a, IsHooked R a, d, e)" by (simp add: x0)
  have a: "a \<in> targets R" using b IsHooked_iff [OF linker_okD(1) [OF ok], of a] by simp
  let ?m = "updater_finish_one S (a, IsHooked R a, d, e) m"
  have s: "updater_finish S ((a, IsHooked R a, d, e) # ms) m = updater_finish S ms ?m"
    by (simp add: updater_finish_def)
  note one = finish_one_fields [OF ok a t p, of m]
  show ?case
  proof (cases "t = a")
    case True
    then show ?thesis using Cons.IH [OF n', of ?m] one na unfolding x s by (auto split: if_splits)
  next
    case False
    have bt: "b' = IsHooked R t" if "map_of ms t = Some (b', d', e')" for b' d' e'
      using n' map_of_SomeD [OF that] by (auto simp: noted_def)
    show ?thesis
      using False Cons.IH [OF n', of ?m] one bt unfolding x s by (auto split: option.splits prod.splits if_splits)
  qed
qed

lemma demo_updater:
  "noted arm64_statics demo_reg demo_mem [(64, 256, 0, 16)]"
  by (simp add: noted_def demo_reg_sets demo_mem_eval)
    (simp add: GetData_def load_eval demo_mem_def arm64_statics_def)


definition native_env :: jni_env where
  "native_env = demo_env\<lparr> jni_GetStaticMethodID := (\<lambda>c n s. 0), jni_GetMethodID := (\<lambda>c n s. 64) \<rparr>"

definition native_demo_mem :: memory where
  "native_demo_mem = (\<lambda>x. if x = 261 then 1 else if x = 88 then 16 else 0)"


text \<open>Where libart's \<open>RegisterNative\<close> can be hooked: a hooked method keeps its data and entry point, if
  the function changes nothing but the method it is called on.\<close>

lemma RegisterNative_hook_target:
  assumes ok: "linker_ok S I R A" and t: "t \<in> targets R" and u: "u \<in> targets R"
    and orig: "\<And>a x m. same_outside a (art_method_size S) m (snd (original a x m))"
  shows "same_method S m (snd (RegisterNative_hook R original t x m)) u"
proof -
  note k = linker_okD [OF ok]
  have b: "IsHooked R t \<noteq> 0" "IsHooked R t \<in> A" "u \<in> A" "IsHooked R t \<noteq> u"
    using IsHooked_target [OF k(1) t] k(5) [OF u] k(6) IsHooked_neq_target [OF k(1) t u] by auto
  have "touches S A {IsHooked R t} m (snd (original (IsHooked R t) x m))"
    by (rule touches_frame [OF k(2) b(2) orig])
  then show ?thesis using b by (auto simp: RegisterNative_hook_def MayGetBackup_def Let_def touches_def)
qed

end
