(* ===== verification/Instrumentation.thy ===== *)
theory Instrumentation
  imports Class_Linker
begin

text \<open>
  art/runtime/instrumentation.cxx: the hooks on the functions through which ART replaces the code of
  a method.

  \<^item> \<open>UpdateMethodsCode\<close> (three variants): ART may write what it likes; afterwards a hooked method gets
    its old entry point back and the new code goes to its backup (\<open>HandleMethodCodeUpdated\<close>).
  \<^item> \<open>ReinitializeMethodsCode\<close>, \<open>InitializeMethodsCode\<close> and
    \<open>UpdateMethodsCodeToInterpreterEntryPoint\<close>, on debuggable runtimes: the call is redirected to the
    backup, or skipped for a deoptimized method (\<open>MaybeUseBackupMethod\<close>).

  The hooked function of libart is the parameter \<open>original\<close>.
\<close>

definition MaybeUseBackupMethod ::
  "art_statics \<Rightarrow> registry \<Rightarrow> memory \<Rightarrow> addr \<Rightarrow> addr \<Rightarrow> addr" where
  "MaybeUseBackupMethod S R m art_method quick_code =
     (let backup = IsHooked R art_method in
      if backup \<noteq> 0 \<and> GetEntryPoint S m art_method \<noteq> quick_code then backup else art_method)"

definition UpdateMethodsCodeToInterpreterEntryPoint_hook ::
  "art_statics \<Rightarrow> registry \<Rightarrow> (addr \<Rightarrow> memory \<Rightarrow> memory) \<Rightarrow> addr \<Rightarrow> memory \<Rightarrow> memory" where
  "UpdateMethodsCodeToInterpreterEntryPoint_hook S R original art_method m =
     (if IsDeoptimized R art_method then m
      else original (MaybeUseBackupMethod S R m art_method 0) m)"

definition InitializeMethodsCode_hook ::
  "art_statics \<Rightarrow> registry \<Rightarrow> (addr \<Rightarrow> addr \<Rightarrow> memory \<Rightarrow> memory) \<Rightarrow> addr \<Rightarrow> addr \<Rightarrow> memory \<Rightarrow> memory" where
  "InitializeMethodsCode_hook S R original art_method quick_code m =
     (if IsDeoptimized R art_method then m
      else original (MaybeUseBackupMethod S R m art_method quick_code) quick_code m)"

definition ReinitializeMethodsCode_hook ::
  "art_statics \<Rightarrow> registry \<Rightarrow> (addr \<Rightarrow> memory \<Rightarrow> memory) \<Rightarrow> addr \<Rightarrow> memory \<Rightarrow> memory" where
  "ReinitializeMethodsCode_hook S R original art_method m =
     (if IsDeoptimized R art_method then m
      else original (MaybeUseBackupMethod S R m art_method 0) m)"

definition HandleMethodCodeUpdated ::
  "art_statics \<Rightarrow> registry \<Rightarrow> addr \<Rightarrow> addr \<Rightarrow> addr \<Rightarrow> memory \<Rightarrow> memory" where
  "HandleMethodCodeUpdated S R meth old_code new_code m =
     (let deoptimized = IsDeoptimized R meth;
          backup = IsHooked R meth
      in if backup \<noteq> 0 then
           (let m = SetEntryPoint S meth old_code m
            in if \<not> deoptimized then SetEntryPoint S backup new_code m else m)
         else if deoptimized then SetEntryPoint S meth old_code m
         else m)"

text \<open>\<open>UpdateMethodsCodeImpl\<close>, \<open>UpdateMethodsCode\<close> and the variant with portable code, whose two more
  arguments the hook only passes on: they are part of \<open>original\<close>.\<close>

definition UpdateMethodsCode_hook ::
  "art_statics \<Rightarrow> registry \<Rightarrow> (addr \<Rightarrow> addr \<Rightarrow> memory \<Rightarrow> memory) \<Rightarrow> addr \<Rightarrow> addr \<Rightarrow> memory \<Rightarrow> memory" where
  "UpdateMethodsCode_hook S R original meth quick_code m =
     (let old_code = GetEntryPoint S m meth;
          m = original meth quick_code m
      in if old_code \<noteq> quick_code then HandleMethodCodeUpdated S R meth old_code quick_code m else m)"

definition update_code_hooks :: "(string \<Rightarrow> addr) \<Rightarrow> int \<Rightarrow> (harg \<times> bool) list" where
  "update_code_hooks repl sdk_int =
     (if sdk_int \<ge> API_M then
        [hk repl ''UpdateMethodsCodeImpl_''
           ''_ZN3art15instrumentation15Instrumentation21UpdateMethodsCodeImplEPNS_9ArtMethodEPKv'',
         hk repl ''UpdateMethodsCode_''
           ''_ZN3art15instrumentation15Instrumentation17UpdateMethodsCodeEPNS_9ArtMethodEPKv'']
      else
        [hk repl ''UpdateMethodsCodeWithProtableCode_''
           ''_ZN3art15instrumentation15Instrumentation17UpdateMethodsCodeEPNS_6mirror9ArtMethodEPKvS6_b''])"

definition debuggable_code_hooks :: "(string \<Rightarrow> addr) \<Rightarrow> (harg \<times> bool) list" where
  "debuggable_code_hooks repl =
     [hk repl ''ReinitializeMethodsCode_''
        ''_ZN3art15instrumentation15Instrumentation23ReinitializeMethodsCodeEPNS_9ArtMethodE'',
      hk repl ''InitializeMethodsCode_''
        ''_ZN3art15instrumentation15Instrumentation21InitializeMethodsCodeEPNS_9ArtMethodEPKv'',
      hk repl ''UpdateMethodsCodeToInterpreterEntryPoint_''
        ''_ZN3art15instrumentation15Instrumentation40UpdateMethodsCodeToInterpreterEntryPointEPNS_9ArtMethodE'']"

text \<open>\<open>debuggable\<close> is \<open>IsJavaDebuggable(env)\<close>.\<close>

definition Instrumentation_Init ::
  "init_info \<Rightarrow> (string \<Rightarrow> addr) \<Rightarrow> bool \<Rightarrow> int \<Rightarrow> hook_state \<Rightarrow> bool \<times> hook_state" where
  "Instrumentation_Init info repl debuggable sdk_int H =
     (let (_, H) = handler_any info (update_code_hooks repl sdk_int) H
      in if \<not> debuggable then (True, H)
         else if sdk_int \<ge> API_P then handler_any info (debuggable_code_hooks repl) H
         else (True, H))"

section \<open>What an update of the code does\<close>

text \<open>\<open>own_change S A f\<close>: of the methods \<open>A\<close>, \<open>f\<close> changes the one it is called on and no other.\<close>

definition own_change :: "art_statics \<Rightarrow> addr set \<Rightarrow> (addr \<Rightarrow> memory \<Rightarrow> memory) \<Rightarrow> bool" where
  "own_change S A f \<longleftrightarrow> (\<forall>a \<in> A. \<forall>m. touches S A {a} m (f a m))"

lemma own_changeD: "own_change S A f \<Longrightarrow> a \<in> A \<Longrightarrow> touches S A {a} m (f a m)"
  by (simp add: own_change_def)

lemma HandleMethodCodeUpdated_entry:
  assumes ok: "linker_ok S I R A" and a: "a \<in> A" and old: "is_ptr S old" and new: "is_ptr S new"
    and c: "c \<in> A"
  shows "GetEntryPoint S (HandleMethodCodeUpdated S R a old new m) c =
    (if c = a \<and> (a \<in> targets R \<or> IsDeoptimized R a) then old
     else if a \<in> targets R \<and> c = IsHooked R a \<and> \<not> IsDeoptimized R a then new
     else GetEntryPoint S m c)"
proof -
  note d = linker_okD [OF ok]
  show ?thesis
  proof (cases "a \<in> targets R")
    case True
    have b: "IsHooked R a \<noteq> 0" "IsHooked R a \<in> A" "IsHooked R a \<noteq> a"
      using IsHooked_target [OF d(1) True] d(6) IsHooked_neq_target [OF d(1) True True] by auto
    show ?thesis
      using b True a c
      by (auto simp: HandleMethodCodeUpdated_def Let_def entry_SetEntryPoint [OF d(2) a _ old]
          entry_SetEntryPoint [OF d(2) b(2) _ new])
  next
    case False
    then show ?thesis
      using a c by (auto simp: HandleMethodCodeUpdated_def Let_def IsHooked_nontarget
          entry_SetEntryPoint [OF d(2) a _ old])
  qed
qed

lemma update_code_spec:
  assumes ok: "linker_ok S I R A" and a: "a \<in> A" and orig: "own_change S A (\<lambda>a. original a new)"
    and new: "is_ptr S new" "GetEntryPoint S m a \<noteq> new" and c: "c \<in> A"
    and m': "m' = UpdateMethodsCode_hook S R original a new m"
  shows "GetEntryPoint S m' c =
    (if a \<in> targets R \<or> IsDeoptimized R a then
       if a \<in> targets R \<and> c = IsHooked R a \<and> \<not> IsDeoptimized R a then new else GetEntryPoint S m c
     else GetEntryPoint S (original a new m) c)"
proof -
  have same: "GetEntryPoint S (original a new m) c = GetEntryPoint S m c" if "c \<noteq> a"
    using touchesD(1) [OF own_changeD [OF orig a] c] that by simp
  have "a \<in> targets R \<Longrightarrow> IsHooked R a \<noteq> a"
    using IsHooked_neq_target [OF linker_okD(1) [OF ok]] by blast
  then show ?thesis
    unfolding m' using new(2) same
    by (auto simp: UpdateMethodsCode_hook_def Let_def
        HandleMethodCodeUpdated_entry [OF ok a GetEntryPoint_ptr new(1) c])
qed

text \<open>C12. When ART installs new code for a method through \<open>UpdateMethodsCode\<close>, whatever it writes into
  that method: a hooked method keeps the trampoline and the code goes to its backup, unless the method
  is deoptimized; a deoptimized method keeps its entry point; any other method gets what ART wrote.
  No other entry point changes.\<close>

theorem update_code_keeps_hooks:
  assumes "linker_ok S I R A" and "a \<in> A" and "own_change S A (\<lambda>a. original a new)"
    and "is_ptr S new" and "GetEntryPoint S m a \<noteq> new"
    and "m' = UpdateMethodsCode_hook S R original a new m"
  shows "(a \<in> targets R \<or> IsDeoptimized R a \<longrightarrow> GetEntryPoint S m' a = GetEntryPoint S m a) \<and>
    (a \<in> targets R \<and> \<not> IsDeoptimized R a \<longrightarrow> GetEntryPoint S m' (IsHooked R a) = new) \<and>
    (a \<notin> targets R \<and> \<not> IsDeoptimized R a \<longrightarrow> GetEntryPoint S m' a = GetEntryPoint S (original a new m) a) \<and>
    (\<forall>c \<in> A. c \<noteq> a \<and> c \<noteq> IsHooked R a \<longrightarrow> GetEntryPoint S m' c = GetEntryPoint S m c)"
proof -
  note spec = update_code_spec [OF assms(1-5) _ assms(6)]
  note d = linker_okD [OF assms(1)]
  have same: "GetEntryPoint S (original a new m) c = GetEntryPoint S m c" if "c \<in> A" "c \<noteq> a" for c
    using touchesD(1) [OF own_changeD [OF assms(3,2)] that(1)] that(2) by simp
  have hk: "IsHooked R a \<in> A" "IsHooked R a \<noteq> a" if "a \<in> targets R"
    using IsHooked_target [OF d(1) that] d(6) IsHooked_neq_target [OF d(1) that that] by auto
  show ?thesis
    using spec [OF assms(2)] spec [of "IsHooked R a"] hk same spec by auto
qed

theorem update_code_keeps_hooks_witness:
  "\<exists>m'. m' = UpdateMethodsCode_hook arm64_statics demo_reg (SetEntryPoint arm64_statics) 64 5 demo_mem \<and>
     GetEntryPoint arm64_statics m' 64 = 16 \<and> GetEntryPoint arm64_statics m' 256 = 5"
proof -
  let ?S = arm64_statics
  let ?m = "UpdateMethodsCode_hook ?S demo_reg (SetEntryPoint ?S) 64 5 demo_mem"
  have orig: "own_change ?S {64, 256} (\<lambda>a. SetEntryPoint ?S a 5)"
    using touches_SetEntryPoint [OF demo_separate] by (simp add: own_change_def)
  have p: "is_ptr ?S 5" by (simp add: is_ptr_def arm64_statics_def)
  have ne: "GetEntryPoint ?S demo_mem 64 \<noteq> 5" by (simp add: demo_mem_eval)
  have a: "(64::nat) \<in> {64, 256}" by simp
  have nd: "\<not> IsDeoptimized demo_reg 64" by (simp add: IsDeoptimized_def demo_reg_fields)
  show ?thesis
    using update_code_keeps_hooks [OF demo_linker_ok a, of "SetEntryPoint ?S" 5, OF orig p ne refl] nd
    by (simp add: demo_reg_sets demo_mem_eval)
qed

text \<open>The functions that (re)initialize the code of a method, on debuggable runtimes: no hooked method
  and no deoptimized method changes.\<close>

lemma MaybeUseBackupMethod_nontarget:
  assumes ok: "linker_ok S I R A" and a: "a \<in> A" and c: "GetEntryPoint S m a \<noteq> code"
  shows "MaybeUseBackupMethod S R m a code \<in> A - targets R"
proof -
  note d = linker_okD [OF ok]
  show ?thesis
    using a c IsHooked_iff [OF d(1), of a] IsHooked_target [OF d(1), of a] d(6) backup_not_target [OF d(1)]
    by (auto simp: MaybeUseBackupMethod_def Let_def)
qed

lemma redirected_keeps_hooks:
  assumes ok: "linker_ok S I R A" and a: "a \<in> A" and c: "GetEntryPoint S m a \<noteq> code"
    and orig: "own_change S A f" and t: "t \<in> targets R"
  shows "same_method S m (f (MaybeUseBackupMethod S R m a code) m) t"
proof -
  have b: "MaybeUseBackupMethod S R m a code \<in> A - targets R"
    by (rule MaybeUseBackupMethod_nontarget [OF ok a c])
  then have "touches S A {MaybeUseBackupMethod S R m a code} m (f (MaybeUseBackupMethod S R m a code) m)"
    using own_changeD [OF orig] by blast
  moreover have "t \<in> A" using linker_okD(5) [OF ok t] .
  moreover have "t \<noteq> MaybeUseBackupMethod S R m a code" using b t by blast
  ultimately show ?thesis by (simp add: touches_def)
qed

lemma reinitialize_keeps_hooks:
  assumes ok: "linker_ok S I R A" and a: "a \<in> A" and t: "t \<in> targets R" and c: "GetEntryPoint S m a \<noteq> code"
    and f: "own_change S A (\<lambda>a. f a code)"
  shows "same_method S m (InitializeMethodsCode_hook S R f a code m) t"
  using redirected_keeps_hooks [OF ok a c f t] by (simp add: InitializeMethodsCode_hook_def)

text \<open>The two that bring no code are called on methods that have an entry point.\<close>

lemma reinitialize_keeps_hooks_no_code:
  assumes ok: "linker_ok S I R A" and a: "a \<in> A" and t: "t \<in> targets R" and c: "GetEntryPoint S m a \<noteq> 0"
    and f: "own_change S A f"
  shows "same_method S m (ReinitializeMethodsCode_hook S R f a m) t"
    "same_method S m (UpdateMethodsCodeToInterpreterEntryPoint_hook S R f a m) t"
  using redirected_keeps_hooks [OF ok a c f t]
  by (simp_all add: ReinitializeMethodsCode_hook_def UpdateMethodsCodeToInterpreterEntryPoint_hook_def)

section \<open>What Init hooks\<close>

lemma Instrumentation_Init_debuggable:
  assumes "Instrumentation_Init info repl True sdk_int H = (True, H')" and "sdk_int \<ge> API_P"
  shows "\<exists>(a, p) \<in> set (debuggable_code_hooks repl). harg_ready H' a"
proof -
  obtain H1 where "handler_any info (debuggable_code_hooks repl) H1 = (True, H')"
    using assms by (auto simp: Instrumentation_Init_def Let_def case_prod_beta' split: if_splits)
  from handler_any_ready [OF this] show ?thesis .
qed

end
