(* ===== verification/Jit.thy ===== *)
theory Jit
  imports Instrumentation "HOL-Library.Multiset"
begin

text \<open>
  art/runtime/jit/jit.cxx and art/runtime/jit/jit_code_cache.cxx.

  \<^item> Compilation requests: a request for a backup goes to its target (\<open>EnqueueOptimizedCompilation\<close>),
    an optimized compilation of a hooked method goes to its backup (\<open>AddCompileTask\<close>).
  \<^item> \<open>MapBootImageMethods\<close>: while ART maps the boot image, every hooked and every deoptimized method
    is made to look like the original; afterwards the trampolines and interpreter entries are put back.
  \<^item> \<open>MoveObsoleteMethods\<close>: before a collection of the JIT cache the JIT's data of hooked methods moves
    to their backups.

  The iterations over hash tables are lists in the order of the iteration; that of the local
  \<open>unordered_map\<close> is a parameter \<open>order\<close>, which may permute.
\<close>

datatype compilation_kind = kOsr | kBaseline | kOptimized

definition EnqueueOptimizedCompilation_hook ::
  "registry \<Rightarrow> (addr \<Rightarrow> addr \<Rightarrow> 's \<Rightarrow> 's) \<Rightarrow> addr \<Rightarrow> addr \<Rightarrow> 's \<Rightarrow> 's" where
  "EnqueueOptimizedCompilation_hook R original meth self s =
     (let target = IsBackup R meth;
          meth = (if target \<noteq> 0 then target else meth)
      in original meth self s)"

definition AddCompileTask_hook ::
  "registry \<Rightarrow> (addr \<Rightarrow> addr \<Rightarrow> compilation_kind \<Rightarrow> bool \<Rightarrow> 's \<Rightarrow> 's) \<Rightarrow> addr \<Rightarrow> addr \<Rightarrow> compilation_kind
     \<Rightarrow> bool \<Rightarrow> 's \<Rightarrow> 's" where
  "AddCompileTask_hook R original self meth kind precompile s =
     (let b = (if kind = kOptimized \<and> \<not> precompile then IsHooked R meth else 0);
          meth = (if b \<noteq> 0 then b else meth)
      in original self meth kind precompile s)"

section \<open>MapBootImageMethods\<close>

type_synonym saved_entries = "(addr \<times> addr \<times> addr \<times> addr) list"

definition save_deoptimized ::
  "art_statics \<Rightarrow> addr \<times> addr \<Rightarrow> saved_entries \<times> memory \<Rightarrow> saved_entries \<times> memory" where
  "save_deoptimized S = (\<lambda>(meth, original_entry_point) (methods, m).
     (AList.update meth (0, GetData S m meth, GetEntryPoint S m meth) methods,
      SetEntryPoint S meth original_entry_point m))"

definition save_hooked ::
  "art_statics \<Rightarrow> addr \<times> addr \<Rightarrow> saved_entries \<times> memory \<Rightarrow> saved_entries \<times> memory" where
  "save_hooked S = (\<lambda>(meth, backup_method) (methods, m).
     (AList.update meth (backup_method, GetData S m meth, GetEntryPoint S m meth) methods,
      (let m = SetData S meth (GetData S m backup_method) m
       in SetEntryPoint S meth (GetEntryPoint S m backup_method) m)))"

definition put_back ::
  "art_statics \<Rightarrow> addr \<times> addr \<times> addr \<times> addr \<Rightarrow> registry \<times> memory \<Rightarrow> registry \<times> memory" where
  "put_back S = (\<lambda>(meth, backup_method, data, entry_point) (R, m).
     (if backup_method = 0 then
        (if GetEntryPoint S m meth \<noteq> entry_point
         then (R\<lparr> deoptimized_methods := (deoptimized_methods R)(meth \<mapsto> GetEntryPoint S m meth) \<rparr>,
               SetEntryPoint S meth entry_point m)
         else (R, m))
      else if GetData S m meth = GetData S m backup_method \<and>
              GetEntryPoint S m meth = GetEntryPoint S m backup_method
      then (R, SetEntryPoint S meth entry_point (SetData S meth data m))
      else
        (R, (let m = SetData S backup_method (GetData S m meth) m;
                 m = SetEntryPoint S backup_method (GetEntryPoint S m meth) m
             in SetEntryPoint S meth entry_point m))))"

text \<open>\<open>ds\<close> and \<open>hs\<close> are the entries of \<open>deoptimized_methods_\<close> and \<open>hooked_methods_\<close> (of these the
  backup) in the order they are visited.\<close>

definition MapBootImageMethods_hook ::
  "art_statics \<Rightarrow> (addr \<times> addr) list \<Rightarrow> (addr \<times> addr) list \<Rightarrow> (saved_entries \<Rightarrow> saved_entries)
     \<Rightarrow> (memory \<Rightarrow> memory) \<Rightarrow> registry \<times> memory \<Rightarrow> registry \<times> memory" where
  "MapBootImageMethods_hook S ds hs order original = (\<lambda>(R, m).
     (let (methods, m) = fold (save_deoptimized S) ds ([], m);
          (methods, m) = fold (save_hooked S) hs (methods, m);
          m = original m
      in fold (put_back S) (order methods) (R, m)))"

definition Jit_Init ::
  "init_info \<Rightarrow> (string \<Rightarrow> addr) \<Rightarrow> int \<Rightarrow> hook_state \<Rightarrow> bool \<times> hook_state" where
  "Jit_Init info repl sdk_int H =
     (let (_, H) = (if sdk_int \<le> API_U then handler_any info [hk repl ''EnqueueOptimizedCompilation_''
              ''_ZN3art3jit3Jit27EnqueueOptimizedCompilationEPNS_9ArtMethodEPNS_6ThreadE''] H else (False, H));
          (_, H) = (if sdk_int \<le> API_U then handler_any info [hk repl ''AddCompileTask_''
              ''_ZN3art3jit3Jit14AddCompileTaskEPNS_6ThreadEPNS_9ArtMethodENS_15CompilationKindEb''] H else (False, H));
          (_, H) = (if sdk_int \<ge> API_R then handler_any info [hk repl ''MapBootImageMethods_''
              ''_ZN3art3jit3Jit19MapBootImageMethodsEv''] H else (False, H))
      in (True, H))"

section \<open>The JIT code cache\<close>

text \<open>\<open>move_obsolete\<close> is libart's \<open>JitCodeCache::MoveObsoleteMethod\<close> (\<open>None\<close> when it was not found).\<close>

definition move_one ::
  "art_statics \<Rightarrow> (addr \<Rightarrow> addr \<Rightarrow> memory \<Rightarrow> memory) option \<Rightarrow> addr \<times> addr \<Rightarrow> memory \<Rightarrow> memory" where
  "move_one S move_obsolete = (\<lambda>(target, backup) m.
     (case move_obsolete of
        Some f \<Rightarrow> f target backup m
      | None \<Rightarrow> (let m = SetData S backup (GetData S m backup) m in SetData S target 0 m)))"

definition MoveObsoleteMethods ::
  "art_statics \<Rightarrow> (addr \<Rightarrow> addr \<Rightarrow> memory \<Rightarrow> memory) option \<Rightarrow> registry \<times> memory \<Rightarrow> registry \<times> memory" where
  "MoveObsoleteMethods S move_obsolete = (\<lambda>(R, m).
     (let (movements, R) = GetJitMovements R in (R, fold (move_one S move_obsolete) movements m)))"

text \<open>The hooks on \<open>GarbageCollectCache\<close> and \<open>DoCollection\<close>.\<close>

definition GarbageCollectCache_hook ::
  "art_statics \<Rightarrow> (addr \<Rightarrow> addr \<Rightarrow> memory \<Rightarrow> memory) option \<Rightarrow> (memory \<Rightarrow> memory) \<Rightarrow> registry \<times> memory
     \<Rightarrow> registry \<times> memory" where
  "GarbageCollectCache_hook S move_obsolete original = (\<lambda>s.
     (let (R, m) = MoveObsoleteMethods S move_obsolete s in (R, original m)))"

definition JitCodeCache_Init ::
  "init_info \<Rightarrow> (string \<Rightarrow> addr) \<Rightarrow> int \<Rightarrow> hook_state \<Rightarrow> bool \<times> hook_state" where
  "JitCodeCache_Init info repl sdk_int H =
     (let (ok, H) = (if sdk_int \<ge> API_O then handler_any info (one (HFun ''MoveObsoleteMethod_''
            ''_ZN3art3jit12JitCodeCache18MoveObsoleteMethodEPNS_9ArtMethodES3_'')) H else (True, H))
      in if \<not> ok then (False, H)
         else if sdk_int \<ge> API_N then
           handler_any info
             [hk repl ''GarbageCollectCache_''
                ''_ZN3art3jit12JitCodeCache19GarbageCollectCacheEPNS_6ThreadE'',
              hk repl ''DoCollection_'' ''_ZN3art3jit12JitCodeCache12DoCollectionEPNS_6ThreadE''] H
         else (True, H))"

section \<open>The two saving loops\<close>

lemma save_deoptimized_all:
  assumes sep: "separate S A" and ds: "fst ` set ds \<subseteq> A" "\<forall>(a, e) \<in> set ds. is_ptr S e"
    and dist: "distinct (map fst ds)" and c: "c \<in> A"
  shows "map_of (fst (fold (save_deoptimized S) ds (ms, m))) c =
      (case map_of ds c of Some e \<Rightarrow> Some (0, GetData S m c, GetEntryPoint S m c) | None \<Rightarrow> map_of ms c) \<and>
    GetEntryPoint S (snd (fold (save_deoptimized S) ds (ms, m))) c =
      (case map_of ds c of Some e \<Rightarrow> e | None \<Rightarrow> GetEntryPoint S m c) \<and>
    GetData S (snd (fold (save_deoptimized S) ds (ms, m))) c = GetData S m c"
  using ds dist
proof (induction ds arbitrary: ms m)
  case (Cons x ds)
  obtain a e where x: "x = (a, e)" by (metis prod.exhaust)
  have a: "a \<in> A" "is_ptr S e" using Cons.prems x by auto
  let ?ms = "AList.update a (0, GetData S m a, GetEntryPoint S m a) ms" and ?m = "SetEntryPoint S a e m"
  have none: "map_of ds a = None" using Cons.prems(3) by (simp add: x map_of_eq_None_iff)
  have prems: "fst ` set ds \<subseteq> A" "\<forall>(a, e) \<in> set ds. is_ptr S e" "distinct (map fst ds)"
    using Cons.prems by auto
  note IH = Cons.IH [OF prems, of ?ms ?m]
  have step: "fold (save_deoptimized S) (x # ds) (ms, m) = fold (save_deoptimized S) ds (?ms, ?m)"
    by (simp add: x save_deoptimized_def)
  have e1: "GetEntryPoint S ?m c = (if c = a then e else GetEntryPoint S m c)" "GetData S ?m c = GetData S m c"
    using entry_SetEntryPoint [OF sep a(1) c a(2)] other_SetEntryPoint(1) [OF sep a(1) c] by simp_all
  show ?case unfolding step using IH none e1 by (cases "c = a") (auto simp: x update_conv' split: option.split)
qed simp

lemma save_hooked_all:
  assumes sep: "separate S A" and hs: "\<forall>(a, b) \<in> set hs. a \<in> A" and dist: "distinct (map fst hs)" and c: "c \<in> A"
  shows "map_of (fst (fold (save_hooked S) hs (ms, m))) c =
      (case map_of hs c of Some b \<Rightarrow> Some (b, GetData S m c, GetEntryPoint S m c) | None \<Rightarrow> map_of ms c)"
  using hs dist
proof (induction hs arbitrary: ms m)
  case (Cons x hs)
  obtain a b where x: "x = (a, b)" by (metis prod.exhaust)
  have a: "a \<in> A" using Cons.prems x by auto
  let ?ms = "AList.update a (b, GetData S m a, GetEntryPoint S m a) ms"
  let ?m1 = "SetData S a (GetData S m b) m"
  let ?m = "SetEntryPoint S a (GetEntryPoint S ?m1 b) ?m1"
  have none: "map_of hs a = None" using Cons.prems(2) by (simp add: x map_of_eq_None_iff)
  have prems: "\<forall>(a, b) \<in> set hs. a \<in> A" "distinct (map fst hs)" using Cons.prems by auto
  have step: "fold (save_hooked S) (x # hs) (ms, m) = fold (save_hooked S) hs (?ms, ?m)"
    by (simp add: x save_hooked_def Let_def)
  have e1: "GetEntryPoint S ?m c = GetEntryPoint S m c" "GetData S ?m c = GetData S m c" if "c \<noteq> a"
    using that entry_SetEntryPoint [OF sep a c GetEntryPoint_ptr] other_SetEntryPoint(1) [OF sep a c]
      other_SetData(1) [OF sep a c] data_SetData [OF sep a c GetData_ptr] by simp_all
  show ?case unfolding step using Cons.IH [OF prems, of ?ms ?m] none e1
    by (cases "c = a") (auto simp: x update_conv' split: option.split)
qed simp

lemma save_distinct:
  "distinct (map fst ms) \<Longrightarrow> distinct (map fst (fst (fold (save_deoptimized S) ds (ms, m))))"
  "distinct (map fst ms) \<Longrightarrow> distinct (map fst (fst (fold (save_hooked S) hs (ms, m))))"
  by (induction ds arbitrary: ms m; induction hs arbitrary: ms m;
      auto simp: save_deoptimized_def save_hooked_def distinct_update split: prod.splits)+

lemma saved_keys1: "fst ` set (fst (fold (save_deoptimized S) ds (ms, m))) = fst ` set ms \<union> fst ` set ds"
  by (induction ds arbitrary: ms m) (auto simp: save_deoptimized_def dom_update split: prod.splits)

lemma saved_keys2: "fst ` set (fst (fold (save_hooked S) hs (ms, m))) = fst ` set ms \<union> fst ` set hs"
  by (induction hs arbitrary: ms m) (auto simp: save_hooked_def dom_update split: prod.splits)

section \<open>The loop that puts back\<close>

lemma map_of_permuted:
  assumes "distinct (map fst xs)" "mset ys = mset xs"
  shows "map_of ys = map_of xs" "distinct (map fst ys)"
proof -
  have "mset (map fst ys) = mset (map fst xs)" using assms(2) by simp
  then show d: "distinct (map fst ys)" using assms(1) by (metis mset_eq_imp_distinct_iff)
  show "map_of ys = map_of xs"
    using map_of_inject_set [OF d assms(1)] mset_eq_setD [OF assms(2)] by simp
qed

text \<open>An entry of the table names a method and no backup, or a target and its backup.\<close>

definition saved_ok :: "art_statics \<Rightarrow> registry \<Rightarrow> addr set \<Rightarrow> saved_entries \<Rightarrow> bool" where
  "saved_ok S R A ms \<longleftrightarrow> (\<forall>(a, b, d, e) \<in> set ms. a \<in> A \<and> is_ptr S d \<and> is_ptr S e \<and>
     (if b = 0 then a \<notin> targets R else a \<in> targets R \<and> b = IsHooked R a))"

lemma put_back_entry:
  assumes ok: "linker_ok S I R A" and sv: "saved_ok S R A [(a, b, d, e)]" and c: "c \<in> A - backups R"
  shows "GetEntryPoint S (snd (put_back S (a, b, d, e) (R', m))) c = (if c = a then e else GetEntryPoint S m c)"
proof -
  note k = linker_okD [OF ok]
  have a: "a \<in> A" "is_ptr S d" "is_ptr S e" and cA: "c \<in> A" using sv c by (auto simp: saved_ok_def)
  have b: "b \<noteq> 0 \<Longrightarrow> b \<in> A \<and> b \<noteq> c"
    using sv c IsHooked_target [OF k(1)] k(6) by (auto simp: saved_ok_def split: if_splits)
  have entry: "GetEntryPoint S (SetEntryPoint S x v m) c = (if c = x then v else GetEntryPoint S m c)"
    "GetEntryPoint S (SetData S x v m) c = GetEntryPoint S m c" if "x \<in> A" "is_ptr S v" for x v m
    using entry_SetEntryPoint [OF k(2) that(1) cA that(2)] other_SetData(1) [OF k(2) that(1) cA] by simp_all
  consider "b = 0" | "b \<noteq> 0" "GetData S m a = GetData S m b \<and> GetEntryPoint S m a = GetEntryPoint S m b"
    | "b \<noteq> 0" "\<not> (GetData S m a = GetData S m b \<and> GetEntryPoint S m a = GetEntryPoint S m b)" by blast
  then show ?thesis
  proof cases
    case 1
    then show ?thesis using entry(1) [OF a(1,3), of m] by (auto simp: put_back_def)
  next
    case 2
    then show ?thesis using entry(1) [OF a(1,3), of "SetData S a d m"] entry(2) [OF a(1,2), of m]
      by (simp add: put_back_def)
  next
    case 3
    then have "put_back S (a, b, d, e) (R', m) =
      (R', SetEntryPoint S a e (SetEntryPoint S b (GetEntryPoint S (SetData S b (GetData S m a) m) a)
        (SetData S b (GetData S m a) m)))"
      unfolding put_back_def Let_def by (simp only: prod.case if_False)
    then show ?thesis using a b [OF 3(1)] entry(1) [OF a(1,3)] entry(1) [of b, OF _ GetEntryPoint_ptr]
        entry(2) [of b, OF _ GetData_ptr] by (simp only: snd_conv) simp
  qed
qed

lemma put_back_all:
  assumes ok: "linker_ok S I R A" and sv: "saved_ok S R A ms" and dist: "distinct (map fst ms)"
    and c: "c \<in> A - backups R"
  shows "GetEntryPoint S (snd (fold (put_back S) ms (R', m))) c =
    (case map_of ms c of Some (b, d, e) \<Rightarrow> e | None \<Rightarrow> GetEntryPoint S m c)"
  using sv dist
proof (induction ms arbitrary: R' m)
  case (Cons x ms)
  obtain a b d e where x: "x = (a, b, d, e)" by (metis prod.exhaust)
  obtain R1 m1 where s: "put_back S x (R', m) = (R1, m1)" by (metis prod.exhaust)
  have sv1: "saved_ok S R A [(a, b, d, e)]" "saved_ok S R A ms"
    using Cons.prems(1) by (auto simp: saved_ok_def x)
  have none: "map_of ms a = None" using Cons.prems(2) by (simp add: x map_of_eq_None_iff)
  have m1: "GetEntryPoint S m1 c = (if c = a then e else GetEntryPoint S m c)"
    using put_back_entry [OF ok sv1(1) c, of R' m] s by (simp add: x)
  have "fold (put_back S) (x # ms) (R', m) = fold (put_back S) ms (R1, m1)" using s by simp
  then show ?case
    using Cons.IH [OF sv1(2), of R1 m1] Cons.prems(2) none m1 by (cases "c = a") (auto simp: x split: option.split)
qed simp

text \<open>\<open>enumerates xs f\<close>: the list is an iteration over the hash map \<open>f\<close>.\<close>

definition enumerates :: "('k \<times> 'v) list \<Rightarrow> ('k \<rightharpoonup> 'v) \<Rightarrow> bool" where
  "enumerates xs f \<longleftrightarrow> distinct (map fst xs) \<and> map_of xs = f"

lemma enumerates_mem: "enumerates xs f \<Longrightarrow> (k, v) \<in> set xs \<Longrightarrow> f k = Some v"
  by (auto simp: enumerates_def dest: map_of_is_SomeI)

definition hooked_backups :: "registry \<Rightarrow> addr \<rightharpoonup> addr" where
  "hooked_backups R t = map_option hr_backup (hooked_methods R t)"

lemma hooked_backups_iff: "hooked_backups R t = Some b \<Longrightarrow> t \<in> targets R \<and> b = IsHooked R t"
  by (auto simp: hooked_backups_def targets_def IsHooked_def)

lemma hooked_backups_target: "t \<in> targets R \<Longrightarrow> hooked_backups R t = Some (IsHooked R t)"
  by (auto simp: hooked_backups_def targets_def IsHooked_def)

lemma hooked_backups_None: "t \<notin> targets R \<Longrightarrow> hooked_backups R t = None"
  by (auto simp: hooked_backups_def targets_def)

definition boot_ok :: "art_statics \<Rightarrow> interp_entry \<Rightarrow> registry \<Rightarrow> addr set \<Rightarrow> (addr \<times> addr) list \<Rightarrow> (addr \<times> addr) list
    \<Rightarrow> (saved_entries \<Rightarrow> saved_entries) \<Rightarrow> bool" where
  "boot_ok S I R A ds hs order \<longleftrightarrow> linker_ok S I R A \<and>
     enumerates ds (deoptimized_methods R) \<and> enumerates hs (hooked_backups R) \<and>
     dom (deoptimized_methods R) \<subseteq> A \<and> (\<forall>a e. deoptimized_methods R a = Some e \<longrightarrow> is_ptr S e) \<and>
     (\<forall>ms. mset (order ms) = mset ms)"

lemma map_boot_image_entry:
  assumes ok: "boot_ok S I R A ds hs order" and c: "c \<in> A - backups R"
    and run: "MapBootImageMethods_hook S ds hs order original (R, m) = (R', m')"
  shows "c \<in> targets R \<Longrightarrow> GetEntryPoint S m' c =
      (case deoptimized_methods R c of Some e \<Rightarrow> e | None \<Rightarrow> GetEntryPoint S m c)"
    and "c \<notin> targets R \<Longrightarrow> IsDeoptimized R c \<Longrightarrow> GetEntryPoint S m' c = GetEntryPoint S m c"
proof -
  have lk: "linker_ok S I R A" and ds: "distinct (map fst ds)" "map_of ds = deoptimized_methods R"
    and hs: "distinct (map fst hs)" "map_of hs = hooked_backups R"
    and perm: "mset (order ms) = mset ms" for ms
    using ok by (auto simp: boot_ok_def enumerates_def)
  note k = linker_okD [OF lk]
  obtain ms1 m1 where s1: "fold (save_deoptimized S) ds ([], m) = (ms1, m1)" by (metis prod.exhaust)
  obtain ms2 m2 where s2: "fold (save_hooked S) hs (ms1, m1) = (ms2, m2)" by (metis prod.exhaust)
  have m': "(R', m') = fold (put_back S) (order ms2) (R, original m2)"
    using run by (simp add: MapBootImageMethods_hook_def s1 s2)
  have dsA: "fst ` set ds \<subseteq> A" "\<forall>(a, e) \<in> set ds. is_ptr S e"
    using ok enumerates_mem [of ds "deoptimized_methods R"] by (fastforce simp: boot_ok_def)+
  have hsA: "\<forall>(a, b) \<in> set hs. a \<in> A"
    using ok enumerates_mem [of hs "hooked_backups R"] hooked_backups_iff [of R] k(5) by (fastforce simp: boot_ok_def)
  have one: "map_of ms1 x = (case deoptimized_methods R x of Some e \<Rightarrow> Some (0, GetData S m x, GetEntryPoint S m x)
        | None \<Rightarrow> None)"
      "GetEntryPoint S m1 x = (case deoptimized_methods R x of Some e \<Rightarrow> e | None \<Rightarrow> GetEntryPoint S m x)"
    if "x \<in> A" for x
    using save_deoptimized_all [OF k(2) dsA ds(1) that, of "[]" m] by (auto simp: s1 ds(2) split: option.split)
  have two: "map_of ms2 x = (case hooked_backups R x of
        Some b \<Rightarrow> Some (b, GetData S m1 x, GetEntryPoint S m1 x) | None \<Rightarrow> map_of ms1 x)" if "x \<in> A" for x
    using save_hooked_all [OF k(2) hsA hs(1) that, of ms1 m1] by (simp add: s2 hs(2))
  have d1: "distinct (map fst ms1)" using save_distinct(1) [of "[]" S ds m] by (simp add: s1)
  have d2: "distinct (map fst ms2)" using save_distinct(2) [OF d1, of S hs m1] by (simp add: s2)
  have keys: "fst ` set ms1 \<subseteq> fst ` set ds" "fst ` set ms2 \<subseteq> fst ` set ds \<union> fst ` set hs"
    using saved_keys1 [of S ds "[]" m] saved_keys2 [of S hs ms1 m1] by (auto simp: s1 s2)
  have sv: "saved_ok S R A ms2"
    unfolding saved_ok_def
  proof clarify
    fix a b d e assume mem: "(a, b, d, e) \<in> set ms2"
    then have "a \<in> fst ` set ms2" by force
    then have a: "a \<in> A" using keys(2) dsA(1) hsA by fastforce
    have "map_of ms2 a = Some (b, d, e)" using mem d2 by simp
    then show "a \<in> A \<and> is_ptr S d \<and> is_ptr S e \<and> (if b = 0 then a \<notin> targets R else a \<in> targets R \<and> b = IsHooked R a)"
      using a two [OF a] one [OF a] IsHooked_target [OF k(1), of a]
      by (cases "a \<in> targets R") (auto simp: hooked_backups_target hooked_backups_None split: option.splits)
  qed
  note p = map_of_permuted [OF d2 perm]
  have sv': "saved_ok S R A (order ms2)"
    using sv mset_eq_setD [OF perm] by (simp add: saved_ok_def)
  have cA: "c \<in> A" using c by blast
  have "GetEntryPoint S (snd (fold (put_back S) (order ms2) (R, original m2))) c =
    (case map_of ms2 c of Some (b, d, e) \<Rightarrow> e | None \<Rightarrow> GetEntryPoint S (original m2) c)"
    using put_back_all [OF lk sv' p(2) c, of R "original m2"] p(1) by simp
  then have final: "GetEntryPoint S m' c =
    (case map_of ms2 c of Some (b, d, e) \<Rightarrow> e | None \<Rightarrow> GetEntryPoint S (original m2) c)"
    using m' by (metis snd_conv)
  { assume "c \<in> targets R"
    then show "GetEntryPoint S m' c = (case deoptimized_methods R c of Some e \<Rightarrow> e | None \<Rightarrow> GetEntryPoint S m c)"
      using final two [OF cA] one [OF cA] by (simp add: hooked_backups_target) }
  { assume "c \<notin> targets R" "IsDeoptimized R c"
    then show "GetEntryPoint S m' c = GetEntryPoint S m c"
      using final two [OF cA] one [OF cA] by (auto simp: hooked_backups_None IsDeoptimized_def) }
qed

lemma boot_okD:
  assumes "boot_ok S I R A ds hs order"
  shows "linker_ok S I R A" "t \<in> targets R \<Longrightarrow> t \<in> A - backups R"
  using assms linker_okD(1,5) [of S I R A] by (auto simp: boot_ok_def reg_ok_def)

text \<open>C11. Mapping the boot image keeps hooks and deoptimizations: whatever ART writes and in whatever
  order the tables are visited, every hooked method that is not deoptimized has its trampoline
  afterwards, and every deoptimized method that is neither hooked nor a backup has the entry point it
  had before.\<close>

theorem map_boot_image_keeps:
  assumes "boot_ok S I R A ds hs order"
    and "MapBootImageMethods_hook S ds hs order original (R, m) = (R', m')"
  shows "(\<forall>t \<in> targets R. \<not> IsDeoptimized R t \<longrightarrow> GetEntryPoint S m' t = GetEntryPoint S m t) \<and>
    (\<forall>a \<in> A - backups R - targets R. IsDeoptimized R a \<longrightarrow> GetEntryPoint S m' a = GetEntryPoint S m a)"
  using map_boot_image_entry [OF assms(1) _ assms(2)] boot_okD(2) [OF assms(1)]
  by (auto simp: IsDeoptimized_def)

text \<open>A method that was deoptimized before it was hooked loses its hook when the boot image is mapped:
  the first loop has already written the entry point it had before the deoptimization when the second
  loop saves "the trampoline", so that entry point is what is put back.\<close>

theorem map_boot_image_unhooks_deoptimized:
  assumes "boot_ok S I R A ds hs order" and "t \<in> targets R" and "deoptimized_methods R t = Some e"
    and "MapBootImageMethods_hook S ds hs order original (R, m) = (R', m')"
  shows "GetEntryPoint S m' t = e"
  using map_boot_image_entry(1) [OF assms(1) boot_okD(2) [OF assms(1,2)] assms(4,2)] assms(3) by simp

lemma demo_boot_ok: "boot_ok arm64_statics demo_interp demo_reg {64, 256} [] [(64, 256)] (\<lambda>x. x)"
proof -
  have "hooked_backups demo_reg = [64 \<mapsto> 256]"
    by (rule ext) (simp add: hooked_backups_def demo_reg_fields)
  then show ?thesis
    using demo_linker_ok by (simp add: boot_ok_def enumerates_def demo_reg_fields)
qed

theorem map_boot_image_keeps_witness:
  "\<exists>R' m'. MapBootImageMethods_hook arm64_statics [] [(64, 256)] (\<lambda>x. x) (SetEntryPoint arm64_statics 64 5)
      (demo_reg, demo_mem) = (R', m') \<and> GetEntryPoint arm64_statics m' 64 = 16"
  (is "\<exists>R' m'. ?run = _ \<and> _")
proof -
  obtain R' m' where r: "?run = (R', m')" by (metis prod.exhaust)
  have "\<not> IsDeoptimized demo_reg 64" by (simp add: IsDeoptimized_def demo_reg_fields)
  then show ?thesis
    using map_boot_image_keeps [OF demo_boot_ok r] r by (simp add: demo_reg_sets demo_mem_eval)
qed

text \<open>The method at 64 had entry point 48 when it was deoptimized; then it was hooked, so that its entry
  point is the trampoline 16 of \<open>demo_mem\<close>.\<close>

definition deopt_reg :: registry where
  "deopt_reg = RecordHooked 64 128 256 7 4096 9 (RecordDeoptimized 7 64 48 empty_registry)"

lemma deopt_reg_fields:
  "hooked_methods deopt_reg = hooked_methods demo_reg" "backuped_methods deopt_reg = backuped_methods demo_reg"
  "deoptimized_methods deopt_reg = [64 \<mapsto> 48]"
  by (simp_all add: deopt_reg_def demo_reg_def RecordHooked_def RecordDeoptimized_def empty_registry_def)

lemma deopt_boot_ok: "boot_ok arm64_statics demo_interp deopt_reg {64, 256} [(64, 48)] [(64, 256)] (\<lambda>x. x)"
proof -
  have "reg_inv deopt_reg"
    unfolding deopt_reg_def
    using reg_inv_RecordDeoptimized [of 7 64 48 empty_registry] reg_inv_empty
    by (intro reg_inv_RecordHooked) (simp_all add: empty_registry_def RecordDeoptimized_def)
  then have "linker_ok arm64_statics demo_interp deopt_reg {64, 256}"
    using demo_separate
    by (simp add: linker_ok_def reg_ok_def targets_def backups_def deopt_reg_fields demo_reg_fields
        interp_ok_def demo_interp_def)
  moreover have "hooked_backups deopt_reg = [64 \<mapsto> 256]"
    by (rule ext) (simp add: hooked_backups_def deopt_reg_fields demo_reg_fields)
  ultimately show ?thesis
    by (simp add: boot_ok_def enumerates_def deopt_reg_fields is_ptr_def arm64_statics_def)
qed

theorem map_boot_image_unhooks_deoptimized_witness:
  "\<exists>R' m'. MapBootImageMethods_hook arm64_statics [(64, 48)] [(64, 256)] (\<lambda>x. x) (\<lambda>m. m)
      (deopt_reg, demo_mem) = (R', m') \<and> GetEntryPoint arm64_statics demo_mem 64 = 16 \<and>
      GetEntryPoint arm64_statics m' 64 = 48"
  (is "\<exists>R' m'. ?run = _ \<and> _")
proof -
  obtain R' m' where r: "?run = (R', m')" by (metis prod.exhaust)
  have "64 \<in> targets deopt_reg" "deoptimized_methods deopt_reg 64 = Some 48"
    by (simp_all add: targets_def deopt_reg_fields demo_reg_fields)
  then show ?thesis
    using map_boot_image_unhooks_deoptimized [OF deopt_boot_ok _ _ r] r by (simp add: demo_mem_eval)
qed

section \<open>Compilation of a backup\<close>

text \<open>C19. What the JIT compiles for a backup ends up in the backup: the request is redirected to the
  target, and when the compiler installs the code there through \<open>UpdateMethodsCode\<close>, that hook hands
  it to the backup and leaves the trampoline in the target.\<close>

theorem jit_compiles_backup:
  assumes ok: "linker_ok S I R A" and t: "t \<in> targets R" "\<not> IsDeoptimized R t"
    and upd: "own_change S A (\<lambda>a. upd a code)" and code: "is_ptr S code" "GetEntryPoint S m t \<noteq> code"
    and m': "m' = EnqueueOptimizedCompilation_hook R
      (\<lambda>meth self. UpdateMethodsCode_hook S R upd meth code) (IsHooked R t) self m"
  shows "GetEntryPoint S m' (IsHooked R t) = code \<and> GetEntryPoint S m' t = GetEntryPoint S m t"
proof -
  note k = linker_okD [OF ok]
  have b: "IsHooked R t \<noteq> 0" "IsHooked R t \<in> A" "IsHooked R t \<noteq> t"
    using IsHooked_target [OF k(1) t(1)] k(6) IsHooked_neq_target [OF k(1) t(1) t(1)] by auto
  have inv: "reg_inv R" using k(1) by (simp add: reg_ok_def)
  have "hooked_methods R 0 = None" using inv by (simp add: reg_inv_def)
  then have "t \<noteq> 0" using t(1) by (cases "t = 0") (simp_all add: targets_def dom_def)
  then have "m' = UpdateMethodsCode_hook S R upd t code m"
    using IsBackup_IsHooked [OF inv b(1)] by (simp add: m' EnqueueOptimizedCompilation_hook_def)
  from update_code_spec [OF ok k(5) [OF t(1)] upd code _ this] k(5) [OF t(1)] b t show ?thesis by auto
qed

theorem jit_compiles_backup_witness:
  "\<exists>m'. m' = EnqueueOptimizedCompilation_hook demo_reg
      (\<lambda>meth self. UpdateMethodsCode_hook arm64_statics demo_reg (SetEntryPoint arm64_statics) meth 5) 256 0 demo_mem \<and>
    GetEntryPoint arm64_statics m' 256 = 5 \<and> GetEntryPoint arm64_statics m' 64 = 16"
proof -
  let ?S = arm64_statics
  have upd: "own_change ?S {64, 256} (\<lambda>a. SetEntryPoint ?S a 5)"
    using touches_SetEntryPoint [OF demo_separate] by (simp add: own_change_def)
  have t: "64 \<in> targets demo_reg" "\<not> IsDeoptimized demo_reg 64" "is_ptr ?S 5" "GetEntryPoint ?S demo_mem 64 \<noteq> 5"
    by (simp_all add: demo_reg_sets IsDeoptimized_def demo_reg_fields is_ptr_def arm64_statics_def demo_mem_eval
        del: arm64_statics_def) (simp_all add: arm64_statics_def demo_mem_eval [unfolded arm64_statics_def])
  show ?thesis
    using jit_compiles_backup [OF demo_linker_ok t(1,2), of "SetEntryPoint ?S" 5, OF upd t(3,4) refl]
    by (simp add: demo_reg_sets demo_mem_eval)
qed

section \<open>Moving the data of the JIT\<close>

lemma move_none: "move_one S None (t, b) m = SetData S t 0 m"
  by (simp add: move_one_def SetData_def GetData_def store_load_idem)

text \<open>Without libart's \<open>MoveObsoleteMethod\<close> (Android 7) nothing is moved: every target of a pending
  movement loses its data, and every other method, the backups among them, keeps the data it has.\<close>

theorem move_obsolete_fallback:
  assumes "separate S A" and "fst ` set (jit_movements R) \<subseteq> A" and "c \<in> A"
    and "MoveObsoleteMethods S None (R, m) = (R', m')"
  shows "GetData S m' c = (if c \<in> fst ` set (jit_movements R) then 0 else GetData S m c) \<and> jit_movements R' = []"
proof -
  have z: "is_ptr S 0" by (simp add: is_ptr_def)
  have "GetData S (fold (move_one S None) mv m) c = (if c \<in> fst ` set mv then 0 else GetData S m c)"
    if "fst ` set mv \<subseteq> A" for mv
    using that
  proof (induction mv arbitrary: m)
    case (Cons x mv)
    obtain t b where x: "x = (t, b)" by (metis prod.exhaust)
    have "t \<in> A" using Cons.prems x by auto
    then have "GetData S (move_one S None x m) c = (if c = t then 0 else GetData S m c)"
      using data_SetData [OF assms(1) _ assms(3) z] by (simp add: x move_none)
    then show ?case using Cons.IH [of "move_one S None x m"] Cons.prems by (auto simp: x)
  qed simp
  from this [OF assms(2)] show ?thesis using assms(4) by (auto simp: MoveObsoleteMethods_def GetJitMovements_def)
qed

text \<open>The profile at 5 belongs to the target 64; the backup 256 has none.\<close>

theorem move_obsolete_fallback_witness:
  "\<exists>R' m'. MoveObsoleteMethods arm64_statics None
       (RecordJitMovement 64 256 demo_reg, SetData arm64_statics 64 5 (\<lambda>x. 0)) = (R', m') \<and>
     GetData arm64_statics m' 64 = 0 \<and> GetData arm64_statics m' 256 = 0"
  (is "\<exists>R' m'. ?run = _ \<and> _")
proof -
  let ?S = arm64_statics and ?R = "RecordJitMovement 64 256 demo_reg"
  obtain R' m' where r: "?run = (R', m')" by (metis prod.exhaust)
  have mv: "jit_movements ?R = [(64, 256)]"
    by (simp add: RecordJitMovement_def demo_reg_def RecordHooked_def empty_registry_def)
  have sub: "fst ` set (jit_movements ?R) \<subseteq> {64, 256}" by (simp add: mv)
  have "is_ptr ?S 5" by (simp add: is_ptr_def arm64_statics_def)
  then have "GetData ?S (SetData ?S 64 5 (\<lambda>x. 0)) 256 = GetData ?S (\<lambda>x. 0) 256"
    using data_SetData [OF demo_separate, of 64 256 5 "\<lambda>x. 0"] by simp
  also have "\<dots> = 0" by (simp add: GetData_def load_eval arm64_statics_def)
  finally show ?thesis
    using move_obsolete_fallback [OF demo_separate sub _ r, of 64] move_obsolete_fallback [OF demo_separate sub _ r, of 256] r
    by (simp add: mv)
qed

end
