(* ===== verification/Stack_Visitor.thy ===== *)
theory Stack_Visitor
  imports Class_Linker Object_Collections
begin

text \<open>
  art/runtime/stack.cxx: hidden methods do not appear in stack traces, and the frame of a backup
  appears as a frame of its target.

  \<^item> \<open>HandleVisitFrame\<close> and \<open>HandleGetDexPc\<close>, where libart's stack visitors can be hooked.
  \<^item> \<open>NativeFillInStackTrace\<close>, which rebuilds the internal stack trace of a \<open>Throwable\<close>, where they
    cannot.
  \<^item> The set of hidden methods: \<open>HideMethod\<close>, \<open>HideClass\<close>, \<open>ShowClass\<close>.

  libart's functions are parameters: \<open>get_method\<close> and \<open>set_method\<close> for \<open>StackVisitor::GetMethod\<close> and
  \<open>SetMethod\<close>, \<open>original\<close> for the hooked one. The table \<open>current_method_\<close> is an association list by
  thread.
\<close>

record stack_state =
  sv_hidden :: "addr set"
  sv_current :: "(addr \<times> addr \<times> addr) list"

definition stack_state_init :: stack_state where
  "stack_state_init = \<lparr> sv_hidden = {}, sv_current = [] \<rparr>"

definition kNativeMethodDexPc :: "32 word" where "kNativeMethodDexPc = -2"

text \<open>\<open>GetMethod\<close>: the fallback reads the frames of the visitor, whose fields are a table pointer, the
  thread, the kind of walk, the shadow frame and the quick frame; \<open>method_\<close> follows \<open>link_\<close> in a
  shadow frame.\<close>

definition StackVisitor_GetMethod ::
  "art_statics \<Rightarrow> (addr \<Rightarrow> memory \<Rightarrow> addr) option \<Rightarrow> memory \<Rightarrow> addr \<Rightarrow> addr" where
  "StackVisitor_GetMethod S lib m this =
     (case lib of
        Some f \<Rightarrow> f this m
      | None \<Rightarrow>
          (let cur_shadow_frame = load m (this + 3 * psize S) (psize S);
               cur_quick_frame = load m (this + 4 * psize S) (psize S)
           in if cur_shadow_frame \<noteq> 0 then load m (cur_shadow_frame + psize S) (psize S)
              else if cur_quick_frame \<noteq> 0 then load m cur_quick_frame (psize S)
              else 0))"

definition StackVisitor_SetMethod ::
  "(addr \<Rightarrow> addr \<Rightarrow> memory \<Rightarrow> memory) option \<Rightarrow> addr \<Rightarrow> addr \<Rightarrow> memory \<Rightarrow> memory" where
  "StackVisitor_SetMethod lib this meth m = (case lib of Some f \<Rightarrow> f this meth m | None \<Rightarrow> m)"

definition HandleVisitFrame ::
  "registry \<Rightarrow> addr \<Rightarrow> (memory \<Rightarrow> addr \<Rightarrow> addr) \<Rightarrow> bool
     \<Rightarrow> (addr \<Rightarrow> stack_state \<times> memory \<Rightarrow> bool \<times> stack_state \<times> memory) \<Rightarrow> addr
     \<Rightarrow> stack_state \<times> memory \<Rightarrow> bool \<times> stack_state \<times> memory" where
  "HandleVisitFrame R self get_method can_set original visitor = (\<lambda>(V, m).
     (if sv_hidden V = {} then original visitor (V, m)
      else
        (let meth = get_method m visitor;
             target = IsBackup R meth
         in if meth = 0 then original visitor (V, m)
            else if meth \<in> sv_hidden V then (True, V, m)
            else if \<not> can_set then original visitor (V, m)
            else if target \<noteq> 0 then
              (let V = V\<lparr> sv_current := AList.update self (target, meth) (sv_current V) \<rparr>;
                   (result, V, m) = original visitor (V, m)
               in (result, V\<lparr> sv_current := AList.delete self (sv_current V) \<rparr>, m))
            else original visitor (V, m))))"

definition HandleGetDexPc ::
  "art_statics \<Rightarrow> addr \<Rightarrow> (memory \<Rightarrow> addr \<Rightarrow> addr) \<Rightarrow> (addr \<Rightarrow> addr \<Rightarrow> memory \<Rightarrow> memory)
     \<Rightarrow> (addr \<Rightarrow> bool \<Rightarrow> memory \<Rightarrow> 32 word \<times> memory) \<Rightarrow> addr \<Rightarrow> bool
     \<Rightarrow> stack_state \<times> memory \<Rightarrow> 32 word \<times> stack_state \<times> memory" where
  "HandleGetDexPc S self get_method set_method original this abort_on_failure = (\<lambda>(V, m).
     (let plain = (let (pc, m) = original this abort_on_failure m in (pc, V, m))
      in if sv_current V = [] then plain
         else (case map_of (sv_current V) self of
             None \<Rightarrow> plain
           | Some (target, backup_method) \<Rightarrow>
               if backup_method \<noteq> get_method m this then plain
               else if IsNative S m backup_method then (kNativeMethodDexPc, V, m)
               else (let (pc, m) = original this False m in (pc, V, set_method this target m)))))"

section \<open>Rebuilding a stack trace\<close>

text \<open>\<open>backtrace\<close> is the array \<open>nativeFillInStackTrace\<close> returns (\<open>None\<close> for null): the handle of an
  array of pointers, then the declaring class of every frame. \<open>pointers\<close> reads an array of pointers:
  the methods of the frames, then their dex pcs. \<open>new_pointers\<close> allocates one. The outer option is
  the unreachable end of \<open>add\<close>.\<close>

definition from_intptr :: "art_statics \<Rightarrow> int \<Rightarrow> addr" where
  "from_intptr S x = nat (x mod 2 ^ (8 * psize S))"

definition to_intptr :: "art_statics \<Rightarrow> nat \<Rightarrow> int" where
  "to_intptr S x = (if x < 2 ^ (8 * psize S - 1) then int x else int x - 2 ^ (8 * psize S))"

definition trace_step ::
  "art_statics \<Rightarrow> registry \<Rightarrow> addr set \<Rightarrow> memory \<Rightarrow> addr \<times> int \<times> addr
     \<Rightarrow> (addr jlist \<times> (addr \<times> int) list) option \<Rightarrow> (addr jlist \<times> (addr \<times> int) list) option" where
  "trace_step S R hidden m = (\<lambda>(meth, dex_pc, cls) st.
     (case st of None \<Rightarrow> None
      | Some (new_backtrace, new_methods) \<Rightarrow>
          if meth \<in> hidden then st
          else
            (let target = IsBackup R meth;
                 dex_pc = (if target \<noteq> 0 \<and> IsNative S m meth then to_intptr S (unat kNativeMethodDexPc) else dex_pc);
                 meth = (if target \<noteq> 0 then target else meth)
             in (case jl_add (as_object cls) new_backtrace of
                   None \<Rightarrow> None
                 | Some (_, new_backtrace) \<Rightarrow> Some (new_backtrace, new_methods @ [(meth, dex_pc)])))))"

definition trace_frames :: "art_statics \<Rightarrow> int list \<Rightarrow> addr list \<Rightarrow> (addr \<times> int \<times> addr) list" where
  "trace_frames S ptrs backtrace =
     (let frame_count = length backtrace - 1
      in map (\<lambda>i. (from_intptr S (ptrs ! i), ptrs ! (frame_count + i), backtrace ! (i + 1))) [0..<frame_count])"

definition NativeFillInStackTrace_hook ::
  "art_statics \<Rightarrow> registry \<Rightarrow> addr set \<Rightarrow> memory \<Rightarrow> (addr \<Rightarrow> int list) \<Rightarrow> (int list \<Rightarrow> addr) \<Rightarrow> addr list option
     \<Rightarrow> addr option list option option" where
  "NativeFillInStackTrace_hook S R hidden m pointers new_pointers backtrace =
     (case backtrace of
        None \<Rightarrow> Some None
      | Some bt \<Rightarrow>
          if length bt \<le> 1 then Some (Some (map as_object bt))
          else if length (pointers (bt ! 0)) div 2 \<noteq> length bt - 1 then Some (Some (map as_object bt))
          else
            (case jl_add (as_object (bt ! 0)) (jl_reserve (length bt) jl_empty) of
               None \<Rightarrow> None
             | Some (_, new_backtrace) \<Rightarrow>
                 (case fold (trace_step S R hidden m) (trace_frames S (pointers (bt ! 0)) bt)
                     (Some (new_backtrace, [])) of
                    None \<Rightarrow> None
                  | Some (new_backtrace, new_methods) \<Rightarrow>
                      (let arr = new_pointers (map (to_intptr S \<circ> fst) new_methods @ map snd new_methods);
                           new_backtrace = jl_update 0 (as_object arr) new_backtrace
                       in Some (jl_array (jl_finalize new_backtrace))))))"

section \<open>Hidden methods\<close>

definition HideMethod :: "art_statics \<Rightarrow> memory \<Rightarrow> addr \<Rightarrow> stack_state \<Rightarrow> bool \<times> stack_state" where
  "HideMethod S m meth V =
     (if IsAbstract S m meth then (False, V)
      else (meth \<notin> sv_hidden V, V\<lparr> sv_hidden := insert meth (sv_hidden V) \<rparr>))"

definition hide_visitor :: "art_statics \<Rightarrow> memory \<Rightarrow> (nat \<times> stack_state) visitor" where
  "hide_visitor S m meth = (\<lambda>(hidden, V).
     (False,
      if IsAbstract S m meth then (hidden, V)
      else (if meth \<notin> sv_hidden V then hidden + 1 else hidden,
            V\<lparr> sv_hidden := insert meth (sv_hidden V) \<rparr>)))"

definition show_visitor :: "art_statics \<Rightarrow> memory \<Rightarrow> (nat \<times> stack_state) visitor" where
  "show_visitor S m meth = (\<lambda>(restored, V).
     (False,
      if IsAbstract S m meth then (restored, V)
      else (if meth \<in> sv_hidden V then restored + 1 else restored,
            V\<lparr> sv_hidden := sv_hidden V - {meth} \<rparr>)))"

text \<open>\<open>VisitMethods\<close> with what it needs: the class structure and the methods reflection would give.\<close>

definition HideClass ::
  "art_statics \<Rightarrow> class_state \<Rightarrow> nat \<Rightarrow> memory \<Rightarrow> addr \<Rightarrow> addr list \<Rightarrow> addr list \<Rightarrow> stack_state \<Rightarrow> nat \<times> stack_state" where
  "HideClass S C base_offset m mirror ctors meths V =
     VisitMethods S C base_offset m mirror ctors meths (hide_visitor S m) (0, V)"

definition ShowClass ::
  "art_statics \<Rightarrow> class_state \<Rightarrow> nat \<Rightarrow> memory \<Rightarrow> addr \<Rightarrow> addr list \<Rightarrow> addr list \<Rightarrow> stack_state \<Rightarrow> nat \<times> stack_state" where
  "ShowClass S C base_offset m mirror ctors meths V =
     VisitMethods S C base_offset m mirror ctors meths (show_visitor S m) (0, V)"

section \<open>Init\<close>

definition visit_frame_symbol :: "string \<Rightarrow> string" where
  "visit_frame_symbol v =
     the (map_of [(''FetchStackTrace'', ''_ZN3art22FetchStackTraceVisitor10VisitFrameEv''),
       (''BuildInternalStackTrace'', ''_ZN3art30BuildInternalStackTraceVisitor10VisitFrameEv''),
       (''BuildInternalStackTraceTransactionActive'',
          ''_ZN3art30BuildInternalStackTraceVisitorILb1EE10VisitFrameEv''),
       (''BuildInternalStackTraceTransactionInactive'',
          ''_ZN3art30BuildInternalStackTraceVisitorILb0EE10VisitFrameEv''),
       (''MonitorObjects'', ''_ZN3art26MonitorObjectsStackVisitor10VisitFrameEv''),
       (''StackDump'', ''_ZN3art16StackDumpVisitor10VisitFrameEv''),
       (''NthCaller'', ''_ZN3art16NthCallerVisitor10VisitFrameEv''),
       (''ClosestUserClassLoader'',
          ''_ZZN3artL33VMStack_getClosestUserClassLoaderEP7_JNIEnvP7_jclassEN29ClosestUserClassLoaderVisitor10VisitFrameEv'')] v)"

definition visit_frame :: "(string \<Rightarrow> addr) \<Rightarrow> string \<Rightarrow> harg \<times> bool" where
  "visit_frame repl v = hk repl (''VisitFrame'' @ v @ ''_'') (visit_frame_symbol v)"

definition hook_stack_trace ::
  "init_info \<Rightarrow> (string \<Rightarrow> addr) \<Rightarrow> int \<Rightarrow> hook_state \<Rightarrow> bool \<times> hook_state" where
  "hook_stack_trace info repl sdk_int H =
     (let (ok, H) = (if sdk_int \<ge> API_O then handler_any info [visit_frame repl ''FetchStackTrace''] H
                     else (False, H))
      in if ok then (True, H)
         else if sdk_int \<ge> API_S then handler_any info [visit_frame repl ''BuildInternalStackTrace''] H
         else
           (let (active, H) = handler_any info [visit_frame repl ''BuildInternalStackTraceTransactionActive''] H;
                (inactive, H) = handler_any info [visit_frame repl ''BuildInternalStackTraceTransactionInactive''] H
            in if active \<or> inactive then (True, H)
               else handler_any info [visit_frame repl ''BuildInternalStackTrace''] H))"

text \<open>The symbols of the accessors; \<open>SetMethod\<close> is forgotten when \<open>GetDexPc\<close> cannot be hooked.\<close>

definition stack_accessors ::
  "init_info \<Rightarrow> (string \<Rightarrow> addr) \<Rightarrow> int \<Rightarrow> hook_state \<Rightarrow> hook_state" where
  "stack_accessors info repl sdk_int H =
     (if sdk_int \<ge> API_N then
        (let (_, H) = handler_any info (one (HFun ''GetMethod_'' ''_ZNK3art12StackVisitor9GetMethodEv'')) H;
             (set_ok, H) = (if sdk_int \<ge> API_O then handler_any info (one (HFun ''SetMethod_''
               ''_ZN3art12StackVisitor9SetMethodEPNS_9ArtMethodE'')) H else (False, H))
         in if set_ok then
              (let (pc_ok, H) = handler_any info [hk repl ''GetDexPc_'' ''_ZNK3art12StackVisitor8GetDexPcEb''] H
               in if pc_ok then H else H\<lparr> hs_raw := (hs_raw H)(''SetMethod_'' := 0) \<rparr>)
            else H)
      else H)"

definition StackVisitor_Init ::
  "init_info \<Rightarrow> (string \<Rightarrow> addr) \<Rightarrow> art_statics \<Rightarrow> art_lookup \<Rightarrow> jni_env \<Rightarrow> runtime_statics \<Rightarrow> int
     \<Rightarrow> hook_state \<times> native_hooker \<times> memory \<Rightarrow> bool \<times> hook_state \<times> native_hooker \<times> memory" where
  "StackVisitor_Init info repl S L E RT sdk_int = (\<lambda>(H, fill, m).
     (let H = stack_accessors info repl sdk_int H;
          (ok, H) = hook_stack_trace info repl sdk_int H
      in if \<not> ok then
           (if sdk_int \<ge> API_M then
              (let throwable_class = jni_FindClass E ''java/lang/Throwable'';
                   meth = FindStaticMethod S L E RT m throwable_class ''nativeFillInStackTrace'' ''()Ljava/lang/Object;''
               in if meth = 0 then (True, H, fill, m)
                  else (let (_, fill, m) = NativeHook S meth fill m in (True, H, fill, m)))
            else (True, H, fill, m))
         else
           (let (_, H) = (if sdk_int \<ge> API_P then handler_any info [visit_frame repl ''MonitorObjects''] H
                          else handler_any info [visit_frame repl ''StackDump''] H);
                (_, H) = handler_any info [visit_frame repl ''NthCaller''] H;
                (_, H) = handler_any info [(fst (visit_frame repl ''ClosestUserClassLoader''), True)] H
            in (True, H, fill, m))))"

section \<open>Frames that are visited\<close>

text \<open>A visitor that asks for the dex pc and then for the method.\<close>

definition ask_pc_then_method ::
  "art_statics \<Rightarrow> addr \<Rightarrow> (memory \<Rightarrow> addr \<Rightarrow> addr) \<Rightarrow> (addr \<Rightarrow> addr \<Rightarrow> memory \<Rightarrow> memory)
     \<Rightarrow> (addr \<Rightarrow> bool \<Rightarrow> memory \<Rightarrow> 32 word \<times> memory) \<Rightarrow> (32 word \<Rightarrow> addr \<Rightarrow> bool)
     \<Rightarrow> addr \<Rightarrow> stack_state \<times> memory \<Rightarrow> bool \<times> stack_state \<times> memory" where
  "ask_pc_then_method S self get_method set_method dex_pc use visitor = (\<lambda>s.
     (let (pc, V, m) = HandleGetDexPc S self get_method set_method dex_pc visitor True s
      in (use pc (get_method m visitor), V, m)))"

text \<open>The frame of a backup is shown as its target: a visitor that asks for the dex pc of the frame
  and then for its method gets the dex pc in the backup and the method that was hooked (for a native
  backup the dex pc of a native method). The note about the thread's current frame is gone
  afterwards, whatever the visitor does. \<open>dex_pc\<close> stands for libart's \<open>GetDexPc\<close>.\<close>

theorem backup_frame_shown_as_target:
  assumes hid: "sv_hidden V \<noteq> {}" and meth: "get_method m v = b" "b \<noteq> 0" "b \<notin> sv_hidden V"
    and target: "IsBackup R b = t" "t \<noteq> 0"
    and pc: "dex_pc v False m = (p, m1)" and set: "get_method (set_method v t m1) v = t"
    and run: "HandleVisitFrame R self get_method True
      (ask_pc_then_method S self get_method set_method dex_pc use) v (V, m) = (r, V', m')"
  shows "r = (if IsNative S m b then use kNativeMethodDexPc b else use p t) \<and>
    map_of (sv_current V') self = None \<and> sv_hidden V' = sv_hidden V"
proof -
  let ?V = "V\<lparr> sv_current := AList.update self (t, b) (sv_current V) \<rparr>"
  have cur: "sv_current ?V \<noteq> []" "map_of (sv_current ?V) self = Some (t, b)"
    by (auto simp: update_conv' update_nonempty)
  have h: "HandleGetDexPc S self get_method set_method dex_pc v True (?V, m) =
      (if IsNative S m b then (kNativeMethodDexPc, ?V, m) else (p, ?V, set_method v t m1))"
    unfolding HandleGetDexPc_def prod.case Let_def cur(2) using cur(1) meth(1) pc by simp
  have "ask_pc_then_method S self get_method set_method dex_pc use v (?V, m) =
      (if IsNative S m b then (use kNativeMethodDexPc b, ?V, m) else (use p t, ?V, set_method v t m1))"
    unfolding ask_pc_then_method_def h by (simp add: meth(1) set)
  then have "r = (if IsNative S m b then use kNativeMethodDexPc b else use p t) \<and>
      V' = ?V\<lparr> sv_current := AList.delete self (sv_current ?V) \<rparr>"
    using run hid meth target by (auto simp: HandleVisitFrame_def Let_def split: if_splits)
  then show ?thesis by (auto simp: delete_conv')
qed

theorem backup_frame_shown_as_target_witness:
  "\<exists>r V' m'. HandleVisitFrame demo_reg 3 (\<lambda>m v. load m v 8) True
      (ask_pc_then_method arm64_statics 3 (\<lambda>m v. load m v 8) (\<lambda>v t. store v 8 t) (\<lambda>v a m. (9, m))
        (\<lambda>pc meth. pc = 9 \<and> meth = 64)) 1000 (stack_state_init\<lparr> sv_hidden := {32} \<rparr>, store 1000 8 256 (\<lambda>x. 0)) = (r, V', m') \<and>
    r \<and> map_of (sv_current V') 3 = None"
  (is "\<exists>r V' m'. ?run = _ \<and> _")
proof -
  let ?m = "store 1000 8 256 (\<lambda>x. 0) :: memory"
  obtain r V' m' where run: "?run = (r, V', m')" by (metis prod_cases3)
  have g: "load ?m 1000 8 = 256" "load (store 1000 8 64 ?m) 1000 8 = 64" by (simp_all add: load_store_same)
  have flags: "load ?m (256 + 4) 4 = load (\<lambda>x. 0) (256 + 4) 4"
    by (rule load_store_disj) (simp add: disj_ranges_def)
  have nat: "\<not> IsNative arm64_statics ?m 256"
    unfolding IsNative_def has_flag_def GetAccessFlags_def
    by (simp add: arm64_statics_def flags [simplified]) (simp add: load_eval)
  have t: "IsBackup demo_reg 256 = 64" by (simp add: IsBackup_def demo_reg_fields)
  have "r \<and> map_of (sv_current V') 3 = None"
    using backup_frame_shown_as_target [OF _ g(1) _ _ t _ refl g(2) run] nat by simp
  then show ?thesis using run by blast
qed

section \<open>Lists that are filled from the front\<close>

definition jl_packed :: "'o list \<Rightarrow> nat \<Rightarrow> 'o jlist \<Rightarrow> bool" where
  "jl_packed xs n l \<longleftrightarrow> length xs \<le> n \<and> jl_array l = Some (map Some xs @ replicate (n - length xs) None) \<and>
     jl_length l = n \<and> jl_available l = n - length xs \<and> (length xs < n \<longrightarrow> jl_cursor l = length xs)"

lemma jl_packed_reserve: "0 < n \<Longrightarrow> jl_packed [] n (jl_reserve n jl_empty)"
  by (simp add: jl_packed_def jl_reserve_def jl_grow_to_def jl_empty_def new_object_array_def)

lemma jl_add_packed:
  assumes p: "jl_packed xs n l" and n: "length xs < n"
  shows "\<exists>l'. jl_add (Some y) l = Some (int (length xs), l') \<and> jl_packed (xs @ [y]) n l'"
proof -
  let ?k = "length xs"
  have el: "jl_elems l = map Some xs @ replicate (n - ?k) None" and f: "jl_length l = n" "jl_cursor l = ?k"
    "jl_available l = n - ?k"
    using p n by (simp_all add: jl_packed_def jl_elems_def)
  have "[0..<n] = 0 # [1..<n]" using n by (simp add: upt_conv_Cons)
  then have pr: "probe (jl_elems l) ?k n = Some ?k"
    using n by (simp add: probe_def el nth_append)
  have "replicate (n - ?k) None = None # replicate (n - Suc ?k) (None :: 'a option)"
    using n by (metis Suc_diff_Suc replicate_Suc)
  then have up: "(jl_elems l)[?k := Some y] = map Some (xs @ [y]) @ replicate (n - Suc ?k) None"
    by (simp add: el list_update_append)
  let ?l = "l\<lparr> jl_array := Some ((jl_elems l)[?k := Some y]), jl_available := n - ?k - 1, jl_cursor := (?k + 1) mod n \<rparr>"
  have "jl_add (Some y) l = Some (int ?k, ?l)"
    using n by (simp add: jl_add_def f pr)
  moreover have "jl_packed (xs @ [y]) n ?l"
    using n f by (auto simp: jl_packed_def up)
  ultimately show ?thesis by blast
qed

lemma last_used_packed: "last_used (map Some xs @ replicate k None) (length xs + j) = length xs" if "j \<le> k"
  using that
proof (induction j)
  case 0
  show ?case by (cases xs rule: rev_cases) (simp_all add: nth_append)
next
  case (Suc j)
  then show ?case by (simp add: nth_append)
qed

lemma jl_finalize_packed:
  assumes "jl_packed xs n l"
  shows "jl_array (jl_finalize l) = Some (map Some xs)"
proof (cases "length xs = n")
  case True
  then show ?thesis using assms by (simp add: jl_packed_def jl_finalize_def)
next
  case False
  then have n: "length xs < n" using assms by (simp add: jl_packed_def)
  have el: "jl_elems l = map Some xs @ replicate (n - length xs) None" and f: "jl_length l = n" "jl_available l \<noteq> 0"
    "jl_array l \<noteq> None"
    using assms n by (simp_all add: jl_packed_def jl_elems_def)
  have "last_used (jl_elems l) n = length xs"
    using last_used_packed [of "n - length xs" "n - length xs" xs] n by (simp add: el)
  then show ?thesis
    using n f by (simp add: jl_finalize_def Let_def arraycopy_def new_object_array_def el)
qed

section \<open>The rebuilt stack trace\<close>

text \<open>What a frame becomes, and which frames remain.\<close>

definition shown :: "art_statics \<Rightarrow> registry \<Rightarrow> memory \<Rightarrow> addr \<times> int \<times> addr \<Rightarrow> addr \<times> int" where
  "shown S R m = (\<lambda>(meth, pc, cls).
     if IsBackup R meth \<noteq> 0
     then (IsBackup R meth, if IsNative S m meth then to_intptr S (unat kNativeMethodDexPc) else pc)
     else (meth, pc))"

definition visible :: "addr set \<Rightarrow> (addr \<times> int \<times> addr) list \<Rightarrow> (addr \<times> int \<times> addr) list" where
  "visible hidden frames = filter (\<lambda>(meth, _, _). meth \<notin> hidden) frames"

lemma trace_steps:
  assumes "jl_packed xs n l" and "length xs + length (visible hidden frames) \<le> n"
    and "\<forall>(meth, pc, cls) \<in> set frames. cls \<noteq> 0"
  shows "\<exists>l'. fold (trace_step S R hidden m) frames (Some (l, ms)) =
      Some (l', ms @ map (shown S R m) (visible hidden frames)) \<and>
    jl_packed (xs @ map (snd \<circ> snd) (visible hidden frames)) n l'"
  using assms
proof (induction frames arbitrary: xs l ms)
  case (Cons f frames)
  obtain meth pc cls where f: "f = (meth, pc, cls)" by (metis prod_cases3)
  have cls: "as_object cls = Some cls" using Cons.prems(3) by (simp add: f as_object_def)
  show ?case
  proof (cases "meth \<in> hidden")
    case True
    then have "trace_step S R hidden m f (Some (l, ms)) = Some (l, ms)" "visible hidden (f # frames) = visible hidden frames"
      by (simp_all add: f trace_step_def visible_def)
    then show ?thesis using Cons.IH [OF Cons.prems(1), of ms] Cons.prems(2,3) by simp
  next
    case False
    then have v: "visible hidden ((meth, pc, cls) # frames) = (meth, pc, cls) # visible hidden frames"
      by (simp add: visible_def)
    then obtain l1 where l1: "jl_add (Some cls) l = Some (int (length xs), l1)" "jl_packed (xs @ [cls]) n l1"
      using jl_add_packed [OF Cons.prems(1), of cls] Cons.prems(2) v f by auto
    then have "trace_step S R hidden m f (Some (l, ms)) = Some (l1, ms @ [shown S R m f])"
      using False by (simp add: f trace_step_def Let_def cls shown_def)
    then show ?thesis
      using Cons.IH [OF l1(2), of "ms @ [shown S R m f]"] Cons.prems(2,3) by (auto simp: v f)
  qed
qed (simp add: visible_def)

text \<open>C14. The rebuilt internal stack trace: the array of pointers holds the methods and the dex pcs of the
  frames whose method is not hidden, with a backup replaced by its target, and it is followed by
  the declaring classes of just these frames; the array has no unused slots.\<close>

theorem fill_in_stack_trace:
  assumes bt: "1 < length bt" "\<forall>x \<in> set bt. x \<noteq> 0" and len: "length (pointers (bt ! 0)) div 2 = length bt - 1"
    and new: "\<And>xs. new_pointers xs \<noteq> 0"
    and frames: "frames = visible hidden (trace_frames S (pointers (bt ! 0)) bt)"
    and vis: "vis = map (shown S R m) frames"
  shows "NativeFillInStackTrace_hook S R hidden m pointers new_pointers (Some bt) =
    Some (Some (Some (new_pointers (map (to_intptr S \<circ> fst) vis @ map snd vis)) #
      map (\<lambda>f. Some (snd (snd f))) frames))"
proof -
  let ?n = "length bt" and ?all = "trace_frames S (pointers (bt ! 0)) bt"
  let ?arr = "new_pointers (map (to_intptr S \<circ> fst) vis @ map snd vis)"
  have "bt ! 0 \<in> set bt" using bt(1) by (intro nth_mem) linarith
  then have hd: "as_object (bt ! 0) = Some (bt ! 0)" using bt(2) by (simp add: as_object_def)
  obtain l0 where l0: "jl_add (as_object (bt ! 0)) (jl_reserve ?n jl_empty) = Some (0, l0)" "jl_packed [bt ! 0] ?n l0"
    using jl_add_packed [OF jl_packed_reserve [of ?n], of "bt ! 0"] bt(1) hd by (cases bt) auto
  have cls: "\<forall>(meth, pc, cls) \<in> set ?all. cls \<noteq> 0"
    using bt by (auto simp: trace_frames_def Let_def)
  have "length (visible hidden ?all) \<le> length ?all" by (simp add: visible_def)
  then have "length [bt ! 0] + length (visible hidden ?all) \<le> ?n"
    using bt(1) by (simp add: trace_frames_def Let_def)
  from trace_steps [OF l0(2) this cls, of S R m "[]"] obtain l1 where
    l1: "fold (trace_step S R hidden m) ?all (Some (l0, [])) = Some (l1, vis)"
      "jl_packed ((bt ! 0) # map (snd \<circ> snd) frames) ?n l1"
    by (auto simp: vis frames)
  have arr: "?arr \<noteq> 0" by (rule new)
  have "jl_packed (?arr # map (snd \<circ> snd) frames) ?n (jl_update 0 (as_object ?arr) l1)"
    using l1(2) arr bt(1) by (auto simp: jl_packed_def jl_update_def jl_elems_def as_object_def)
  from jl_finalize_packed [OF this] show ?thesis
    using bt(1) len l0(1) l1(1) by (simp add: NativeFillInStackTrace_hook_def Let_def)
qed

text \<open>Three frames: a hidden method at 32, the backup at 256, and the method at 48.\<close>

theorem fill_in_stack_trace_witness:
  "NativeFillInStackTrace_hook arm64_statics demo_reg {32} (\<lambda>x. 0)
     (\<lambda>h. [32, 256, 48, 5, 6, 7]) (\<lambda>xs. if xs = [64, 48, 6, 7] then 99 else 98) (Some [90, 10, 11, 12]) =
   Some (Some [Some 99, Some 11, Some 12])"
proof -
  let ?S = arm64_statics
  have p: "psize ?S = 8" by (simp add: arm64_statics_def)
  have u: "[0..<3] = [0, 1, 2 :: nat]" by code_simp
  have fr: "trace_frames ?S [32, 256, 48, 5, 6, 7] [90, 10, 11, 12] = [(32, 5, 10), (256, 6, 11), (48, 7, 12)]"
    by (simp add: trace_frames_def u from_intptr_def p)
  have vis: "visible {32} [(32, 5, 10), (256, 6, 11), (48, 7, 12)] = [(256, 6, 11), (48, 7, 12)]"
    by (simp add: visible_def)
  have nat: "\<not> IsNative ?S (\<lambda>x. 0) 256"
    by (simp add: IsNative_def has_flag_def GetAccessFlags_def load_eval arm64_statics_def)
  have sh: "map (shown ?S demo_reg (\<lambda>x. 0)) [(256, 6, 11), (48, 7, 12)] = [(64, 6), (48, 7)]"
    using nat by (simp add: shown_def IsBackup_def demo_reg_fields)
  show ?thesis
    using fill_in_stack_trace [where bt = "[90, 10, 11, 12]" and pointers = "\<lambda>h. [32, 256, 48, 5, 6, 7]"
        and new_pointers = "\<lambda>xs. if xs = [64, 48, 6, 7] then 99 else 98" and hidden = "{32}" and S = ?S
        and R = demo_reg and m = "\<lambda>x. 0", OF _ _ _ _ refl refl]
    by (simp add: fr vis sh [simplified] to_intptr_def p)
qed

section \<open>Hiding and showing a class\<close>

definition concrete :: "art_statics \<Rightarrow> memory \<Rightarrow> addr list \<Rightarrow> addr set" where
  "concrete S m as = {a \<in> set as. \<not> IsAbstract S m a}"

lemma concrete_simps: "concrete S m [] = {}"
  "concrete S m (a # as) = (if IsAbstract S m a then concrete S m as else insert a (concrete S m as))"
  by (auto simp: concrete_def)

lemma finite_concrete [simp]: "finite (concrete S m as)"
  by (simp add: concrete_def)

lemma hide_all:
  "fold (\<lambda>a s. snd (hide_visitor S m a s)) as (n, V) =
     (n + card (concrete S m as - sv_hidden V), V\<lparr> sv_hidden := sv_hidden V \<union> concrete S m as \<rparr>)"
proof (induction as arbitrary: n V)
  case (Cons a as)
  show ?case
  proof (cases "IsAbstract S m a")
    case False
    let ?h = "sv_hidden V" and ?c = "concrete S m as"
    have "insert a ?c - ?h = (if a \<in> ?h then ?c - insert a ?h else insert a (?c - insert a ?h))" by auto
    then have "card (insert a ?c - ?h) = (if a \<in> ?h then 0 else 1) + card (?c - insert a ?h)" by simp
    moreover have "insert a (?h \<union> ?c) = ?h \<union> insert a ?c" by blast
    ultimately show ?thesis using Cons.IH False by (simp add: hide_visitor_def concrete_simps)
  qed (use Cons.IH in \<open>simp add: hide_visitor_def concrete_simps\<close>)
qed (simp add: concrete_simps)

lemma show_all:
  "fold (\<lambda>a s. snd (show_visitor S m a s)) as (n, V) =
     (n + card (concrete S m as \<inter> sv_hidden V), V\<lparr> sv_hidden := sv_hidden V - concrete S m as \<rparr>)"
proof (induction as arbitrary: n V)
  case (Cons a as)
  show ?case
  proof (cases "IsAbstract S m a")
    case False
    let ?h = "sv_hidden V" and ?c = "concrete S m as"
    have "insert a ?c \<inter> ?h = (if a \<in> ?h then insert a (?c \<inter> (?h - {a})) else ?c \<inter> (?h - {a}))" by auto
    then have "card (insert a ?c \<inter> ?h) = (if a \<in> ?h then 1 else 0) + card (?c \<inter> (?h - {a}))" by simp
    moreover have "?h - {a} - ?c = ?h - insert a ?c" by blast
    ultimately show ?thesis using Cons.IH False by (simp add: show_visitor_def concrete_simps)
  qed (use Cons.IH in \<open>simp add: show_visitor_def concrete_simps\<close>)
qed (simp add: concrete_simps)

lemma visitors_never_stop: "never_stops (hide_visitor S m)" "never_stops (show_visitor S m)"
  by (simp_all add: never_stops_def hide_visitor_def show_visitor_def case_prod_beta)

text \<open>Hiding a class hides exactly its methods that are not abstract and counts those that were not
  hidden already; showing it makes exactly these visible again. When none of them was hidden before,
  the two are inverse and give the same count.\<close>

theorem hide_show_class:
  assumes cls: "am_api S \<ge> API_N" "cs_methods_offset C \<noteq> 0" "mirror \<noteq> 0"
    and hide: "HideClass S C base m mirror ctors meths V = (n, V1)"
    and shw: "ShowClass S C base m mirror ctors meths V1 = (k, V2)"
    and ms: "ms = concrete S m (GetDeclaredMethods S C m mirror)"
  shows "sv_hidden V1 = sv_hidden V \<union> ms \<and> n = card (ms - sv_hidden V) \<and>
    sv_hidden V2 = sv_hidden V - ms \<and> k = card ms \<and> (ms \<inter> sv_hidden V = {} \<longrightarrow> V2 = V \<and> n = k)"
proof -
  have V1: "(n, V1) = (card (ms - sv_hidden V), V\<lparr> sv_hidden := sv_hidden V \<union> ms \<rparr>)"
    using hide unfolding HideClass_def VisitMethods_all [OF visitors_never_stop(1) cls] hide_all ms by simp
  have "(k, V2) = (card (ms \<inter> sv_hidden V1), V1\<lparr> sv_hidden := sv_hidden V1 - ms \<rparr>)"
    using shw unfolding ShowClass_def VisitMethods_all [OF visitors_never_stop(2) cls] show_all ms by simp
  moreover have "ms \<inter> (sv_hidden V \<union> ms) = ms" "(sv_hidden V \<union> ms) - ms = sv_hidden V - ms" by blast+
  ultimately have V2: "k = card ms" "V2 = V\<lparr> sv_hidden := sv_hidden V - ms \<rparr>" using V1 by auto
  have "V2 = V \<and> n = k" if "ms \<inter> sv_hidden V = {}"
  proof -
    have "sv_hidden V - ms = sv_hidden V" "ms - sv_hidden V = ms" using that by blast+
    then show ?thesis using V1 V2 by simp
  qed
  then show ?thesis using V1 V2 by auto
qed

text \<open>A class with two methods of 32 bytes behind their count at address 2000; the second is abstract.\<close>

definition hide_mem :: memory where
  "hide_mem = (\<lambda>x. if x = 1000 then 208 else if x = 1001 then 7 else if x = 2000 then 2 else if x = 2045 then 4 else 0)"

theorem hide_show_class_witness:
  "\<exists>n V1 k V2. HideClass arm64_statics (class_state_init\<lparr> cs_methods_offset := 8 \<rparr>) 0 hide_mem 992 [] [] stack_state_init
      = (n, V1) \<and>
    ShowClass arm64_statics (class_state_init\<lparr> cs_methods_offset := 8 \<rparr>) 0 hide_mem 992 [] [] V1 = (k, V2) \<and>
    n = 1 \<and> k = 1 \<and> sv_hidden V1 = {2008} \<and> V2 = stack_state_init"
proof -
  let ?S = arm64_statics and ?C = "class_state_init\<lparr> cs_methods_offset := 8 \<rparr>"
  obtain n V1 where h: "HideClass ?S ?C 0 hide_mem 992 [] [] stack_state_init = (n, V1)" by (metis prod.exhaust)
  obtain k V2 where w: "ShowClass ?S ?C 0 hide_mem 992 [] [] V1 = (k, V2)" by (metis prod.exhaust)
  have u: "[0..<2] = [0, 1 :: nat]" by code_simp
  have l: "load hide_mem 1000 8 = 2000" "load hide_mem 2000 8 = 2"
    by (simp_all add: load_eval hide_mem_def)
  have ds: "GetDeclaredMethods ?S ?C hide_mem 992 = [2008, 2040]"
    by (simp add: GetDeclaredMethods_def l u arm64_statics_def)
  have "\<not> IsAbstract ?S hide_mem 2008" "IsAbstract ?S hide_mem 2040"
    by (simp_all add: IsAbstract_def has_flag_def GetAccessFlags_def load_eval hide_mem_def arm64_statics_def kAcc_defs)
  then have ms: "concrete ?S hide_mem (GetDeclaredMethods ?S ?C hide_mem 992) = {2008}"
    by (simp add: ds concrete_simps)
  have "sv_hidden V1 = {2008} \<and> n = 1 \<and> k = 1 \<and> V2 = stack_state_init"
    using hide_show_class [OF _ _ _ h w refl] unfolding ms by (simp add: arm64_statics_def stack_state_init_def)
  then show ?thesis using h w by blast
qed

end
