(* ===== verification/Threads.thy ===== *)
theory Threads
  imports Class_Linker
begin

text \<open>
  art/runtime/thread.cxx, art/runtime/thread_list.cxx, art/runtime/handle.cxx and
  art/runtime/gc/scoped_gc_critical_section.cxx: the current thread, from references to objects and
  back, and the two scopes in which methods are patched, suspension of all threads and the critical
  section against the garbage collector.

  A function of libart is an option, \<open>None\<close> when its symbol was not found. \<open>scope_call\<close> runs one by the
  name of its variable.
\<close>

section \<open>References\<close>

text \<open>A compressed reference; with poisoning the reference is negated (in 32 bits).\<close>

definition Decompress :: "bool \<Rightarrow> 32 word \<Rightarrow> addr" where
  "Decompress kPoisonReferences ref = unat (if kPoisonReferences then - ref else ref)"

definition Handle_Get :: "memory \<Rightarrow> addr \<Rightarrow> addr" where
  "Handle_Get m reference = Decompress False (word_of_nat (load m reference 4))"

definition ReflectiveHandle_Get :: "art_statics \<Rightarrow> memory \<Rightarrow> addr \<Rightarrow> addr" where
  "ReflectiveHandle_Get S m reference = load m reference (psize S)"

definition ReflectiveHandle_Set :: "art_statics \<Rightarrow> addr \<Rightarrow> addr \<Rightarrow> memory \<Rightarrow> memory" where
  "ReflectiveHandle_Set S reference v m = store reference (psize S) v m"

section \<open>Threads\<close>

record thread_lib =
  th_CurrentFromGdb :: "addr option"
  th_Current :: "addr option"
  th_JniDecodeReferenceResult :: "(addr \<Rightarrow> addr \<Rightarrow> addr) option"
  th_DecodeGlobalJObject :: "(addr \<Rightarrow> addr \<Rightarrow> addr) option"
  th_DecodeJObject :: "(addr \<Rightarrow> addr \<Rightarrow> addr) option"
  th_AddLocalReference :: "(addr \<Rightarrow> addr) option"

definition kSlotArtThreadSelf :: "arch \<Rightarrow> int" where
  "kSlotArtThreadSelf a = (if is_arch a [kRiscv64] then -1 else 7)"

text \<open>\<open>tls\<close> is the thread pointer register the assembly reads.\<close>

definition CurrentFromTLS :: "arch \<Rightarrow> memory \<Rightarrow> addr \<Rightarrow> addr" where
  "CurrentFromTLS a m tls =
     load m (nat (int tls + kSlotArtThreadSelf a * int (kPointerSize a))) (kPointerSize a)"

definition Thread_Current :: "arch \<Rightarrow> thread_lib \<Rightarrow> memory \<Rightarrow> addr \<Rightarrow> addr" where
  "Thread_Current a T m tls =
     (case th_CurrentFromGdb T of Some t \<Rightarrow> t
      | None \<Rightarrow> (case th_Current T of Some t \<Rightarrow> t | None \<Rightarrow> CurrentFromTLS a m tls))"

text \<open>\<open>weak_of\<close> is \<open>NewWeakGlobalRef\<close>; the last two arguments are for \<open>Unsafe::GetObjectAddress\<close>.\<close>

definition DecodeJObject ::
  "arch \<Rightarrow> thread_lib \<Rightarrow> reflection \<Rightarrow> unsafe_statics \<Rightarrow> (addr \<Rightarrow> addr) \<Rightarrow> (addr \<Rightarrow> addr) \<Rightarrow> (addr \<Rightarrow> int \<Rightarrow> 32 word)
     \<Rightarrow> addr \<Rightarrow> addr \<Rightarrow> addr" where
  "DecodeJObject a T F U weak_of array_of get_int this obj =
     (let by_unsafe = (if HasUnsafe F then GetObjectAddress a F U array_of get_int obj else 0);
          by_decode = (case th_DecodeJObject T of
              Some f \<Rightarrow> if \<not> is_arch a [kX86] then f this obj else by_unsafe
            | None \<Rightarrow> by_unsafe)
      in if obj = 0 then 0
         else (case th_JniDecodeReferenceResult T of
             Some f \<Rightarrow> f obj this
           | None \<Rightarrow>
               (case th_DecodeGlobalJObject T of
                  Some f \<Rightarrow> if weak_of obj \<noteq> 0 then f this (weak_of obj) else by_decode
                | None \<Rightarrow> by_decode)))"

definition EncodeJObject ::
  "thread_lib \<Rightarrow> reflection \<Rightarrow> unsafe_statics \<Rightarrow> (addr \<Rightarrow> addr) \<Rightarrow> (addr \<Rightarrow> int \<Rightarrow> 32 word \<Rightarrow> addr) \<Rightarrow> addr \<Rightarrow> addr" where
  "EncodeJObject T F U array_of put_int obj =
     (case th_AddLocalReference T of
        Some f \<Rightarrow> f obj
      | None \<Rightarrow> if HasUnsafe F then NewLocalRef F U array_of put_int obj else 0)"

text \<open>\<open>Class::FromReflectedClass\<close> and \<open>Class::ToReflectedClass\<close> are these two on the current thread.\<close>

definition FromReflectedClass ::
  "arch \<Rightarrow> thread_lib \<Rightarrow> reflection \<Rightarrow> unsafe_statics \<Rightarrow> (addr \<Rightarrow> addr) \<Rightarrow> (addr \<Rightarrow> addr) \<Rightarrow> (addr \<Rightarrow> int \<Rightarrow> 32 word)
     \<Rightarrow> memory \<Rightarrow> addr \<Rightarrow> addr \<Rightarrow> addr" where
  "FromReflectedClass a T F U weak_of array_of get_int m tls clazz =
     DecodeJObject a T F U weak_of array_of get_int (Thread_Current a T m tls) clazz"

definition ToReflectedClass ::
  "thread_lib \<Rightarrow> reflection \<Rightarrow> unsafe_statics \<Rightarrow> (addr \<Rightarrow> addr) \<Rightarrow> (addr \<Rightarrow> int \<Rightarrow> 32 word \<Rightarrow> addr) \<Rightarrow> addr \<Rightarrow> addr" where
  "ToReflectedClass T F U array_of put_int this = EncodeJObject T F U array_of put_int this"

definition decode_hooks :: "(harg \<times> bool) list" where
  "decode_hooks =
     [(HFun ''JniDecodeReferenceResult_'' ''_ZN3art24JniDecodeReferenceResultEP8_jobjectPNS_6ThreadE'', False),
      (HFun ''DecodeGlobalJObject_'' ''_ZNK3art6Thread19DecodeGlobalJObjectEP8_jobject'', False)]"

definition Thread_Init :: "arch \<Rightarrow> init_info \<Rightarrow> int \<Rightarrow> hook_state \<Rightarrow> bool \<times> hook_state" where
  "Thread_Init a info sdk_int H =
     (let (gdb, H) = handler_any info (one (HFun ''CurrentFromGdb_'' ''_ZN3art6Thread14CurrentFromGdbEv'')) H;
          (cur, H) = (if gdb \<or> sdk_int \<ge> API_N then (True, H)
            else handler_any info (one (HFun ''Current_'' ''_ZN3art6Thread7CurrentEv'')) H)
      in if \<not> cur then (False, H)
         else
           (let (dec, H) = handler_any info decode_hooks H;
                (_, H) = (if \<not> dec \<and> \<not> is_arch a [kX86]
                  then handler_any info (one (HFun ''DecodeJObject_'' ''_ZNK3art6Thread13DecodeJObjectEP8_jobject'')) H
                  else (False, H))
            in (True, H)))"

section \<open>Scopes\<close>

text \<open>The functions of libart behind the variables, as steps of a machine's state, with the arguments they
  get beside \<open>this\<close> and the current thread. An enumerator is passed as its number.\<close>

datatype scope_arg = Text string | Flag bool | Enumerator nat

type_synonym 's scope_call = "string \<Rightarrow> scope_arg list \<Rightarrow> 's \<Rightarrow> 's"

datatype CollectorType =
    kCollectorTypeNone | kCollectorTypeMS | kCollectorTypeCMS | kCollectorTypeSS | kCollectorTypeHeapTrim
  | kCollectorTypeCC | kCollectorTypeCCBackground | kCollectorTypeInstrumentation
  | kCollectorTypeAddRemoveAppImageSpace | kCollectorTypeDebugger | kCollectorTypeHomogeneousSpaceCompact
  | kCollectorTypeClassLinker | kCollectorTypeJitCodeCache | kCollectorTypeHprof
  | kCollectorTypeAddRemoveSystemWeakHolder | kCollectorTypeGetObjectsAllocated
  | kCollectorTypeCriticalSection

datatype GcCause =
    kGcCauseNone | kGcCauseForAlloc | kGcCauseBackground | kGcCauseExplicit | kGcCauseForNativeAlloc
  | kGcCauseCollectorTransition | kGcCauseDisableMovingGc | kGcCauseTrim | kGcCauseInstrumentation
  | kGcCauseAddRemoveAppImageSpace | kGcCauseDebugger | kGcCauseHomogeneousSpaceCompact
  | kGcCauseClassLinker | kGcCauseJitCodeCache | kGcCauseAddRemoveSystemWeakHolder | kGcCauseHprof
  | kGcCauseGetObjectsAllocated | kGcCauseProfileSaver

fun collector_value :: "CollectorType \<Rightarrow> nat" where
  "collector_value kCollectorTypeNone = 0"
| "collector_value kCollectorTypeMS = 1"
| "collector_value kCollectorTypeCMS = 2"
| "collector_value kCollectorTypeSS = 3"
| "collector_value kCollectorTypeHeapTrim = 4"
| "collector_value kCollectorTypeCC = 5"
| "collector_value kCollectorTypeCCBackground = 6"
| "collector_value kCollectorTypeInstrumentation = 7"
| "collector_value kCollectorTypeAddRemoveAppImageSpace = 8"
| "collector_value kCollectorTypeDebugger = 9"
| "collector_value kCollectorTypeHomogeneousSpaceCompact = 10"
| "collector_value kCollectorTypeClassLinker = 11"
| "collector_value kCollectorTypeJitCodeCache = 12"
| "collector_value kCollectorTypeHprof = 13"
| "collector_value kCollectorTypeAddRemoveSystemWeakHolder = 14"
| "collector_value kCollectorTypeGetObjectsAllocated = 15"
| "collector_value kCollectorTypeCriticalSection = 16"

fun cause_value :: "GcCause \<Rightarrow> nat" where
  "cause_value kGcCauseNone = 0"
| "cause_value kGcCauseForAlloc = 1"
| "cause_value kGcCauseBackground = 2"
| "cause_value kGcCauseExplicit = 3"
| "cause_value kGcCauseForNativeAlloc = 4"
| "cause_value kGcCauseCollectorTransition = 5"
| "cause_value kGcCauseDisableMovingGc = 6"
| "cause_value kGcCauseTrim = 7"
| "cause_value kGcCauseInstrumentation = 8"
| "cause_value kGcCauseAddRemoveAppImageSpace = 9"
| "cause_value kGcCauseDebugger = 10"
| "cause_value kGcCauseHomogeneousSpaceCompact = 11"
| "cause_value kGcCauseClassLinker = 12"
| "cause_value kGcCauseJitCodeCache = 13"
| "cause_value kGcCauseAddRemoveSystemWeakHolder = 14"
| "cause_value kGcCauseHprof = 15"
| "cause_value kGcCauseGetObjectsAllocated = 16"
| "cause_value kGcCauseProfileSaver = 17"

definition suspend_names :: "(harg \<times> bool) list list" where
  "suspend_names =
     [[(HFun ''ScopedSuspendAll::constructor_'' ''_ZN3art16ScopedSuspendAllC2EPKcb'', False),
       (HFun ''ScopedSuspendAll::destructor_'' ''_ZN3art16ScopedSuspendAllD2Ev'', False)],
      [(HFun ''SuspendVM_'' ''_ZN3art3Dbg9SuspendVMEv'', False),
       (HFun ''ResumeVM_'' ''_ZN3art3Dbg8ResumeVMEv'', False)]]"

definition ScopedSuspendAll_Init :: "init_info \<Rightarrow> hook_state \<Rightarrow> bool \<times> hook_state" where
  "ScopedSuspendAll_Init info H = first_group info suspend_names H"

definition suspend_with :: "hook_state \<Rightarrow> string option" where
  "suspend_with H =
     (if raw_set H ''ScopedSuspendAll::constructor_'' then Some ''ScopedSuspendAll::constructor_''
      else if raw_set H ''SuspendVM_'' then Some ''SuspendVM_'' else None)"

definition resume_with :: "hook_state \<Rightarrow> string option" where
  "resume_with H =
     (if raw_set H ''ScopedSuspendAll::destructor_'' then Some ''ScopedSuspendAll::destructor_''
      else if raw_set H ''ResumeVM_'' then Some ''ResumeVM_'' else None)"

definition scoped_call :: "'s scope_call \<Rightarrow> string option \<Rightarrow> scope_arg list \<Rightarrow> 's \<Rightarrow> 's" where
  "scoped_call f v args s = (case v of Some v \<Rightarrow> f v args s | None \<Rightarrow> s)"

definition ScopedSuspendAll_begin :: "hook_state \<Rightarrow> string \<Rightarrow> bool \<Rightarrow> 's scope_call \<Rightarrow> 's \<Rightarrow> 's" where
  "ScopedSuspendAll_begin H cause long_suspend f s =
     scoped_call f (suspend_with H)
       (if raw_set H ''ScopedSuspendAll::constructor_'' then [Text cause, Flag long_suspend] else []) s"

definition ScopedSuspendAll_end :: "hook_state \<Rightarrow> 's scope_call \<Rightarrow> 's \<Rightarrow> 's" where
  "ScopedSuspendAll_end H f s = scoped_call f (resume_with H) [] s"

definition gc_names :: "(harg \<times> bool) list" where
  "gc_names =
     [(HFun ''ScopedGCCriticalSection::constructor_''
         ''_ZN3art2gc23ScopedGCCriticalSectionC2EPNS_6ThreadENS0_7GcCauseENS0_13CollectorTypeE'', False),
      (HFun ''ScopedGCCriticalSection::destructor_'' ''_ZN3art2gc23ScopedGCCriticalSectionD2Ev'', False)]"

definition ScopedGCCriticalSection_Init :: "init_info \<Rightarrow> int \<Rightarrow> hook_state \<Rightarrow> bool \<times> hook_state" where
  "ScopedGCCriticalSection_Init info sdk_int H =
     (if sdk_int \<ge> API_N then handler_all info gc_names H else (True, H))"

definition ScopedGCCriticalSection_begin :: "hook_state \<Rightarrow> GcCause \<Rightarrow> CollectorType \<Rightarrow> 's scope_call \<Rightarrow> 's \<Rightarrow> 's" where
  "ScopedGCCriticalSection_begin H cause collector_type f s =
     (if raw_set H ''ScopedGCCriticalSection::constructor_'' then
        f ''ScopedGCCriticalSection::constructor_''
          [Enumerator (cause_value cause), Enumerator (collector_value collector_type)] s
      else s)"

definition ScopedGCCriticalSection_end :: "hook_state \<Rightarrow> 's scope_call \<Rightarrow> 's \<Rightarrow> 's" where
  "ScopedGCCriticalSection_end H f s =
     (if raw_set H ''ScopedGCCriticalSection::destructor_'' then f ''ScopedGCCriticalSection::destructor_'' [] s else s)"

text \<open>The bodies of \<open>DoHook\<close>, \<open>DoUnHook\<close>, \<open>MakeClassHidden\<close> and \<open>MakeClassVisible\<close> run inside both, with
  a reason for the suspension; destructors run in reverse order.\<close>

definition in_scopes :: "hook_state \<Rightarrow> string \<Rightarrow> 's scope_call \<Rightarrow> ('s \<Rightarrow> 'r \<times> 's) \<Rightarrow> 's \<Rightarrow> 'r \<times> 's" where
  "in_scopes H reason f body s =
     (let s = ScopedGCCriticalSection_begin H kGcCauseDebugger kCollectorTypeDebugger f s;
          s = ScopedSuspendAll_begin H reason False f s;
          (r, s) = body s;
          s = ScopedSuspendAll_end H f s
      in (r, ScopedGCCriticalSection_end H f s))"

text \<open>When every function was found the calls nest: the collector is kept out before the threads stop and
  let in after they run again. \<open>note_call\<close> notes the calls.\<close>

definition note_call :: "(string \<times> scope_arg list) list scope_call" where
  "note_call v args calls = calls @ [(v, args)]"

lemma scopes_nest:
  assumes "\<forall>v \<in> {''ScopedGCCriticalSection::constructor_'', ''ScopedGCCriticalSection::destructor_'',
      ''ScopedSuspendAll::constructor_'', ''ScopedSuspendAll::destructor_''}. raw_set H v"
  shows "in_scopes H reason note_call (\<lambda>calls. (r, calls @ during)) calls =
    (r, calls @ [(''ScopedGCCriticalSection::constructor_'', [Enumerator 10, Enumerator 9]),
                 (''ScopedSuspendAll::constructor_'', [Text reason, Flag False])] @ during @
                [(''ScopedSuspendAll::destructor_'', []), (''ScopedGCCriticalSection::destructor_'', [])])"
  using assms
  by (simp add: in_scopes_def ScopedGCCriticalSection_begin_def ScopedGCCriticalSection_end_def
      ScopedSuspendAll_begin_def ScopedSuspendAll_end_def scoped_call_def suspend_with_def resume_with_def note_call_def)

section \<open>Which suspension is undone\<close>

text \<open>\<open>clean\<close> says that nothing was looked up yet.\<close>

definition suspend_clean :: "hook_state \<Rightarrow> bool" where
  "suspend_clean H \<longleftrightarrow> (\<forall>g \<in> set suspend_names. \<forall>(a, p) \<in> set g. \<not> raw_set H (harg_var a))"

text \<open>What two groups of two functions each leave in their variables.\<close>

lemma two_groups:
  assumes "first_group info [[(HFun v1 s1, False), (HFun v2 s2, False)], [(HFun v3 s3, False), (HFun v4 s4, False)]] H
      = (True, H')"
    and "distinct [v1, v2, v3, v4]" and "\<not> raw_set H v2"
  shows "raw_set H' v1 \<longleftrightarrow> dlsym info s1 False \<noteq> 0"
    and "raw_set H' v2 \<longleftrightarrow> dlsym info s1 False \<noteq> 0 \<and> dlsym info s2 False \<noteq> 0"
    and "dlsym info s1 False = 0 \<or> dlsym info s2 False = 0 \<Longrightarrow> raw_set H' v3 \<and> raw_set H' v4"
  using assms by (auto simp: Let_def raw_set_def split: if_splits)

text \<open>C27. When the initialization of \<open>ScopedSuspendAll\<close> succeeds, threads are suspended and resumed, and by
  functions that belong together unless the runtime has the constructor without the destructor: the
  constructor stays set when the library falls back to \<open>SuspendVM\<close> and \<open>ResumeVM\<close>, so threads are
  suspended by the one and resumed by the other.\<close>

theorem suspension_matched:
  assumes init: "ScopedSuspendAll_Init info H = (True, H')" and clean: "suspend_clean H"
    and c: "c \<longleftrightarrow> dlsym info ''_ZN3art16ScopedSuspendAllC2EPKcb'' False \<noteq> 0"
    and d: "d \<longleftrightarrow> dlsym info ''_ZN3art16ScopedSuspendAllD2Ev'' False \<noteq> 0"
  shows "(suspend_with H' = Some (if c then ''ScopedSuspendAll::constructor_'' else ''SuspendVM_'')) \<and>
    (resume_with H' = Some (if c \<and> d then ''ScopedSuspendAll::destructor_'' else ''ResumeVM_''))"
proof -
  have "\<not> raw_set H ''ScopedSuspendAll::destructor_''"
    using clean by (simp add: suspend_clean_def suspend_names_def)
  note g = two_groups [OF init [unfolded ScopedSuspendAll_Init_def suspend_names_def] _ this]
  show ?thesis
    using g c d by (auto simp: suspend_with_def resume_with_def)
qed

text \<open>A runtime that has every symbol but the destructor.\<close>

definition no_destructor :: init_info where
  "no_destructor = demo_info\<lparr> art_symbol_resolver := (\<lambda>n h. if n = ''_ZN3art16ScopedSuspendAllD2Ev'' then 0 else 16) \<rparr>"

lemma no_destructor_dlsym:
  "dlsym no_destructor n False = (if n = ''_ZN3art16ScopedSuspendAllD2Ev'' then 0 else 16)"
  by (simp add: dlsym_def no_destructor_def)

theorem suspension_matched_witness:
  "\<exists>H'. ScopedSuspendAll_Init no_destructor hook_state_init = (True, H') \<and>
     suspend_with H' = Some ''ScopedSuspendAll::constructor_'' \<and> resume_with H' = Some ''ResumeVM_''"
proof -
  have "fst (ScopedSuspendAll_Init no_destructor hook_state_init)"
    by (simp add: ScopedSuspendAll_Init_def suspend_names_def no_destructor_dlsym Let_def)
  then obtain H' where i: "ScopedSuspendAll_Init no_destructor hook_state_init = (True, H')"
    by (metis (full_types) prod.collapse)
  have c: "suspend_clean hook_state_init"
    by (simp add: suspend_clean_def suspend_names_def raw_set_def hook_state_init_def)
  show ?thesis
    using suspension_matched [OF i c refl refl] i by (simp add: no_destructor_dlsym)
qed

end
