(* ===== verification/Do_Hook.thy ===== *)
theory Do_Hook
  imports Threads Trampoline_Exec
begin

text \<open>
  Patching a method (lsplant.cc): \<open>DoHook\<close> and \<open>DoUnHook\<close>, which run inside the two scopes of
  \<open>Threads\<close>, and \<open>SetHookEnabled\<close>, which rewrites the trampoline of a hooked method.

  \<open>f\<close> stands for the functions of libart behind the scopes, as steps of the pool and the memory.
  Page protection is not part of the memory.
\<close>

section \<open>DoHook, DoUnHook\<close>

definition patch_methods :: "art_statics \<Rightarrow> addr \<Rightarrow> addr \<Rightarrow> addr \<Rightarrow> memory \<Rightarrow> memory" where
  "patch_methods S target backup entrypoint m =
     (let m = SetNonIntrinsic S target m;
          m = BackupTo S target backup m;
          m = SetNonCompilable S target m;
          m = SetEntryPoint S target entrypoint m
      in SetNonConstructor S backup m)"

definition DoHook ::
  "art_statics \<Rightarrow> hook_state \<Rightarrow> (nat \<times> memory) scope_call \<Rightarrow> sys_calls \<Rightarrow> byte list \<Rightarrow> 8 word
     \<Rightarrow> addr \<Rightarrow> addr \<Rightarrow> addr \<Rightarrow> nat \<times> memory \<Rightarrow> addr \<times> nat \<times> memory" where
  "DoHook S H f sc tramp entry_imm target hook_method backup =
     in_scopes H ''LSPlant Hook'' f (\<lambda>s.
       (case GenerateTrampolineFor (am_arch S) sc tramp entry_imm hook_method s of
          (None, pool, m) \<Rightarrow> (0, pool, m)
        | (Some (entrypoint, slot), pool, m) \<Rightarrow> (slot, pool, patch_methods S target backup entrypoint m)))"

definition unpatch_methods :: "art_statics \<Rightarrow> addr \<Rightarrow> addr \<Rightarrow> memory \<Rightarrow> memory" where
  "unpatch_methods S target backup m =
     (let access_flags = GetAccessFlags S m target;
          m = CopyFrom S target backup m
      in SetAccessFlags S target access_flags m)"

definition DoUnHook ::
  "art_statics \<Rightarrow> hook_state \<Rightarrow> (nat \<times> memory) scope_call \<Rightarrow> addr \<Rightarrow> addr \<Rightarrow> nat \<times> memory
     \<Rightarrow> bool \<times> nat \<times> memory" where
  "DoUnHook S H f target backup =
     in_scopes H ''LSPlant Hook'' f (\<lambda>(pool, m). (True, pool, unpatch_methods S target backup m))"

section \<open>SetHookEnabled\<close>

definition set_enabled ::
  "arch \<Rightarrow> byte list \<Rightarrow> 8 word \<Rightarrow> bool \<Rightarrow> hook_record \<times> memory \<Rightarrow> hook_record \<times> memory" where
  "set_enabled a tramp entry_imm enabled = (\<lambda>(r, m).
     (let r = r\<lparr> hr_enabled := enabled \<rparr>;
          meth = (if enabled then hr_backup r else hr_hook r)
      in if odd (hr_slot r)
         then (let (entry_slot, m) = WriteTrampoline a tramp entry_imm (hr_slot r - 1) meth m
               in (if even entry_slot then r\<lparr> hr_slot := entry_slot \<rparr> else r, m))
         else (r, store (hr_slot r) (kPointerSize a) meth m)))"

text \<open>A reference is checked the same way by every entry point.\<close>

definition is_executable :: "reflection \<Rightarrow> jni_env \<Rightarrow> addr \<Rightarrow> bool" where
  "is_executable F E meth \<longleftrightarrow> meth \<noteq> 0 \<and> jni_IsInstanceOf E meth (GlobalRef_get F ''executable_ref'')"

definition SetHookEnabled ::
  "art_statics \<Rightarrow> art_lookup \<Rightarrow> jni_env \<Rightarrow> reflection \<Rightarrow> byte list \<Rightarrow> 8 word \<Rightarrow> addr \<Rightarrow> bool
     \<Rightarrow> registry \<times> memory \<Rightarrow> bool \<times> registry \<times> memory" where
  "SetHookEnabled S L E F tramp entry_imm target_method enabled = (\<lambda>(R, m).
     (let target = FromReflectedMethod S L E target_method in
      if \<not> is_executable F E target_method then (False, R, m)
      else (case hooked_methods R target of
          None \<Rightarrow> (False, R, m)
        | Some r \<Rightarrow>
            if hr_enabled r = enabled then (enabled, R, m)
            else (let (r, m) = set_enabled (am_arch S) tramp entry_imm enabled (r, m)
                  in (\<not> enabled, R\<lparr> hooked_methods := (hooked_methods R)(target \<mapsto> r) \<rparr>, m)))))"

section \<open>Scopes that leave the library's memory alone\<close>

text \<open>Suspending threads and keeping the collector out changes neither the pool nor the bytes of
  \<open>X\<close>.\<close>

definition same_bytes :: "addr set \<Rightarrow> memory \<Rightarrow> memory \<Rightarrow> bool" where
  "same_bytes X m m' \<longleftrightarrow> (\<forall>x \<in> X. m' x = m x)"

definition blocks :: "art_statics \<Rightarrow> addr set \<Rightarrow> addr set" where
  "blocks S A = {x. \<exists>a \<in> A. a \<le> x \<and> x < a + art_method_size S}"

definition scopes_ok :: "addr set \<Rightarrow> (nat \<times> memory) scope_call \<Rightarrow> bool" where
  "scopes_ok X f \<longleftrightarrow> (\<forall>v args p m. fst (f v args (p, m)) = p \<and> same_bytes X m (snd (f v args (p, m))))"

lemma same_bytes_refl [simp]: "same_bytes X m m"
  by (simp add: same_bytes_def)

lemma same_bytes_trans: "same_bytes X m m' \<Longrightarrow> same_bytes X m' m'' \<Longrightarrow> same_bytes X m m''"
  by (simp add: same_bytes_def)

lemma same_bytes_mono: "same_bytes X m m' \<Longrightarrow> Y \<subseteq> X \<Longrightarrow> same_bytes Y m m'"
  by (auto simp: same_bytes_def)

lemma same_bytes_load: "same_bytes X m m' \<Longrightarrow> {a..<a + n} \<subseteq> X \<Longrightarrow> load m' a n = load m a n"
  by (rule load_cong) (simp add: same_bytes_def subset_iff)

lemma same_outside_bytes:
  "same_outside a n m m' \<Longrightarrow> (\<And>x. x \<in> X \<Longrightarrow> x < a \<or> a + n \<le> x) \<Longrightarrow> same_bytes X m m'"
  by (auto simp: same_outside_def same_bytes_def)

lemma blocks_mono: "A \<subseteq> B \<Longrightarrow> blocks S A \<subseteq> blocks S B"
  by (auto simp: blocks_def)

lemma block_in_blocks: "a \<in> A \<Longrightarrow> i < art_method_size S \<Longrightarrow> a + i \<in> blocks S A"
  by (auto simp: blocks_def intro!: bexI [of _ a])

lemma same_bytes_method:
  assumes "wf_statics S" "same_bytes (blocks S A) m m'" "a \<in> A"
  shows "same_method S m m' a"
proof -
  have b: "\<And>i. i < art_method_size S \<Longrightarrow> m' (a + i) = m (a + i)"
    using assms(2,3) by (auto simp: same_bytes_def block_in_blocks)
  then show ?thesis
    unfolding same_method_def
    using flagsf.get_local [OF assms(1), of m' a m a] entryf.get_local [OF assms(1), of m' a m a]
      dataf.get_local [OF assms(1), of m' a m a] GetDeclaringClass_local [OF assms(1), of m' a m a]
    by simp
qed

lemma scoped_call_ok:
  assumes "scopes_ok X f" "scoped_call f v args (p, m) = (p', m')"
  shows "p' = p" "same_bytes X m m'"
proof -
  have "fst (scoped_call f v args (p, m)) = p \<and> same_bytes X m (snd (scoped_call f v args (p, m)))"
    using assms(1) by (simp add: scoped_call_def scopes_ok_def split: option.split)
  then show "p' = p" "same_bytes X m m'" by (simp_all add: assms(2))
qed

lemma scope_enter_ok:
  assumes "scopes_ok X f"
  shows "\<exists>m'. ScopedSuspendAll_begin H why long f (ScopedGCCriticalSection_begin H cause col f (p, m)) = (p, m') \<and>
    same_bytes X m m'"
proof -
  let ?v = "if raw_set H ''ScopedGCCriticalSection::constructor_''
    then Some ''ScopedGCCriticalSection::constructor_'' else None"
  let ?a = "[Enumerator (cause_value cause), Enumerator (collector_value col)]"
  let ?b = "if raw_set H ''ScopedSuspendAll::constructor_'' then [Text why, Flag long] else []"
  have e: "ScopedGCCriticalSection_begin H cause col f s = scoped_call f ?v ?a s" for s
    by (simp add: ScopedGCCriticalSection_begin_def scoped_call_def)
  obtain p1 m1 where 1: "scoped_call f ?v ?a (p, m) = (p1, m1)" by (metis prod.exhaust)
  obtain p2 m2 where 2: "scoped_call f (suspend_with H) ?b (p1, m1) = (p2, m2)" by (metis prod.exhaust)
  have "p1 = p" "p2 = p1" "same_bytes X m m2"
    using scoped_call_ok [OF assms 1] scoped_call_ok [OF assms 2] by (auto intro: same_bytes_trans)
  then show ?thesis using 1 2 by (simp only: e ScopedSuspendAll_begin_def) simp
qed

lemma scope_leave_ok:
  assumes "scopes_ok X f"
  shows "\<exists>m'. ScopedGCCriticalSection_end H f (ScopedSuspendAll_end H f (p, m)) = (p, m') \<and>
    same_bytes X m m'"
proof -
  let ?v = "if raw_set H ''ScopedGCCriticalSection::destructor_''
    then Some ''ScopedGCCriticalSection::destructor_'' else None"
  have e: "ScopedGCCriticalSection_end H f s = scoped_call f ?v [] s" for s
    by (simp add: ScopedGCCriticalSection_end_def scoped_call_def)
  obtain p1 m1 where 1: "scoped_call f (resume_with H) [] (p, m) = (p1, m1)" by (metis prod.exhaust)
  obtain p2 m2 where 2: "scoped_call f ?v [] (p1, m1) = (p2, m2)" by (metis prod.exhaust)
  show ?thesis
    using scoped_call_ok [OF assms 1] scoped_call_ok [OF assms 2] 1 2
    by (auto simp: e ScopedSuspendAll_end_def intro: same_bytes_trans)
qed

text \<open>So a body in the scopes runs on the bytes of \<open>X\<close> as they are.\<close>

lemma in_scopes_ok:
  assumes "scopes_ok X f" and run: "in_scopes H why f body (p, m) = (r, p', m')"
  obtains m1 m2 where "same_bytes X m m1" "body (p, m1) = (r, p', m2)" "same_bytes X m2 m'"
proof -
  obtain m1 where 1: "ScopedSuspendAll_begin H why False f
        (ScopedGCCriticalSection_begin H kGcCauseDebugger kCollectorTypeDebugger f (p, m)) = (p, m1)"
      "same_bytes X m m1"
    using scope_enter_ok [OF assms(1)] by blast
  obtain r2 p2 m2 where 2: "body (p, m1) = (r2, p2, m2)" by (metis prod.exhaust)
  obtain m3 where 3: "ScopedGCCriticalSection_end H f (ScopedSuspendAll_end H f (p2, m2)) = (p2, m3)"
      "same_bytes X m2 m3"
    using scope_leave_ok [OF assms(1)] by blast
  show ?thesis
    using run 1 2 3 that by (simp add: in_scopes_def Let_def)
qed

section \<open>What patching does to the two methods\<close>

text \<open>\<open>copy_of S m a m' b\<close>: the block at \<open>b\<close> in \<open>m'\<close> is the block at \<open>a\<close> in \<open>m\<close>, byte for byte, but for the
  access flags.\<close>

definition copy_of :: "art_statics \<Rightarrow> memory \<Rightarrow> addr \<Rightarrow> memory \<Rightarrow> addr \<Rightarrow> bool" where
  "copy_of S m a m' b \<longleftrightarrow> (\<forall>i < art_method_size S.
     i < access_flags_offset S \<or> access_flags_offset S + 4 \<le> i \<longrightarrow> m' (b + i) = m (a + i))"

lemma copy_of_trans: "copy_of S m a m' b \<Longrightarrow> copy_of S m' b m'' c \<Longrightarrow> copy_of S m a m'' c"
  by (simp add: copy_of_def)

lemma copy_of_flags: "flags_only S a m m' \<Longrightarrow> copy_of S m a m' a"
  by (auto simp: copy_of_def flags_only_def same_outside_def)

lemma copy_of_frame:
  "same_outside a (art_method_size S) m m' \<Longrightarrow> apart S a b \<Longrightarrow> copy_of S m b m' b"
  using frame_apart by (auto simp: copy_of_def)

lemma copy_of_CopyFrom: "copy_of S m a (CopyFrom S b a m) b"
  by (simp add: copy_of_def CopyFrom_def memcpy_def store_bytes_def)

lemma copy_of_fields:
  assumes "wf_statics S" "copy_of S m a m' b"
  shows "GetEntryPoint S m' b = GetEntryPoint S m a" "GetData S m' b = GetData S m a"
    "GetDeclaringClass S m' b = GetDeclaringClass S m a"
proof -
  have l: "load m' (b + off) n = load m (a + off) n"
    if "fits S off n" "disj_ranges (access_flags_offset S) 4 off n" for off n
    using assms(2) that
    by (intro load_cong) (auto simp: copy_of_def fits_def disj_ranges_def add.assoc)
  show "GetEntryPoint S m' b = GetEntryPoint S m a" "GetData S m' b = GetData S m a"
    "GetDeclaringClass S m' b = GetDeclaringClass S m a"
    using assms(1)
    by (auto simp: GetEntryPoint_def GetData_def GetDeclaringClass_def wf_statics_def disj_ranges_sym intro!: l)
qed

lemma copy_of_same_bytes:
  assumes "same_bytes (blocks S {a}) m m'"
  shows "copy_of S m a m' a"
  using assms block_in_blocks [of a "{a}"] by (auto simp: copy_of_def same_bytes_def)

lemma BackupTo_copy:
  assumes sep: "separate S A" and ab: "a \<in> A" "b \<in> A" "a \<noteq> b"
  shows "copy_of S m a (BackupTo S a b m) b" "touches S A {a, b} m (BackupTo S a b m)"
proof -
  note wf = separate_wf [OF sep] and ap = separate_apart [OF sep ab]
  define m1 where "m1 = SetNonCompilable S a m"
  define m2 where "m2 = CopyFrom S b a m1"
  define m3 where "m3 = ClearFastInterpretFlag S a m2"
  have m': "BackupTo S a b m = (if \<not> IsStatic S m3 b then SetPrivate S b m3 else m3)"
    by (simp add: BackupTo_def m1_def m2_def m3_def Let_def)
  have f1: "flags_only S a m m1" by (simp add: m1_def)
  have s2: "same_outside b (art_method_size S) m1 m2" by (simp add: m2_def CopyFrom_def same_outside_memcpy)
  have f3: "flags_only S a m2 m3" by (simp add: m3_def)
  have f4: "flags_only S b m3 (BackupTo S a b m)" by (simp add: m')
  have "copy_of S m a m2 b"
    using copy_of_trans [OF copy_of_flags [OF f1]] copy_of_CopyFrom by (simp add: m2_def)
  then show "copy_of S m a (BackupTo S a b m) b"
    using copy_of_frame [OF flags_only_frame [OF wf f3] ap] copy_of_flags [OF f4] copy_of_trans by blast
  show "touches S A {a, b} m (BackupTo S a b m)"
    using touches_mono [OF touches_flags_only [OF sep ab(1) f1], of "{a, b}"]
      touches_mono [OF touches_frame [OF sep ab(2) s2], of "{a, b}"]
      touches_mono [OF touches_flags_only [OF sep ab(1) f3], of "{a, b}"]
      touches_mono [OF touches_flags_only [OF sep ab(2) f4], of "{a, b}"]
    by (auto intro: touches_trans)
qed

text \<open>The flags the patched methods end up with.\<close>

definition hooked_flags :: "art_statics \<Rightarrow> flags \<Rightarrow> flags" where
  "hooked_flags S fl =
     compile_flags S (compile_flags S fl AND NOT (kAccFastInterpreterToInterpreterInvoke S))"

definition backup_flags :: "art_statics \<Rightarrow> flags \<Rightarrow> flags" where
  "backup_flags S fl =
     (let fl = compile_flags S fl
      in (if has_flag fl kAccStatic then fl else private_flags fl) AND NOT kAccConstructor)"

lemma patch_methods_spec:
  fixes m :: memory
  assumes sep: "separate S A" and ab: "a \<in> A" "b \<in> A" "a \<noteq> b" and int: "intrinsic_ok S"
    and e: "is_ptr S entry"
  defines "m' \<equiv> patch_methods S a b entry m" and "fl \<equiv> GetAccessFlags S (SetNonIntrinsic S a m) a"
  shows patch_entry: "GetEntryPoint S m' a = entry"
    and patch_target: "GetData S m' a = GetData S m a" "GetDeclaringClass S m' a = GetDeclaringClass S m a"
    and patch_copy: "copy_of S m a m' b"
    and patch_touches: "touches S A {a, b} m m'"
    and patch_flags: "GetAccessFlags S m' a = hooked_flags S fl" "GetAccessFlags S m' b = backup_flags S fl"
proof -
  note wf = separate_wf [OF sep] and ap = separate_apart [OF sep ab]
  have ba: "apart S b a" using ap by (rule apart_sym)
  define m1 where "m1 = SetNonIntrinsic S a m"
  define m2 where "m2 = BackupTo S a b m1"
  define m3 where "m3 = SetNonCompilable S a m2"
  define m4 where "m4 = SetEntryPoint S a entry m3"
  have m': "m' = SetNonConstructor S b m4"
    by (simp add: m'_def patch_methods_def m1_def m2_def m3_def m4_def Let_def)
  have f1: "flags_only S a m m1" by (simp add: m1_def flags_only_SetNonIntrinsic int)
  note b2 = BackupTo_spec [OF wf ap, of m1, folded m2_def] and c2 = BackupTo_copy [OF sep ab, of m1, folded m2_def]
  have f3: "flags_only S a m2 m3" by (simp add: m3_def)
  have f5: "flags_only S b m4 m'" by (simp add: m')
  note s3 = flags_only_frame [OF wf f3] and s5 = flags_only_frame [OF wf f5]
  have s4: "same_outside a (art_method_size S) m3 m4" by (simp add: m4_def SetEntryPoint_frame wf)
  note t5 = frame_apart_fields [OF wf s5 ba]
  show "GetEntryPoint S m' a = entry"
    using entryf.get_put [OF wf e] by (simp add: t5 m4_def)
  show "GetData S m' a = GetData S m a" "GetDeclaringClass S m' a = GetDeclaringClass S m a"
    using flags_only_fields [OF wf f1] flags_only_fields [OF wf f3] b2(4-6)
    by (simp_all add: t5 m4_def SetEntryPoint_own wf)
  have "copy_of S m a m2 b" using copy_of_trans [OF copy_of_flags [OF f1] c2(1)] .
  moreover have "copy_of S m2 b m' b"
    using copy_of_trans [OF copy_of_frame [OF s3 ap] copy_of_trans [OF copy_of_frame [OF s4 ap] copy_of_flags [OF f5]]] .
  ultimately show "copy_of S m a m' b" by (rule copy_of_trans)
  have t: "touches S A {a, b} m m1" "touches S A {a, b} m2 m3" "touches S A {a, b} m3 m4"
    "touches S A {a, b} m4 m'"
    using touches_mono [OF touches_flags_only [OF sep ab(1) f1], of "{a, b}"]
      touches_mono [OF touches_flags_only [OF sep ab(1) f3], of "{a, b}"]
      touches_mono [OF touches_frame [OF sep ab(1) s4], of "{a, b}"]
      touches_mono [OF touches_flags_only [OF sep ab(2) f5], of "{a, b}"]
    by auto
  show "touches S A {a, b} m m'"
    using touches_trans [OF t(1) touches_trans [OF c2(2) touches_trans [OF t(2) touches_trans [OF t(3,4)]]]] .
  have fl: "GetAccessFlags S m1 a = fl" by (simp add: fl_def m1_def)
  show "GetAccessFlags S m' a = hooked_flags S fl"
    using wf by (simp add: t5 m4_def SetEntryPoint_own m3_def SetNonCompilable_flags b2(7) hooked_flags_def fl)
  have "GetAccessFlags S m4 b = GetAccessFlags S m2 b"
    using frame_apart_fields(1) [OF wf s3 ap] frame_apart_fields(1) [OF wf s4 ap] by simp
  then show "GetAccessFlags S m' b = backup_flags S fl"
    using wf by (simp add: m' SetNonConstructor_def b2(8) backup_flags_def fl Let_def)
qed

lemma unpatch_spec:
  fixes m :: memory
  assumes wf: "wf_statics S" and ap: "apart S a b"
  defines "m' \<equiv> unpatch_methods S a b m"
  shows unpatch_copy: "copy_of S m b m' a" and unpatch_flags: "GetAccessFlags S m' a = GetAccessFlags S m a"
    and unpatch_frame: "same_outside a (art_method_size S) m m'"
proof -
  let ?m1 = "CopyFrom S a b m" and ?fl = "GetAccessFlags S m a"
  have m': "m' = SetAccessFlags S a ?fl ?m1" by (simp add: m'_def unpatch_methods_def Let_def)
  have f: "flags_only S a ?m1 m'" by (simp add: m')
  show "copy_of S m b m' a" using copy_of_trans [OF copy_of_CopyFrom copy_of_flags [OF f]] .
  show "GetAccessFlags S m' a = ?fl" using wf by (simp add: m')
  have "same_outside a (art_method_size S) m ?m1" by (simp add: CopyFrom_def same_outside_memcpy)
  then show "same_outside a (art_method_size S) m m'"
    using flags_only_frame [OF wf f] by (rule same_outside_trans)
qed

section \<open>The trampoline of a method in memory\<close>

text \<open>\<open>tramp_at a e m p slot h\<close>: at \<open>p\<close> stands a trampoline for the method \<open>h\<close>, in one of its two
  forms, and \<open>slot\<close> is what \<open>WriteTrampoline\<close> returned for it: writing it once more changes nothing.\<close>

definition tramp_at :: "arch \<Rightarrow> 8 word \<Rightarrow> memory \<Rightarrow> addr \<Rightarrow> addr \<Rightarrow> addr \<Rightarrow> bool" where
  "tramp_at a e m p slot h \<longleftrightarrow>
     (a = kArm64 \<and> h div 2 ^ 48 = 0 \<and> slot = p + 1 \<and> store_bytes p (optimized_trampoline e h) m = m) \<or>
     (slot = p + art_method_offset a \<and> tramp_mem a e p h m = m)"

lemma store_bytes_same:
  "same_bytes X m m' \<Longrightarrow> {p..<p + length bs} \<subseteq> X \<Longrightarrow> store_bytes p bs m = m \<Longrightarrow> store_bytes p bs m' = m'"
proof
  fix x
  assume s: "same_bytes X m m'" and r: "{p..<p + length bs} \<subseteq> X" and f: "store_bytes p bs m = m"
  show "store_bytes p bs m' x = m' x"
  proof (cases "p \<le> x \<and> x < p + length bs")
    case True
    then have "x \<in> X" using r by auto
    then show ?thesis using s True fun_cong [OF f, of x] by (simp add: same_bytes_def store_bytes_def)
  qed (auto simp: store_bytes_def)
qed

text \<open>A store inside a piece of code is another piece of code.\<close>

lemma store_in_code:
  "off + n \<le> length bs \<Longrightarrow>
   store (p + off) n v (store_bytes p bs m) = store_bytes p (take off bs @ bytes_of_nat n v @ drop (off + n) bs) m"
  by (rule ext) (auto simp: store_def store_bytes_def nth_append min_def)

lemma patched_length [simp]: "length (patched a e) = length (trampoline_template a)"
  by (simp add: patched_def)

lemma tramp_mem_code_bytes:
  assumes "real_arch a"
  shows "\<exists>bs. length bs = length (trampoline_template a) \<and> (\<forall>m. tramp_mem a e p h m = store_bytes p bs m)"
proof -
  have "art_method_offset a + kPointerSize a \<le> length (patched a e)" using slot_fits [OF assms] by simp
  then show ?thesis
    using store_in_code [of "art_method_offset a" "kPointerSize a" "patched a e" p h]
    by (intro exI [of _ "take (art_method_offset a) (patched a e) @ bytes_of_nat (kPointerSize a) h @
          drop (art_method_offset a + kPointerSize a) (patched a e)"]) (simp add: tramp_mem_def)
qed

lemma template_le_size: "real_arch a \<Longrightarrow> length (trampoline_template a) \<le> kTrampolineSize a"
  by (auto dest!: real_arch_cases)

lemma tramp_at_same:
  assumes "real_arch a" and "same_bytes X m m'" and "{p..<p + kTrampolineSize a} \<subseteq> X" and "tramp_at a e m p slot h"
  shows "tramp_at a e m' p slot h"
proof -
  obtain bs where bs: "length bs = length (trampoline_template a)" "\<And>m. tramp_mem a e p h m = store_bytes p bs m"
    using tramp_mem_code_bytes [OF assms(1)] by blast
  have "{p..<p + length bs} \<subseteq> X" and "a = kArm64 \<Longrightarrow> {p..<p + length (optimized_trampoline e h)} \<subseteq> X"
    using assms(3) template_le_size [OF assms(1)] bs(1) by fastforce+
  then show ?thesis
    using assms(4) store_bytes_same [OF assms(2)] by (auto simp: tramp_at_def bs(2))
qed

lemma store_bytes_idem: "store_bytes p bs (store_bytes p bs m) = store_bytes p bs m"
  by (simp add: store_bytes_def fun_eq_iff)

lemma tramp_mem_idem: "real_arch a \<Longrightarrow> tramp_mem a e p h (tramp_mem a e p h m) = tramp_mem a e p h m"
  using tramp_mem_code_bytes [of a e p h] store_bytes_idem by auto

lemma WriteTrampoline_at:
  "real_arch a \<Longrightarrow> WriteTrampoline a (patched a e) e p h m = (slot, m') \<Longrightarrow> tramp_at a e m' p slot h"
  using tramp_mem_idem [of a e p h m]
  by (auto simp: WriteTrampoline_def Let_def tramp_at_def tramp_mem_def store_bytes_idem split: if_splits)

lemma tramp_at_run:
  assumes arch: "real_arch a" and h: "h < 256 ^ kPointerSize a" and e: "unat e < 128"
    and at: "tramp_at a e m p slot h"
  shows "run_trampoline a m p = Some (h, load m (h + unat e) (kPointerSize a))"
  using at unfolding tramp_at_def
proof (elim disjE conjE)
  assume *: "a = kArm64" "h div 2 ^ 48 = 0" "store_bytes p (optimized_trampoline e h) m = m"
  then show ?thesis using run_arm64_optimized_6 [OF *(2), of p e m] by (simp add: run_trampoline_def)
next
  assume *: "tramp_mem a e p h m = m"
  show ?thesis
    using arch h e * run_arm64_6 [of h e p m] run_arm [of h e p m] run_x86 [of h e p m]
      run_x64 [of h e p m] run_rv64 [of h e p m]
    by (auto dest!: real_arch_cases simp: run_trampoline_def)
qed

text \<open>\<open>SetHookEnabled\<close> turns one trampoline into the other, whichever form either has: the parity of
  the slot tells them apart on every architecture, the odd offset of x86 included, since
  trampolines lie at even addresses.\<close>

lemma set_enabled_at:
  assumes arch: "real_arch a" and at: "tramp_at a e m p (hr_slot r) h" and p: "even p"
    and run: "set_enabled a (patched a e) e enabled (r, m) = (r', m')"
  shows "tramp_at a e m' p (hr_slot r') (if enabled then hr_backup r else hr_hook r)"
    and "same_outside p (kTrampolineSize a) m m'"
    and "hr_backup r' = hr_backup r" "hr_hook r' = hr_hook r" "hr_enabled r' = enabled"
proof -
  let ?h = "if enabled then hr_backup r else hr_hook r"
  have "tramp_at a e m' p (hr_slot r') ?h \<and> same_outside p (kTrampolineSize a) m m'"
  proof (cases "odd (hr_slot r)")
    case True
    then have slot: "hr_slot r = p + 1"
      using at p arch by (auto dest!: real_arch_cases simp: tramp_at_def art_method_offset_def)
    obtain s2 m2 where w2: "WriteTrampoline a (patched a e) e p ?h m = (s2, m2)" by (metis prod.exhaust)
    then have m2: "m2 = m'" and r': "hr_slot r' = (if even s2 then s2 else p + 1)"
      using run True slot by (auto simp: set_enabled_def Let_def split: if_splits)
    note w = w2 [unfolded m2]
    have "odd s2 \<Longrightarrow> s2 = p + 1"
      using w p arch
      by (auto dest!: real_arch_cases simp: WriteTrampoline_def Let_def art_method_offset_def split: if_splits)
    then show ?thesis
      using WriteTrampoline_at [OF arch w] WriteTrampoline_frame [OF arch _ w] r' by auto
  next
    case False
    then have s: "hr_slot r = p + art_method_offset a" "tramp_mem a e p h m = m"
      using at p by (auto simp: tramp_at_def)
    have m': "m' = store (hr_slot r) (kPointerSize a) ?h m" and r': "hr_slot r' = hr_slot r"
      using run False by (auto simp: set_enabled_def Let_def)
    have "store (hr_slot r) (kPointerSize a) ?h (tramp_mem a e p h m) = tramp_mem a e p ?h m"
      by (simp add: tramp_mem_def s(1) store_store_same)
    then have m'': "m' = tramp_mem a e p ?h m" using m' s(2) by simp
    moreover have "tramp_mem a e p ?h m' = m'" by (simp add: m'' tramp_mem_idem [OF arch])
    moreover have "same_outside p (kTrampolineSize a) m m'"
      using slot_fits [OF arch] template_le_size [OF arch]
      by (auto simp: m' s(1) intro!: same_outside_store)
    ultimately show ?thesis by (simp add: tramp_at_def r' s(1))
  qed
  then show "tramp_at a e m' p (hr_slot r') ?h" "same_outside p (kTrampolineSize a) m m'" by auto
  show "hr_backup r' = hr_backup r" "hr_hook r' = hr_hook r" "hr_enabled r' = enabled"
    using run by (auto simp: set_enabled_def Let_def split: prod.splits if_splits)
qed

section \<open>Hooking and unhooking\<close>

text \<open>The circumstances of a hook: \<open>A\<close> are the methods there are, \<open>p\<close> is the slot the pool hands out, on
  a page of its own, and \<open>e\<close> is the offset of the entry point as the byte in the code.\<close>

definition hook_setting :: "art_statics \<Rightarrow> addr set \<Rightarrow> (nat \<times> memory) scope_call \<Rightarrow> 8 word \<Rightarrow> addr \<Rightarrow> bool" where
  "hook_setting S A f e p \<longleftrightarrow> real_arch (am_arch S) \<and> separate S A \<and> intrinsic_ok S \<and>
     unat e = entry_point_offset S \<and> unat e < 128 \<and> is_ptr S p \<and>
     (\<forall>x \<in> A. disj_ranges p (kTrampolineSize (am_arch S)) x (art_method_size S)) \<and>
     scopes_ok (blocks S A \<union> {p..<p + kTrampolineSize (am_arch S)}) f"

lemma hook_settingD:
  assumes "hook_setting S A f e p"
  shows "real_arch (am_arch S)" "separate S A" "wf_statics S" "intrinsic_ok S" "unat e = entry_point_offset S"
    "unat e < 128" "is_ptr S p"
    "x \<in> A \<Longrightarrow> disj_ranges p (kTrampolineSize (am_arch S)) x (art_method_size S)"
    "scopes_ok (blocks S A \<union> {p..<p + kTrampolineSize (am_arch S)}) f"
  using assms by (auto simp: hook_setting_def dest: separate_wf)

lemma touches_same_bytes:
  assumes "separate S A" "same_bytes (blocks S A) m m'"
  shows "touches S A B m m'"
  using same_bytes_method [OF separate_wf [OF assms(1)] assms(2)] by (simp add: touches_def)

lemma touches_outside:
  assumes "separate S A" "same_outside p n m m'" "\<And>x. x \<in> A \<Longrightarrow> disj_ranges p n x (art_method_size S)"
  shows "touches S A B m m'" "x \<in> A \<Longrightarrow> copy_of S m x m' x"
proof -
  have s: "same_bytes (blocks S A) m m'"
  proof (rule same_outside_bytes [OF assms(2)])
    fix x assume "x \<in> blocks S A"
    then obtain a where "a \<in> A" "a \<le> x" "x < a + art_method_size S" by (auto simp: blocks_def)
    then show "x < p \<or> p + n \<le> x" using assms(3) [of a] by (auto simp: disj_ranges_def)
  qed
  show "touches S A B m m'" by (rule touches_same_bytes [OF assms(1) s])
  show "copy_of S m x m' x" if "x \<in> A"
    by (rule copy_of_same_bytes, rule same_bytes_mono [OF s blocks_mono]) (use that in simp)
qed

lemma copy_of_same: "same_bytes X m m' \<Longrightarrow> blocks S A \<subseteq> X \<Longrightarrow> x \<in> A \<Longrightarrow> copy_of S m x m' x"
  by (rule copy_of_same_bytes) (meson blocks_mono empty_subsetI insert_subset same_bytes_mono)

text \<open>Patching stays off the trampoline.\<close>

lemma patch_off_code:
  assumes "separate S A" "a \<in> A" "b \<in> A" "a \<noteq> b" "intrinsic_ok S" "is_ptr S entry"
    and off: "disj_ranges p n a (art_method_size S)" "disj_ranges p n b (art_method_size S)"
  shows "same_bytes {p..<p + n} m (patch_methods S a b entry m)"
proof -
  note wf = separate_wf [OF assms(1)]
  let ?in = "\<lambda>c m m'. same_outside c (art_method_size S) m m'"
  have code: "same_bytes {p..<p + n} m m'" if "?in c m m'" "c = a \<or> c = b" for c m m'
    using that off by (intro same_outside_bytes [OF that(1)]) (auto simp: disj_ranges_def)
  have fl: "same_bytes {p..<p + n} m m'" if "flags_only S c m m'" "c = a \<or> c = b" for c m m'
    using code [OF flags_only_frame [OF wf that(1)] that(2)] .
  have cp: "same_bytes {p..<p + n} m (CopyFrom S b a m)" for m
    by (rule code [of b]) (simp_all add: CopyFrom_def same_outside_memcpy)
  have bk: "same_bytes {p..<p + n} m (BackupTo S a b m)" for m
    unfolding BackupTo_def Let_def
    using fl [OF flags_only_mutators(1) [of S a m]] cp [of "SetNonCompilable S a m"]
      fl [OF flags_only_mutators(2) [of S a "CopyFrom S b a (SetNonCompilable S a m)"]]
      fl [OF flags_only_mutators(3) [of S b "ClearFastInterpretFlag S a (CopyFrom S b a (SetNonCompilable S a m))"]]
    by (auto simp: same_bytes_def)
  show ?thesis
    unfolding patch_methods_def Let_def
    by (rule same_bytes_trans [OF fl [OF flags_only_SetNonIntrinsic [OF assms(5)]]
            same_bytes_trans [OF bk same_bytes_trans [OF fl [OF flags_only_mutators(1)]
              same_bytes_trans [OF code [OF SetEntryPoint_frame [OF wf]] fl [OF flags_only_mutators(12)]]]]]) simp_all
qed

lemma DoHook_run:
  assumes set: "hook_setting S A f e p" and ab: "target \<in> A" "backup \<in> A" "target \<noteq> backup"
    and run: "DoHook S H f sc (patched (am_arch S) e) e target hm backup (pool, m) = (slot, pool', m')"
    and nz: "slot \<noteq> 0" and next_p: "next_slot (am_arch S) sc pool = (Some p, pool1)"
  shows "pool' = pool1" "GetEntryPoint S m' target = p" "tramp_at (am_arch S) e m' p slot hm"
    "copy_of S m target m' backup" "touches S A {target, backup} m m'"
    "GetData S m' target = GetData S m target" "GetDeclaringClass S m' target = GetDeclaringClass S m target"
proof -
  note d = hook_settingD [OF set] and wf = hook_settingD(3) [OF set]
  let ?a = "am_arch S"
  define X where "X = blocks S A \<union> {p..<p + kTrampolineSize ?a}"
  obtain m1 m2 where b: "same_bytes X m m1" "same_bytes X m2 m'"
    and body: "(case GenerateTrampolineFor ?a sc (patched ?a e) e hm (pool, m1) of
          (None, pool, m) \<Rightarrow> (0, pool, m)
        | (Some (entrypoint, slot), pool, m) \<Rightarrow> (slot, pool, patch_methods S target backup entrypoint m)) =
      (slot, pool', m2)"
    by (rule in_scopes_ok [OF d(9) [folded X_def] run [unfolded DoHook_def]])
  obtain m3 where w: "WriteTrampoline ?a (patched ?a e) e p hm m1 = (slot, m3)"
    and m2: "m2 = patch_methods S target backup p m3" and pool: "pool' = pool1"
    using body next_p nz by (auto simp: GenerateTrampolineFor_def split: if_splits prod.splits)
  note fr = WriteTrampoline_frame [OF d(1) _ w, simplified]
  have X: "blocks S A \<subseteq> X" "{p..<p + kTrampolineSize ?a} \<subseteq> X" by (auto simp: X_def)
  note ps = patch_methods_spec [OF d(2) ab d(4,7), of m3, folded m2]
  have at3: "tramp_at ?a e m3 p slot hm" by (rule WriteTrampoline_at [OF d(1) w])
  have at2: "tramp_at ?a e m2 p slot hm"
    using tramp_at_same [OF d(1) patch_off_code [OF d(2) ab d(4,7) d(8) [OF ab(1)] d(8) [OF ab(2)]] order_refl at3]
    by (simp add: m2)
  note X1 = same_bytes_mono [OF b(1) X(1)] and X2 = same_bytes_mono [OF b(2) X(1)]
  note t = touches_same_bytes [OF d(2) X1, of "{}"] touches_outside(1) [OF d(2) fr d(8), of "{}"]
    touches_same_bytes [OF d(2) X2, of "{}"]
  show "pool' = pool1" by (rule pool)
  show "tramp_at ?a e m' p slot hm" by (rule tramp_at_same [OF d(1) b(2) X(2) at2])
  show "GetEntryPoint S m' target = p"
    using touchesD(1) [OF t(3) ab(1)] ps(1) by simp
  have t13: "touches S A {} m m3" using touches_trans [OF t(1,2)] .
  show "GetData S m' target = GetData S m target" "GetDeclaringClass S m' target = GetDeclaringClass S m target"
    using touchesD(2,4) [OF t13 ab(1)] touchesD(2,4) [OF t(3) ab(1)] ps(2,3) by simp_all
  show "touches S A {target, backup} m m'"
    using touches_trans [OF touches_mono [OF t13 empty_subsetI] touches_trans [OF ps(5)
        touches_mono [OF t(3) empty_subsetI]]] .
  have c: "copy_of S m target m3 target"
    using copy_of_trans [OF copy_of_same [OF b(1) X(1) ab(1)] touches_outside(2) [OF d(2) fr d(8) ab(1)]] .
  show "copy_of S m target m' backup"
    using copy_of_trans [OF c copy_of_trans [OF ps(4) copy_of_same [OF b(2) X(1) ab(2)]]] .
qed

text \<open>C2. A successful \<open>DoHook\<close> redirects the target and nothing else: calling the target now runs code
  that loads the hook into the first argument register and jumps to the hook's entry point, the
  backup is the target as it was, entry point and all, and no other method changes.\<close>

theorem hook_redirects:
  assumes set: "hook_setting S A f e p" and ab: "target \<in> A" "backup \<in> A" "target \<noteq> backup"
    and hm: "hm \<in> A - {target, backup}" "hm < 256 ^ psize S"
    and run: "DoHook S H f sc (patched (am_arch S) e) e target hm backup (pool, m) = (slot, pool', m')"
    and ok: "slot \<noteq> 0" and next_p: "next_slot (am_arch S) sc pool = (Some p, pool1)"
  shows "run_trampoline (am_arch S) m' (GetEntryPoint S m' target) = Some (hm, GetEntryPoint S m hm) \<and>
    copy_of S m target m' backup \<and> GetEntryPoint S m' backup = GetEntryPoint S m target \<and>
    touches S A {target, backup} m m'"
proof -
  note d = hook_settingD [OF set] and r = DoHook_run [OF set ab run ok next_p]
  have "GetEntryPoint S m' hm = GetEntryPoint S m hm" using touchesD(1) [OF r(5), of hm] hm(1) by simp
  then show ?thesis
    using tramp_at_run [OF d(1) hm(2) d(6) r(3)] r(2,4,5) copy_of_fields(1) [OF d(3) r(4)] d(5)
    by (simp add: GetEntryPoint_def)
qed

lemma DoUnHook_run:
  assumes set: "hook_setting S A f e p" and ab: "target \<in> A" "backup \<in> A" "target \<noteq> backup"
    and un: "DoUnHook S H f target backup (pool2, m2) = (r, pool3, m3)"
  shows "r" "pool3 = pool2" "copy_of S m2 backup m3 target" "GetAccessFlags S m3 target = GetAccessFlags S m2 target"
    "touches S A {target} m2 m3"
proof -
  note d = hook_settingD [OF set]
  define X where "X = blocks S A \<union> {p..<p + kTrampolineSize (am_arch S)}"
  have X: "blocks S A \<subseteq> X" by (auto simp: X_def)
  obtain m4 m5 where b: "same_bytes X m2 m4" "same_bytes X m5 m3"
    and body: "(\<lambda>(pool, m). (True, pool, unpatch_methods S target backup m)) (pool2, m4) = (r, pool3, m5)"
    by (rule in_scopes_ok [OF d(9) [folded X_def] un [unfolded DoUnHook_def]])
  have m5: "m5 = unpatch_methods S target backup m4" and r: "r" "pool3 = pool2" using body by auto
  note u = unpatch_spec [OF d(3) separate_apart [OF d(2) ab], of m4, folded m5]
  show "r" "pool3 = pool2" by (fact r)+
  show "copy_of S m2 backup m3 target"
    using copy_of_trans [OF copy_of_same [OF b(1) X ab(2)] copy_of_trans [OF u(1) copy_of_same [OF b(2) X ab(1)]]] .
  note X1 = same_bytes_mono [OF b(1) X] and X2 = same_bytes_mono [OF b(2) X]
  note t = touches_same_bytes [OF d(2) X1, of "{}"] touches_same_bytes [OF d(2) X2, of "{}"]
  show "GetAccessFlags S m3 target = GetAccessFlags S m2 target"
    using touchesD(3) [OF t(1) ab(1)] touchesD(3) [OF t(2) ab(1)] u(2) by simp
  show "touches S A {target} m2 m3"
    using touches_trans [OF touches_mono [OF t(1) empty_subsetI] touches_trans [OF
        touches_frame [OF d(2) ab(1) u(3)] touches_mono [OF t(2) empty_subsetI]]] .
qed

text \<open>C20. Unhooking gives the method back: whatever happens to the memory in between, as long as the
  backup's block is left alone, \<open>DoUnHook\<close> after \<open>DoHook\<close> makes every byte of the target what it was
  before the hook, except its access flags, which stay those of the hooked method.\<close>

theorem hook_unhook_roundtrip:
  assumes set: "hook_setting S A f e p" and ab: "target \<in> A" "backup \<in> A" "target \<noteq> backup"
    and run: "DoHook S H f sc (patched (am_arch S) e) e target hm backup (pool, m) = (slot, pool1, m1)"
    and ok: "slot \<noteq> 0" "next_slot (am_arch S) sc pool = (Some p, pool1)"
    and between: "same_bytes (blocks S {backup}) m1 m2"
    and un: "DoUnHook S H f target backup (pool2, m2) = (r, pool3, m3)"
  shows "r \<and> pool3 = pool2 \<and> copy_of S m target m3 target \<and> GetEntryPoint S m3 target = GetEntryPoint S m target \<and>
    GetAccessFlags S m3 target = GetAccessFlags S m2 target \<and> touches S A {target} m2 m3"
proof -
  note u = DoUnHook_run [OF set ab un]
  have c: "copy_of S m target m3 target"
    using copy_of_trans [OF DoHook_run(4) [OF set ab run ok] copy_of_trans [OF copy_of_same_bytes [OF between] u(3)]] .
  then show ?thesis using u copy_of_fields(1) [OF hook_settingD(3) [OF set] c] by simp
qed

text \<open>\<open>SetHookEnabled\<close> switches a hooked method between its hook and its backup and reports the state
  before; but it does so the wrong way round: enabling makes the trampoline jump to the backup, so
  that the hook is skipped, and disabling makes it jump to the hook.\<close>

theorem set_hook_enabled_inverted:
  assumes arch: "real_arch (am_arch S)" and ex: "is_executable F E meth"
    and t: "t = FromReflectedMethod S L E meth" and r: "hooked_methods R t = Some r"
    and en: "hr_enabled r \<noteq> enabled" and at: "tramp_at (am_arch S) e m p (hr_slot r) h" and p: "even p"
    and ptr: "is_ptr S (hr_hook r)" "is_ptr S (hr_backup r)" "unat e < 128"
    and run: "SetHookEnabled S L E F (patched (am_arch S) e) e meth enabled (R, m) = (res, R', m')"
  shows "res = hr_enabled r \<and> IsHooked R' t = hr_backup r \<and> backuped_methods R' = backuped_methods R \<and>
    (\<exists>entry. run_trampoline (am_arch S) m' p = Some (if enabled then hr_backup r else hr_hook r, entry)) \<and>
    same_outside p (kTrampolineSize (am_arch S)) m m'"
proof -
  obtain r' where se: "set_enabled (am_arch S) (patched (am_arch S) e) e enabled (r, m) = (r', m')"
    and R': "R' = R\<lparr> hooked_methods := (hooked_methods R)(t \<mapsto> r') \<rparr>" and res: "res = (\<not> enabled)"
    using run ex r en t by (auto simp: SetHookEnabled_def Let_def split: prod.splits)
  note s = set_enabled_at [OF arch at p se]
  let ?h = "if enabled then hr_backup r else hr_hook r"
  have "?h < 256 ^ kPointerSize (am_arch S)" using ptr(1,2) by (simp add: is_ptr_def)
  from tramp_at_run [OF arch this ptr(3) s(1)] show ?thesis
    using s(2,3) R' res en by (auto simp: IsHooked_def)
qed

section \<open>A hook on a 64-bit device\<close>

definition hook_calls :: sys_calls where
  "hook_calls = \<lparr> sc_page_size = 4096, sc_open = 0, sc_lseek = 0, sc_mmap_file = (\<lambda>_. None),
     sc_mmap_anon = Some 65536, sc_mprotect_ok = True \<rparr>"

lemma hook_calls_slot: "next_slot kArm64 hook_calls 0 = (Some 65536, 65537)"
  by (simp add: next_slot_def hook_calls_def map_trampoline_page_def set_count_def count_bits_def align_down_def
      get_count_def)

lemma arm64_fields [simp]:
  "am_arch arm64_statics = kArm64" "art_method_size arm64_statics = 32" "entry_point_offset arm64_statics = 24"
  "SetNotIntrinsic_fn arm64_statics = None"
  by (simp_all add: arm64_statics_def)

lemma demo_setting: "hook_setting arm64_statics {64, 128, 256} (\<lambda>v args s. s) 24 65536"
proof -
  have "separate arm64_statics {64, 128, 256}"
    using wf_arm64 by (auto simp: separate_def apart_def disj_ranges_def)
  then show ?thesis
    by (simp add: hook_setting_def disj_ranges_def real_arch_def intrinsic_ok_def is_ptr_def scopes_ok_def)
qed

lemma in_scopes_id: "in_scopes H why (\<lambda>v args s. s) body s = body s"
  by (simp add: in_scopes_def ScopedGCCriticalSection_begin_def ScopedSuspendAll_begin_def
      ScopedSuspendAll_end_def ScopedGCCriticalSection_end_def scoped_call_def split: option.split prod.split)

lemma demo_DoHook:
  "\<exists>m'. DoHook arm64_statics hook_state_init (\<lambda>v args s. s) hook_calls (patched kArm64 24) 24 64 128 256 (0, m)
     = (65537, 65537, m')"
proof -
  have "sc_mprotect_ok hook_calls" by (simp add: hook_calls_def)
  then show ?thesis
    by (simp add: DoHook_def GenerateTrampolineFor_def WriteTrampoline_def Let_def in_scopes_id hook_calls_slot)
qed

theorem hook_redirects_witness:
  "\<exists>m'. DoHook arm64_statics hook_state_init (\<lambda>v args s. s) hook_calls (patched kArm64 24) 24 64 128 256 (0, demo_mem)
      = (65537, 65537, m') \<and>
     run_trampoline kArm64 m' (GetEntryPoint arm64_statics m' 64) = Some (128, GetEntryPoint arm64_statics demo_mem 128) \<and>
     GetEntryPoint arm64_statics m' 256 = 16"
proof -
  obtain m' where run: "DoHook arm64_statics hook_state_init (\<lambda>v args s. s) hook_calls (patched kArm64 24) 24 64 128 256
      (0, demo_mem) = (65537, 65537, m')" using demo_DoHook by blast
  show ?thesis
    using hook_redirects [OF demo_setting _ _ _ _ _ run [folded arm64_fields(1)] _ hook_calls_slot [folded arm64_fields(1)]]
      run demo_mem_eval by (simp add: arm64_statics_def)
qed

theorem hook_unhook_roundtrip_witness:
  "\<exists>m1 m3. DoHook arm64_statics hook_state_init (\<lambda>v args s. s) hook_calls (patched kArm64 24) 24 64 128 256 (0, demo_mem)
      = (65537, 65537, m1) \<and>
     DoUnHook arm64_statics hook_state_init (\<lambda>v args s. s) 64 256 (65537, m1(0 := 1)) = (True, 65537, m3) \<and>
     GetEntryPoint arm64_statics m3 64 = 16"
proof -
  obtain m1 where run: "DoHook arm64_statics hook_state_init (\<lambda>v args s. s) hook_calls (patched kArm64 24) 24 64 128 256
      (0, demo_mem) = (65537, 65537, m1)" using demo_DoHook by blast
  obtain r p3 m3 where un: "DoUnHook arm64_statics hook_state_init (\<lambda>v args s. s) 64 256 (65537, m1(0 := 1)) = (r, p3, m3)"
    by (metis prod_cases3)
  have "same_bytes (blocks arm64_statics {256}) m1 (m1(0 := 1))" by (auto simp: same_bytes_def blocks_def)
  then show ?thesis
    using hook_unhook_roundtrip [OF demo_setting _ _ _ run [folded arm64_fields(1)] _ hook_calls_slot [folded arm64_fields(1)] _ un]
      run un demo_mem_eval by auto
qed

theorem set_hook_enabled_inverted_witness:
  "\<exists>m R' m' entry. tramp_at kArm64 24 m 65536 65537 128 \<and>
     SetHookEnabled arm64_statics \<lparr> al_art_method_field = 0, al_abstract_method = 0, al_decode = None \<rparr> demo_env
       reflection_init (patched kArm64 24) 24 62 False (RecordHooked 64 128 256 7 65537 9 empty_registry, m) = (True, R', m') \<and>
     run_trampoline kArm64 m' 65536 = Some (128, entry)"
proof -
  let ?L = "\<lparr> al_art_method_field = 0, al_abstract_method = 0, al_decode = None \<rparr>"
  let ?R = "RecordHooked 64 128 256 7 65537 9 empty_registry"
  obtain s m where w: "WriteTrampoline kArm64 (patched kArm64 24) 24 65536 128 (\<lambda>_. 0) = (s, m)" by (metis prod.exhaust)
  then have at: "tramp_at kArm64 24 m 65536 65537 128"
    using WriteTrampoline_at [OF _ w] by (simp add: real_arch_def WriteTrampoline_def)
  obtain res R' m' where run: "SetHookEnabled arm64_statics ?L demo_env reflection_init (patched kArm64 24) 24 62 False
      (?R, m) = (res, R', m')" by (metis prod_cases3)
  have ex: "is_executable reflection_init demo_env 62" by (simp add: is_executable_def demo_env_def)
  have t: "64 = FromReflectedMethod arm64_statics ?L demo_env 62" by (simp add: FromReflectedMethod_def demo_env_def)
  let ?r = "\<lparr> hr_hook = 128, hr_backup = 256, hr_slot = 65537, hr_backup_method = 9, hr_enabled = True \<rparr>"
  have r: "hooked_methods ?R 64 = Some ?r" by (simp add: RecordHooked_def empty_registry_def)
  have "res = hr_enabled ?r \<and> (\<exists>entry. run_trampoline kArm64 m' 65536 = Some (128, entry))"
    using set_hook_enabled_inverted [of arm64_statics reflection_init demo_env 62 64 ?L ?R ?r False 24 m 65536 128 res R' m']
      ex t r at run by (simp add: real_arch_def is_ptr_def)
  then show ?thesis using run at by auto
qed

end
