(* ===== verification/Hooker_Code.thy ===== *)
theory Hooker_Code
  imports Prelude
begin

text \<open>
  The Dalvik code of a hooker class, as \<open>BuildDex\<close> of lsplant.cc builds it: the method that boxes its
  parameters into an array and calls the callback, and the placeholder of the backup.

  The builder is a library of its own; an \<open>insn\<close> is a call of it. The second half gives the
  instructions their meaning on a register machine, after the description of the Dalvik bytecode,
  and shows what the hook method does when it runs. Local registers are numbered in the order
  \<open>AllocRegister\<close> hands them out; a wide value takes two registers.
\<close>

section \<open>Types\<close>

datatype dtype = TObject | TVoid | TPrim char | TClass string | TArray dtype | TBox dtype

definition from_descriptor :: "char \<Rightarrow> dtype" where
  "from_descriptor c = (if c = CHR ''V'' then TVoid else TPrim c)"

definition shorty_type :: "char \<Rightarrow> dtype" where
  "shorty_type c = (if c = CHR ''L'' then TObject else from_descriptor c)"

definition parameter_types :: "bool \<Rightarrow> string \<Rightarrow> dtype list" where
  "parameter_types is_static shorty =
     (if \<not> is_static then [TObject] else []) @ map shorty_type (tl shorty)"

definition is_wide :: "dtype \<Rightarrow> bool" where
  "is_wide t \<longleftrightarrow> t = TPrim (CHR ''J'') \<or> t = TPrim (CHR ''D'')"

definition is_primitive :: "dtype \<Rightarrow> bool" where
  "is_primitive t \<longleftrightarrow> (\<exists>c. t = TPrim c)"

lemma is_primitive_code [code, simp]:
  "is_primitive (TPrim c)" "\<not> is_primitive TObject" "\<not> is_primitive TVoid" "\<not> is_primitive (TClass n)"
  "\<not> is_primitive (TArray t)" "\<not> is_primitive (TBox t)"
  by (auto simp: is_primitive_def)

section \<open>Code\<close>

datatype reg = Local nat | Param nat

datatype insn =
    Const reg int
  | ConstWide reg int
  | NewArray reg dtype reg
  | BoxIfPrimitive reg dtype reg
  | AputObject reg reg reg
  | SgetObject reg
  | InvokeVirtual reg "reg list"
  | InvokeStatic reg "reg list"
  | CheckCast reg dtype
  | UnboxIfPrimitive reg dtype reg
  | ReturnVoid
  | Return reg bool bool

text \<open>\<open>tmp\<close> and \<open>hook_params_array\<close> are the first two registers.\<close>

definition tmp :: reg where "tmp = Local 0"
definition hook_params_array :: reg where "hook_params_array = Local 1"

fun store_args :: "dtype list \<Rightarrow> nat \<Rightarrow> nat \<Rightarrow> insn list" where
  "store_args [] k j = []"
| "store_args (t # ts) k j =
     [BoxIfPrimitive (Param j) t (Param j), Const tmp (int k), AputObject hook_params_array (Param j) tmp] @
     store_args ts (k + 1) (if is_wide t then j + 2 else j + 1)"

definition call_code :: "bool \<Rightarrow> bool \<Rightarrow> bool \<Rightarrow> nat \<Rightarrow> insn list" where
  "call_code is_static is_native_api pack shorty_size =
     (if pack then [InvokeVirtual tmp [tmp, hook_params_array]]
      else if is_static then
        (let zero = (if shorty_size = 1 then Local 2 else Param 0)
         in [Const zero 0,
             if is_native_api then InvokeStatic tmp [zero, hook_params_array, tmp]
             else InvokeVirtual tmp [tmp, zero, hook_params_array]])
      else [if is_native_api then InvokeStatic tmp [Param 0, hook_params_array, tmp]
            else InvokeVirtual tmp [tmp, Param 0, hook_params_array]])"

definition return_code :: "dtype \<Rightarrow> insn list" where
  "return_code return_type =
     (if return_type = TVoid then [ReturnVoid]
      else if is_primitive return_type then
        [CheckCast tmp (TBox return_type), UnboxIfPrimitive tmp (TBox return_type) tmp,
         Return tmp False (is_wide return_type)]
      else [Return tmp True False])"

definition hook_code :: "string \<Rightarrow> bool \<Rightarrow> bool \<Rightarrow> bool \<Rightarrow> insn list" where
  "hook_code shorty is_static is_native_api pack =
     (let types = parameter_types is_static shorty
      in [Const tmp (int (if pack then length types else length shorty - 1)),
          NewArray hook_params_array TObject tmp] @
         (if pack \<or> is_static then store_args types 0 0 else store_args (tl types) 0 1) @
         [SgetObject tmp] @ call_code is_static is_native_api pack (length shorty) @
         return_code (shorty_type (hd shorty)))"

text \<open>The backup's code is never run as it stands (the backup becomes a copy of the target); it returns a
  zero, held in a parameter's register when there is room.\<close>

definition backup_code :: "string \<Rightarrow> bool \<Rightarrow> bool \<Rightarrow> insn list" where
  "backup_code shorty is_static pack =
     (let return_type = shorty_type (hd shorty);
          zero = (\<lambda>n. if \<not> pack \<and> length shorty > n then Param (if is_static then 0 else 1) else Local 0)
      in if return_type = TVoid then [ReturnVoid]
         else if is_wide return_type then [ConstWide (zero 2) 0, Return (zero 2) False True]
         else [Const (zero 1) 0, Return (zero 1) (\<not> is_primitive return_type) False])"

section \<open>The register machine\<close>

text \<open>A register holds 32 bits: a number (the null reference is 0), a primitive value with its type (the
  second half of a wide one is \<open>DHigh\<close>), a boxed one, a reference or an array.\<close>

datatype dval = DInt int | DPrim char nat | DHigh | DBoxed char nat | DRef addr | DArr nat

text \<open>A call of the callback: the object it is called on (none for the static native method), the
  receiver, the arguments as the elements of the array, and the object passed at the end. In the
  packed form the receiver is in the array.\<close>

datatype callback = Callback "dval option" "dval option" "dval list" "dval option"

record machine =
  mc_locals :: "nat \<Rightarrow> dval"
  mc_params :: "dval list"
  mc_arrays :: "dval list list"
  mc_calls :: "callback list"

datatype outcome = Next machine | Returned "dval option" machine | Stuck

definition get_reg :: "machine \<Rightarrow> reg \<Rightarrow> dval option" where
  "get_reg M r = (case r of Local n \<Rightarrow> Some (mc_locals M n)
     | Param n \<Rightarrow> if n < length (mc_params M) then Some (mc_params M ! n) else None)"

definition put_reg :: "reg \<Rightarrow> dval \<Rightarrow> machine \<Rightarrow> machine option" where
  "put_reg r v M = (case r of
       Local n \<Rightarrow> Some (M\<lparr> mc_locals := (mc_locals M)(n := v) \<rparr>)
     | Param n \<Rightarrow> if n < length (mc_params M) then Some (M\<lparr> mc_params := (mc_params M)[n := v] \<rparr>) else None)"

definition next_reg :: "reg \<Rightarrow> reg" where
  "next_reg r = (case r of Local n \<Rightarrow> Local (n + 1) | Param n \<Rightarrow> Param (n + 1))"

definition go :: "machine option \<Rightarrow> outcome" where
  "go x = (case x of Some M \<Rightarrow> Next M | None \<Rightarrow> Stuck)"

definition elements :: "machine \<Rightarrow> dval \<Rightarrow> dval list option" where
  "elements M v = (case v of DArr a \<Rightarrow> if a < length (mc_arrays M) then Some (mc_arrays M ! a) else None | _ \<Rightarrow> None)"

text \<open>\<open>field\<close> is the content of the hooker's static field, \<open>result\<close> what the callback returns.\<close>

definition call_back :: "(callback \<Rightarrow> dval) \<Rightarrow> reg \<Rightarrow> callback \<Rightarrow> machine \<Rightarrow> outcome" where
  "call_back result dst c M = go (put_reg dst (result c) (M\<lparr> mc_calls := mc_calls M @ [c] \<rparr>))"

fun step :: "dval \<Rightarrow> (callback \<Rightarrow> dval) \<Rightarrow> insn \<Rightarrow> machine \<Rightarrow> outcome" where
  "step field result (Const r n) M = go (put_reg r (DInt n) M)"
| "step field result (ConstWide r n) M =
     (case put_reg r (DInt n) M of Some M \<Rightarrow> go (put_reg (next_reg r) DHigh M) | None \<Rightarrow> Stuck)"
| "step field result (NewArray r t sz) M =
     (case get_reg M sz of
        Some (DInt n) \<Rightarrow> if n < 0 then Stuck
          else go (put_reg r (DArr (length (mc_arrays M)))
                 (M\<lparr> mc_arrays := mc_arrays M @ [replicate (nat n) (DInt 0)] \<rparr>))
      | _ \<Rightarrow> Stuck)"
| "step field result (BoxIfPrimitive dst t src) M =
     (if \<not> is_primitive t then Next M
      else (case get_reg M src of
          Some (DPrim c v) \<Rightarrow> if t \<noteq> TPrim c then Stuck
            else if is_wide t \<and> get_reg M (next_reg src) \<noteq> Some DHigh then Stuck
            else go (put_reg dst (DBoxed c v) M)
        | _ \<Rightarrow> Stuck))"
| "step field result (AputObject arr val idx) M =
     (case (get_reg M arr, get_reg M val, get_reg M idx) of
        (Some (DArr a), Some v, Some (DInt i)) \<Rightarrow>
          if a < length (mc_arrays M) \<and> 0 \<le> i \<and> nat i < length (mc_arrays M ! a)
          then Next (M\<lparr> mc_arrays := (mc_arrays M)[a := (mc_arrays M ! a)[nat i := v]] \<rparr>)
          else Stuck
      | _ \<Rightarrow> Stuck)"
| "step field result (SgetObject r) M = go (put_reg r field M)"
| "step field result (InvokeVirtual dst rs) M =
     (case map (get_reg M) rs of
        [Some obj, Some arr] \<Rightarrow>
          (case elements M arr of
             Some xs \<Rightarrow> if obj = DInt 0 then Stuck else call_back result dst (Callback (Some obj) None xs None) M
           | None \<Rightarrow> Stuck)
      | [Some obj, Some rcv, Some arr] \<Rightarrow>
          (case elements M arr of
             Some xs \<Rightarrow> if obj = DInt 0 then Stuck else call_back result dst (Callback (Some obj) (Some rcv) xs None) M
           | None \<Rightarrow> Stuck)
      | _ \<Rightarrow> Stuck)"
| "step field result (InvokeStatic dst rs) M =
     (case map (get_reg M) rs of
        [Some rcv, Some arr, Some data] \<Rightarrow>
          (case elements M arr of
             Some xs \<Rightarrow> call_back result dst (Callback None (Some rcv) xs (Some data)) M
           | None \<Rightarrow> Stuck)
      | _ \<Rightarrow> Stuck)"
| "step field result (CheckCast r t) M =
     (case get_reg M r of
        Some (DBoxed c v) \<Rightarrow> if t = TBox (TPrim c) then Next M else Stuck
      | Some (DInt n) \<Rightarrow> if n = 0 then Next M else Stuck
      | _ \<Rightarrow> Stuck)"
| "step field result (UnboxIfPrimitive dst t src) M =
     (case get_reg M src of
        Some (DBoxed c v) \<Rightarrow>
          (case put_reg dst (DPrim c v) M of
             Some M \<Rightarrow> if is_wide (TPrim c) then go (put_reg (next_reg dst) DHigh M) else Next M
           | None \<Rightarrow> Stuck)
      | _ \<Rightarrow> Stuck)"
| "step field result ReturnVoid M = Returned None M"
| "step field result (Return r is_object wide) M =
     (case get_reg M r of Some v \<Rightarrow> Returned (Some v) M | None \<Rightarrow> Stuck)"

fun run_code :: "dval \<Rightarrow> (callback \<Rightarrow> dval) \<Rightarrow> insn list \<Rightarrow> machine \<Rightarrow> outcome" where
  "run_code field result [] M = Next M"
| "run_code field result (i # is) M =
     (case step field result i M of Next M \<Rightarrow> run_code field result is M | out \<Rightarrow> out)"

section \<open>What the hook method does\<close>

fun boxed :: "dtype \<Rightarrow> dval \<Rightarrow> dval" where
  "boxed (TPrim t) (DPrim c v) = DBoxed c v"
| "boxed t v = v"

definition arg_ok :: "dtype \<Rightarrow> dval \<Rightarrow> bool" where
  "arg_ok t v \<longleftrightarrow> v \<noteq> DHigh \<and> (\<forall>c. t = TPrim c \<longrightarrow> (\<exists>b. v = DPrim c b))"

text \<open>How the caller passes arguments: a wide one takes two registers.\<close>

fun layout :: "dtype list \<Rightarrow> dval list \<Rightarrow> dval list" where
  "layout (t # ts) (v # vs) = (if is_wide t then [v, DHigh] else [v]) @ layout ts vs"
| "layout _ _ = []"

lemma run_code_append:
  "run_code f g is M = Next M' \<Longrightarrow> run_code f g (is @ js) M = run_code f g js M'"
  by (induction "is" arbitrary: M) (auto split: outcome.splits)

lemmas reg_simps = get_reg_def put_reg_def next_reg_def go_def tmp_def hook_params_array_def

text \<open>Boxing and storing one argument.\<close>

lemma store_one:
  assumes arg: "arg_ok t v" and p: "mc_params M = pre @ layout [t] [v] @ post" and j: "j = length pre"
    and arr: "mc_locals M 1 = DArr a" "a < length (mc_arrays M)" and k: "k < length (mc_arrays M ! a)"
  shows "\<exists>M'. run_code f g [BoxIfPrimitive (Param j) t (Param j), Const tmp (int k),
      AputObject hook_params_array (Param j) tmp] M = Next M' \<and>
    mc_locals M' 1 = DArr a \<and> mc_params M' = pre @ (boxed t v # tl (layout [t] [v])) @ post \<and>
    mc_arrays M' = (mc_arrays M)[a := (mc_arrays M ! a)[k := boxed t v]] \<and> mc_calls M' = mc_calls M"
proof (cases "is_primitive t")
  case True
  then obtain c where t: "t = TPrim c" by (auto simp: is_primitive_def)
  then obtain b where v: "v = DPrim c b" using arg by (auto simp: arg_ok_def)
  have up: "(xs @ x # ys)[length xs := z] = xs @ z # ys" for xs ys :: "dval list" and x z by simp
  show ?thesis
    using p j arr k by (cases "is_wide t") (auto simp: t v reg_simps nth_append)
next
  case False
  then have b: "boxed t v = v" and w: "\<not> is_wide t" by (cases t; auto simp: is_wide_def)+
  show ?thesis using p j arr k False by (simp add: b w reg_simps nth_append)
qed

lemma store_args_run:
  assumes "list_all2 arg_ok ts vs" "mc_params M = pre @ layout ts vs" "j = length pre"
    "mc_locals M 1 = DArr a" "a < length (mc_arrays M)" "mc_arrays M ! a = xs @ zs" "length xs = k"
    "length zs = length ts"
  shows "\<exists>M'. run_code f g (store_args ts k j) M = Next M' \<and> mc_locals M' 1 = DArr a \<and>
    length (mc_params M') = length (mc_params M) \<and> take j (mc_params M') = pre \<and>
    mc_arrays M' = (mc_arrays M)[a := xs @ map2 boxed ts vs] \<and> mc_calls M' = mc_calls M"
  using assms
proof (induction ts vs arbitrary: M pre j xs zs k rule: list_all2_induct)
  case Nil
  then show ?case by (intro exI [of _ M]) auto
next
  case (Cons t ts v vs)
  obtain z zs' where z: "zs = z # zs'" "length zs' = length ts" using Cons.prems(7) by (cases zs) auto
  have p: "mc_params M = pre @ layout [t] [v] @ layout ts vs" using Cons.prems(1) by simp
  obtain M1 where 1: "run_code f g [BoxIfPrimitive (Param j) t (Param j), Const tmp (int k),
      AputObject hook_params_array (Param j) tmp] M = Next M1" "mc_locals M1 1 = DArr a"
    "mc_params M1 = pre @ (boxed t v # tl (layout [t] [v])) @ layout ts vs"
    "mc_arrays M1 = (mc_arrays M)[a := (mc_arrays M ! a)[k := boxed t v]]" "mc_calls M1 = mc_calls M"
    using store_one [OF Cons.hyps(1) p Cons.prems(2,3,4), of k f g] Cons.prems(5-7) by auto
  let ?pre = "pre @ boxed t v # tl (layout [t] [v])" and ?j = "if is_wide t then j + 2 else j + 1"
  have arr: "mc_arrays M1 ! a = (xs @ [boxed t v]) @ zs'"
    using 1(4) Cons.prems(4-6) z(1) by (simp add: list_update_append)
  have a1: "a < length (mc_arrays M1)" using 1(4) Cons.prems(4) by simp
  have p1: "mc_params M1 = ?pre @ layout ts vs" using 1(3) by simp
  have j': "?j = length ?pre" by (simp add: Cons.prems(2))
  have k1: "length (xs @ [boxed t v]) = k + 1" using Cons.prems(6) by simp
  obtain M2 where 2: "run_code f g (store_args ts (k + 1) ?j) M1 = Next M2" "mc_locals M2 1 = DArr a"
    "length (mc_params M2) = length (mc_params M1)" "take ?j (mc_params M2) = ?pre"
    "mc_arrays M2 = (mc_arrays M1)[a := (xs @ [boxed t v]) @ map2 boxed ts vs]" "mc_calls M2 = mc_calls M1"
    using Cons.IH [OF p1 j' 1(2) a1 arr k1 z(2)] by blast
  have "take j (mc_params M2) = take j (take ?j (mc_params M2))" by simp
  then have "take j (mc_params M2) = pre" using 2(4) Cons.prems(2) by simp
  moreover have "length (mc_params M1) = length (mc_params M)" using 1(3) p by simp
  ultimately show ?case
    using run_code_append [OF 1(1), of "store_args ts (k + 1) ?j"] 1 2 by (intro exI [of _ M2]) simp
qed

text \<open>The callback that has to be called, and the value that has to be returned.\<close>

definition expected_call :: "bool \<Rightarrow> bool \<Rightarrow> bool \<Rightarrow> dval \<Rightarrow> dtype list \<Rightarrow> dval list \<Rightarrow> callback" where
  "expected_call is_static is_native_api pack field types vs =
     (let args = map2 boxed types vs;
          obj = (if is_native_api then None else Some field);
          data = (if is_native_api then Some field else None)
      in if pack then Callback obj None args data
         else if is_static then Callback obj (Some (DInt 0)) args data
         else Callback obj (Some (hd vs)) (tl args) data)"

definition ret_ok :: "dtype \<Rightarrow> dval \<Rightarrow> bool" where
  "ret_ok t v \<longleftrightarrow> (\<forall>c. t = TPrim c \<longrightarrow> (\<exists>b. v = DBoxed c b))"

definition unboxed :: "dtype \<Rightarrow> dval \<Rightarrow> dval option" where
  "unboxed t v =
     (if t = TVoid then None
      else if is_primitive t then (case v of DBoxed c b \<Rightarrow> Some (DPrim c b) | _ \<Rightarrow> None)
      else Some v)"

lemma return_code_run:
  assumes "mc_locals M 0 = v" "ret_ok t v"
  shows "\<exists>M'. run_code f g (return_code t) M = Returned (unboxed t v) M' \<and> mc_calls M' = mc_calls M"
proof (cases "is_primitive t")
  case True
  then obtain c where t: "t = TPrim c" by (auto simp: is_primitive_def)
  then obtain b where v: "v = DBoxed c b" using assms(2) by (auto simp: ret_ok_def)
  show ?thesis using assms(1) by (auto simp: return_code_def t v unboxed_def reg_simps)
next
  case False
  then show ?thesis using assms(1) by (auto simp: return_code_def unboxed_def reg_simps)
qed

lemma call_code_run:
  assumes arr: "mc_locals M 1 = DArr 0" "mc_arrays M = [bs]"
    and field: "field \<noteq> DInt 0" and nat: "is_native_api \<Longrightarrow> \<not> pack"
    and rcv: "\<not> pack \<Longrightarrow> if is_static then rcv = DInt 0 \<and> (n = 1 \<or> mc_params M \<noteq> [])
        else mc_params M \<noteq> [] \<and> hd (mc_params M) = rcv"
    and c: "c = Callback (if is_native_api then None else Some field) (if pack then None else Some rcv) bs
        (if is_native_api then Some field else None)"
  shows "\<exists>M'. run_code field g (SgetObject tmp # call_code is_static is_native_api pack n) M = Next M' \<and>
    mc_locals M' 0 = g c \<and> mc_calls M' = mc_calls M @ [c]"
  using assms
  by (cases pack; cases is_static; cases is_native_api)
    (auto simp: call_code_def reg_simps elements_def call_back_def hd_conv_nth Let_def)

text \<open>The arguments that go into the array: all of them, or all but the receiver.\<close>

lemma store_args_all:
  assumes shorty: "shorty \<noteq> []"
    and args: "list_all2 arg_ok types vs" "types = parameter_types is_static shorty"
    and n: "n = (if pack then length types else length shorty - 1)"
    and M1: "mc_locals M1 1 = DArr 0" "mc_params M1 = layout types vs" "mc_arrays M1 = [replicate n (DInt 0)]"
  obtains M2 where
    "run_code field g (if pack \<or> is_static then store_args types 0 0 else store_args (tl types) 0 1) M1 = Next M2"
    "mc_locals M2 1 = DArr 0" "mc_calls M2 = mc_calls M1" "length (mc_params M2) = length (layout types vs)"
    "mc_arrays M2 = [if pack \<or> is_static then map2 boxed types vs else tl (map2 boxed types vs)]"
    "pack \<or> is_static \<or> (mc_params M2 \<noteq> [] \<and> hd (mc_params M2) = hd vs)"
proof (cases "pack \<or> is_static")
  case True
  have "n = length types" using True shorty by (auto simp: n args(2) parameter_types_def)
  then show ?thesis
    using that store_args_run [OF args(1), of M1 "[]" 0 0 "[]" "replicate n (DInt 0)" 0 field g] M1 True by auto
next
  case False
  then obtain ts where t: "types = TObject # ts" by (simp add: args(2) parameter_types_def)
  have vs: "length vs = length types" using args(1) by (auto dest: list_all2_lengthD)
  obtain r ws where r: "vs = r # ws" using vs t by (cases vs) auto
  have a: "list_all2 arg_ok ts ws" using args(1) by (simp add: t r)
  have l: "mc_params M1 = [r] @ layout ts ws" using M1(2) by (simp add: t r is_wide_def)
  have "length types = Suc (length shorty - 1)" using False shorty by (simp add: args(2) parameter_types_def)
  then have n': "n = length ts" using False n t by simp
  obtain M2 where 2: "run_code field g (store_args ts 0 1) M1 = Next M2" "mc_locals M2 1 = DArr 0"
    "length (mc_params M2) = length (mc_params M1)" "take 1 (mc_params M2) = [r]"
    "mc_arrays M2 = (mc_arrays M1)[0 := [] @ map2 boxed ts ws]" "mc_calls M2 = mc_calls M1"
    using store_args_run [OF a l, of 1 0 "[]" "replicate n (DInt 0)" 0 field g] M1(1,3) n' by auto
  have "mc_params M2 \<noteq> [] \<and> hd (mc_params M2) = r" using 2(4) by (cases "mc_params M2") auto
  moreover have "map2 boxed ts ws = tl (map2 boxed types vs)" by (simp add: t r)
  moreover have "mc_arrays M2 = [map2 boxed ts ws]" using 2(5) M1(3) by simp
  ultimately show ?thesis using that [of M2] 2 M1(2) False r t by simp
qed

lemma hook_code_run:
  assumes shorty: "shorty \<noteq> []" and nat: "is_native_api \<Longrightarrow> \<not> pack"
    and args: "list_all2 arg_ok types vs" "types = parameter_types is_static shorty"
    and field: "field \<noteq> DInt 0"
    and M: "mc_params M = layout types vs" "mc_arrays M = []"
    and c: "c = expected_call is_static is_native_api pack field types vs"
    and ret: "ret_ok (shorty_type (hd shorty)) (g c)"
  shows "\<exists>M'. run_code field g (hook_code shorty is_static is_native_api pack) M =
      Returned (unboxed (shorty_type (hd shorty)) (g c)) M' \<and> mc_calls M' = mc_calls M @ [c]"
proof -
  let ?n = "if pack then length types else length shorty - 1"
  let ?start = "[Const tmp (int ?n), NewArray hook_params_array TObject tmp]"
  let ?store = "if pack \<or> is_static then store_args types 0 0 else store_args (tl types) 0 1"
  have len: "length types = (if is_static then 0 else 1) + (length shorty - 1)"
    using shorty by (simp add: args(2) parameter_types_def)
  obtain M1 where 1: "run_code field g ?start M = Next M1" "mc_locals M1 1 = DArr 0" "mc_params M1 = layout types vs"
    "mc_arrays M1 = [replicate ?n (DInt 0)]" "mc_calls M1 = mc_calls M"
    using M by (simp add: reg_simps)
  have vs: "length vs = length types" using args(1) by (auto dest: list_all2_lengthD)
  obtain M2 where 2: "run_code field g ?store M1 = Next M2" "mc_locals M2 1 = DArr 0" "mc_calls M2 = mc_calls M1"
    "length (mc_params M2) = length (layout types vs)"
    "mc_arrays M2 = [if pack \<or> is_static then map2 boxed types vs else tl (map2 boxed types vs)]"
    "pack \<or> is_static \<or> (mc_params M2 \<noteq> [] \<and> hd (mc_params M2) = hd vs)"
    by (rule store_args_all [OF shorty args refl 1(2-4)])
  have pn: "is_static \<Longrightarrow> length shorty \<noteq> 1 \<Longrightarrow> mc_params M2 \<noteq> []"
  proof -
    assume "is_static" "length shorty \<noteq> 1"
    then have "types \<noteq> []" using len shorty by (cases shorty) auto
    then have "layout types vs \<noteq> []" using vs by (cases types; cases vs) auto
    then show "mc_params M2 \<noteq> []" using 2(4) by auto
  qed
  let ?rcv = "if is_static then DInt 0 else hd vs"
  let ?bs = "if pack \<or> is_static then map2 boxed types vs else tl (map2 boxed types vs)"
  have ceq: "c = Callback (if is_native_api then None else Some field) (if pack then None else Some ?rcv) ?bs
      (if is_native_api then Some field else None)"
    by (simp add: c expected_call_def Let_def)
  have rcv: "if is_static then ?rcv = DInt 0 \<and> (length shorty = 1 \<or> mc_params M2 \<noteq> [])
      else mc_params M2 \<noteq> [] \<and> hd (mc_params M2) = ?rcv" if "\<not> pack"
    using pn 2(6) that by auto
  obtain M3 where 3: "run_code field g (SgetObject tmp # call_code is_static is_native_api pack (length shorty)) M2 = Next M3"
    "mc_locals M3 0 = g c" "mc_calls M3 = mc_calls M2 @ [c]"
    using call_code_run [OF 2(2,5) field nat rcv ceq] by blast
  obtain M4 where 4: "run_code field g (return_code (shorty_type (hd shorty))) M3 =
      Returned (unboxed (shorty_type (hd shorty)) (g c)) M4" "mc_calls M4 = mc_calls M3"
    using return_code_run [OF 3(2) ret] by blast
  have h: "hook_code shorty is_static is_native_api pack =
      ?start @ (?store @ ((SgetObject tmp # call_code is_static is_native_api pack (length shorty)) @
        return_code (shorty_type (hd shorty))))"
    by (simp add: hook_code_def args(2) Let_def)
  show ?thesis
    unfolding h run_code_append [OF 1(1)] run_code_append [OF 2(1)] run_code_append [OF 3(1)]
    using 4 3(3) 2(3) 1(5) by auto
qed

text \<open>C7. The hook method, run with any arguments of the target's types, calls the callback exactly once,
  with the receiver (null for a static method) and an array of the arguments in order, primitives
  boxed, or with the receiver and the arguments in one array when they are packed; and it returns
  what the callback returns, unboxed to the target's return type.\<close>

theorem hook_method_calls_callback:
  assumes shorty: "shorty \<noteq> []" and nat: "is_native_api \<Longrightarrow> \<not> pack"
    and args: "list_all2 arg_ok types vs" "types = parameter_types is_static shorty"
    and field: "field \<noteq> DInt 0"
    and c: "c = expected_call is_static is_native_api pack field types vs"
    and ret: "ret_ok (shorty_type (hd shorty)) (callback c)"
  shows "\<exists>M'. run_code field callback (hook_code shorty is_static is_native_api pack)
      \<lparr> mc_locals = locals, mc_params = layout types vs, mc_arrays = [], mc_calls = [] \<rparr> =
      Returned (unboxed (shorty_type (hd shorty)) (callback c)) M' \<and> mc_calls M' = [c]"
  using hook_code_run [where M = "\<lparr> mc_locals = locals, mc_params = layout types vs, mc_arrays = [], mc_calls = [] \<rparr>"
      and g = callback, OF shorty nat args field _ _ c ret] by simp

theorem hook_method_calls_callback_witness:
  "\<exists>M'. run_code (DRef 9) (\<lambda>_. DBoxed (CHR ''J'') 7) (hook_code ''JDL'' False False False)
      \<lparr> mc_locals = (\<lambda>_. DHigh), mc_params = [DRef 1, DPrim (CHR ''D'') 5, DHigh, DRef 2], mc_arrays = [], mc_calls = [] \<rparr> =
      Returned (Some (DPrim (CHR ''J'') 7)) M' \<and>
     mc_calls M' = [Callback (Some (DRef 9)) (Some (DRef 1)) [DBoxed (CHR ''D'') 5, DRef 2] None]"
proof -
  let ?ts = "[TObject, TPrim (CHR ''D''), TObject]" and ?vs = "[DRef 1, DPrim (CHR ''D'') 5, DRef 2]"
  have t: "?ts = parameter_types False ''JDL''" by (simp add: parameter_types_def shorty_type_def from_descriptor_def)
  have a: "list_all2 arg_ok ?ts ?vs" by (simp add: arg_ok_def)
  have r: "shorty_type (CHR ''J'') = TPrim (CHR ''J'')" by (simp add: shorty_type_def from_descriptor_def)
  have u: "unboxed (TPrim (CHR ''J'')) (DBoxed (CHR ''J'') 7) = Some (DPrim (CHR ''J'') 7)" by (simp add: unboxed_def)
  show ?thesis
    using hook_method_calls_callback [of "''JDL''" False False ?ts ?vs False "DRef 9", OF _ _ a t _ refl,
        of "\<lambda>_. DBoxed (CHR ''J'') 7" "\<lambda>_. DHigh"]
    by (simp add: r u ret_ok_def expected_call_def is_wide_def)
qed

lemma length_layout: "length vs = length ts \<Longrightarrow> length ts \<le> length (layout ts vs)"
proof (induction ts arbitrary: vs)
  case (Cons t ts)
  then obtain v ws where "vs = v # ws" "length ws = length ts" by (cases vs) auto
  with Cons.IH [of ws] show ?case by simp
qed simp

text \<open>The placeholder of the backup only names registers that its frame has, a pair of them for a wide
  result, and returns a zero of the return type.\<close>

theorem backup_code_fits:
  assumes shorty: "shorty \<noteq> []" and len: "length vs = length (parameter_types is_static shorty)"
    and M: "mc_params M = layout (parameter_types is_static shorty) vs"
  shows "\<exists>M'. run_code field callback (backup_code shorty is_static pack) M =
      Returned (if hd shorty = CHR ''V'' then None else Some (DInt 0)) M' \<and> mc_calls M' = mc_calls M"
proof -
  have n: "(if is_static then 0 else 1) + (length shorty - 1) \<le> length (mc_params M)"
    using length_layout [OF len] by (simp add: M parameter_types_def split: if_splits)
  have "shorty_type (hd shorty) = TVoid \<longleftrightarrow> hd shorty = CHR ''V''"
    by (simp add: shorty_type_def from_descriptor_def)
  then show ?thesis
    using n shorty by (auto simp: backup_code_def Let_def reg_simps nth_list_update)
qed

theorem backup_code_fits_witness:
  "\<exists>M'. run_code (DRef 9) (\<lambda>_. DInt 0) (backup_code ''JIL'' False False)
      \<lparr> mc_locals = (\<lambda>_. DHigh), mc_params = [DRef 1, DPrim (CHR ''I'') 5, DRef 2], mc_arrays = [], mc_calls = [] \<rparr> =
      Returned (Some (DInt 0)) M' \<and> mc_calls M' = []"
  using backup_code_fits [of "''JIL''" "[DRef 1, DPrim (CHR ''I'') 5, DRef 2]" False
      "\<lparr> mc_locals = (\<lambda>_. DHigh), mc_params = [DRef 1, DPrim (CHR ''I'') 5, DRef 2], mc_arrays = [], mc_calls = [] \<rparr>"
      "DRef 9" "\<lambda>_. DInt 0" False]
  by (simp add: parameter_types_def shorty_type_def from_descriptor_def is_wide_def)

end
