(* ===== verification/Java_Calls.thy ===== *)
theory Java_Calls
  imports Jni_Env
begin

text \<open>
  What the library does to the Java heap. Java objects are not part of the model's memory: a write to
  a field, a registration of native methods or a call for its effect is recorded, in order, as a
  \<open>java_write\<close>; calls whose result the library uses are functions of \<open>java_vm\<close>.
\<close>

datatype jval =
    JRef addr
  | JInt int
  | JPtr addr
  | JStr string
  | JBuffer "byte list"
  | JLongs "addr list"
  | JVector "addr list"
  | JArray "jval list"

datatype java_write =
    SetField addr addr jval
  | SetStaticField addr addr jval
  | RegisterNatives addr "(string \<times> string \<times> addr) list"
  | CallVoid addr addr "jval list"
  | CallStaticVoid addr addr "jval list"
  | CallNative string jval

record java_vm =
  vm_NewObject :: "addr \<Rightarrow> addr \<Rightarrow> jval list \<Rightarrow> addr"
  vm_CallObject :: "addr \<Rightarrow> addr \<Rightarrow> jval list \<Rightarrow> addr"
  vm_GetObjectField :: "addr \<Rightarrow> addr \<Rightarrow> addr"
  vm_String :: "addr \<Rightarrow> string"

end
