(* ===== verification/Dex_File.thy ===== *)
theory Dex_File
  imports Java_Calls Reflection Method_Ids Arena
begin

text \<open>
  art/runtime/dex_file.cxx and \<open>OpenInMemoryHookerDex\<close> of lsplant.cc: opening a dex file in memory.

  \<^item> \<open>DexFile_Init\<close> finds the functions of libdexfile (which ones depends on the Android release) and
    the fields of \<open>dalvik.system.DexFile\<close>.
  \<^item> \<open>OpenMemory\<close> picks the function that was found; \<open>ToJavaDexFile\<close> makes the Java object around a
    native dex file, with the cookie in the form of the release.
  \<^item> \<open>OpenInMemoryHookerDex\<close> copies an image into the arena and opens it, and falls back to the Java
    constructors.

  The native functions are a parameter \<open>lib\<close>, called by the name of its variable.
\<close>

record dex_statics =
  df_cookie_field :: addr
  df_file_name_field :: addr
  df_internal_cookie_field :: addr
  df_guard_field :: addr
  df_set_trusted_method :: addr
  df_get_close_guard_method :: addr
  df_oat_file_index :: nat
  df_start_index :: "nat option"

text \<open>\<open>dex_file_start_index\<close> is \<open>None\<close> for the largest \<open>size_t\<close>.\<close>

definition dex_statics_init :: dex_statics where
  "dex_statics_init = \<lparr> df_cookie_field = 0, df_file_name_field = 0, df_internal_cookie_field = 0,
     df_guard_field = 0, df_set_trusted_method = 0, df_get_close_guard_method = 0, df_oat_file_index = 0,
     df_start_index = Some 0 \<rparr>"

definition IsMemoryDexSupported :: "dex_statics \<Rightarrow> bool" where
  "IsMemoryDexSupported D \<longleftrightarrow> df_cookie_field D \<noteq> 0"

section \<open>OpenMemory\<close>

definition dex_openers :: "string list" where
  "dex_openers = [''OpenOne_'', ''Open_'', ''OpenCommon_'', ''OpenCommonWithoutContainer_'', ''OpenMemory_'',
     ''OpenMemoryRaw_'', ''OpenMemoryWithoutOdex_'']"

definition dex_opener :: "hook_state \<Rightarrow> string option" where
  "dex_opener H = find (raw_set H) dex_openers"

text \<open>\<open>lib v\<close> stands for the function in \<open>v\<close> (for the first two with the loader object that is
  constructed around it); it may write the error message.\<close>

type_synonym dex_lib = "string \<Rightarrow> addr \<times> nat \<times> string \<times> nat \<Rightarrow> string \<Rightarrow> addr \<times> string"

definition DexFile_OpenMemory ::
  "hook_state \<Rightarrow> dex_lib \<Rightarrow> memory \<Rightarrow> addr \<Rightarrow> nat \<Rightarrow> string \<Rightarrow> string \<Rightarrow> addr \<times> string" where
  "DexFile_OpenMemory H lib m dex_file sz location error_msg =
     (let checksum = load m (dex_file + 8) 4
      in case dex_opener H of
           Some v \<Rightarrow> lib v (dex_file, sz, location, checksum) error_msg
         | None \<Rightarrow> (0, ''null sym''))"

section \<open>The Java object\<close>

definition SetTrusted :: "hook_state \<Rightarrow> reflection \<Rightarrow> dex_statics \<Rightarrow> jval \<Rightarrow> bool \<times> java_write list" where
  "SetTrusted H F D cookie =
     (if raw_set H ''DexFile_setTrusted_'' then (True, [CallNative ''DexFile_setTrusted_'' cookie])
      else if df_set_trusted_method D \<noteq> 0 then
        (True, [CallStaticVoid (GlobalRef_get F ''dex_file_class_ref'') (df_set_trusted_method D) [cookie]])
      else (False, []))"

definition dex_cookie :: "dex_statics \<Rightarrow> addr \<Rightarrow> jval" where
  "dex_cookie D dex =
     (case df_start_index D of
        Some i \<Rightarrow> JLongs ((replicate (i + 1) 0)[df_oat_file_index D := 0, i := dex])
      | None \<Rightarrow> JVector [dex])"

definition ToJavaDexFile ::
  "hook_state \<Rightarrow> reflection \<Rightarrow> jni_env \<Rightarrow> dex_statics \<Rightarrow> bool \<Rightarrow> addr \<Rightarrow> addr \<times> java_write list" where
  "ToJavaDexFile H F E D trusted this =
     (let obj = jni_AllocObject E (GlobalRef_get F ''dex_file_class_ref'');
          cookie = dex_cookie D this;
          guard = jni_CallStaticObjectMethod E (GlobalRef_get F ''close_guard_class_ref'') (df_get_close_guard_method D)
      in (obj,
          [SetField obj (df_cookie_field D) cookie] @
          (if df_start_index D \<noteq> None \<and> df_internal_cookie_field D \<noteq> 0
           then [SetField obj (df_internal_cookie_field D) cookie] else []) @
          (if df_start_index D \<noteq> None \<and> trusted then snd (SetTrusted H F D cookie) else []) @
          [SetField obj (df_file_name_field D) (JStr [])] @
          (if df_guard_field D \<noteq> 0 then [SetField obj (df_guard_field D) (JRef guard)] else [])))"

section \<open>Init\<close>

definition cxx_string :: string where
  "cxx_string = ''NS3_11char_traitsIcEENS3_9allocatorIcEEEE''"

definition loader_constructor :: "arch \<Rightarrow> string \<times> string" where
  "loader_constructor a = (''DexFileLoader_constructor_'', SymbolLP a
     (''_ZN3art13DexFileLoaderC2EPKhjRKNSt3__112basic_stringIc'' @ cxx_string)
     (''_ZN3art13DexFileLoaderC2EPKhmRKNSt3__112basic_stringIc'' @ cxx_string))"

definition loader_destructor :: "string \<times> string" where
  "loader_destructor = (''DexFileLoader_destructor_'', ''_ZN3art13DexFileLoaderD2Ev'')"

definition loader_open :: "arch \<Rightarrow> (string \<times> string) list" where
  "loader_open a =
     [(''OpenOne_'', SymbolLP a
         ''_ZN3art13DexFileLoader7OpenOneEjjPKNS_10OatDexFileEbbPNSt3__112basic_stringIcNS4_11char_traitsIcEENS4_9allocatorIcEEEE''
         ''_ZN3art13DexFileLoader7OpenOneEmjPKNS_10OatDexFileEbbPNSt3__112basic_stringIcNS4_11char_traitsIcEENS4_9allocatorIcEEEE''),
      (''Open_'',
         ''_ZN3art13DexFileLoader4OpenEjPKNS_10OatDexFileEbbPNSt3__112basic_stringIcNS4_11char_traitsIcEENS4_9allocatorIcEEEE'')]"

definition open_common :: "arch \<Rightarrow> string \<times> string" where
  "open_common a = (''OpenCommon_'', SymbolLP a
     (''_ZN3art13DexFileLoader10OpenCommonEPKhjS2_jRKNSt3__112basic_stringIc'' @ cxx_string @
      ''jPKNS_10OatDexFileEbbPS9_NS3_10unique_ptrINS_16DexFileContainerENS3_14default_deleteISH_EEEEPNS0_12VerifyResultE'')
     (''_ZN3art13DexFileLoader10OpenCommonEPKhmS2_mRKNSt3__112basic_stringIc'' @ cxx_string @
      ''jPKNS_10OatDexFileEbbPS9_NS3_10unique_ptrINS_16DexFileContainerENS3_14default_deleteISH_EEEEPNS0_12VerifyResultE''))"

definition open_without_container :: "arch \<Rightarrow> harg" where
  "open_without_container a = HFun ''OpenCommonWithoutContainer_'' (SymbolLP a
     (''_ZN3art7DexFile10OpenCommonEPKhjRKNSt3__112basic_stringIc'' @ cxx_string @
      ''jPKNS_10OatDexFileEbbPS9_PNS0_12VerifyResultE'')
     (''_ZN3art7DexFile10OpenCommonEPKhmRKNSt3__112basic_stringIc'' @ cxx_string @
      ''jPKNS_10OatDexFileEbbPS9_PNS0_12VerifyResultE''))"

definition open_memory_before_O :: "arch \<Rightarrow> (harg \<times> bool) list" where
  "open_memory_before_O a =
     (let sym = (\<lambda>rest. SymbolLP a
            (''_ZN3art7DexFile10OpenMemoryEPKhjRKNSt3__112basic_stringIc'' @ cxx_string @ rest)
            (''_ZN3art7DexFile10OpenMemoryEPKhmRKNSt3__112basic_stringIc'' @ cxx_string @ rest))
      in [(HFun ''OpenMemory_'' (sym ''jPNS_6MemMapEPKNS_10OatDexFileEPS9_''), False),
          (HFun ''OpenMemoryRaw_'' (sym ''jPNS_6MemMapEPKNS_7OatFileEPS9_''), False),
          (HFun ''OpenMemoryWithoutOdex_'' (sym ''jPNS_6MemMapEPS9_''), False)])"

text \<open>\<open>setTrusted\<close>: the native function, or the Java method and the function registered for it.\<close>

definition init_set_trusted ::
  "init_info \<Rightarrow> art_statics \<Rightarrow> art_lookup \<Rightarrow> jni_env \<Rightarrow> runtime_statics \<Rightarrow> memory \<Rightarrow> addr
     \<Rightarrow> hook_state \<times> dex_statics \<Rightarrow> hook_state \<times> dex_statics" where
  "init_set_trusted info S L E RT m cls = (\<lambda>(H, D).
     (let (ok, H) = handler_any info
            [(HFun ''DexFile_setTrusted_'' ''_ZN3artL18DexFile_setTrustedEP7_JNIEnvP7_jclassP8_jobject'', True)] H;
          mid = jni_GetStaticMethodID E cls ''setTrusted'' ''(Ljava/lang/Object;)V'';
          art_method = FromJMethodID S L E RT m cls mid True
      in if ok then (H, D)
         else (if mid \<noteq> 0 \<and> art_method \<noteq> 0 \<and> IsNative S m art_method
               then H\<lparr> hs_raw := (hs_raw H)(''DexFile_setTrusted_'' := GetData S m art_method) \<rparr> else H,
               D\<lparr> df_set_trusted_method := mid \<rparr>)))"

text \<open>\<open>None\<close> goes on, \<open>Some r\<close> returns \<open>r\<close>.\<close>

definition init_open_memory :: "init_info \<Rightarrow> arch \<Rightarrow> int \<Rightarrow> hook_state \<Rightarrow> bool option \<times> hook_state" where
  "init_open_memory info a sdk_int H =
     (if sdk_int \<ge> API_U then
        (let (ok, H) = handler_dexfile info [loader_constructor a] H in
         if \<not> ok then (Some True, H)
         else (let (ok, H) = handler_dexfile info [loader_destructor] H in
           if \<not> ok then (Some True, H)
           else (let (ok, H) = handler_dexfile info (loader_open a) H
                 in (if ok then None else Some True, H))))
      else if sdk_int \<ge> API_P then
        (let (ok, H) = handler_dexfile info [open_common a] H in (if ok then None else Some True, H))
      else if sdk_int \<ge> API_O then
        (let (ok, H) = handler_any info (one (open_without_container a)) H in (if ok then None else Some True, H))
      else (let (ok, H) = handler_any info (open_memory_before_O a) H in (if ok then None else Some False, H)))"

definition init_dex_fields :: "jni_env \<Rightarrow> int \<Rightarrow> addr \<Rightarrow> dex_statics \<Rightarrow> bool \<times> dex_statics" where
  "init_dex_fields E sdk_int cls D =
     (let D = (if sdk_int \<ge> API_M
               then D\<lparr> df_cookie_field := jni_GetFieldID E cls ''mCookie'' ''Ljava/lang/Object;'' \<rparr>
               else D\<lparr> df_cookie_field := jni_GetFieldID E cls ''mCookie'' ''J'', df_start_index := None \<rparr>)
      in if df_cookie_field D = 0 then (False, D)
         else
           (let D = D\<lparr> df_file_name_field := jni_GetFieldID E cls ''mFileName'' ''Ljava/lang/String;'' \<rparr>
            in if df_file_name_field D = 0 then (False, D)
               else if sdk_int \<ge> API_N then
                 (let D = D\<lparr> df_internal_cookie_field :=
                        jni_GetFieldID E cls ''mInternalCookie'' ''Ljava/lang/Object;'' \<rparr>
                  in if df_internal_cookie_field D = 0 then (False, D)
                     else (True, D\<lparr> df_start_index := Some 1 \<rparr>))
               else (True, D)))"

definition init_close_guard :: "jni_env \<Rightarrow> addr \<Rightarrow> reflection \<times> dex_statics \<Rightarrow> reflection \<times> dex_statics" where
  "init_close_guard E cls = (\<lambda>(F, D).
     (let close_guard_class = jni_FindClass E ''dalvik/system/CloseGuard'' in
      if close_guard_class = 0 then (F, D)
      else
        (let D = D\<lparr> df_get_close_guard_method :=
               jni_GetStaticMethodID E close_guard_class ''get'' ''()Ldalvik/system/CloseGuard;'' \<rparr>
         in if df_get_close_guard_method D = 0 then (F, D)
            else
              (let D = D\<lparr> df_guard_field := jni_GetFieldID E cls ''guard'' ''Ldalvik/system/CloseGuard;'' \<rparr>
               in (if df_guard_field D \<noteq> 0 then GlobalRef_set ''close_guard_class_ref'' close_guard_class F else F,
                   D)))))"

definition DexFile_Init ::
  "init_info \<Rightarrow> art_statics \<Rightarrow> art_lookup \<Rightarrow> jni_env \<Rightarrow> runtime_statics \<Rightarrow> memory \<Rightarrow> int
     \<Rightarrow> hook_state \<times> reflection \<times> dex_statics \<Rightarrow> bool \<times> hook_state \<times> reflection \<times> dex_statics" where
  "DexFile_Init info S L E RT m sdk_int = (\<lambda>(H, F, D).
     (let cls = jni_FindClass E ''dalvik/system/DexFile'';
          F = GlobalRef_set ''dex_file_class_ref'' cls F;
          (H, D) = (if sdk_int \<ge> API_P then init_set_trusted info S L E RT m cls (H, D) else (H, D));
          (stop, H) = init_open_memory info (am_arch S) sdk_int H
      in case stop of
           Some r \<Rightarrow> (r, H, F, D)
         | None \<Rightarrow>
             (let (ok, D) = init_dex_fields E sdk_int cls D in
              if \<not> ok then (False, H, F, D)
              else (let (F, D) = (if sdk_int \<le> API_N then init_close_guard E cls (F, D) else (F, D))
                    in (True, H, F, D)))))"

section \<open>What Init finds\<close>

lemma dex_opener_set: "raw_set H v \<Longrightarrow> v \<in> set dex_openers \<Longrightarrow> dex_opener H \<noteq> None"
  by (auto simp: dex_opener_def find_None_iff)

lemma dex_opener_raw: "dex_opener H = Some v \<Longrightarrow> raw_set H v"
  by (auto simp: dex_opener_def find_Some_iff)

definition loader_ready :: "hook_state \<Rightarrow> bool" where
  "loader_ready H \<longleftrightarrow> raw_set H ''OpenOne_'' \<or> raw_set H ''Open_'' \<longrightarrow>
     raw_set H ''DexFileLoader_constructor_'' \<and> raw_set H ''DexFileLoader_destructor_''"

lemma init_open_memory_spec:
  assumes run: "init_open_memory info a sdk_int H = (None, H')"
    and clean: "\<not> raw_set H ''OpenOne_''" "\<not> raw_set H ''Open_''"
  shows "dex_opener H' \<noteq> None \<and> loader_ready H'"
proof -
  have "(\<exists>v \<in> set dex_openers. raw_set H' v) \<and> loader_ready H'"
    using run clean
    by (auto simp: init_open_memory_def loader_constructor_def loader_destructor_def loader_open_def
        open_common_def open_without_container_def open_memory_before_O_def handle_dexfile_def Let_def
        raw_set_def loader_ready_def dex_openers_def split: if_splits)
  then show ?thesis using dex_opener_set by blast
qed

lemma init_set_trusted_frame:
  assumes "init_set_trusted info S L E RT m cls (H, D) = (H', D')"
  shows "v \<noteq> ''DexFile_setTrusted_'' \<Longrightarrow> raw_set H' v = raw_set H v"
    "df_cookie_field D' = df_cookie_field D" "df_start_index D' = df_start_index D"
    "df_oat_file_index D' = df_oat_file_index D"
  using assms by (auto simp: init_set_trusted_def Let_def raw_set_def split: if_splits)

lemma init_dex_fields_spec:
  assumes "init_dex_fields E sdk_int cls D = (True, D')" and "df_start_index D = Some 0" "df_oat_file_index D = 0"
  shows "df_file_name_field D' \<noteq> 0" "df_cookie_field D' \<noteq> 0" "df_oat_file_index D' = 0"
    "sdk_int \<ge> API_N \<Longrightarrow> df_internal_cookie_field D' \<noteq> 0"
    "df_start_index D' = (if sdk_int \<ge> API_N then Some 1 else if sdk_int \<ge> API_M then Some 0 else None)"
  using assms by (auto simp: init_dex_fields_def Let_def split: if_splits)

lemma init_close_guard_frame:
  assumes "init_close_guard E cls (F, D) = (F', D')"
  shows "df_cookie_field D' = df_cookie_field D" "df_file_name_field D' = df_file_name_field D"
    "df_internal_cookie_field D' = df_internal_cookie_field D" "df_start_index D' = df_start_index D"
    "df_oat_file_index D' = df_oat_file_index D"
  using assms by (auto simp: init_close_guard_def Let_def split: if_splits)

text \<open>C34. When \<open>DexFile::Init\<close> succeeds and dex files in memory count as supported, a function that opens
  them was found, together with the constructor and destructor of its loader where it needs one,
  and the Java object gets a cookie of the right form for the release: an array with the native dex
  file after the null of the oat file, an array with just the dex file, or a native vector.\<close>

theorem memory_dex_usable:
  assumes run: "DexFile_Init info S L E RT m sdk_int (H, F, dex_statics_init) = (True, H', F', D)"
    and clean: "\<not> raw_set H ''OpenOne_''" "\<not> raw_set H ''Open_''" and mem: "IsMemoryDexSupported D"
  shows "dex_opener H' \<noteq> None \<and> loader_ready H' \<and> df_file_name_field D \<noteq> 0 \<and>
    (sdk_int \<ge> API_N \<longrightarrow> df_internal_cookie_field D \<noteq> 0) \<and>
    dex_cookie D dex = (if sdk_int \<ge> API_N then JLongs [0, dex]
      else if sdk_int \<ge> API_M then JLongs [dex] else JVector [dex])"
proof -
  let ?cls = "jni_FindClass E ''dalvik/system/DexFile''"
  obtain H1 D1 where t: "(if sdk_int \<ge> API_P then init_set_trusted info S L E RT m ?cls (H, dex_statics_init)
      else (H, dex_statics_init)) = (H1, D1)" by (metis prod.exhaust)
  have 1: "df_cookie_field D1 = 0" "df_start_index D1 = Some 0" "df_oat_file_index D1 = 0"
    "\<not> raw_set H1 ''OpenOne_''" "\<not> raw_set H1 ''Open_''"
    using t clean init_set_trusted_frame [of info S L E RT m ?cls H dex_statics_init H1 D1]
    by (auto simp: dex_statics_init_def split: if_splits)
  obtain stop H2 where o: "init_open_memory info (am_arch S) sdk_int H1 = (stop, H2)" by (metis prod.exhaust)
  obtain ok D2 where f: "init_dex_fields E sdk_int ?cls D1 = (ok, D2)" by (metis prod.exhaust)
  have stop: "stop = None"
    using run mem t o 1(1) by (auto simp: DexFile_Init_def Let_def IsMemoryDexSupported_def split: option.splits)
  have r: "ok" "H' = H2" "df_file_name_field D = df_file_name_field D2" "df_start_index D = df_start_index D2"
    "df_internal_cookie_field D = df_internal_cookie_field D2" "df_oat_file_index D = df_oat_file_index D2"
    using run t o f stop init_close_guard_frame
    by (auto simp: DexFile_Init_def Let_def split: if_splits prod.splits)
  note d = init_dex_fields_spec [OF f [unfolded eqTrueI [OF r(1)]] 1(2,3)]
  show ?thesis
    using init_open_memory_spec [OF o [unfolded stop] 1(4,5)] r d by (auto simp: dex_cookie_def)
qed

definition dex_info :: init_info where
  "dex_info = demo_info\<lparr> art_symbol_resolver := (\<lambda>_ _. 16), dexfile_symbol_resolver := Some (\<lambda>_ _. 8) \<rparr>"

theorem memory_dex_usable_witness:
  "\<exists>H' F' D. DexFile_Init dex_info arm64_statics \<lparr> al_art_method_field = 0, al_abstract_method = 0, al_decode = None \<rparr>
      demo_env \<lparr> rt_instance = 0, rt_debug_state_offset = 0, rt_jni_id_manager_offset = 0,
        rt_SetJavaDebuggable = None, rt_SetRuntimeDebugState = None \<rparr> (\<lambda>_. 0) API_U
      (hook_state_init, reflection_init, dex_statics_init) = (True, H', F', D) \<and>
     dex_cookie D 4096 = JLongs [0, 4096]"
  (is "\<exists>H' F' D. ?run = _ \<and> _")
proof -
  obtain ok H' F' D where r: "?run = (ok, H', F', D)" by (metis prod_cases4)
  have dl: "dlsym dex_info n b = 16" "dlsym_dexfile dex_info n = 8" for n b
    by (simp_all add: dlsym_def dlsym_dexfile_def dex_info_def Let_def)
  have ok: "ok \<and> IsMemoryDexSupported D"
    using r by (auto simp: DexFile_Init_def init_set_trusted_def init_open_memory_def init_dex_fields_def
        loader_constructor_def loader_destructor_def loader_open_def handle_dexfile_def dl Let_def
        IsMemoryDexSupported_def split: prod.splits if_splits)
  have "\<not> raw_set hook_state_init v" for v by (simp add: raw_set_def hook_state_init_def)
  then show ?thesis using memory_dex_usable [OF r [unfolded eqTrueI [OF conjunct1 [OF ok]]], of 4096] ok r by auto
qed

section \<open>The dex file of a hooker\<close>

record dex_env =
  de_debug :: bool
  de_sdk :: int
  de_source :: string
  de_page_size :: nat
  de_mmap :: "nat \<Rightarrow> addr option"
  de_malloc :: "nat \<Rightarrow> addr"
  de_lib :: dex_lib

record dex_loader =
  dl_failed :: nat
  dl_arena :: arena_state

definition kMaxTryCount :: nat where "kMaxTryCount = 3"

text \<open>The Java constructors; \<open>0\<close> when neither is there.\<close>

definition open_by_java :: "reflection \<Rightarrow> jni_env \<Rightarrow> java_vm \<Rightarrow> byte list \<Rightarrow> addr" where
  "open_by_java F E J img =
     (let dex_file_class = jni_FindClass E ''dalvik/system/DexFile'' in
      if rf_ids F ''dex_file_init_with_cl'' \<noteq> 0
      then vm_NewObject J dex_file_class (rf_ids F ''dex_file_init_with_cl'')
             [JArray [JBuffer img], JRef 0, JRef 0]
      else if rf_ids F ''dex_file_init'' \<noteq> 0
      then vm_NewObject J dex_file_class (rf_ids F ''dex_file_init'') [JBuffer img]
      else 0)"

text \<open>The attempt in memory: \<open>Some\<close> the Java object, \<open>None\<close> when libdexfile refuses.\<close>

definition open_in_memory ::
  "dex_env \<Rightarrow> hook_state \<Rightarrow> reflection \<Rightarrow> jni_env \<Rightarrow> dex_statics \<Rightarrow> byte list \<Rightarrow> arena_state
     \<Rightarrow> (addr \<times> java_write list) option \<times> arena_state" where
  "open_in_memory X H F E D img A =
     (let (dex, A) = arena_Alloc (de_page_size X) (de_mmap X) (de_malloc X) (length img) A;
          A = A\<lparr> st_mem := store_bytes dex img (st_mem A) \<rparr>;
          (dex_file, err_msg) = DexFile_OpenMemory H (de_lib X) (st_mem A) dex (length img)
            (if de_source X = [] then ''android'' else de_source X) []
      in if dex_file \<noteq> 0
         then (Some (ToJavaDexFile H F E D False dex_file),
               if de_debug X then A else A\<lparr> st_mem := store dex 8 0 (st_mem A) \<rparr>)
         else (None, A))"

definition OpenInMemoryHookerDex ::
  "dex_env \<Rightarrow> hook_state \<Rightarrow> reflection \<Rightarrow> jni_env \<Rightarrow> java_vm \<Rightarrow> dex_statics \<Rightarrow> byte list \<Rightarrow> dex_loader
     \<Rightarrow> addr \<times> java_write list \<times> dex_loader" where
  "OpenInMemoryHookerDex X H F E J D img Q =
     (if dl_failed Q < kMaxTryCount \<and> IsMemoryDexSupported D then
        (case open_in_memory X H F E D img (dl_arena Q) of
           (Some (obj, ws), A) \<Rightarrow> (obj, ws, Q\<lparr> dl_failed := 0, dl_arena := A \<rparr>)
         | (None, A) \<Rightarrow>
             if de_sdk X \<ge> API_O
             then (open_by_java F E J img, [], Q\<lparr> dl_failed := dl_failed Q + 1, dl_arena := A \<rparr>)
             else (0, [], Q\<lparr> dl_arena := A \<rparr>))
      else (open_by_java F E J img, [], Q))"

fun open_all ::
  "dex_env \<Rightarrow> hook_state \<Rightarrow> reflection \<Rightarrow> jni_env \<Rightarrow> java_vm \<Rightarrow> dex_statics \<Rightarrow> byte list list \<Rightarrow> dex_loader
     \<Rightarrow> addr list \<times> dex_loader" where
  "open_all X H F E J D [] Q = ([], Q)"
| "open_all X H F E J D (img # imgs) Q =
     (let (obj, ws, Q) = OpenInMemoryHookerDex X H F E J D img Q;
          (objs, Q) = open_all X H F E J D imgs Q
      in (obj # objs, Q))"

lemma open_refused:
  assumes ref: "\<And>v x msg. fst (de_lib X v x msg) = 0" and sdk: "de_sdk X \<ge> API_O"
  shows "\<exists>Q'. OpenInMemoryHookerDex X H F E J D img Q = (open_by_java F E J img, [], Q') \<and>
    (if dl_failed Q < kMaxTryCount \<and> IsMemoryDexSupported D
     then dl_failed Q' = dl_failed Q + 1 else Q' = Q)"
proof -
  have "fst (open_in_memory X H F E D img A) = None" for A
    using ref by (auto simp: open_in_memory_def DexFile_OpenMemory_def Let_def split: prod.split option.split)
      (metis fst_conv not_gr_zero)+
  then obtain A where n: "open_in_memory X H F E D img (dl_arena Q) = (None, A)"
    by (metis prod.collapse)
  show ?thesis
    using sdk n by (cases "dl_failed Q < kMaxTryCount \<and> IsMemoryDexSupported D")
      (simp_all add: OpenInMemoryHookerDex_def split: prod.split option.split)
qed

lemma open_all_given_up:
  "dl_failed Q \<ge> kMaxTryCount \<Longrightarrow> open_all X H F E J D imgs Q = (map (open_by_java F E J) imgs, Q)"
  by (induction imgs) (simp_all add: OpenInMemoryHookerDex_def)

lemma open_all_refused:
  assumes ref: "\<And>v x msg. fst (de_lib X v x msg) = 0" and sdk: "de_sdk X \<ge> API_O" and mem: "IsMemoryDexSupported D"
  shows "\<exists>Q'. open_all X H F E J D imgs Q = (map (open_by_java F E J) imgs, Q') \<and>
    dl_failed Q' \<ge> min kMaxTryCount (dl_failed Q + length imgs) \<and>
    (dl_failed Q \<le> kMaxTryCount \<longrightarrow> dl_failed Q' \<le> kMaxTryCount)"
proof (induction imgs arbitrary: Q)
  case (Cons img imgs)
  obtain Q1 where 1: "OpenInMemoryHookerDex X H F E J D img Q = (open_by_java F E J img, [], Q1)"
    "if dl_failed Q < kMaxTryCount then dl_failed Q1 = dl_failed Q + 1 else Q1 = Q"
    using open_refused [OF ref sdk, of H F E J D img Q] mem by auto
  obtain Q2 where 2: "open_all X H F E J D imgs Q1 = (map (open_by_java F E J) imgs, Q2)"
    "dl_failed Q2 \<ge> min kMaxTryCount (dl_failed Q1 + length imgs)"
    "dl_failed Q1 \<le> kMaxTryCount \<longrightarrow> dl_failed Q2 \<le> kMaxTryCount"
    using Cons.IH by blast
  show ?case using 1 2 by (auto split: if_splits)
qed simp

lemma open_all_append:
  "open_all X H F E J D (is @ js) Q =
     (let (xs, Q) = open_all X H F E J D is Q; (ys, Q) = open_all X H F E J D js Q in (xs @ ys, Q))"
  by (induction "is" arbitrary: Q) (simp_all add: Let_def split: prod.split)

text \<open>C35. Giving up on memory dex: when libdexfile refuses every image (Android 8 and later), each hooker
  is still opened, by the Java constructor, and after three refusals nothing is tried in memory
  any more: neither the counter nor the arena changes again, however many hooks follow.\<close>

theorem memory_dex_gives_up:
  assumes ref: "\<And>v x msg. fst (de_lib X v x msg) = 0" and sdk: "de_sdk X \<ge> API_O" and mem: "IsMemoryDexSupported D"
    and start: "dl_failed Q = 0" and three: "length is = kMaxTryCount"
    and run: "open_all X H F E J D is Q = (xs, Q1)"
  shows "open_all X H F E J D (is @ js) Q = (map (open_by_java F E J) (is @ js), Q1) \<and> dl_failed Q1 = kMaxTryCount"
proof -
  obtain Q' where "open_all X H F E J D is Q = (map (open_by_java F E J) is, Q')"
    "dl_failed Q' \<ge> kMaxTryCount" "dl_failed Q' \<le> kMaxTryCount"
    using open_all_refused [OF ref sdk mem, of H F E J "is" Q] start three by auto
  then show ?thesis
    using run open_all_given_up [of Q1 X H F E J D js] by (simp add: open_all_append)
qed

theorem memory_dex_gives_up_witness:
  "\<exists>Q1. open_all \<lparr> de_debug = False, de_sdk = API_U, de_source = [], de_page_size = 4096, de_mmap = (\<lambda>_. Some 8192),
       de_malloc = (\<lambda>_. 0), de_lib = (\<lambda>v x msg. (0, ''bad'')) \<rparr> hook_state_init reflection_init demo_env
      \<lparr> vm_NewObject = (\<lambda>c i as. 5), vm_CallObject = (\<lambda>o' i as. 6), vm_GetObjectField = (\<lambda>o' f. 7), vm_String = (\<lambda>o'. []) \<rparr>
      (dex_statics_init\<lparr> df_cookie_field := 1 \<rparr>) ([[1], [2], [3]] @ [[4]])
      \<lparr> dl_failed = 0, dl_arena = arena_init (\<lambda>_. 0) \<rparr> = ([0, 0, 0, 0], Q1) \<and> dl_failed Q1 = 3"
  (is "\<exists>Q1. open_all ?X ?H ?F ?E ?J ?D _ ?Q = _ \<and> _")
proof -
  obtain xs Q1 where r: "open_all ?X ?H ?F ?E ?J ?D [[1], [2], [3]] ?Q = (xs, Q1)" by (metis prod.exhaust)
  have "open_by_java ?F ?E ?J img = 0" for img by (simp add: open_by_java_def reflection_init_def)
  then show ?thesis
    using memory_dex_gives_up [OF _ _ _ _ _ r, of "[[4]]"]
    by (simp add: IsMemoryDexSupported_def kMaxTryCount_def)
qed

end
