(* ===== verification/Dex_Build.thy ===== *)
theory Dex_Build
  imports Hooker_Code Dex_File Class_Linker
begin

text \<open>
  Hooker classes (lsplant.cc): the configuration (\<open>InitConfig\<close>), the class \<open>BuildDex\<close> describes to the
  dex builder, and \<open>BuildDex\<close> itself, which opens the image, loads the class under a class loader
  kept per client (\<open>hooker_class_loaders\<close>) and looks its members up.

  The dex builder is a library of its own: what it is told is a \<open>dex_class\<close>, \<open>be_image\<close> makes the image
  of one, \<open>be_classname\<close> turns a class name into a descriptor. \<open>None\<close> is \<open>std::abort\<close>.
\<close>

section \<open>Configuration\<close>

record config =
  cf_class :: string
  cf_source :: string
  cf_field :: string
  cf_method :: string
  cf_native_field :: string

definition config_init :: config where
  "config_init = \<lparr> cf_class = [], cf_source = [], cf_field = [], cf_method = [], cf_native_field = [] \<rparr>"

record config_info =
  ci_class :: string
  ci_source :: string
  ci_field :: string
  ci_method :: string

definition InitConfig :: "config_info \<Rightarrow> config \<Rightarrow> bool \<times> config" where
  "InitConfig info G =
     (if ci_class info = [] then (False, G)
      else if ci_field info = [] then (False, G)
      else if ci_method info = [] then (False, G)
      else
        (let G = G\<lparr> cf_class := ci_class info, cf_method := ci_method info, cf_source := ci_source info \<rparr>
         in (True,
             if cf_native_field G = []
             then G\<lparr> cf_field := ci_field info, cf_native_field := ci_field info @ ''$native'' \<rparr>
             else if cf_native_field G \<noteq> ci_field info then G\<lparr> cf_field := ci_field info \<rparr>
             else G)))"

text \<open>However often the library is configured, the two static fields of a hooker class have different
  names, and after the first successful configuration none of the names is empty and the name of the
  native field never changes.\<close>

theorem config_names:
  assumes "cf_native_field G = [] \<or> (cf_native_field G \<noteq> cf_field G \<and> cf_field G \<noteq> [])"
    and "InitConfig info G = (ok, G')"
  shows "(cf_native_field G' = [] \<or> (cf_native_field G' \<noteq> cf_field G' \<and> cf_field G' \<noteq> [])) \<and>
    (ok \<longrightarrow> cf_class G' \<noteq> [] \<and> cf_method G' \<noteq> [] \<and> cf_native_field G' \<noteq> [] \<and> cf_field G' \<noteq> []) \<and>
    (cf_native_field G \<noteq> [] \<longrightarrow> cf_native_field G' = cf_native_field G) \<and> (\<not> ok \<longrightarrow> G' = G)"
  using assms by (auto simp: InitConfig_def Let_def split: if_splits)

theorem config_names_witness:
  "\<exists>G'. InitConfig \<lparr> ci_class = ''H'', ci_source = [], ci_field = ''data'', ci_method = ''{target}'' \<rparr> config_init
      = (True, G') \<and> cf_native_field G' \<noteq> cf_field G'"
proof -
  obtain ok G' where r: "InitConfig \<lparr> ci_class = ''H'', ci_source = [], ci_field = ''data'', ci_method = ''{target}'' \<rparr>
      config_init = (ok, G')" by (metis prod.exhaust)
  moreover from r have "ok" by (simp add: InitConfig_def Let_def)
  ultimately show ?thesis using config_names [OF _ r] by (auto simp: config_init_def)
qed

section \<open>The description of a hooker class\<close>

fun string_of_nat :: "nat \<Rightarrow> string" where
  "string_of_nat n =
     (if n < 10 then [char_of (48 + n)] else string_of_nat (n div 10) @ [char_of (48 + n mod 10)])"

declare string_of_nat.simps [simp del]

record dex_method =
  dm_name :: string
  dm_return :: dtype
  dm_params :: "dtype list"
  dm_flags :: "flags option"
  dm_code :: "insn list"

text \<open>\<open>dm_flags\<close> is \<open>None\<close> when the builder's default is left alone.\<close>

record dex_class =
  dc_name :: string
  dc_source :: "string option"
  dc_fields :: "(string \<times> dtype \<times> flags) list"
  dc_methods :: "dex_method list"
  dc_callback :: "(dtype \<times> string \<times> dtype \<times> dtype list) option"

record build_args =
  ba_class_loader :: addr
  ba_shorty :: string
  ba_method_name :: string
  ba_hooker_class :: string
  ba_callback_name :: string
  ba_is_static :: bool
  ba_is_fast_native :: bool
  ba_is_native_api :: bool
  ba_pack :: bool

definition hook_method_name :: "config \<Rightarrow> build_args \<Rightarrow> string" where
  "hook_method_name G b = (if cf_method G = ''{target}'' then ba_method_name b else cf_method G)"

definition backup_method_name :: "config \<Rightarrow> build_args \<Rightarrow> string" where
  "backup_method_name G b = (if hook_method_name G b = ''backup'' then ''backup2'' else ''backup'')"

definition hooker_type :: "build_args \<Rightarrow> string \<Rightarrow> dtype" where
  "hooker_type b class_name = TClass (if ba_is_native_api b then class_name else ba_hooker_class b)"

definition native_proto :: "dtype \<times> dtype list" where
  "native_proto = (TObject, [TObject, TArray TObject, TObject])"

definition callback_proto :: "build_args \<Rightarrow> dtype \<times> dtype list" where
  "callback_proto b =
     (if ba_is_native_api b then native_proto
      else if ba_pack b then (TObject, [TArray TObject])
      else (TObject, [TObject, TArray TObject]))"

definition hooker_class :: "arch \<Rightarrow> config \<Rightarrow> build_args \<Rightarrow> string \<Rightarrow> dex_class" where
  "hooker_class a G b class_name =
     (let return_type = shorty_type (hd (ba_shorty b));
          types = parameter_types (ba_is_static b) (ba_shorty b);
          private_static = kAccPrivate OR kAccStatic
      in \<lparr> dc_name = class_name,
           dc_source = (if cf_source G \<noteq> [] then Some (cf_source G) else None),
           dc_fields =
             [(cf_field G, if ba_is_native_api b then TObject else hooker_type b class_name, private_static)] @
             (if ba_is_fast_native b
              then [(cf_native_field G, TPrim (if is_arch a [kLP32] then CHR ''I'' else CHR ''J''), private_static)]
              else []),
           dc_methods =
             [\<lparr> dm_name = hook_method_name G b, dm_return = return_type, dm_params = types,
                dm_flags = (if ba_is_fast_native b then Some (kAccPublic OR kAccStatic OR kAccNative) else None),
                dm_code = (if ba_is_fast_native b then []
                  else hook_code (ba_shorty b) (ba_is_static b) (ba_is_native_api b) (ba_pack b)) \<rparr>,
              \<lparr> dm_name = backup_method_name G b, dm_return = return_type, dm_params = types, dm_flags = None,
                dm_code = backup_code (ba_shorty b) (ba_is_static b) (ba_pack b) \<rparr>] @
             (if ba_is_native_api b \<and> \<not> ba_is_fast_native b
              then [\<lparr> dm_name = ba_callback_name b, dm_return = fst native_proto, dm_params = snd native_proto,
                      dm_flags = Some (kAccPrivate OR kAccStatic OR kAccNative), dm_code = [] \<rparr>]
              else []),
           dc_callback = (if ba_is_fast_native b then None
             else Some (hooker_type b class_name, ba_callback_name b, callback_proto b)) \<rparr>)"

section \<open>Loading it\<close>

fun descriptor :: "(string \<Rightarrow> string) \<Rightarrow> dtype \<Rightarrow> string" where
  "descriptor cn TObject = ''Ljava/lang/Object;''"
| "descriptor cn TVoid = ''V''"
| "descriptor cn (TPrim c) = [c]"
| "descriptor cn (TClass n) = cn n"
| "descriptor cn (TArray t) = ''['' @ descriptor cn t"
| "descriptor cn (TBox t) = []"

definition signature :: "(string \<Rightarrow> string) \<Rightarrow> dex_method \<Rightarrow> string" where
  "signature cn d = ''('' @ concat (map (descriptor cn) (dm_params d)) @ '')'' @ descriptor cn (dm_return d)"

record build_env =
  be_S :: art_statics
  be_L :: art_lookup
  be_E :: jni_env
  be_J :: java_vm
  be_RT :: runtime_statics
  be_H :: hook_state
  be_X :: dex_env
  be_D :: dex_statics
  be_image :: "dex_class \<Rightarrow> byte list"
  be_classname :: "string \<Rightarrow> string"
  be_entry :: "char \<Rightarrow> addr"

record build_state =
  bs_loaded :: nat
  bs_loaders :: "addr jmap"
  bs_dex :: dex_loader

record built =
  bt_class :: addr
  bt_field :: addr
  bt_hook :: addr
  bt_backup :: addr

definition built_none :: built where
  "built_none = \<lparr> bt_class = 0, bt_field = 0, bt_hook = 0, bt_backup = 0 \<rparr>"

text \<open>The class loader under which a client's hooker classes are loaded; \<open>None\<close> is the unreachable end of
  \<open>add\<close>.\<close>

definition hooker_loader :: "reflection \<Rightarrow> java_vm \<Rightarrow> addr \<Rightarrow> addr jmap \<Rightarrow> (addr \<times> addr jmap) option" where
  "hooker_loader F J class_loader loaders =
     (case jm_get loaders (as_object class_loader) of
        Some l \<Rightarrow> Some (l, loaders)
      | None \<Rightarrow>
          (let l = vm_NewObject J (GlobalRef_get F ''path_class_loader_ref'') (rf_ids F ''path_class_loader_init'')
                 [JStr ''/system'', JRef class_loader]
           in case jm_add (as_object class_loader) (as_object l) loaders of
                Some (_, loaders) \<Rightarrow> Some (l, loaders)
              | None \<Rightarrow> None))"

text \<open>The entry of a fast native hook, by its return type.\<close>

definition fast_entry :: "(char \<Rightarrow> addr) \<Rightarrow> char \<Rightarrow> addr option" where
  "fast_entry entry c = (if c \<in> set ''ZBSIFJDLV'' then Some (entry c) else None)"

definition BuildDex ::
  "build_env \<Rightarrow> config \<Rightarrow> reflection \<Rightarrow> memory \<Rightarrow> build_args \<Rightarrow> build_state
     \<Rightarrow> (built \<times> java_write list \<times> build_state) option" where
  "BuildDex B G F m b s =
     (if ba_shorty b = [] then Some (built_none, [], s)
      else
        (let class_name = cf_class G @ string_of_nat (bs_loaded s);
             s = s\<lparr> bs_loaded := (bs_loaded s + 1) mod 256 ^ psize (be_S B) \<rparr>;
             cls = hooker_class (am_arch (be_S B)) G b class_name;
             (java_dex_file, ws, Q) =
               OpenInMemoryHookerDex (be_X B) (be_H B) F (be_E B) (be_J B) (be_D B) (be_image B cls) (bs_dex s);
             s = s\<lparr> bs_dex := Q \<rparr>
         in if java_dex_file = 0 then Some (built_none, ws, s)
            else (case hooker_loader F (be_J B) (ba_class_loader b) (bs_loaders s) of
                None \<Rightarrow> None
              | Some (l, loaders) \<Rightarrow>
                  (let s = s\<lparr> bs_loaders := loaders \<rparr>;
                       target_class = vm_CallObject (be_J B) java_dex_file (rf_ids F ''load_class'')
                         [JStr class_name, JRef l];
                       hook_m = dc_methods cls ! 0; backup_m = dc_methods cls ! 1;
                       sig = signature (be_classname B);
                       bt = \<lparr> bt_class = target_class,
                         bt_field = jni_GetStaticFieldID (be_E B) target_class (cf_field G)
                           (descriptor (be_classname B) (fst (snd (dc_fields cls ! 0)))),
                         bt_hook = FindStaticMethod (be_S B) (be_L B) (be_E B) (be_RT B) m target_class
                           (dm_name hook_m) (sig hook_m),
                         bt_backup = jni_GetStaticMethodID (be_E B) target_class (dm_name backup_m) (sig backup_m) \<rparr>
                   in if target_class = 0 then Some (built_none, ws, s)
                      else if ba_is_fast_native b then
                        (case fast_entry (be_entry B) (hd (ba_shorty b)) of
                           None \<Rightarrow> None
                         | Some e \<Rightarrow> Some (bt, ws @ [RegisterNatives target_class [(dm_name hook_m, sig hook_m, e)]], s))
                      else Some (bt, ws, s)))))"

section \<open>Names\<close>

definition nat_of_string :: "string \<Rightarrow> nat" where
  "nat_of_string s = foldl (\<lambda>n c. 10 * n + (of_char c - 48)) 0 s"

lemma of_char_digit: "d < 10 \<Longrightarrow> (of_char (char_of (48 + d :: nat)) :: nat) = 48 + d"
  by (simp add: of_char_of)

lemma nat_of_string_of_nat: "nat_of_string (string_of_nat n) = n"
proof (induction n rule: string_of_nat.induct)
  case (1 n)
  show ?case
  proof (cases "n < 10")
    case True
    then show ?thesis
      using of_char_digit [of n] by (simp add: string_of_nat.simps [of n] nat_of_string_def)
  next
    case False
    then have "nat_of_string (string_of_nat (n div 10)) = n div 10" using "1.IH" by simp
    then show ?thesis
      using False of_char_digit [of "n mod 10"]
      by (simp add: string_of_nat.simps [of n] nat_of_string_def)
  qed
qed

lemma string_of_nat_inj: "string_of_nat m = string_of_nat n \<Longrightarrow> m = n"
  by (metis nat_of_string_of_nat)

text \<open>A hooker class is well-formed: whatever the configuration and the target are called, its fields
  have different names and no two of its methods have the same name and parameters; and the classes
  of different hooks have different names.\<close>

theorem hooker_members_distinct:
  assumes "cf_native_field G \<noteq> cf_field G" and "ba_is_native_api b \<Longrightarrow> ba_callback_name b \<in> {''native'', ''native2''}"
  shows "distinct (map fst (dc_fields (hooker_class a G b n))) \<and>
    distinct (map (\<lambda>d. (dm_name d, dm_params d)) (dc_methods (hooker_class a G b n))) \<and>
    (i \<noteq> j \<longrightarrow> cf_class G @ string_of_nat i \<noteq> cf_class G @ string_of_nat j)"
proof -
  have "parameter_types st sh \<noteq> snd native_proto" for st sh
  proof
    assume *: "parameter_types st sh = snd native_proto"
    have "TArray TObject \<notin> set (parameter_types st sh)"
      by (auto simp: parameter_types_def shorty_type_def from_descriptor_def)
    then show False using * by (simp add: native_proto_def)
  qed
  then show ?thesis
    using assms string_of_nat_inj [of i j]
    by (auto simp: hooker_class_def Let_def backup_method_name_def)
qed

theorem hooker_members_distinct_witness:
  "distinct (map (\<lambda>d. (dm_name d, dm_params d)) (dc_methods (hooker_class kArm64
     \<lparr> cf_class = ''H'', cf_source = [], cf_field = ''data'', cf_method = ''{target}'', cf_native_field = ''data$native'' \<rparr>
     \<lparr> ba_class_loader = 1, ba_shorty = ''VL'', ba_method_name = ''backup'', ba_hooker_class = [], ba_callback_name = ''native'',
       ba_is_static = True, ba_is_fast_native = False, ba_is_native_api = True, ba_pack = False \<rparr> ''H0'')))"
  using hooker_members_distinct [of "\<lparr> cf_class = ''H'', cf_source = [], cf_field = ''data'', cf_method = ''{target}'',
      cf_native_field = ''data$native'' \<rparr>" "\<lparr> ba_class_loader = 1, ba_shorty = ''VL'', ba_method_name = ''backup'',
      ba_hooker_class = [], ba_callback_name = ''native'', ba_is_static = True, ba_is_fast_native = False,
      ba_is_native_api = True, ba_pack = False \<rparr>" kArm64 "''H0''" 0 1] by simp

section \<open>Class loaders\<close>

lemma hooker_loader_spec:
  assumes wf: "jm_wf loaders"
  shows "\<exists>l loaders'. hooker_loader F J cl loaders = Some (l, loaders') \<and> jm_wf loaders' \<and>
    (cl = 0 \<longrightarrow> loaders' = loaders) \<and>
    (cl \<noteq> 0 \<longrightarrow> l \<noteq> 0 \<longrightarrow> jm_get loaders' (Some cl) = Some l) \<and>
    (\<forall>c \<noteq> cl. jm_get loaders' (Some c) = jm_get loaders (Some c))"
proof (cases "jm_get loaders (as_object cl)")
  case (Some l)
  then show ?thesis using wf by (auto simp: hooker_loader_def as_object_def jm_get_def split: if_splits)
next
  case None
  define l where "l = vm_NewObject J (GlobalRef_get F ''path_class_loader_ref'') (rf_ids F ''path_class_loader_init'')
    [JStr ''/system'', JRef cl]"
  show ?thesis
  proof (cases "cl = 0")
    case True
    then show ?thesis using None wf by (auto simp: hooker_loader_def as_object_def jm_add_def Let_def)
  next
    case False
    obtain m' where m': "jm_add (Some cl) (as_object l) loaders = Some (True, m')" "jm_wf m'"
      "jm_abs m' = (jm_abs loaders)(cl \<mapsto> as_object l)"
      using jm_add_abs [OF wf, of cl "as_object l"] by blast
    have "hooker_loader F J cl loaders = Some (l, m')"
      using None False m'(1) by (simp add: hooker_loader_def l_def as_object_def Let_def)
    then show ?thesis using False m'(2,3) wf by (auto simp: jm_get_abs as_object_def)
  qed
qed

text \<open>Hooks of one client share a class loader: once a loader was made for a class loader, it is found
  again, and loaders made for others in between do not matter. For the null class loader, that of the
  framework's own classes, nothing is kept: every hook gets a loader of its own.\<close>

theorem hooker_loader_shared:
  assumes wf: "jm_wf loaders"
    and one: "hooker_loader F J cl loaders = Some (l, loaders1)" "l \<noteq> 0"
    and two: "hooker_loader F J cl' loaders1 = Some (l', loaders2)"
  shows "(cl \<noteq> 0 \<longrightarrow> hooker_loader F J' cl loaders2 = Some (l, loaders2)) \<and>
    (cl = 0 \<longrightarrow> loaders1 = loaders \<and> l = vm_NewObject J (GlobalRef_get F ''path_class_loader_ref'')
       (rf_ids F ''path_class_loader_init'') [JStr ''/system'', JRef 0])"
proof -
  have 1: "jm_wf loaders1" "cl \<noteq> 0 \<Longrightarrow> jm_get loaders1 (Some cl) = Some l" "cl = 0 \<Longrightarrow> loaders1 = loaders"
    using hooker_loader_spec [OF wf, of F J cl] one by auto
  have 2: "cl \<noteq> 0 \<Longrightarrow> jm_get loaders2 (Some cl) = Some l"
  proof (cases "cl' = cl")
    case True
    assume "cl \<noteq> 0"
    then show ?thesis using 1(2) two by (simp add: True hooker_loader_def as_object_def)
  next
    case False
    assume "cl \<noteq> 0"
    then show ?thesis using hooker_loader_spec [OF 1(1), of F J cl'] two 1(2) False by auto
  qed
  have "cl = 0 \<Longrightarrow> l = vm_NewObject J (GlobalRef_get F ''path_class_loader_ref'')
       (rf_ids F ''path_class_loader_init'') [JStr ''/system'', JRef 0]"
    using one by (auto simp: hooker_loader_def as_object_def jm_get_def Let_def split: option.splits prod.splits)
  then show ?thesis using 1(3) 2 by (simp add: hooker_loader_def as_object_def)
qed

definition demo_vm :: java_vm where
  "demo_vm = \<lparr> vm_NewObject = (\<lambda>c i as. 500), vm_CallObject = (\<lambda>o' i as. 600), vm_GetObjectField = (\<lambda>o' f. 700),
     vm_String = (\<lambda>o'. []) \<rparr>"

theorem hooker_loader_shared_witness:
  "\<exists>loaders1. hooker_loader reflection_init demo_vm 7 jm_empty = Some (500, loaders1) \<and>
     hooker_loader reflection_init demo_vm 7 loaders1 = Some (500, loaders1)"
proof -
  obtain l loaders1 where 1: "hooker_loader reflection_init demo_vm 7 jm_empty = Some (l, loaders1)"
    using hooker_loader_spec [OF jm_wf_empty] by blast
  have l: "l = 500"
    using 1 by (auto simp: hooker_loader_def as_object_def jm_get_def jm_empty_def demo_vm_def split: option.splits prod.splits)
  have "jm_wf loaders1" using hooker_loader_spec [OF jm_wf_empty, of reflection_init demo_vm 7] 1 by auto
  then obtain l' loaders2 where 2: "hooker_loader reflection_init demo_vm 0 loaders1 = Some (l', loaders2)" "loaders2 = loaders1"
    using hooker_loader_spec [of loaders1 reflection_init demo_vm 0] by auto
  show ?thesis
    using hooker_loader_shared [OF jm_wf_empty 1 _ 2(1), of demo_vm] 1 l 2(2) by auto
qed

section \<open>Fast native hooks\<close>

text \<open>Hooking a fast native method stops the process exactly when the method returns \<open>char\<close>: of all
  return types only \<open>C\<close> is missing in the switch that chooses the native entry, after the class has
  been built and loaded.\<close>

theorem fast_native_char_aborts:
  assumes wf: "jm_wf (bs_loaders s)" and b: "ba_shorty b = c # cs" "ba_is_fast_native b"
    and valid: "c \<in> set ''ZBSCIFJDLV''"
    and cls: "n = cf_class G @ string_of_nat (bs_loaded s)"
    and dex: "OpenInMemoryHookerDex (be_X B) (be_H B) F (be_E B) (be_J B) (be_D B)
      (be_image B (hooker_class (am_arch (be_S B)) G b n)) (bs_dex s) = (j, ws, Q)" "j \<noteq> 0"
    and load: "\<And>as. vm_CallObject (be_J B) j (rf_ids F ''load_class'') as \<noteq> 0"
  shows "BuildDex B G F m b s = None \<longleftrightarrow> c = CHR ''C''"
proof -
  obtain l loaders where l: "hooker_loader F (be_J B) (ba_class_loader b) (bs_loaders s) = Some (l, loaders)"
    using hooker_loader_spec [OF wf] by blast
  have "(BuildDex B G F m b s = None) = (fast_entry (be_entry B) c = None)"
    by (simp add: BuildDex_def Let_def b dex(1) [unfolded cls] dex(2) l load split: option.split)
  then show ?thesis using valid by (auto simp: fast_entry_def)
qed

definition demo_build :: build_env where
  "demo_build = \<lparr> be_S = arm64_statics, be_L = \<lparr> al_art_method_field = 0, al_abstract_method = 0, al_decode = None \<rparr>,
     be_E = demo_env, be_J = demo_vm, be_RT = \<lparr> rt_instance = 0, rt_debug_state_offset = 0,
       rt_jni_id_manager_offset = 0, rt_SetJavaDebuggable = None, rt_SetRuntimeDebugState = None \<rparr>,
     be_H = hook_state_init, be_X = \<lparr> de_debug = False, de_sdk = API_U, de_source = [], de_page_size = 4096,
       de_mmap = (\<lambda>_. Some 8192), de_malloc = (\<lambda>_. 0), de_lib = (\<lambda>v x msg. (0, ''bad'')) \<rparr>,
     be_D = dex_statics_init, be_image = (\<lambda>c. [1, 2, 3]), be_classname = (\<lambda>n. n), be_entry = (\<lambda>c. 900) \<rparr>"

definition demo_build_state :: build_state where
  "demo_build_state = \<lparr> bs_loaded = 0, bs_loaders = jm_empty, bs_dex = \<lparr> dl_failed = 0, dl_arena = arena_init (\<lambda>_. 0) \<rparr> \<rparr>"

definition demo_build_refs :: reflection where
  "demo_build_refs = set_id ''dex_file_init'' 40 reflection_init"

definition demo_config :: config where
  "demo_config = \<lparr> cf_class = ''H'', cf_source = [], cf_field = ''data'', cf_method = ''{target}'', cf_native_field = ''data$native'' \<rparr>"

theorem fast_native_char_aborts_witness:
  "BuildDex demo_build demo_config demo_build_refs (\<lambda>_. 0) \<lparr> ba_class_loader = 1, ba_shorty = ''CI'', ba_method_name = ''f'',
     ba_hooker_class = ''X'', ba_callback_name = ''cb'', ba_is_static = True, ba_is_fast_native = True,
     ba_is_native_api = False, ba_pack = False \<rparr> demo_build_state = None"
proof -
  let ?b = "\<lparr> ba_class_loader = 1, ba_shorty = ''CI'', ba_method_name = ''f'', ba_hooker_class = ''X'',
    ba_callback_name = ''cb'', ba_is_static = True, ba_is_fast_native = True, ba_is_native_api = False, ba_pack = False \<rparr>"
  have dex: "OpenInMemoryHookerDex (be_X demo_build) (be_H demo_build) demo_build_refs (be_E demo_build) (be_J demo_build)
      (be_D demo_build) img (bs_dex demo_build_state) = (500, [], bs_dex demo_build_state)" for img
    by (simp add: OpenInMemoryHookerDex_def demo_build_def IsMemoryDexSupported_def dex_statics_init_def open_by_java_def
        demo_build_refs_def set_id_def demo_vm_def reflection_init_def)
  have wf: "jm_wf (bs_loaders demo_build_state)" by (simp add: demo_build_state_def jm_wf_empty)
  have load: "vm_CallObject (be_J demo_build) 500 i as \<noteq> 0" for i as by (simp add: demo_build_def demo_vm_def)
  have b: "ba_shorty ?b = CHR ''C'' # ''I''" "ba_is_fast_native ?b" by simp_all
  show ?thesis
    using fast_native_char_aborts [OF wf b _ refl dex _ load, of demo_config "\<lambda>_. 0"] by simp
qed

end
