(* ===== verification/Library_Init.thy ===== *)
theory Library_Init
  imports Trampoline_Exec Class_Linker Jit Instrumentation Threads Stack_Visitor Dex_Build Unsafe
begin

text \<open>
  \<open>Init\<close> of lsplant.cc: the order in which the components are initialized, what a call leaves behind when one of
  them fails, and what a call that succeeds gives the other operations of the library.

  \<open>init_state\<close> holds the static variables of all components, \<open>init_env\<close> the device: its JNI, its API level,
  the client's callbacks and the code behind the symbols of libart.
\<close>

section \<open>State\<close>

record init_state =
  is_cfg :: config
  is_F :: reflection
  is_U :: unsafe_statics
  is_H :: hook_state
  is_L :: art_lookup
  is_S :: art_statics
  is_tramp :: "byte list"
  is_debuggable :: "bool option"
  is_C :: class_state
  is_RT :: runtime_statics
  is_I :: interp_entry
  is_D :: dex_statics
  is_fill :: native_hooker
  is_m :: memory
  is_initialized :: "bool option"

record init_env =
  ie_inline_hooker :: bool
  ie_symbol_resolver :: bool
  ie_info :: init_info
  ie_cfg :: config_info
  ie_repl :: "string \<Rightarrow> addr"
  ie_E :: jni_env
  ie_sdk :: int
  ie_decode :: "addr \<Rightarrow> addr \<Rightarrow> addr"
  ie_not_intrinsic :: "addr \<Rightarrow> memory \<Rightarrow> memory"
  ie_throw_error :: "addr \<Rightarrow> memory \<Rightarrow> memory"
  ie_set_debug :: "addr \<Rightarrow> bool \<Rightarrow> memory \<Rightarrow> memory"
  ie_set_state :: "addr \<Rightarrow> debug_state \<Rightarrow> memory \<Rightarrow> memory"
  ie_fake_runtime :: "addr \<times> memory"
  ie_set_interpreter :: "addr \<Rightarrow> memory \<Rightarrow> memory"
  ie_new_block :: addr
  ie_optimized_code :: "addr \<Rightarrow> memory \<Rightarrow> addr"

text \<open>Whether the runtime is debuggable is asked once and remembered (common.cxx).\<close>

definition IsJavaDebuggable :: "jni_env \<Rightarrow> int \<Rightarrow> bool option \<Rightarrow> bool" where
  "IsJavaDebuggable E sdk_int kDebuggable =
     (case kDebuggable of
        Some b \<Rightarrow> b
      | None \<Rightarrow>
          (let runtime_class = jni_FindClass E ''dalvik/system/VMRuntime'';
               get_runtime_method = jni_GetStaticMethodID E runtime_class ''getRuntime'' ''()Ldalvik/system/VMRuntime;'';
               is_debuggable_method = jni_GetMethodID E runtime_class ''isJavaDebuggable'' ''()Z'';
               runtime = jni_CallStaticObjectMethod E runtime_class get_runtime_method
           in if sdk_int < API_P then False
              else if runtime_class = 0 then False
              else if get_runtime_method = 0 then False
              else if is_debuggable_method = 0 then False
              else if runtime = 0 then False
              else jni_CallNonvirtualBooleanMethod E runtime runtime_class is_debuggable_method))"

section \<open>The calls of InitNative, in its order\<close>

type_synonym init_call = "init_env \<Rightarrow> init_state \<Rightarrow> bool \<times> init_state"

definition init_unsafe :: init_call where
  "init_unsafe P s = (let (ok, F, U) = Unsafe_Init (ie_E P) (is_F s, is_U s) in (ok, s\<lparr> is_F := F, is_U := U \<rparr>))"

definition init_art_method :: init_call where
  "init_art_method P s =
     (let (ok, H, L, S, m) = ArtMethod_Init (ie_info P) (ie_repl P) (ie_E P) (is_F s) (is_U s) (is_RT s) (ie_sdk P)
        (ie_not_intrinsic P) (ie_throw_error P) (is_H s, is_L s, is_S s, is_m s)
      in (ok, s\<lparr> is_H := H, is_L := L, is_S := S, is_m := m \<rparr>))"

definition init_trampoline :: init_call where
  "init_trampoline P s =
     (True, s\<lparr> is_tramp := UpdateTrampoline (entry_point_bit (am_arch (is_S s)))
        (word_of_nat (entry_point_offset (is_S s))) (is_tramp s) \<rparr>)"

definition init_thread :: init_call where
  "init_thread P s = (let (ok, H) = Thread_Init (am_arch (is_S s)) (ie_info P) (ie_sdk P) (is_H s) in (ok, s\<lparr> is_H := H \<rparr>))"

definition init_instrumentation :: init_call where
  "init_instrumentation P s =
     (let debuggable = IsJavaDebuggable (ie_E P) (ie_sdk P) (is_debuggable s);
          (ok, H) = Instrumentation_Init (ie_info P) (ie_repl P) debuggable (ie_sdk P) (is_H s)
      in (ok, s\<lparr> is_H := H, is_debuggable := Some debuggable \<rparr>))"

definition init_mirror_class :: init_call where
  "init_mirror_class P s =
     (let (ok, H, C) = Class_Init (ie_info P) (ie_repl P) (ie_E P) (is_F s) (is_U s) (ie_sdk P) (is_H s, is_C s)
      in (ok, s\<lparr> is_H := H, is_C := C \<rparr>))"

definition init_runtime :: init_call where
  "init_runtime P s =
     (let (ok, H, RT) = Runtime_Init (am_arch (is_S s)) (ie_sdk P) (ie_info P) (ie_E P) (ie_set_debug P) (ie_set_state P)
        (ie_fake_runtime P) (is_m s) (is_H s, is_RT s)
      in (ok, s\<lparr> is_H := H, is_RT := RT \<rparr>))"

definition init_class_linker :: init_call where
  "init_class_linker P s =
     (let (ok, H, I) = ClassLinker_Init (ie_info P) (ie_repl P) (is_S s) (is_L s) (ie_E P) (is_RT s) (ie_sdk P)
        (ie_set_interpreter P) (ie_new_block P) (ie_optimized_code P) (is_m s) (is_H s, is_I s)
      in (ok, s\<lparr> is_H := H, is_I := I \<rparr>))"

definition init_suspend_all :: init_call where
  "init_suspend_all P s = (let (ok, H) = ScopedSuspendAll_Init (ie_info P) (is_H s) in (ok, s\<lparr> is_H := H \<rparr>))"

definition init_gc :: init_call where
  "init_gc P s = (let (ok, H) = ScopedGCCriticalSection_Init (ie_info P) (ie_sdk P) (is_H s) in (ok, s\<lparr> is_H := H \<rparr>))"

definition init_jit_code_cache :: init_call where
  "init_jit_code_cache P s =
     (let (ok, H) = JitCodeCache_Init (ie_info P) (ie_repl P) (ie_sdk P) (is_H s) in (ok, s\<lparr> is_H := H \<rparr>))"

definition init_jit :: init_call where
  "init_jit P s = (let (ok, H) = Jit_Init (ie_info P) (ie_repl P) (ie_sdk P) (is_H s) in (ok, s\<lparr> is_H := H \<rparr>))"

definition init_dex_file :: init_call where
  "init_dex_file P s =
     (let (ok, H, F, D) = DexFile_Init (ie_info P) (is_S s) (is_L s) (ie_E P) (is_RT s) (is_m s) (ie_sdk P)
        (is_H s, is_F s, is_D s)
      in (ok, s\<lparr> is_H := H, is_F := F, is_D := D \<rparr>))"

definition init_jni_id_manager :: init_call where
  "init_jni_id_manager P s =
     (let debuggable = IsJavaDebuggable (ie_E P) (ie_sdk P) (is_debuggable s);
          (ok, H) = JniIdManager_Init (ie_info P) (ie_repl P) debuggable (ie_sdk P) (is_H s)
      in (ok, s\<lparr> is_H := H, is_L := (is_L s)\<lparr> al_decode :=
            (if raw_set H ''DecodeMethodId_'' then Some (ie_decode P) else None) \<rparr> \<rparr>))"

definition init_stack_visitor :: init_call where
  "init_stack_visitor P s =
     (let (ok, H, fill, m) = StackVisitor_Init (ie_info P) (ie_repl P) (is_S s) (is_L s) (ie_E P) (is_RT s) (ie_sdk P)
        (is_H s, is_fill s, is_m s)
      in (ok, s\<lparr> is_H := H, is_fill := fill, is_m := m \<rparr>))"

definition init_not_debuggable :: init_call where
  "init_not_debuggable P s =
     (True,
      if IsJavaDebuggable (ie_E P) (ie_sdk P) (is_debuggable s)
      then s\<lparr> is_m := SetJavaDebuggable (is_RT s) (Runtime_Current (am_arch (is_S s)) (is_RT s) (is_m s))
             kNonJavaDebuggable (is_m s) \<rparr>
      else s)"

text \<open>\<open>if (!X::Init(..)) return false;\<close>, one after the other.\<close>

fun run_inits :: "init_call list \<Rightarrow> init_call" where
  "run_inits [] P s = (True, s)"
| "run_inits (i # is) P s = (let (ok, s) = i P s in if ok then run_inits is P s else (False, s))"

definition native_inits :: "init_call list" where
  "native_inits =
     [init_unsafe, init_art_method, init_trampoline, init_thread, init_instrumentation, init_mirror_class, init_runtime,
      init_class_linker, init_suspend_all, init_gc, init_jit_code_cache, init_jit, init_dex_file, init_jni_id_manager,
      init_stack_visitor, init_not_debuggable]"

definition InitNative :: init_call where
  "InitNative = run_inits native_inits"

section \<open>Init\<close>

definition init_config :: init_call where
  "init_config P s = (let (ok, G) = InitConfig (ie_cfg P) (is_cfg s) in (ok, s\<lparr> is_cfg := G \<rparr>))"

definition init_jni :: init_call where
  "init_jni P s = (let (ok, F) = InitJNI (ie_E P) (ie_sdk P) (is_F s) in (ok, s\<lparr> is_F := F \<rparr>))"

text \<open>\<open>global_references.finalize\<close>.\<close>

definition finalize_globals :: "init_state \<Rightarrow> init_state" where
  "finalize_globals s = s\<lparr> is_F := (is_F s)\<lparr> rf_globals := jl_finalize (rf_globals (is_F s)) \<rparr> \<rparr>"

definition Init :: init_call where
  "Init P s =
     (case is_initialized s of
        Some b \<Rightarrow> if b then init_config P s else (False, s)
      | None \<Rightarrow>
          if \<not> ie_inline_hooker P \<or> \<not> ie_symbol_resolver P then (False, s)
          else
            (let (init_ok, s) = run_inits [init_config, init_jni, InitNative] P s;
                 s = (if init_ok then finalize_globals s else s)
             in (init_ok, s\<lparr> is_initialized := Some init_ok \<rparr>)))"

text \<open>The state of a library that was just loaded.\<close>

definition runtime_statics_init :: runtime_statics where
  "runtime_statics_init = \<lparr> rt_instance = 0, rt_debug_state_offset = 0, rt_jni_id_manager_offset = 0,
     rt_SetJavaDebuggable = None, rt_SetRuntimeDebugState = None \<rparr>"

definition init_fresh :: "arch \<Rightarrow> int \<Rightarrow> addr \<Rightarrow> memory \<Rightarrow> init_state" where
  "init_fresh a sdk_int fill_replace m =
     \<lparr> is_cfg = config_init, is_F = reflection_init, is_U = unsafe_statics_init, is_H = hook_state_init,
       is_L = \<lparr> al_art_method_field = 0, al_abstract_method = 0, al_decode = None \<rparr>, is_S = art_statics_default a sdk_int,
       is_tramp = trampoline_template a, is_debuggable = None, is_C = class_state_init, is_RT = runtime_statics_init,
       is_I = \<lparr> ip_bridge = 0, ip_set = None \<rparr>, is_D = dex_statics_init,
       is_fill = \<lparr> nh_replace = fill_replace, nh_original = 0, nh_handle = 0 \<rparr>, is_m = m, is_initialized = None \<rparr>"

section \<open>What each call leaves alone\<close>

named_theorems init_defs "the calls of InitNative"

declare init_unsafe_def [init_defs] init_art_method_def [init_defs] init_trampoline_def [init_defs]
  init_thread_def [init_defs] init_instrumentation_def [init_defs] init_mirror_class_def [init_defs]
  init_runtime_def [init_defs] init_class_linker_def [init_defs] init_suspend_all_def [init_defs] init_gc_def [init_defs]
  init_jit_code_cache_def [init_defs] init_jit_def [init_defs] init_dex_file_def [init_defs]
  init_jni_id_manager_def [init_defs] init_stack_visitor_def [init_defs] init_not_debuggable_def [init_defs]
  init_config_def [init_defs] init_jni_def [init_defs]

lemma run_inits_append:
  "run_inits (is @ js) P s = (True, s') \<longleftrightarrow> (\<exists>t. run_inits is P s = (True, t) \<and> run_inits js P t = (True, s'))"
  by (induction "is" arbitrary: s) (auto simp: Let_def split: prod.split)

lemma run_inits_Cons:
  "run_inits (i # is) P s = (True, s') \<longleftrightarrow> (\<exists>t. i P s = (True, t) \<and> run_inits is P t = (True, s'))"
  by (auto simp: Let_def split: prod.split)

text \<open>A relation that every call respects relates the first state to the last.\<close>

lemma run_inits_rel:
  assumes refl: "\<And>s. R s s" and trans: "\<And>s t u. R s t \<Longrightarrow> R t u \<Longrightarrow> R s u"
    and step: "\<And>i s. i \<in> set is \<Longrightarrow> R s (snd (i P s))"
  shows "R s (snd (run_inits is P s))"
  using step
proof (induction "is" arbitrary: s)
  case (Cons i "is")
  obtain ok t where t: "i P s = (ok, t)" by (metis prod.exhaust)
  have 1: "R s t" using Cons.prems [of i s] t by simp
  show ?case
  proof (cases ok)
    case True
    then show ?thesis using Cons.IH [of t] Cons.prems 1 t by (auto intro: trans)
  next
    case False
    then show ?thesis using t 1 by simp
  qed
qed (simp add: refl)

text \<open>The layout of methods is fixed from \<open>ArtMethod::Init\<close> on, the trampoline's code from the next line on.\<close>

definition layout_kept :: "init_state \<Rightarrow> init_state \<Rightarrow> bool" where
  "layout_kept s s' \<longleftrightarrow> is_S s' = is_S s \<and> al_art_method_field (is_L s') = al_art_method_field (is_L s)"

definition after_trampoline :: "init_call list" where
  "after_trampoline = drop 3 native_inits"

lemma layout_kept_calls: "i \<in> set after_trampoline \<Longrightarrow> layout_kept s (snd (i P s))"
  by (auto simp: after_trampoline_def native_inits_def layout_kept_def init_defs Let_def case_prod_beta)

lemma tramp_kept: "i \<in> set after_trampoline \<Longrightarrow> is_tramp (snd (i P s)) = is_tramp s"
  by (auto simp: after_trampoline_def native_inits_def init_defs Let_def case_prod_beta)

text \<open>Only \<open>Unsafe::Init\<close> sets further ids.\<close>

definition unsafe_ids :: "string set" where
  "unsafe_ids = {''unsafe_get_int_method'', ''unsafe_put_int_method''}"

definition ids_kept :: "init_state \<Rightarrow> init_state \<Rightarrow> bool" where
  "ids_kept s s' \<longleftrightarrow> (\<forall>v. v \<notin> unsafe_ids \<longrightarrow> rf_ids (is_F s') v = rf_ids (is_F s) v)"

lemma Unsafe_Init_ids: "v \<notin> unsafe_ids \<Longrightarrow> rf_ids (fst (snd (Unsafe_Init E (F, U)))) v = rf_ids F v"
  by (auto simp: Unsafe_Init_def unsafe_ids_def set_id_def Let_def)

lemma DexFile_Init_ids: "rf_ids (fst (snd (snd (DexFile_Init info S L E RT m sdk_int (H, F, D))))) = rf_ids F"
  by (simp add: DexFile_Init_def init_close_guard_def Let_def case_prod_beta split: option.split)

lemma ids_kept_calls: "i \<in> set native_inits \<Longrightarrow> ids_kept s (snd (i P s))"
  by (auto simp: native_inits_def ids_kept_def init_defs Let_def case_prod_beta Unsafe_Init_ids DexFile_Init_ids)

text \<open>Hooks that are installed stay installed.\<close>

lemma handler_any_keeps: "handles_kept H0 H \<Longrightarrow> handles_kept H0 (snd (handler_any info as H))"
  by (rule handles_kept_trans [OF _ handler_any_kept])

lemma handler_all_keeps: "handles_kept H0 H \<Longrightarrow> handles_kept H0 (snd (handler_all info as H))"
  by (rule handles_kept_trans [OF _ handler_all_kept])

lemma first_group_keeps: "handles_kept H0 H \<Longrightarrow> handles_kept H0 (snd (first_group info gs H))"
  by (induction gs arbitrary: H) (auto simp: Let_def case_prod_beta intro: handler_all_keeps simp del: handler_all.simps)

lemma raw_update_keeps: "handles_kept H0 H \<Longrightarrow> handles_kept H0 (H\<lparr> hs_raw := r \<rparr>)"
  by (simp add: handles_kept_def handle_set_def)

lemma handler_dexfile_keeps: "handles_kept H0 H \<Longrightarrow> handles_kept H0 (snd (handler_dexfile info as H))"
  by (induction as arbitrary: H) (auto simp: handle_dexfile_def Let_def case_prod_beta intro: raw_update_keeps)

lemmas keeps = handler_any_keeps handler_all_keeps first_group_keeps raw_update_keeps handler_dexfile_keeps

definition hooks_kept :: "init_state \<Rightarrow> init_state \<Rightarrow> bool" where
  "hooks_kept s s' \<longleftrightarrow> handles_kept (is_H s) (is_H s')"

definition after_class_linker :: "init_call list" where
  "after_class_linker = drop 8 native_inits"

lemma simple_inits_keep:
  "handles_kept H (snd (ScopedSuspendAll_Init info H))" "handles_kept H (snd (ScopedGCCriticalSection_Init info sdk H))"
  "handles_kept H (snd (JitCodeCache_Init info repl sdk H))" "handles_kept H (snd (JniIdManager_Init info repl dbg sdk H))"
  by (auto simp: ScopedSuspendAll_Init_def ScopedGCCriticalSection_Init_def JitCodeCache_Init_def JniIdManager_Init_def
      Let_def case_prod_beta simp del: handler_any.simps handler_all.simps intro!: keeps)

lemma if_keeps: "handles_kept H0 H \<Longrightarrow> handles_kept H0 H' \<Longrightarrow> handles_kept H0 (if b then H else H')"
  by simp

lemma if_pair_keeps:
  "handles_kept H0 (snd x) \<Longrightarrow> handles_kept H0 (snd y) \<Longrightarrow> handles_kept H0 (snd (if b then x else y))"
  by simp

lemma Jit_Init_keeps: "handles_kept H (snd (Jit_Init info repl sdk H))"
  unfolding Jit_Init_def Let_def case_prod_beta snd_conv
  by (intro if_pair_keeps handler_any_keeps) (simp_all del: handler_any.simps add: handler_any_keeps)

lemma DexFile_Init_keeps: "handles_kept H (fst (snd (DexFile_Init info S L E RT m sdk (H, F, D))))"
proof -
  have t: "handles_kept H0 H \<Longrightarrow> handles_kept H0 (fst (init_set_trusted info S L E RT m cls (H, D)))" for H0 H cls D
    by (auto simp: init_set_trusted_def Let_def case_prod_beta simp del: handler_any.simps intro!: keeps)
  have o: "handles_kept H0 H \<Longrightarrow> handles_kept H0 (snd (init_open_memory info a sdk H))" for H0 H a
    by (auto simp: init_open_memory_def Let_def case_prod_beta simp del: handler_any.simps handler_dexfile.simps intro!: keeps)
  have "fst (snd (DexFile_Init info S L E RT m sdk (H, F, D))) = snd (init_open_memory info (am_arch S) sdk
      (fst (if sdk \<ge> API_P then init_set_trusted info S L E RT m (jni_FindClass E ''dalvik/system/DexFile'') (H, D) else (H, D))))"
    by (simp add: DexFile_Init_def Let_def case_prod_beta split: option.split)
  then show ?thesis using o t by simp
qed

lemma hook_stack_trace_keeps: "handles_kept H0 H \<Longrightarrow> handles_kept H0 (snd (hook_stack_trace info repl sdk H))"
  unfolding hook_stack_trace_def Let_def case_prod_beta
  by (auto simp del: handler_any.simps intro!: if_pair_keeps handler_any_keeps)

lemma stack_accessors_keep: "handles_kept H0 H \<Longrightarrow> handles_kept H0 (stack_accessors info repl sdk H)"
  unfolding stack_accessors_def Let_def case_prod_beta
  by (auto simp del: handler_any.simps intro!: keeps if_keeps)

lemma StackVisitor_Init_keeps: "handles_kept H (fst (snd (StackVisitor_Init info repl S L E RT sdk (H, fill, m))))"
proof -
  let ?H1 = "snd (hook_stack_trace info repl sdk (stack_accessors info repl sdk H))"
  have 1: "handles_kept H ?H1" by (intro hook_stack_trace_keeps stack_accessors_keep handles_kept_refl)
  show ?thesis
  proof (cases "fst (hook_stack_trace info repl sdk (stack_accessors info repl sdk H))")
    case True
    then show ?thesis
      using 1 by (auto simp: StackVisitor_Init_def Let_def case_prod_beta simp del: handler_any.simps intro!: keeps)
  next
    case False
    then show ?thesis using 1 by (simp add: StackVisitor_Init_def Let_def case_prod_beta)
  qed
qed

lemma hooks_kept_calls: "i \<in> set after_class_linker \<Longrightarrow> hooks_kept s (snd (i P s))"
  by (auto simp: after_class_linker_def native_inits_def hooks_kept_def init_defs Let_def case_prod_beta
      simple_inits_keep Jit_Init_keeps DexFile_Init_keeps StackVisitor_Init_keeps)

section \<open>What a successful Init leaves\<close>

lemma run_inits_True_rel:
  assumes run: "run_inits is P s = (True, s')"
    and "\<And>s. R s s" "\<And>s t u. R s t \<Longrightarrow> R t u \<Longrightarrow> R s u" "\<And>i s. i \<in> set is \<Longrightarrow> R s (snd (i P s))"
  shows "R s s'"
  using run_inits_rel [of R "is" P s] assms by simp

lemma layout_arch: "ArtMethod_layout E F U sdk m (L, S) = (ok, L', S') \<Longrightarrow> am_arch S' = am_arch S"
  by (auto simp: ArtMethod_layout_def layout_flags_def mirror_layout_def Let_def split: if_splits)

lemma ArtMethod_Init_arch:
  assumes "ArtMethod_Init info repl E F U RT sdk_int f g (H0, L0, S0, m) = (True, H, L, S, m')" "sdk_int \<ge> API_N"
  shows "am_arch S = am_arch S0"
proof -
  obtain ok L1 S1 where lay: "ArtMethod_layout E F U sdk_int m (L0, S0) = (ok, L1, S1)" by (metis prod_cases3)
  have "am_arch S = am_arch S1"
    using assms lay by (auto simp: ArtMethod_Init_def probe_default_conflict_def Let_def split: if_splits prod.splits)
  with layout_arch [OF lay] show ?thesis by simp
qed

lemma device_layout_cong:
  assumes "\<forall>v. v \<notin> unsafe_ids \<longrightarrow> rf_ids F' v = rf_ids F v" "al_art_method_field L' = al_art_method_field L"
  shows "device_layout E F' a L' m first sz = device_layout E F a L m first sz"
proof -
  have "rf_ids F' ''class_get_declared_constructors'' = rf_ids F ''class_get_declared_constructors''"
    "rf_ids F' ''method_access_flags_field'' = rf_ids F ''method_access_flags_field''"
    using assms(1) by (simp_all add: unsafe_ids_def)
  then show ?thesis by (simp add: device_layout_def FromReflectedMethod_def assms(2))
qed

lemma native_inits_split:
  "native_inits = [init_unsafe, init_art_method, init_trampoline] @ after_trampoline"
  "after_trampoline = [init_thread, init_instrumentation, init_mirror_class, init_runtime, init_class_linker] @ after_class_linker"
  by (simp_all add: native_inits_def after_trampoline_def after_class_linker_def)

lemma Init_runs:
  assumes "Init P s0 = (True, s)" "is_initialized s0 = None"
  obtains s1 s2 s3 where "init_config P s0 = (True, s1)" "init_jni P s1 = (True, s2)" "InitNative P s2 = (True, s3)"
    "s = (finalize_globals s3)\<lparr> is_initialized := Some True \<rparr>"
  using assms by (auto simp: Init_def Let_def split: if_splits prod.splits)

text \<open>\<open>InitNative\<close> from the state \<open>InitJNI\<close> leaves: the calls up to the trampoline, those up to the class linker,
  and the rest.\<close>

lemma InitNative_stages:
  assumes "InitNative P s = (True, s')"
  obtains t1 t2 t3 t4 t5 where "init_unsafe P s = (True, t1)" "init_art_method P t1 = (True, t2)"
    "t3 = snd (init_trampoline P t2)"
    "run_inits [init_thread, init_instrumentation, init_mirror_class, init_runtime] P t3 = (True, t4)"
    "init_class_linker P t4 = (True, t5)" "run_inits after_class_linker P t5 = (True, s')"
    "run_inits after_trampoline P t3 = (True, s')"
proof -
  obtain t3 where a: "run_inits [init_unsafe, init_art_method, init_trampoline] P s = (True, t3)"
    "run_inits after_trampoline P t3 = (True, s')"
    using assms unfolding InitNative_def native_inits_split(1) run_inits_append by blast
  obtain t1 where b: "init_unsafe P s = (True, t1)" "run_inits [init_art_method, init_trampoline] P t1 = (True, t3)"
    using a(1) unfolding run_inits_Cons by blast
  obtain t2 where c: "init_art_method P t1 = (True, t2)" "run_inits [init_trampoline] P t2 = (True, t3)"
    using b(2) unfolding run_inits_Cons by blast
  have d: "t3 = snd (init_trampoline P t2)" using c(2) by (simp add: init_trampoline_def)
  have e: "after_trampoline = [init_thread, init_instrumentation, init_mirror_class, init_runtime] @
      init_class_linker # after_class_linker" by (simp add: native_inits_split(2))
  obtain t4 where f: "run_inits [init_thread, init_instrumentation, init_mirror_class, init_runtime] P t3 = (True, t4)"
    "run_inits (init_class_linker # after_class_linker) P t4 = (True, s')"
    using a(2) unfolding e run_inits_append by blast
  obtain t5 where g: "init_class_linker P t4 = (True, t5)" "run_inits after_class_linker P t5 = (True, s')"
    using f(2) unfolding run_inits_Cons by blast
  show ?thesis by (rule that [OF b(1) c(1) d f(1) g a(2)])
qed

lemma after_trampoline_kept:
  assumes "run_inits after_trampoline P t = (True, s')"
  shows "layout_kept t s'" "is_tramp s' = is_tramp t"
proof -
  show "layout_kept t s'"
    by (rule run_inits_True_rel [OF assms, where R = layout_kept])
      (simp_all add: layout_kept_calls, simp_all add: layout_kept_def)
  show "is_tramp s' = is_tramp t"
    by (rule run_inits_True_rel [OF assms, where R = "\<lambda>s t. is_tramp t = is_tramp s"]) (simp_all add: tramp_kept)
qed

lemma InitNative_ids: "InitNative P s = (True, s') \<Longrightarrow> ids_kept s s'"
  unfolding InitNative_def
  by (erule run_inits_True_rel [where R = ids_kept]) (simp_all add: ids_kept_calls, simp_all add: ids_kept_def)

lemma InitNative_layout:
  assumes run: "InitNative P s = (True, s')" and S: "is_S s = art_statics_default a (ie_sdk P)" "ie_sdk P \<ge> API_N"
    and dev: "device_layout (ie_E P) (is_F s') a (is_L s') (is_m s) first sz"
  shows "wf_statics (is_S s') \<and> art_method_size (is_S s') = sz \<and> entry_point_offset (is_S s') = sz - kPointerSize a"
    "am_arch (is_S s') = a"
    "is_tramp s' = UpdateTrampoline (entry_point_bit a) (word_of_nat (entry_point_offset (is_S s'))) (is_tramp s)"
proof -
  obtain t1 t2 t3 t4 t5 where t: "init_unsafe P s = (True, t1)" "init_art_method P t1 = (True, t2)"
    "t3 = snd (init_trampoline P t2)" "run_inits after_trampoline P t3 = (True, s')"
    by (rule InitNative_stages [OF run])
  obtain F U where u: "Unsafe_Init (ie_E P) (is_F s, is_U s) = (True, F, U)" "t1 = s\<lparr> is_F := F, is_U := U \<rparr>"
    using t(1) by (auto simp: init_unsafe_def Let_def split: prod.splits)
  obtain H L S m' where am: "ArtMethod_Init (ie_info P) (ie_repl P) (ie_E P) F U (is_RT s) (ie_sdk P) (ie_not_intrinsic P)
      (ie_throw_error P) (is_H s, is_L s, art_statics_default a (ie_sdk P), is_m s) = (True, H, L, S, m')"
    "t2 = t1\<lparr> is_H := H, is_L := L, is_S := S, is_m := m' \<rparr>"
    using t(2) by (auto simp: init_art_method_def Let_def u(2) S(1) split: prod.splits)
  note k = after_trampoline_kept [OF t(4)]
  have Ss: "is_S s' = S" "al_art_method_field (is_L s') = al_art_method_field L"
    using k(1) by (simp_all add: layout_kept_def t(3) init_trampoline_def am(2))
  have "\<forall>v. v \<notin> unsafe_ids \<longrightarrow> rf_ids (is_F s') v = rf_ids F v"
    using InitNative_ids [OF run] Unsafe_Init_ids [of _ "ie_E P" "is_F s" "is_U s"] by (simp add: ids_kept_def u(1))
  from device_layout_cong [OF this Ss(2)] have "device_layout (ie_E P) F a L (is_m s) first sz" using dev by simp
  from ArtMethod_Init_wf [OF am(1) S(2) this]
  show "wf_statics (is_S s') \<and> art_method_size (is_S s') = sz \<and> entry_point_offset (is_S s') = sz - kPointerSize a"
    by (simp add: Ss)
  have arch: "am_arch S = a" using ArtMethod_Init_arch [OF am(1) S(2)] by (simp add: art_statics_default_def)
  then show "am_arch (is_S s') = a" by (simp add: Ss)
  show "is_tramp s' = UpdateTrampoline (entry_point_bit a) (word_of_nat (entry_point_offset (is_S s'))) (is_tramp s)"
    by (simp add: k(2) t(3) init_trampoline_def am(2) u(2) Ss arch)
qed

lemma InitNative_hooks:
  assumes "InitNative P s = (True, s')"
  shows "\<exists>g \<in> set (native_hooks (ie_repl P) (ie_E P)). \<forall>(a, p) \<in> set g. harg_ready (is_H s') a"
proof -
  obtain t4 t5 where t: "init_class_linker P t4 = (True, t5)" "run_inits after_class_linker P t5 = (True, s')"
    using assms by (rule InitNative_stages)
  obtain H I where cl: "ClassLinker_Init (ie_info P) (ie_repl P) (is_S t4) (is_L t4) (ie_E P) (is_RT t4) (ie_sdk P)
      (ie_set_interpreter P) (ie_new_block P) (ie_optimized_code P) (is_m t4) (is_H t4, is_I t4) = (True, H, I)"
    "is_H t5 = H"
    using t(1) by (auto simp: init_class_linker_def Let_def split: prod.splits)
  have kept: "handles_kept H (is_H s')"
    using run_inits_True_rel [OF t(2), where R = hooks_kept] hooks_kept_calls cl(2)
    by (auto simp: hooks_kept_def intro: handles_kept_trans)
  obtain g where g: "g \<in> set (native_hooks (ie_repl P) (ie_E P))" "\<forall>(a, p) \<in> set g. harg_ready H a"
    using ClassLinker_Init_native [OF cl(1)] by blast
  have "harg_ready (is_H s') a" if "(a, p) \<in> set g" for a p
    using harg_ready_kept [OF native_hooks_hooks [OF g(1) that] kept] g(2) that by auto
  then show ?thesis using g(1) by blast
qed

lemma InitConfig_result:
  assumes "InitConfig info G0 = (ok, G)"
  shows "ok \<longleftrightarrow> ci_class info \<noteq> [] \<and> ci_field info \<noteq> [] \<and> ci_method info \<noteq> []" "ok \<Longrightarrow> cf_class G = ci_class info"
  using assms by (auto simp: InitConfig_def Let_def split: if_splits)

text \<open>C8. When the first \<open>Init\<close> succeeds on a device of Android 7 or later, what the other operations rely on is
  in place: the layout of methods is well-formed and the device's, the trampoline loads the entry point from
  its offset, every id that is used without a test is set, registering and unregistering of native methods are both
  hooked, and generated classes get the name the client chose.\<close>

theorem init_prepares_hooks:
  assumes run: "Init P (init_fresh a (ie_sdk P) fr m) = (True, s)" and api: "ie_sdk P \<ge> API_N"
    and dev: "device_layout (ie_E P) (is_F s) a (is_L s) m first sz" "sz < 128"
  shows "wf_statics (is_S s) \<and> am_arch (is_S s) = a \<and> art_method_size (is_S s) = sz \<and>
    (\<exists>e. is_tramp s = patched a e \<and> unat e = entry_point_offset (is_S s) \<and> unat e = sz - kPointerSize a) \<and>
    required_ids \<subseteq> avail (is_F s) \<and>
    (\<exists>g \<in> set (native_hooks (ie_repl P) (ie_E P)). \<forall>(x, p) \<in> set g. harg_ready (is_H s) x) \<and>
    cf_class (is_cfg s) = ci_class (ie_cfg P) \<and> is_initialized s = Some True"
proof -
  let ?s0 = "init_fresh a (ie_sdk P) fr m"
  have "is_initialized ?s0 = None" by (simp add: init_fresh_def)
  then obtain s1 s2 s3 where r: "init_config P ?s0 = (True, s1)" "init_jni P s1 = (True, s2)" "InitNative P s2 = (True, s3)"
    "s = (finalize_globals s3)\<lparr> is_initialized := Some True \<rparr>"
    by (rule Init_runs [OF run])
  obtain G where c: "InitConfig (ie_cfg P) config_init = (True, G)" "s1 = ?s0\<lparr> is_cfg := G \<rparr>"
    using r(1) by (auto simp: init_config_def Let_def init_fresh_def split: prod.splits)
  obtain F where j: "InitJNI (ie_E P) (ie_sdk P) reflection_init = (True, F)" "s2 = s1\<lparr> is_F := F \<rparr>"
    using r(2) by (auto simp: init_jni_def Let_def c(2) init_fresh_def split: prod.splits)
  have st: "is_S s2 = art_statics_default a (ie_sdk P)" "is_m s2 = m" "is_tramp s2 = trampoline_template a" "is_cfg s2 = G"
    by (simp_all add: j(2) c(2) init_fresh_def)
  have fin: "is_S s = is_S s3" "is_L s = is_L s3" "is_tramp s = is_tramp s3" "is_H s = is_H s3" "is_cfg s = is_cfg s3"
    "rf_ids (is_F s) = rf_ids (is_F s3)"
    by (simp_all add: r(4) finalize_globals_def)
  have d: "device_layout (ie_E P) (is_F s3) a (is_L s3) (is_m s2) first sz"
    using dev(1) device_layout_cong [of "is_F s" "is_F s3" "is_L s" "is_L s3"] by (simp add: fin st(2))
  note lay = InitNative_layout [OF r(3) st(1) api d]
  let ?e = "word_of_nat (entry_point_offset (is_S s)) :: 8 word"
  have "unat ?e = entry_point_offset (is_S s)"
    using lay(1) dev(2) by (simp add: fin unat_of_nat)
  then have e: "\<exists>e. is_tramp s = patched a e \<and> unat e = entry_point_offset (is_S s) \<and> unat e = sz - kPointerSize a"
    using lay by (intro exI [of _ ?e]) (simp add: fin patched_def st(3))
  have "required_ids \<subseteq> avail F" using InitJNI_ids [OF j(1)] by blast
  moreover have "required_ids \<inter> unsafe_ids = {}" by (auto simp: required_ids_def unsafe_ids_def)
  ultimately have ids: "required_ids \<subseteq> avail (is_F s)"
    using InitNative_ids [OF r(3)] by (fastforce simp: ids_kept_def avail_def fin j(2))
  have cfg: "is_cfg s3 = G"
    using run_inits_True_rel [OF r(3) [unfolded InitNative_def], where R = "\<lambda>s t. is_cfg t = is_cfg s"] st(4)
    by (force simp: native_inits_def init_defs Let_def case_prod_beta)
  then have "cf_class (is_cfg s) = ci_class (ie_cfg P)"
    using InitConfig_result(2) [OF c(1)] by (simp add: fin)
  then show ?thesis using lay e ids InitNative_hooks [OF r(3)] by (simp add: fin) (simp add: r(4))
qed

section \<open>Calling Init again\<close>

fun init_all :: "init_env list \<Rightarrow> init_state \<Rightarrow> bool list \<times> init_state" where
  "init_all [] s = ([], s)"
| "init_all (P # Ps) s = (let (ok, s) = Init P s; (oks, s) = init_all Ps s in (ok # oks, s))"

definition has_callbacks :: "init_env \<Rightarrow> bool" where
  "has_callbacks P \<longleftrightarrow> ie_inline_hooker P \<and> ie_symbol_resolver P"

definition names_given :: "init_env \<Rightarrow> bool" where
  "names_given P \<longleftrightarrow> ci_class (ie_cfg P) \<noteq> [] \<and> ci_field (ie_cfg P) \<noteq> [] \<and> ci_method (ie_cfg P) \<noteq> []"

lemma Init_later:
  assumes "is_initialized s = Some b"
  shows "\<exists>G. Init P s = (b \<and> names_given P, s\<lparr> is_cfg := G \<rparr>)"
proof (cases b)
  case True
  obtain ok G where c: "InitConfig (ie_cfg P) (is_cfg s) = (ok, G)" by (metis prod.exhaust)
  then show ?thesis
    using assms True InitConfig_result(1) [OF c]
    by (intro exI [of _ G]) (simp add: Init_def init_config_def names_given_def)
next
  case False
  then show ?thesis using assms by (intro exI [of _ "is_cfg s"]) (simp add: Init_def)
qed

lemma init_all_later:
  assumes "is_initialized s = Some b"
  shows "\<exists>G. init_all Ps s = (map (\<lambda>P. b \<and> names_given P) Ps, s\<lparr> is_cfg := G \<rparr>)"
  using assms
proof (induction Ps arbitrary: s)
  case Nil
  then show ?case by (intro exI [of _ "is_cfg s"]) simp
next
  case (Cons P Ps)
  obtain G where "Init P s = (b \<and> names_given P, s\<lparr> is_cfg := G \<rparr>)" using Init_later [OF Cons.prems] by blast
  moreover obtain G' where "init_all Ps (s\<lparr> is_cfg := G \<rparr>) = (map (\<lambda>P. b \<and> names_given P) Ps, s\<lparr> is_cfg := G \<rparr>\<lparr> is_cfg := G' \<rparr>)"
    using Cons.IH [of "s\<lparr> is_cfg := G \<rparr>"] Cons.prems by auto
  ultimately show ?case by (intro exI [of _ G']) simp
qed

lemma init_all_without:
  assumes "is_initialized s = None" "\<forall>P \<in> set Ps. \<not> has_callbacks P"
  shows "init_all Ps s = (map (\<lambda>_. False) Ps, s)"
  using assms by (induction Ps) (auto simp: Init_def has_callbacks_def)

lemma init_all_append:
  "init_all (Ps @ Qs) s = (let (oks, s) = init_all Ps s; (oks', s) = init_all Qs s in (oks @ oks', s))"
  by (induction Ps arbitrary: s) (auto simp: Let_def split: prod.split)

text \<open>C28. Only the first call that brings both callbacks initializes the components, whatever its outcome. Calls
  before it fail and change nothing; a later call can only change the names, fails for good if that call
  failed, and otherwise fails exactly if a name is empty. An empty name in that first call is therefore
  final, too.\<close>

theorem init_once:
  assumes s: "is_initialized s = None" and Ps: "\<forall>Q \<in> set Ps. \<not> has_callbacks Q" and P: "has_callbacks P"
    and run: "Init P s = (ok, t)"
  shows "(\<exists>G. init_all (Ps @ P # Qs) s =
      (map (\<lambda>_. False) Ps @ ok # map (\<lambda>Q. ok \<and> names_given Q) Qs, t\<lparr> is_cfg := G \<rparr>)) \<and> (ok \<longrightarrow> names_given P)"
proof
  have t: "is_initialized t = Some ok"
    using run s P by (auto simp: Init_def has_callbacks_def Let_def split: prod.splits)
  obtain G where "init_all Qs t = (map (\<lambda>Q. ok \<and> names_given Q) Qs, t\<lparr> is_cfg := G \<rparr>)"
    using init_all_later [OF t] by blast
  then show "\<exists>G. init_all (Ps @ P # Qs) s =
      (map (\<lambda>_. False) Ps @ ok # map (\<lambda>Q. ok \<and> names_given Q) Qs, t\<lparr> is_cfg := G \<rparr>)"
    by (intro exI [of _ G]) (simp add: init_all_append init_all_without [OF s Ps] run)
  show "ok \<longrightarrow> names_given P"
  proof
    assume ok
    with run have r: "Init P s = (True, t)" by simp
    obtain s1 where "init_config P s = (True, s1)" by (rule Init_runs [OF r s])
    then show "names_given P"
      using InitConfig_result(1) [of "ie_cfg P" "is_cfg s" True]
      by (auto simp: init_config_def names_given_def Let_def split: prod.splits)
  qed
qed

section \<open>A device\<close>

text \<open>Every symbol but one is found; methods have 32 bytes; the runtime is at 1.\<close>

definition device_info :: init_info where
  "device_info = demo_info\<lparr> art_symbol_resolver :=
     (\<lambda>n h. if n = ''_ZN3art7Runtime20SetRuntimeDebugStateENS0_17RuntimeDebugStateE'' then 0 else 16) \<rparr>"

definition device_mem :: memory where
  "device_mem = (\<lambda>x. if x = 4100 \<or> x = 16 then 1 else 0)"

definition device :: "bool \<Rightarrow> init_env" where
  "device hooker = \<lparr> ie_inline_hooker = hooker, ie_symbol_resolver = True, ie_info = device_info,
     ie_cfg = \<lparr> ci_class = ''H'', ci_source = [], ci_field = ''data'', ci_method = ''{target}'' \<rparr>,
     ie_repl = (\<lambda>_. 7), ie_E = init_env, ie_sdk = API_U, ie_decode = (\<lambda>d i. i), ie_not_intrinsic = (\<lambda>a m. m),
     ie_throw_error = (\<lambda>a m. m), ie_set_debug = (\<lambda>a b m. m), ie_set_state = (\<lambda>a b m. m),
     ie_fake_runtime = (0, \<lambda>_. 0), ie_set_interpreter = (\<lambda>a m. m), ie_new_block = 0, ie_optimized_code = (\<lambda>a m. 0) \<rparr>"

lemma device_dlsym:
  "dlsym device_info n False =
     (if n = ''_ZN3art7Runtime20SetRuntimeDebugStateENS0_17RuntimeDebugStateE'' then 0 else 16)"
  by (simp add: dlsym_def device_info_def demo_info_def)

lemma device_hooker: "inline_hooker device_info calls f r = (f + 1, Some (f + 2))"
  by (simp add: device_info_def demo_info_def)

lemma device_fields [simp]:
  "ie_info (device b) = device_info" "ie_E (device b) = init_env" "ie_sdk (device b) = API_U"
  "ie_inline_hooker (device b) = b" "ie_symbol_resolver (device b)"
  by (simp_all add: device_def)

lemma device_any:
  "p \<noteq> ''_ZN3art7Runtime20SetRuntimeDebugStateENS0_17RuntimeDebugStateE'' \<Longrightarrow>
     fst (handler_any device_info ((HHook v p r, False) # as) H)"
  "p \<noteq> ''_ZN3art7Runtime20SetRuntimeDebugStateENS0_17RuntimeDebugStateE'' \<Longrightarrow>
     fst (handler_any device_info ((HFun v p, False) # as) H)"
  by (simp_all add: device_dlsym install_def hook_def device_hooker Let_def)

lemma run_inits_ok:
  assumes "\<And>i s. i \<in> set is \<Longrightarrow> Q s \<Longrightarrow> fst (i P s) \<and> Q (snd (i P s))" "Q s"
  shows "fst (run_inits is P s) \<and> Q (snd (run_inits is P s))"
  using assms
proof (induction "is" arbitrary: s)
  case (Cons i "is")
  obtain ok t where t: "i P s = (ok, t)" by (metis prod.exhaust)
  then have "ok" "Q t" using Cons.prems(1) [of i s] Cons.prems(2) by auto
  then show ?case using Cons.IH [of t] Cons.prems(1) t by simp
qed simp

lemma device_art_method: "fst (init_art_method (device b) s) \<and> is_m (snd (init_art_method (device b) s)) = is_m s"
proof -
  obtain ok L S where l: "ArtMethod_layout init_env (is_F s) (is_U s) API_U (is_m s) (is_L s, is_S s) = (ok, L, S)"
    by (metis prod_cases3)
  then have ok by (auto simp: ArtMethod_layout_def init_env_def demo_env_def Let_def split: if_splits)
  then show ?thesis
    using l by (simp add: init_art_method_def ArtMethod_Init_def Let_def case_prod_beta del: handler_any.simps)
qed

lemma device_early:
  assumes "i \<in> set [init_unsafe, init_trampoline, init_thread, init_instrumentation, init_mirror_class]"
  shows "fst (i (device b) s) \<and> is_m (snd (i (device b) s)) = is_m s"
proof -
  have u: "fst (Unsafe_Init E (F, U))" for E F U by (simp add: Unsafe_Init_def Let_def)
  have t: "fst (Thread_Init a device_info API_U H)" for a H
    by (simp add: Thread_Init_def Let_def case_prod_beta del: handler_any.simps)
  have n: "fst (Instrumentation_Init device_info r d API_U H)" for r d H
    by (simp add: Instrumentation_Init_def debuggable_code_hooks_def hk_def Let_def case_prod_beta device_any del: handler_any.simps)
  have c: "fst (Class_Init device_info r E F U API_U (H, C))" for r E F U H C
    by (simp add: Class_Init_def set_status_hooks_def GetClassDef_sym_def Let_def case_prod_beta device_any
        del: handler_any.simps)
  show ?thesis
    using assms u t n c by (auto simp: init_defs Let_def case_prod_beta)
qed

lemma device_runtime:
  assumes "is_m s = device_mem"
  shows "fst (init_runtime (device b) s) \<and> is_m (snd (init_runtime (device b) s)) = device_mem"
proof -
  let ?i = "one (HFun ''instance_'' ''_ZN3art7Runtime9instance_E'')"
  have raw: "hs_raw (snd (handler_any device_info ?i H)) ''instance_'' = 16" for H
    by (simp add: device_dlsym Let_def)
  have off: "device_mem (16 + k) = (if k = 0 then 1 else 0)" if "k < 8" for k using that by (simp add: device_mem_def)
  have cur: "load device_mem 16 (kPointerSize a) \<noteq> 0" for a
    by (cases a) (simp_all add: load_eval device_mem_def kPointerSize_def)
  have st: "\<not> raw_set (snd (handler_any device_info debug_hooks H)) ''SetRuntimeDebugState_''"
    "fst (handler_any device_info debug_hooks H)" for H
    by (simp_all add: debug_hooks_def device_dlsym Let_def raw_set_def)
  show ?thesis
    using raw cur st
    by (auto simp: assms init_runtime_def Runtime_Init_def Runtime_Current_def Let_def case_prod_beta device_any
        simp del: handler_any.simps)
qed

lemma device_late:
  assumes "i \<in> set (init_class_linker # after_class_linker)"
  shows "fst (i (device b) s)"
proof -
  have g: "fst (first_group device_info (native_hooks r E) H)" for r E H
    by (simp add: native_hooks_def hk_def device_dlsym install_def hook_def device_hooker Let_def)
  have c: "fst (ClassLinker_Init device_info r S L E RT API_U f nb oc m (H, I))" for r S L E RT f nb oc m H I
    using g by (simp add: ClassLinker_Init_def Let_def case_prod_beta del: handler_any.simps)
  have u: "fst (ScopedSuspendAll_Init device_info H)" for H
    by (simp add: ScopedSuspendAll_Init_def suspend_names_def device_dlsym Let_def)
  have gc: "fst (ScopedGCCriticalSection_Init device_info API_U H)" for H
    by (simp add: ScopedGCCriticalSection_Init_def gc_names_def device_dlsym Let_def)
  have jc: "fst (JitCodeCache_Init device_info r API_U H)" for r H
    by (simp add: JitCodeCache_Init_def hk_def Let_def case_prod_beta device_any del: handler_any.simps)
  have j: "fst (Jit_Init device_info r API_U H)" for r H
    by (simp add: Jit_Init_def Let_def case_prod_beta del: handler_any.simps)
  have d: "fst (DexFile_Init device_info S L E RT m API_U (H, F, D))" for S L E RT m H F D
  proof -
    have z: "dlsym_dexfile device_info n = 0" for n by (simp add: dlsym_dexfile_def device_info_def demo_info_def)
    have "fst (init_open_memory device_info a API_U H') = Some True" for a H'
      by (simp add: init_open_memory_def handle_dexfile_def z Let_def case_prod_beta)
    then show ?thesis by (simp add: DexFile_Init_def Let_def case_prod_beta)
  qed
  have i: "fst (JniIdManager_Init device_info r dbg API_U H)" for r dbg H
    by (simp add: JniIdManager_Init_def Let_def case_prod_beta del: handler_any.simps)
  have v: "fst (StackVisitor_Init device_info r S L E RT API_U (H, fill, m))" for r S L E RT H fill m
    by (simp add: StackVisitor_Init_def Let_def case_prod_beta del: handler_any.simps)
  show ?thesis
    using assms c u gc jc j d i v
    by (auto simp: after_class_linker_def native_inits_def init_defs Let_def case_prod_beta)
qed

lemma device_native:
  assumes "is_m s = device_mem"
  shows "fst (InitNative (device b) s)"
proof -
  let ?early = "[init_unsafe, init_art_method, init_trampoline, init_thread, init_instrumentation, init_mirror_class, init_runtime]"
  have split: "native_inits = ?early @ init_class_linker # after_class_linker"
    by (simp add: native_inits_def after_class_linker_def)
  have step: "fst (i (device b) s) \<and> is_m (snd (i (device b) s)) = device_mem"
    if "i \<in> set ?early" "is_m s = device_mem" for i s
    using that device_early [of i b s] device_art_method [of b s] device_runtime [of s b] by auto
  have "fst (run_inits ?early (device b) s) \<and> is_m (snd (run_inits ?early (device b) s)) = device_mem"
    by (rule run_inits_ok [where Q = "\<lambda>s. is_m s = device_mem"], erule (1) step, rule assms)
  then have "fst (run_inits ?early (device b) s)" ..
  then obtain t where t: "run_inits ?early (device b) s = (True, t)" by (metis (full_types) prod.collapse)
  have "fst (run_inits (init_class_linker # after_class_linker) (device b) t)"
    using run_inits_ok [of "init_class_linker # after_class_linker" "\<lambda>_. True" "device b" t] device_late by blast
  then obtain u where u: "run_inits (init_class_linker # after_class_linker) (device b) t = (True, u)"
    by (metis (full_types) prod.collapse)
  have "run_inits native_inits (device b) s = (True, u)"
    unfolding split run_inits_append using t u by blast
  then show ?thesis by (simp add: InitNative_def)
qed

lemma device_run:
  "\<exists>s. Init (device True) (init_fresh kArm64 API_U 5 device_mem) = (True, s) \<and> al_art_method_field (is_L s) \<noteq> 0"
proof -
  let ?P = "device True" let ?s = "init_fresh kArm64 API_U 5 device_mem"
  obtain s1 where 1: "init_config ?P ?s = (True, s1)" "is_F s1 = reflection_init" "is_m s1 = device_mem"
    by (simp add: init_config_def InitConfig_def device_def init_fresh_def config_init_def)
  have "fst (InitJNI init_env API_U reflection_init)"
    by (simp add: InitJNI_def init_executable_def init_class_def init_loaders_def need_def check_def Let_def init_env_def
        demo_env_def)
  then obtain s2 where 2: "init_jni ?P s1 = (True, s2)" "is_m s2 = device_mem"
    using 1 by (simp add: init_jni_def Let_def case_prod_beta)
  then obtain s3 where 3: "InitNative ?P s2 = (True, s3)"
    using device_native by (metis (full_types) prod.collapse)
  obtain t1 t2 t3 where t: "init_art_method ?P t1 = (True, t2)" "t3 = snd (init_trampoline ?P t2)"
    "run_inits after_trampoline ?P t3 = (True, s3)"
    by (rule InitNative_stages [OF 3])
  have "al_art_method_field (is_L t2) \<noteq> 0"
    using t(1) by (auto simp: init_art_method_def ArtMethod_Init_def ArtMethod_layout_def Let_def
        simp del: handler_any.simps split: prod.splits if_splits)
  then have "al_art_method_field (is_L s3) \<noteq> 0"
    using after_trampoline_kept(1) [OF t(3)] by (simp add: layout_kept_def t(2) init_trampoline_def)
  moreover have "is_initialized ?s = None" by (simp add: init_fresh_def)
  ultimately show ?thesis
    using 1(1) 2(1) 3 by (simp add: Init_def finalize_globals_def)
qed

theorem init_prepares_hooks_witness:
  "\<exists>s. Init (device True) (init_fresh kArm64 API_U 5 device_mem) = (True, s) \<and> wf_statics (is_S s) \<and>
     is_tramp s = patched kArm64 24 \<and> ''load_class'' \<in> avail (is_F s)"
proof -
  obtain s where s: "Init (device True) (init_fresh kArm64 API_U 5 device_mem) = (True, s)"
    "al_art_method_field (is_L s) \<noteq> 0" using device_run by blast
  have c: "jni_array init_env x = [0, 32]" "jni_GetLongField init_env o' fid = 4096 + o'"
    "jni_GetIntField init_env o' fid = 1" for x o' fid
    by (simp_all add: init_env_def demo_env_def)
  have four: "[0..<8] = [0, 1, 2, 3, 4, 5, 6, 7 :: nat]" by code_simp
  have "find_access_flags device_mem 4096 32 1 = 4"
    by (simp add: find_access_flags_def four load_eval device_mem_def)
  then have dev: "device_layout init_env (is_F s) kArm64 (is_L s) device_mem 4096 32"
    using s(2) by (simp add: device_layout_def Let_def c FromReflectedMethod_def art_statics_default_def)
  have "''load_class'' \<in> required_ids" by (simp add: required_ids_def)
  moreover have "e = 24" if "unat e = 24" for e :: "8 word" using that by (simp add: word_unat_eq_iff)
  ultimately show ?thesis
    using init_prepares_hooks [of "device True" kArm64 5 device_mem s 4096 32] s(1) dev
    by (auto simp: kPointerSize_def kLPCurrent_def)
qed

theorem init_once_witness:
  "\<exists>ok t. Init (device True) (init_fresh kArm64 API_U 5 device_mem) = (ok, t) \<and>
    (\<exists>G. init_all [device False, device True, device True] (init_fresh kArm64 API_U 5 device_mem) =
      ([False, ok, ok], t\<lparr> is_cfg := G \<rparr>))"
proof -
  let ?s = "init_fresh kArm64 API_U 5 device_mem"
  obtain ok t where run: "Init (device True) ?s = (ok, t)" by (metis prod.exhaust)
  have "is_initialized ?s = None" by (simp add: init_fresh_def)
  then show ?thesis
    using init_once [of ?s "[device False]" "device True" ok t "[device True]"] run
    by (simp add: has_callbacks_def device_def names_given_def)
qed

end
