(* ===== verification/Native_Entry.thy ===== *)
theory Native_Entry
  imports Hooker_Code Method_Set
begin

text \<open>
  Hooks on fast native methods (lsplant.cc): their hook is a native method, \<open>NativeHookerEntry\<close>, that
  does what the Dalvik code of \<open>Hooker_Code\<close> does for other targets. While it runs the target counts
  as not native (\<open>ScopedNonNativeTargetMethod\<close>).

  Arguments and results are the values of \<open>Hooker_Code\<close>; \<open>unwrap c\<close> is \<open>wrapper::Unwrap\<close> for the type
  \<open>c\<close>. \<open>None\<close> is \<open>std::abort\<close>.
\<close>

record native_data =
  nd_pack :: bool
  nd_is_static :: bool
  nd_references :: nat
  nd_data_field :: addr
  nd_callback_method :: addr
  nd_native_entry :: addr
  nd_target :: addr
  nd_shorty :: string

section \<open>The scope\<close>

definition scope_enter :: "art_statics \<Rightarrow> native_data \<times> memory \<Rightarrow> bool \<times> native_data \<times> memory" where
  "scope_enter S = (\<lambda>(d, m).
     (if nd_references d = 0 \<and> \<not> IsNative S m (nd_target d) then (False, d, m)
      else
        (let d = d\<lparr> nd_references := (nd_references d + 1) mod 2 ^ 32 \<rparr>
         in (True, d, if nd_references d = 1 then SetNonNative S (nd_target d) m else m))))"

definition scope_leave :: "art_statics \<Rightarrow> bool \<Rightarrow> native_data \<times> memory \<Rightarrow> native_data \<times> memory" where
  "scope_leave S held = (\<lambda>(d, m).
     (if held then
        (let d = d\<lparr> nd_references := (nd_references d + 2 ^ 32 - 1) mod 2 ^ 32 \<rparr>
         in (d, if nd_references d = 0 then SetNative S (nd_target d) m else m))
      else (d, m)))"

section \<open>The entry\<close>

text \<open>\<open>Wrap\<close> by the letter of the shorty.\<close>

fun wrap_args :: "string \<Rightarrow> dval list \<Rightarrow> dval list option" where
  "wrap_args (c # cs) (v # va) =
     (if c \<in> set ''ZBSCIFJDL'' then map_option ((#) (boxed (shorty_type c) v)) (wrap_args cs va) else None)"
| "wrap_args [] va = Some []"
| "wrap_args (c # cs) [] = None"

text \<open>The receiver and the array; an element that is not set stays null.\<close>

definition collect_args :: "native_data \<Rightarrow> dval list \<Rightarrow> (dval \<times> dval list) option" where
  "collect_args d va =
     (let parameter_count = length (nd_shorty d) - 1;
          args = replicate (parameter_count + (if nd_pack d then 1 else 0)) (DInt 0);
          packed = \<not> nd_is_static d \<and> nd_pack d;
          receiver = (if \<not> nd_is_static d \<and> \<not> nd_pack d then hd va else DInt 0);
          args = (if packed then args[0 := hd va] else args);
          arg_index = (if packed then 1 else 0);
          va = (if nd_is_static d then va else tl va)
      in map_option (\<lambda>ws. (receiver, take arg_index args @ ws @ drop (arg_index + length ws) args))
           (wrap_args (tl (nd_shorty d)) va))"

definition native_call :: "native_data \<Rightarrow> dval \<Rightarrow> dval \<Rightarrow> dval list \<Rightarrow> callback option" where
  "native_call d field receiver args =
     (if nd_native_entry d \<noteq> 0 then Some (Callback None (Some receiver) args (Some field))
      else if field \<noteq> DInt 0 then
        Some (if nd_pack d then Callback (Some field) None args None
              else Callback (Some field) (Some receiver) args None)
      else None)"

text \<open>\<open>result\<close> starts as zero and is left alone when the callback gives null.\<close>

definition native_result :: "(char \<Rightarrow> dval \<Rightarrow> nat) \<Rightarrow> char \<Rightarrow> dval \<Rightarrow> dval option option" where
  "native_result unwrap c wrapped =
     (if c \<in> set ''ZBSCIFJD'' then Some (Some (DPrim c (if wrapped = DInt 0 then 0 else unwrap c wrapped)))
      else if c = CHR ''L'' then Some (Some wrapped)
      else if c = CHR ''V'' then Some None
      else None)"

text \<open>\<open>data\<close> is \<open>None\<close> when the class has no such field or the field is null; \<open>T\<close> is the type the entry was
  instantiated with.\<close>

definition NativeHookerEntry ::
  "art_statics \<Rightarrow> (char \<Rightarrow> dval \<Rightarrow> nat) \<Rightarrow> char \<Rightarrow> dval \<Rightarrow> (callback \<Rightarrow> native_data \<times> memory \<Rightarrow> dval \<times> native_data \<times> memory)
     \<Rightarrow> dval list \<Rightarrow> native_data option \<times> memory \<Rightarrow> (dval option \<times> native_data option \<times> memory) option" where
  "NativeHookerEntry S unwrap T field callback va = (\<lambda>(data, m).
     (case data of
        None \<Rightarrow> Some (if T = CHR ''V'' then None else if T = CHR ''L'' then Some (DInt 0) else Some (DPrim T 0), None, m)
      | Some d \<Rightarrow>
          (let (held, d, m) = scope_enter S (d, m) in
           case collect_args d va of
             None \<Rightarrow> None
           | Some (receiver, args) \<Rightarrow>
               (let (wrapped, d, m) = (case native_call d field receiver args of
                      Some c \<Rightarrow> callback c (d, m) | None \<Rightarrow> (DInt 0, d, m))
                in case native_result unwrap (hd (nd_shorty d)) wrapped of
                     None \<Rightarrow> None
                   | Some r \<Rightarrow> (let (d, m) = scope_leave S held (d, m) in Some (r, Some d, m))))))"

section \<open>The same call as the Dalvik code\<close>

lemma wrap_args_boxed:
  assumes "set cs \<subseteq> set ''ZBSCIFJDL''" "length va = length cs"
  shows "wrap_args cs va = Some (map2 boxed (map shorty_type cs) va)"
  using assms
proof (induction cs arbitrary: va)
  case (Cons c cs)
  then obtain v vs where "va = v # vs" by (cases va) auto
  with Cons show ?case by simp
qed simp

text \<open>C15. The native entry and the Dalvik code make the same call of the callback: same object, same
  receiver, same array of boxed arguments. The one exception is a static method whose arguments are
  packed: the native entry reserves a place for a receiver there, so its array ends in a null that
  the Dalvik code does not have.\<close>

theorem native_entry_matches_dalvik:
  assumes d: "nd_shorty d = r # cs" "set cs \<subseteq> set ''ZBSCIFJDL''"
    and va: "types = parameter_types (nd_is_static d) (nd_shorty d)" "length va = length types"
    and nat: "nd_native_entry d \<noteq> 0 \<Longrightarrow> \<not> nd_pack d" and field: "field \<noteq> DInt 0"
  shows "\<exists>receiver args. collect_args d va = Some (receiver, args) \<and>
    (if nd_is_static d \<and> nd_pack d then args = map2 boxed types va @ [DInt 0]
     else native_call d field receiver args =
       Some (expected_call (nd_is_static d) (nd_native_entry d \<noteq> 0) (nd_pack d) field types va))"
proof -
  let ?ts = "map shorty_type cs"
  have types: "types = (if nd_is_static d then [] else [TObject]) @ ?ts" by (simp add: va(1) d(1) parameter_types_def)
  show ?thesis
  proof (cases "nd_is_static d")
    case True
    then have "wrap_args cs va = Some (map2 boxed ?ts va)" using va(2) types by (intro wrap_args_boxed d(2)) simp
    moreover have "length va = length cs" using True va(2) types by simp
    ultimately show ?thesis
      using True types nat field
      by (auto simp: collect_args_def d(1) Let_def native_call_def expected_call_def)
  next
    case False
    then obtain v vs where v: "va = v # vs" "length vs = length cs" using va(2) types by (cases va) auto
    then have "wrap_args cs vs = Some (map2 boxed ?ts vs)" by (intro wrap_args_boxed d(2)) simp
    then show ?thesis
      using False types nat field v
      by (auto simp: collect_args_def d(1) Let_def native_call_def expected_call_def)
  qed
qed

definition demo_native :: native_data where
  "demo_native = \<lparr> nd_pack = False, nd_is_static = False, nd_references = 0, nd_data_field = 8, nd_callback_method = 12, nd_native_entry = 0, nd_target = 64,
     nd_shorty = ''IJ'' \<rparr>"

theorem native_entry_matches_dalvik_witness:
  "\<exists>receiver args. collect_args demo_native [DRef 1, DPrim (CHR ''J'') 5] = Some (receiver, args) \<and>
     native_call demo_native (DRef 9) receiver args = Some (Callback (Some (DRef 9)) (Some (DRef 1)) [DBoxed (CHR ''J'') 5] None)"
  using native_entry_matches_dalvik [of demo_native "CHR ''I''" "''J''" "[TObject, TPrim (CHR ''J'')]"
      "[DRef 1, DPrim (CHR ''J'') 5]" "DRef 9"]
  by (auto simp: demo_native_def parameter_types_def shorty_type_def from_descriptor_def expected_call_def)

section \<open>Nesting\<close>

text \<open>What a thread may do inside a scope: change memory without touching the target's kind, and run
  scopes of the same hook, one after the other or one inside the other.\<close>

inductive balanced :: "art_statics \<Rightarrow> native_data \<times> memory \<Rightarrow> native_data \<times> memory \<Rightarrow> bool" for S where
  other: "IsNative S m' (nd_target d) = IsNative S m (nd_target d) \<Longrightarrow> balanced S (d, m) (d, m')"
| seq: "balanced S s s' \<Longrightarrow> balanced S s' s'' \<Longrightarrow> balanced S s s''"
| scope: "scope_enter S s = (held, s1) \<Longrightarrow> balanced S s1 s2 \<Longrightarrow> balanced S s (scope_leave S held s2)"

definition scope_inv :: "art_statics \<Rightarrow> native_data \<times> memory \<Rightarrow> bool" where
  "scope_inv S = (\<lambda>(d, m). nd_references d < 2 ^ 32 \<and> (nd_references d \<noteq> 0 \<longrightarrow> \<not> IsNative S m (nd_target d)))"

lemma IsNative_set:
  assumes "wf_statics S"
  shows "IsNative S (SetNative S a m) a" "\<not> IsNative S (SetNonNative S a m) a"
  using assms
  by (auto simp: IsNative_def SetNative_def SetNonNative_def flag_simps bit_simps)
    (simp_all add: kAccNative_def bit_simps flag_simps)

lemma scope_enter_spec:
  assumes wf: "wf_statics S" and inv: "scope_inv S (d, m)" and e: "scope_enter S (d, m) = (held, d1, m1)"
  shows "\<not> IsNative S m1 (nd_target d) \<and> nd_target d1 = nd_target d \<and>
    (if held then nd_references d1 = (nd_references d + 1) mod 2 ^ 32
     else d1 = d \<and> m1 = m \<and> nd_references d = 0)"
proof (cases "nd_references d = 0")
  case True
  then show ?thesis using e IsNative_set(2) [OF wf] by (auto simp: scope_enter_def Let_def split: if_splits)
next
  case False
  then have "\<not> IsNative S m (nd_target d)" using inv by (simp add: scope_inv_def)
  then show ?thesis
    using e False IsNative_set(2) [OF wf] by (auto simp: scope_enter_def Let_def split: if_splits)
qed

lemma wrap_pred: "(r :: nat) < 2 ^ 32 \<Longrightarrow> ((r + 1) mod 2 ^ 32 + 2 ^ 32 - 1) mod 2 ^ 32 = r"
  by (cases "r + 1 = 2 ^ 32") (auto simp: mod_if)

lemma scope_leave_spec:
  assumes wf: "wf_statics S" and inv: "scope_inv S (d, m)" and e: "scope_enter S (d, m) = (held, d1, m1)"
    and d2: "nd_references d2 = nd_references d1" "nd_target d2 = nd_target d" "\<not> IsNative S m2 (nd_target d)"
    and l: "scope_leave S held (d2, m2) = (d3, m3)"
  shows "nd_references d3 = nd_references d \<and> nd_target d3 = nd_target d \<and>
    IsNative S m3 (nd_target d) = IsNative S m (nd_target d)"
proof (cases held)
  case True
  have r: "nd_references d < 2 ^ 32" "nd_references d \<noteq> 0 \<longrightarrow> \<not> IsNative S m (nd_target d)"
    using inv by (simp_all add: scope_inv_def)
  have nat: "nd_references d = 0 \<Longrightarrow> IsNative S m (nd_target d)"
    using e True by (auto simp: scope_enter_def Let_def split: if_splits)
  have "(nd_references d2 + 2 ^ 32 - 1) mod 2 ^ 32 = nd_references d"
    using scope_enter_spec [OF wf inv e] True d2(1) wrap_pred [OF r(1)] by simp
  then show ?thesis
    using l True d2 r(2) nat IsNative_set(1) [OF wf]
    by (cases "nd_references d = 0") (auto simp: scope_leave_def Let_def)
next
  case False
  then show ?thesis using scope_enter_spec [OF wf inv e] d2 l by (auto simp: scope_leave_def)
qed

lemma balanced_same:
  assumes "balanced S s s'" and wf: "wf_statics S" and inv: "scope_inv S s"
  shows "nd_references (fst s') = nd_references (fst s) \<and> nd_target (fst s') = nd_target (fst s) \<and>
    IsNative S (snd s') (nd_target (fst s)) = IsNative S (snd s) (nd_target (fst s))"
  using assms(1) inv
proof (induction rule: balanced.induct)
  case (seq s s' s'')
  then have "scope_inv S s'" by (auto simp: scope_inv_def split: prod.splits)
  then show ?case using seq by simp
next
  case (scope s held s1 s2)
  obtain d m where s: "s = (d, m)" by (metis prod.exhaust)
  obtain d1 m1 where s1: "s1 = (d1, m1)" by (metis prod.exhaust)
  obtain d2 m2 where s2: "s2 = (d2, m2)" by (metis prod.exhaust)
  obtain d3 m3 where s3: "scope_leave S held s2 = (d3, m3)" by (metis prod.exhaust)
  note e = scope_enter_spec [OF wf scope.prems [unfolded s] scope.hyps(1) [unfolded s s1]]
  have "scope_inv S s1" using e scope.prems by (auto simp: scope_inv_def s s1 split: if_splits)
  then have ih: "nd_references d2 = nd_references d1" "nd_target d2 = nd_target d" "\<not> IsNative S m2 (nd_target d)"
    using scope.IH e by (simp_all add: s1 s2)
  show ?case
    using scope_leave_spec [OF wf scope.prems [unfolded s] scope.hyps(1) [unfolded s s1] ih s3 [unfolded s2]]
    by (simp add: s s3)
qed simp

text \<open>C18. While a hook of a fast native method runs, its target counts as not native, however deep the calls
  nest and even if the counter wraps; when the outermost call returns, counter and flag are what they
  were. This is what a single thread sees.\<close>

theorem native_scope_nests:
  assumes wf: "wf_statics S" and inv: "scope_inv S (d, m)"
    and e: "scope_enter S (d, m) = (held, d1, m1)" and body: "balanced S (d1, m1) (d2, m2)"
    and l: "scope_leave S held (d2, m2) = (d3, m3)"
  shows "\<not> IsNative S m1 (nd_target d) \<and> \<not> IsNative S m2 (nd_target d) \<and>
    nd_references d3 = nd_references d \<and> IsNative S m3 (nd_target d) = IsNative S m (nd_target d)"
proof -
  note s = scope_enter_spec [OF wf inv e]
  have "scope_inv S (d1, m1)" using s inv by (auto simp: scope_inv_def split: if_splits)
  note b = balanced_same [OF body wf this]
  show ?thesis using s b scope_leave_spec [OF wf inv e _ _ _ l] by auto
qed

theorem native_scope_nests_witness:
  "\<exists>d1 m1 d3 m3. scope_enter arm64_statics (demo_native, native_mem) = (True, d1, m1) \<and>
     \<not> IsNative arm64_statics m1 64 \<and>
     scope_leave arm64_statics True (d1, m1) = (d3, m3) \<and> nd_references d3 = 0 \<and> IsNative arm64_statics m3 64"
proof -
  have nat: "IsNative arm64_statics native_mem 64"
    by (simp add: IsNative_def has_flag_def GetAccessFlags_def load_eval native_mem_def kAcc_defs
          arm64_statics_def)
  obtain held d1 m1 where e: "scope_enter arm64_statics (demo_native, native_mem) = (held, d1, m1)"
    by (metis prod_cases3)
  obtain d3 m3 where l: "scope_leave arm64_statics held (d1, m1) = (d3, m3)" by (metis prod.exhaust)
  have h: "held" using e nat by (auto simp: scope_enter_def demo_native_def Let_def split: if_splits)
  have "scope_inv arm64_statics (demo_native, native_mem)" by (simp add: scope_inv_def demo_native_def)
  from native_scope_nests [OF wf_arm64 this e balanced.other [OF refl] l] show ?thesis
    using e l h nat by (auto simp: demo_native_def)
qed

section \<open>Several threads\<close>

text \<open>The counter is a plain \<open>uint32_t\<close>, so an increment is a load and a store. \<open>Unheld\<close> is a scope that has set
  its \<open>data_\<close> to null.\<close>

datatype scope_pc = Outside | Loaded nat | Inside | Leaving nat | Unheld

inductive race_step :: "art_statics \<Rightarrow> addr \<Rightarrow> nat \<times> memory \<times> (nat \<Rightarrow> scope_pc) \<Rightarrow> nat \<times> memory \<times> (nat \<Rightarrow> scope_pc) \<Rightarrow> bool"
  for S target where
  enter_load: "pc i = Outside \<Longrightarrow> r \<noteq> 0 \<or> IsNative S m target \<Longrightarrow> race_step S target (r, m, pc) (r, m, pc(i := Loaded r))"
| enter_store: "pc i = Loaded k \<Longrightarrow> r' = (k + 1) mod 2 ^ 32 \<Longrightarrow> m' = (if r' = 1 then SetNonNative S target m else m) \<Longrightarrow>
    race_step S target (r, m, pc) (r', m', pc(i := Inside))"
| enter_null: "pc i = Outside \<Longrightarrow> r = 0 \<and> \<not> IsNative S m target \<Longrightarrow> race_step S target (r, m, pc) (r, m, pc(i := Unheld))"
| leave_null: "pc i = Unheld \<Longrightarrow> race_step S target (r, m, pc) (r, m, pc(i := Outside))"
| leave_load: "pc i = Inside \<Longrightarrow> race_step S target (r, m, pc) (r, m, pc(i := Leaving r))"
| leave_store: "pc i = Leaving k \<Longrightarrow> r' = (k + 2 ^ 32 - 1) mod 2 ^ 32 \<Longrightarrow>
    m' = (if r' = 0 then SetNative S target m else m) \<Longrightarrow>
    race_step S target (r, m, pc) (r', m', pc(i := Outside))"

text \<open>C37. Two threads that enter at once can lose an increment: the first to leave then makes the target
  native again while the other is still inside.\<close>

theorem native_scope_race:
  assumes wf: "wf_statics S" and nat: "IsNative S m target"
  shows "\<exists>r m' pc. (race_step S target)\<^sup>*\<^sup>* (0, m, \<lambda>_. Outside) (r, m', pc) \<and> pc 1 = Outside \<and> pc 2 = Inside \<and>
    IsNative S m' target"
proof -
  let ?R = "race_step S target" and ?pc = "\<lambda>_ :: nat. Outside"
  let ?m1 = "SetNonNative S target m" and ?p1 = "?pc(1 := Loaded 0)"
  let ?m2 = "SetNonNative S target ?m1" and ?p2 = "?p1(2 := Loaded 0)"
  let ?p3 = "?p2(1 := Inside)" let ?p4 = "?p3(2 := Inside)" let ?p5 = "?p4(1 := Leaving 1)"
  have "?R (0, m, ?pc) (0, m, ?p1)" using nat by (intro enter_load) auto
  moreover have "?R (0, m, ?p1) (0, m, ?p2)" using nat by (intro enter_load) auto
  moreover have "?R (0, m, ?p2) (1, ?m1, ?p3)" by (rule enter_store [of _ _ 0]) auto
  moreover have "?R (1, ?m1, ?p3) (1, ?m2, ?p4)" by (rule enter_store [of _ _ 0]) auto
  moreover have "?R (1, ?m2, ?p4) (1, ?m2, ?p5)" by (rule leave_load) auto
  moreover have "?R (1, ?m2, ?p5) (0, SetNative S target ?m2, ?p5(1 := Outside))" by (rule leave_store [of _ _ 1]) auto
  ultimately have "?R\<^sup>*\<^sup>* (0, m, ?pc) (0, SetNative S target ?m2, ?p5(1 := Outside))"
    by (meson converse_rtranclp_into_rtranclp rtranclp.rtrancl_refl)
  then show ?thesis
    using IsNative_set(1) [OF wf] by (intro exI conjI) (assumption, auto)
qed

theorem native_scope_race_witness:
  "\<exists>r m' pc. (race_step arm64_statics 64)\<^sup>*\<^sup>* (0, native_mem, \<lambda>_. Outside) (r, m', pc) \<and> pc 2 = Inside \<and>
     IsNative arm64_statics m' 64"
proof -
  have "IsNative arm64_statics native_mem 64"
    by (simp add: IsNative_def has_flag_def GetAccessFlags_def load_eval native_mem_def kAcc_defs
          arm64_statics_def)
  from native_scope_race [OF wf_arm64 this] show ?thesis by blast
qed

end
