(* ===== verification/Hook_API.thy ===== *)
theory Hook_API
  imports Dex_Build Native_Entry Do_Hook Stack_Visitor Instrumentation Jit
begin

text \<open>
  The functions clients call (lsplant.cc): \<open>Hook\<close> and \<open>HookUsingNativeAPI\<close> (\<open>HookMethod\<close>), \<open>UnHook\<close>, \<open>IsHooked\<close>,
  \<open>Deoptimize\<close>, \<open>GetNativeFunction\<close>, \<open>MakeClassInheritable\<close>, \<open>MakeDexFileTrusted\<close>, \<open>OpenInMemoryDexFile\<close> and the
  functions that hide methods.

  \<open>lib\<close> is what the library keeps between calls, with ART's memory; \<open>lib_env\<close> is what initialization has
  found. \<open>le_class_def\<close> is \<open>Class::GetClassDef\<close>, \<open>le_mirror\<close> is \<open>Class::FromReflectedClass\<close> on the current thread.
  \<open>None\<close> as a result of \<open>HookMethod\<close> is \<open>std::abort\<close>.
\<close>

section \<open>State\<close>

record lib_env = build_env +
  le_cfg :: config
  le_C :: class_state
  le_N :: method_names
  le_I :: interp_entry
  le_tramp :: "byte list"
  le_imm :: "8 word"
  le_sc :: sys_calls
  le_f :: "(nat \<times> memory) scope_call"
  le_class_def :: "addr \<Rightarrow> addr"
  le_mirror :: "addr \<Rightarrow> addr"
  le_base_offset :: nat

record lib =
  lb_R :: registry
  lb_F :: reflection
  lb_V :: stack_state
  lb_build :: build_state
  lb_native :: "addr \<Rightarrow> native_data option"
  lb_pool :: nat
  lb_guard :: nat
  lb_m :: memory
  lb_java :: "java_write list"

definition write_java :: "java_write list \<Rightarrow> lib \<Rightarrow> lib" where
  "write_java ws s = s\<lparr> lb_java := lb_java s @ ws \<rparr>"

text \<open>A reference to a method, checked and decoded.\<close>

definition executable :: "lib_env \<Rightarrow> lib \<Rightarrow> addr \<Rightarrow> bool" where
  "executable L s meth = is_executable (lb_F s) (be_E L) meth"

definition art_method :: "lib_env \<Rightarrow> addr \<Rightarrow> addr" where
  "art_method L meth = FromReflectedMethod (be_S L) (be_L L) (be_E L) meth"

definition class_def_of :: "lib_env \<Rightarrow> memory \<Rightarrow> addr \<Rightarrow> addr" where
  "class_def_of L m a = le_class_def L (GetDeclaringClass (be_S L) m a)"

definition java_string :: "lib_env \<Rightarrow> lib \<Rightarrow> addr \<Rightarrow> string \<Rightarrow> string" where
  "java_string L s obj getter = vm_String (be_J L) (jni_CallObjectMethod (be_E L) obj (rf_ids (lb_F s) getter))"

section \<open>HookMethod\<close>

definition IsProxyMethod :: "class_state \<Rightarrow> reflection \<Rightarrow> jni_env \<Rightarrow> memory \<Rightarrow> addr \<Rightarrow> addr \<Rightarrow> bool" where
  "IsProxyMethod C F E m mirror_class reflected_method =
     (case IsProxyClass C m mirror_class of
        Some b \<Rightarrow> b
      | None \<Rightarrow>
          (let declaring_class = jni_CallObjectMethod E reflected_method (rf_ids F ''method_get_declaring_class'');
               proxy_class = GlobalRef_get F ''proxy_class_ref''
           in declaring_class \<noteq> 0 \<and> proxy_class \<noteq> 0 \<and> jni_IsAssignableFrom E proxy_class declaring_class))"

datatype hook_callback = NativeCallback addr | JavaCallback addr

text \<open>Whether the callback takes the receiver and the arguments in one array; \<open>None\<close> when it is invalid.\<close>

definition callback_pack :: "lib_env \<Rightarrow> lib \<Rightarrow> hook_callback \<Rightarrow> bool option" where
  "callback_pack L s cb =
     (case cb of
        NativeCallback f \<Rightarrow> if f = 0 then None else Some False
      | JavaCallback c \<Rightarrow>
          (let shorty = (if CanGetMethodShorty (le_N L) then GetShorty (le_N L) (art_method L c)
                 else GetReflectedMethodShorty (be_E L) (lb_F s) c)
           in if \<not> jni_IsInstanceOf (be_E L) c (GlobalRef_get (lb_F s) ''executable_ref'') then None
              else if shorty = ''LL'' then Some True
              else if shorty = ''LLL'' then Some False
              else None))"

definition target_shorty :: "lib_env \<Rightarrow> lib \<Rightarrow> addr \<Rightarrow> addr \<Rightarrow> bool \<Rightarrow> string" where
  "target_shorty L s target target_method is_proxy =
     (let reflected = GetReflectedMethodShorty (be_E L) (lb_F s) target_method;
          np = GetInterfaceMethodIfProxy (be_S L) (lb_m s) target
      in if CanGetMethodShorty (le_N L)
         then (if is_proxy
               then (if np \<noteq> 0 \<and> IsAbstract (be_S L) (lb_m s) np then GetShorty (le_N L) np else reflected)
               else GetShorty (le_N L) target)
         else reflected)"

definition native_signature :: string where
  "native_signature = ''(Ljava/lang/Object;[Ljava/lang/Object;Ljava/lang/Object;)Ljava/lang/Object;''"

definition build_target_name :: "lib_env \<Rightarrow> lib \<Rightarrow> addr \<Rightarrow> string \<Rightarrow> string" where
  "build_target_name L s target name =
     (if IsConstructor (be_S L) (lb_m s) target \<or> (name \<noteq> [] \<and> hd name = CHR ''<'') then ''constructor'' else name)"

definition hook_build_args ::
  "lib_env \<Rightarrow> lib \<Rightarrow> addr \<Rightarrow> addr \<Rightarrow> hook_callback \<Rightarrow> bool \<Rightarrow> string \<Rightarrow> build_args" where
  "hook_build_args L s target target_method cb pack shorty =
     (let getter = (\<lambda>obj v. jni_CallObjectMethod (be_E L) obj (rf_ids (lb_F s) v));
          target_name = java_string L s target_method ''method_get_name'';
          of_class = (case cb of NativeCallback _ \<Rightarrow> getter target_method ''method_get_declaring_class''
            | JavaCallback c \<Rightarrow> getter c ''method_get_declaring_class'')
      in \<lparr> ba_class_loader = getter of_class ''class_get_class_loader'', ba_shorty = shorty,
           ba_method_name = build_target_name L s target target_name,
           ba_hooker_class = (case cb of NativeCallback _ \<Rightarrow> [] | JavaCallback c \<Rightarrow> java_string L s of_class ''class_get_name''),
           ba_callback_name = (case cb of NativeCallback _ \<Rightarrow> if target_name = ''native'' then ''native2'' else ''native''
             | JavaCallback c \<Rightarrow> java_string L s c ''method_get_name''),
           ba_is_static = IsStatic (be_S L) (lb_m s) target,
           ba_is_fast_native = IsFastNative (be_S L) (lb_m s) target,
           ba_is_native_api = (case cb of NativeCallback _ \<Rightarrow> True | JavaCallback _ \<Rightarrow> False),
           ba_pack = pack \<rparr>)"

text \<open>Building the class, and for the native interface registering the client's function.\<close>

definition build_hooker ::
  "lib_env \<Rightarrow> hook_callback \<Rightarrow> build_args \<Rightarrow> lib \<Rightarrow> (built \<times> lib) option" where
  "build_hooker L cb b s =
     (case BuildDex (build_env.truncate L) (le_cfg L) (lb_F s) (lb_m s) b (lb_build s) of
        None \<Rightarrow> None
      | Some (bt, ws, bs) \<Rightarrow>
          (let s = write_java ws (s\<lparr> lb_build := bs \<rparr>) in
           Some (bt,
             case cb of
               JavaCallback _ \<Rightarrow> s
             | NativeCallback f \<Rightarrow>
                 if bt_class bt = 0 \<or> ba_is_fast_native b then s
                 else
                   (let s = write_java [RegisterNatives (bt_class bt) [(ba_callback_name b, native_signature, f)]] s;
                        native_method = FindStaticMethod (be_S L) (be_L L) (be_E L) (be_RT L) (lb_m s) (bt_class bt)
                          (ba_callback_name b) native_signature
                    in if cf_source (le_cfg L) = []
                       then s\<lparr> lb_V := snd (HideMethod (be_S L) (lb_m s) native_method (lb_V s)) \<rparr> else s))))"

text \<open>The object \<open>NativeHookerEntry\<close> finds through the second static field.\<close>

definition attach_native_data :: "lib_env \<Rightarrow> hook_callback \<Rightarrow> addr \<Rightarrow> build_args \<Rightarrow> built \<Rightarrow> lib \<Rightarrow> lib" where
  "attach_native_data L cb target b bt s =
     (if \<not> ba_is_fast_native b then s
      else
        (let d = \<lparr> nd_pack = ba_pack b, nd_is_static = ba_is_static b, nd_references = 0,
               nd_data_field = bt_field bt,
               nd_callback_method = (case cb of NativeCallback _ \<Rightarrow> 0 | JavaCallback c \<Rightarrow> jni_FromReflectedMethod (be_E L) c),
               nd_native_entry = (case cb of NativeCallback f \<Rightarrow> f | JavaCallback _ \<Rightarrow> 0),
               nd_target = target, nd_shorty = ba_shorty b \<rparr>;
             field = jni_GetStaticFieldID (be_E L) (bt_class bt) (cf_native_field (le_cfg L))
               (if is_arch (am_arch (be_S L)) [kLP32] then ''I'' else ''J'')
         in if field \<noteq> 0 then s\<lparr> lb_native := (lb_native s)(bt_class bt \<mapsto> d) \<rparr> else s))"

definition prepare_backup :: "lib_env \<Rightarrow> addr \<Rightarrow> addr \<Rightarrow> addr \<Rightarrow> built \<Rightarrow> lib \<Rightarrow> lib" where
  "prepare_backup L target_method hooker_object reflected_backup bt s =
     (let F = lb_F s; E = be_E L in
      write_java
        ([CallVoid reflected_backup (rf_ids F ''set_accessible'') [JInt 1]] @
         (if am_api (be_S L) \<ge> API_M
          then [SetField reflected_backup (rf_ids F ''method_access_flags_field'')
                  (JInt (sint (jni_GetIntField E target_method (rf_ids F ''method_access_flags_field'')))),
                SetField reflected_backup (rf_ids F ''method_declaring_class_field'')
                  (JRef (vm_GetObjectField (be_J L) target_method (rf_ids F ''method_declaring_class_field'')))]
          else []) @
         [SetStaticField (bt_class bt) (bt_field bt) (JRef hooker_object)]) s)"

text \<open>What is recorded once the target is patched.\<close>

definition record_hook ::
  "lib_env \<Rightarrow> addr \<Rightarrow> addr \<Rightarrow> addr \<Rightarrow> addr \<Rightarrow> addr \<Rightarrow> bool \<Rightarrow> built \<Rightarrow> lib \<Rightarrow> lib" where
  "record_hook L target_method target hook_m backup slot is_proxy bt s =
     (let m = lb_m s;
          F = propagate_internal (jni_FromReflectedMethod (be_E L) target_method) (bt_backup bt) (lb_F s);
          R = RecordHooked target hook_m backup (class_def_of L m target) slot (bt_backup bt) (lb_R s);
          R = (if \<not> is_proxy then RecordJitMovement target backup R
               else R\<lparr> backuped_proxy_methods := insert backup (backuped_proxy_methods R) \<rparr>);
          R = RecordDeoptimized (class_def_of L m hook_m) backup (GetEntryPoint (be_S L) m backup) R
      in s\<lparr> lb_F := F, lb_R := R,
            lb_V := (if cf_source (le_cfg L) = [] then snd (HideMethod (be_S L) m hook_m (lb_V s)) else lb_V s) \<rparr>)"

record hook_result =
  ho_class :: addr
  ho_field :: addr
  ho_backup_method :: addr
  ho_object :: addr

definition hook_failed :: hook_result where
  "hook_failed = \<lparr> ho_class = 0, ho_field = 0, ho_backup_method = 0, ho_object = 0 \<rparr>"

text \<open>The second half, from the built class on.\<close>

definition install_hook ::
  "lib_env \<Rightarrow> addr \<Rightarrow> addr \<Rightarrow> addr \<Rightarrow> hook_callback \<Rightarrow> bool \<Rightarrow> build_args \<Rightarrow> built \<Rightarrow> lib \<Rightarrow> hook_result \<times> lib" where
  "install_hook L target_method target hooker_object cb is_proxy b bt s =
     (let s = attach_native_data L cb target b bt s;
          reflected_backup = jni_ToReflectedMethod (be_E L) (bt_class bt) (bt_backup bt) True;
          s = prepare_backup L target_method hooker_object reflected_backup bt s;
          backup = art_method L reflected_backup;
          (slot, pool, m) = DoHook (be_S L) (be_H L) (le_f L) (le_sc L) (le_tramp L) (le_imm L)
            target (bt_hook bt) backup (lb_pool s, lb_m s);
          s = s\<lparr> lb_pool := pool, lb_m := m \<rparr>
      in if slot \<noteq> 0
         then (\<lparr> ho_class = bt_class bt, ho_field = bt_field bt, ho_backup_method = ToJMethodID backup,
                 ho_object = reflected_backup \<rparr>,
               record_hook L target_method target (bt_hook bt) backup slot is_proxy bt s)
         else (hook_failed, s))"

definition HookMethod ::
  "lib_env \<Rightarrow> addr \<Rightarrow> addr \<Rightarrow> hook_callback \<Rightarrow> lib \<Rightarrow> (hook_result \<times> lib) option" where
  "HookMethod L target_method hooker_object cb s =
     (let S = be_S L; target = art_method L target_method;
          is_proxy = IsProxyMethod (le_C L) (lb_F s) (be_E L) (lb_m s) (GetDeclaringClass S (lb_m s) target) target_method
      in if \<not> executable L s target_method then Some (hook_failed, s)
         else (case callback_pack L s cb of
             None \<Rightarrow> Some (hook_failed, s)
           | Some pack \<Rightarrow>
               if IsAbstract S (lb_m s) target then Some (hook_failed, s)
               else if IsHooked (lb_R s) target \<noteq> 0 \<or> IsBackup (lb_R s) target \<noteq> 0 then Some (hook_failed, s)
               else
                 (let b = hook_build_args L s target target_method cb pack
                        (target_shorty L s target target_method is_proxy);
                      not_instance = (case cb of NativeCallback _ \<Rightarrow> False
                        | JavaCallback c \<Rightarrow> \<not> jni_IsInstanceOf (be_E L) hooker_object
                            (jni_CallObjectMethod (be_E L) c (rf_ids (lb_F s) ''method_get_declaring_class'')))
                  in if not_instance then Some (hook_failed, s)
                     else (case build_hooker L cb b s of
                         None \<Rightarrow> None
                       | Some (bt, s) \<Rightarrow>
                           if bt_class bt = 0 \<or> bt_field bt = 0 \<or> bt_hook bt = 0 \<or> bt_backup bt = 0
                           then Some (hook_failed, s)
                           else Some (install_hook L target_method target hooker_object cb is_proxy b bt s)))))"

section \<open>UnHook and queries\<close>

definition UnHook :: "lib_env \<Rightarrow> addr \<Rightarrow> lib \<Rightarrow> bool \<times> lib" where
  "UnHook L target_method s =
     (let target = art_method L target_method in
      if \<not> executable L s target_method then (False, s)
      else (case EraseHooked target (class_def_of L (lb_m s) target) (lb_R s) of
          None \<Rightarrow> (False, s)
        | Some (backup, backup_method, R) \<Rightarrow>
            (let (ok, pool, m) = DoUnHook (be_S L) (be_H L) (le_f L) target backup (lb_pool s, lb_m s);
                 s = s\<lparr> lb_R := R, lb_pool := pool, lb_m := m \<rparr>
             in if ok
                then (True, s\<lparr> lb_F := propagate_internal backup_method
                        (jni_FromReflectedMethod (be_E L) target_method) (lb_F s) \<rparr>)
                else (False, s))))"

definition api_IsHooked :: "lib_env \<Rightarrow> addr \<Rightarrow> lib \<Rightarrow> bool" where
  "api_IsHooked L meth s = (executable L s meth \<and> IsHooked (lb_R s) (art_method L meth) \<noteq> 0)"

definition Deoptimize :: "lib_env \<Rightarrow> addr \<Rightarrow> lib \<Rightarrow> bool \<times> lib" where
  "Deoptimize L meth s =
     (let S = be_S L; a = art_method L meth in
      if \<not> executable L s meth then (False, s)
      else if \<not> CanSetEntryPointsToInterpreter (le_I L) then (False, s)
      else if IsNative S (lb_m s) a then (False, s)
      else
        (let R = RecordDeoptimized (class_def_of L (lb_m s) a) a (GetEntryPoint S (lb_m s) a) (lb_R s);
             backup = IsHooked R a;
             (ok, m) = SetEntryPointsToInterpreter S (le_I L) (if backup \<noteq> 0 then backup else a) (lb_m s)
         in (ok, s\<lparr> lb_R := R, lb_m := m \<rparr>)))"

definition GetNativeFunction :: "lib_env \<Rightarrow> addr \<Rightarrow> lib \<Rightarrow> addr" where
  "GetNativeFunction L meth s =
     (let a = art_method L meth in
      if \<not> executable L s meth then 0
      else if \<not> IsNative (be_S L) (lb_m s) a then 0
      else GetData (be_S L) (lb_m s) a)"

section \<open>Classes, dex files, hiding\<close>

definition make_constructor_visible :: "art_statics \<Rightarrow> addr \<Rightarrow> memory \<Rightarrow> memory" where
  "make_constructor_visible S a m =
     (let m = (if \<not> IsPublic S m a \<and> \<not> IsProtected S m a then SetProtected S a m else m)
      in if IsFinal S m a then SetNonFinal S a m else m)"

definition MakeClassInheritable :: "lib_env \<Rightarrow> addr \<Rightarrow> lib \<Rightarrow> bool \<times> lib" where
  "MakeClassInheritable L target s =
     (if target = 0 then (False, s)
      else
        (let F = lb_F s; E = be_E L;
             constructors = jni_array E (jni_CallObjectMethod E target (rf_ids F ''class_get_declared_constructors''));
             access_flags = jni_GetIntField E target (rf_ids F ''class_access_flags'');
             s = write_java [SetField target (rf_ids F ''class_access_flags'')
               (JInt (sint (access_flags AND NOT 0x0010)))] s
         in (True, s\<lparr> lb_m := fold (\<lambda>c. make_constructor_visible (be_S L) (art_method L c)) constructors (lb_m s) \<rparr>)))"

definition MakeDexFileTrusted :: "lib_env \<Rightarrow> addr \<Rightarrow> lib \<Rightarrow> bool \<times> lib" where
  "MakeDexFileTrusted L cookie s =
     (if cookie = 0 then (False, s)
      else
        (let (count, m) = guard_construct (am_arch (be_S L)) (be_RT L) (lb_guard s, lb_m s);
             (ok, ws) = SetTrusted (be_H L) (lb_F s) (be_D L) (JRef cookie);
             s = write_java ws s;
             (count, m) = guard_destruct (am_arch (be_S L)) (be_RT L) (count, m)
         in (ok, s\<lparr> lb_guard := count, lb_m := m \<rparr>)))"

datatype 'a expected = Value 'a | Error string

definition OpenInMemoryDexFile :: "lib_env \<Rightarrow> addr \<Rightarrow> nat \<Rightarrow> bool \<Rightarrow> lib \<Rightarrow> addr expected \<times> lib" where
  "OpenInMemoryDexFile L dex sz trusted s =
     (if sz = 0 then (Error ''dex is empty'', s)
      else if \<not> IsMemoryDexSupported (be_D L) then (Error ''memory dex is not supported'', s)
      else
        (let source = cf_source (le_cfg L);
             (dex_file, err_msg) = DexFile_OpenMemory (be_H L) (de_lib (be_X L)) (lb_m s) dex sz
               (if source = [] then ''android'' else source) ''unknown''
         in if dex_file \<noteq> 0
            then (let (obj, ws) = ToJavaDexFile (be_H L) (lb_F s) (be_E L) (be_D L) trusted dex_file
                  in (Value obj, write_java ws s))
            else (Error err_msg, s)))"

definition MakeMethodHidden :: "lib_env \<Rightarrow> addr \<Rightarrow> lib \<Rightarrow> bool \<times> lib" where
  "MakeMethodHidden L meth s =
     (if \<not> executable L s meth then (False, s)
      else (let (ok, V) = HideMethod (be_S L) (lb_m s) (art_method L meth) (lb_V s) in (ok, s\<lparr> lb_V := V \<rparr>)))"

text \<open>Hiding and showing run inside the scopes; \<open>visit\<close> is \<open>HideClass\<close> or \<open>ShowClass\<close> on the class.\<close>

definition in_class_scopes ::
  "lib_env \<Rightarrow> addr \<Rightarrow> (memory \<Rightarrow> addr \<Rightarrow> addr list \<Rightarrow> addr list \<Rightarrow> stack_state \<Rightarrow> nat \<times> stack_state) \<Rightarrow> lib \<Rightarrow> nat \<times> lib" where
  "in_class_scopes L clazz visit s =
     (let E = be_E L; ids = rf_ids (lb_F s);
          meths = (\<lambda>getter. map (art_method L) (jni_array E (jni_CallObjectMethod E clazz (ids getter))));
          ((n, V), pool, m) = in_scopes (be_H L) ''LSPlant Hide'' (le_f L)
            (\<lambda>(pool, m). (visit m (le_mirror L clazz) (meths ''class_get_declared_constructors'')
               (meths ''class_get_declared_methods'') (lb_V s), pool, m)) (lb_pool s, lb_m s)
      in (n, s\<lparr> lb_V := V, lb_pool := pool, lb_m := m \<rparr>))"

definition MakeClassHidden :: "lib_env \<Rightarrow> addr \<Rightarrow> lib \<Rightarrow> nat \<times> lib" where
  "MakeClassHidden L clazz s =
     (if clazz = 0 then (0, s) else in_class_scopes L clazz (HideClass (be_S L) (le_C L) (le_base_offset L)) s)"

definition MakeClassVisible :: "lib_env \<Rightarrow> addr \<Rightarrow> lib \<Rightarrow> nat \<times> lib" where
  "MakeClassVisible L clazz s =
     (if clazz = 0 then (0, s) else in_class_scopes L clazz (ShowClass (be_S L) (le_C L) (le_base_offset L)) s)"

section \<open>The table of hooks as clients see it\<close>

text \<open>
  What the API promises about its table: a partial map from targets to backups, with its inverse. A
  method is not both a target and a backup. \<open>add\<close> and \<open>del\<close> carry what else a hook is recorded with.
\<close>

locale hook_table =
  fixes inv :: "'r \<Rightarrow> bool"
    and hooked :: "'r \<Rightarrow> addr \<Rightarrow> addr"
    and hook_of :: "'r \<Rightarrow> addr \<Rightarrow> addr"
    and add :: "addr \<Rightarrow> addr \<Rightarrow> 'x \<Rightarrow> 'r \<Rightarrow> 'r"
    and del :: "addr \<Rightarrow> 'y \<Rightarrow> 'r \<Rightarrow> 'r"
  assumes of_hooked: "inv R \<Longrightarrow> hooked R t \<noteq> 0 \<Longrightarrow> hook_of R (hooked R t) = t"
    and hooked_of: "inv R \<Longrightarrow> hook_of R b \<noteq> 0 \<Longrightarrow> hooked R (hook_of R b) = b"
    and apart_sets: "inv R \<Longrightarrow> hooked R t \<noteq> 0 \<Longrightarrow> hook_of R t = 0"
    and nulls_free: "inv R \<Longrightarrow> hooked R 0 = 0 \<and> hook_of R 0 = 0"
    and add_hooked: "inv R \<Longrightarrow> t \<noteq> 0 \<Longrightarrow> b \<noteq> 0 \<Longrightarrow> t \<noteq> b \<Longrightarrow> hooked R t = 0 \<Longrightarrow> hook_of R t = 0 \<Longrightarrow>
      hooked R b = 0 \<Longrightarrow> hook_of R b = 0 \<Longrightarrow>
      inv (add t b x R) \<and> hooked (add t b x R) = (hooked R)(t := b) \<and> hook_of (add t b x R) = (hook_of R)(b := t)"
    and del_hooked: "inv R \<Longrightarrow> hooked R t \<noteq> 0 \<Longrightarrow>
      inv (del t y R) \<and> hooked (del t y R) = (hooked R)(t := 0) \<and>
      hook_of (del t y R) = (hook_of R)(hooked R t := 0)"
begin

lemma hooked_inj:
  assumes "inv R" "hooked R t \<noteq> 0" "hooked R t = hooked R u"
  shows "t = u"
proof -
  have "t = hook_of R (hooked R t)" using of_hooked [OF assms(1,2)] by (rule sym)
  also have "\<dots> = u" unfolding assms(3) using assms(2,3) by (intro of_hooked [OF assms(1)]) simp
  finally show ?thesis .
qed

lemma add_del:
  assumes "inv R" "t \<noteq> 0" "b \<noteq> 0" "t \<noteq> b" "hooked R t = 0" "hook_of R t = 0" "hooked R b = 0" "hook_of R b = 0"
  shows "inv (del t y (add t b x R)) \<and> hooked (del t y (add t b x R)) = hooked R \<and>
    hook_of (del t y (add t b x R)) = hook_of R"
proof -
  note a = add_hooked [OF assms, of x]
  then have "hooked (add t b x R) t \<noteq> 0" using assms by simp
  from del_hooked [OF conjunct1 [OF a] this, of y] show ?thesis using a assms by (simp add: fun_upd_idem)
qed

text \<open>So a method that was unhooked can be hooked again, with any fresh backup.\<close>

lemma rehook:
  assumes "inv R" "hooked R t \<noteq> 0" "b \<noteq> 0" "t \<noteq> b" "hooked R b = 0" "hook_of R b = 0"
  shows "hooked (add t b x (del t y R)) = (hooked R)(t := b)"
proof -
  note d = del_hooked [OF assms(1,2), of y]
  have t: "t \<noteq> 0" using nulls_free [OF assms(1)] assms(2) by (metis neq0_conv)
  have "hook_of (del t y R) t = 0" using d apart_sets [OF assms(1,2)] by simp
  then show ?thesis
    using add_hooked [of "del t y R" t b x] d t assms by simp
qed

end

record hook_info =
  hi_hook :: addr
  hi_class_def :: addr
  hi_slot :: addr
  hi_backup_method :: addr
  hi_proxy :: bool
  hi_hook_class_def :: addr
  hi_entry :: addr

definition add_hook :: "addr \<Rightarrow> addr \<Rightarrow> hook_info \<Rightarrow> registry \<Rightarrow> registry" where
  "add_hook t b x R =
     (let R = RecordHooked t (hi_hook x) b (hi_class_def x) (hi_slot x) (hi_backup_method x) R;
          R = (if \<not> hi_proxy x then RecordJitMovement t b R
               else R\<lparr> backuped_proxy_methods := insert b (backuped_proxy_methods R) \<rparr>)
      in RecordDeoptimized (hi_hook_class_def x) b (hi_entry x) R)"

definition del_hook :: "addr \<Rightarrow> addr \<Rightarrow> registry \<Rightarrow> registry" where
  "del_hook t class_def R = (case EraseHooked t class_def R of Some (b, bm, R) \<Rightarrow> R | None \<Rightarrow> R)"

lemma record_hook_add:
  "lb_R (record_hook L tm t h b slot is_proxy bt s) = add_hook t b
     \<lparr> hi_hook = h, hi_class_def = class_def_of L (lb_m s) t, hi_slot = slot, hi_backup_method = bt_backup bt,
       hi_proxy = is_proxy, hi_hook_class_def = class_def_of L (lb_m s) h,
       hi_entry = GetEntryPoint (be_S L) (lb_m s) b \<rparr> (lb_R s)"
  by (simp add: record_hook_def add_hook_def Let_def)

lemma add_hook_tables:
  assumes "hooked_methods R t = None" "backuped_methods R b = None"
  shows "hooked_methods (add_hook t b x R) = (hooked_methods R)(t \<mapsto> \<lparr> hr_hook = hi_hook x, hr_backup = b,
      hr_slot = hi_slot x, hr_backup_method = hi_backup_method x, hr_enabled = True \<rparr>)"
    "backuped_methods (add_hook t b x R) = (backuped_methods R)(b \<mapsto> t)"
    "deoptimized_methods (add_hook t b x R) = emplace (deoptimized_methods R) b (hi_entry x)"
  using assms by (simp_all add: add_hook_def RecordHooked_def RecordJitMovement_def RecordDeoptimized_def Let_def)

lemma reg_ok_0: "reg_ok R \<Longrightarrow> hooked_methods R 0 = None \<and> backuped_methods R 0 = None"
  by (simp add: reg_ok_def reg_inv_def)

lemma not_hooked: "reg_ok R \<Longrightarrow> IsHooked R t = 0 \<longleftrightarrow> hooked_methods R t = None"
  using IsHooked_iff [of R t] by (auto simp: targets_def)

lemma not_backup: "reg_ok R \<Longrightarrow> IsBackup R b = 0 \<longleftrightarrow> backuped_methods R b = None"
proof
  assume R: "reg_ok R" and z: "IsBackup R b = 0"
  show "backuped_methods R b = None"
  proof (cases "backuped_methods R b")
    case (Some t)
    then have "hooked_methods R t \<noteq> None" using R reg_inv_backup [of R b t] by (auto simp: reg_ok_def)
    then show ?thesis using z Some reg_ok_0 [OF R] by (auto simp: IsBackup_def)
  qed
qed (simp add: IsBackup_def)

lemma reg_inv_proxies [simp]: "reg_inv (R\<lparr> backuped_proxy_methods := P \<rparr>) = reg_inv R"
  by (simp add: reg_inv_def)

lemma reg_inv_add_hook:
  assumes "reg_inv R" "hooked_methods R t = None" "backuped_methods R b = None" "t \<noteq> 0" "b \<noteq> 0"
  shows "reg_inv (add_hook t b x R)"
  using reg_inv_RecordHooked [OF assms, of "hi_hook x" "hi_class_def x" "hi_slot x" "hi_backup_method x"]
  by (simp add: add_hook_def Let_def)

interpretation regs: hook_table reg_ok IsHooked IsBackup add_hook del_hook
proof (unfold_locales, goal_cases)
  case (1 R t)
  then show ?case by (auto simp: reg_ok_def IsBackup_IsHooked)
next
  case (2 R b)
  then show ?case by (auto simp: reg_ok_def IsHooked_IsBackup)
next
  case (3 R t)
  then show ?case
    using IsHooked_iff [of R t] not_backup [of R t] by (auto simp: reg_ok_def backups_def)
next
  case (4 R)
  then show ?case using reg_ok_0 [of R] by (simp add: IsHooked_def IsBackup_def)
next
  case (5 R t b x)
  then have n: "hooked_methods R t = None" "backuped_methods R b = None" "hooked_methods R b = None"
      "backuped_methods R t = None"
    by (simp_all add: not_hooked not_backup)
  note tab = add_hook_tables [OF n(1,2), of x]
  have "reg_inv (add_hook t b x R)" using 5 n by (intro reg_inv_add_hook) (auto simp: reg_ok_def)
  moreover have "targets (add_hook t b x R) \<inter> backups (add_hook t b x R) = {}"
    using 5 n by (auto simp: targets_def backups_def tab reg_ok_def)
  ultimately show ?case
    by (auto simp: reg_ok_def IsHooked_def IsBackup_def tab fun_eq_iff)
next
  case (6 R t y)
  then obtain r where r: "hooked_methods R t = Some r" using not_hooked [of R t] by auto
  obtain b bm R' where e: "EraseHooked t y R = Some (b, bm, R')"
    using r by (simp add: EraseHooked_def)
  have f: "hooked_methods R' = (hooked_methods R)(t := None)" "backuped_methods R' = (backuped_methods R)(b := None)"
    "b = hr_backup r" "IsHooked R t = hr_backup r"
    using e r by (auto simp: EraseHooked_def IsHooked_def)
  have "reg_inv R'" using reg_inv_EraseHooked [OF _ e] 6 by (simp add: reg_ok_def)
  moreover have "targets R' \<inter> backups R' = {}"
    using 6 by (auto simp: targets_def backups_def f reg_ok_def split: if_splits)
  ultimately show ?case
    by (auto simp: reg_ok_def del_hook_def e IsHooked_def IsBackup_def f fun_eq_iff r)
qed

section \<open>What a hook changes\<close>

lemma write_java_frame [simp]:
  "lb_R (write_java ws s) = lb_R s" "lb_m (write_java ws s) = lb_m s" "lb_pool (write_java ws s) = lb_pool s"
  "lb_F (write_java ws s) = lb_F s" "lb_V (write_java ws s) = lb_V s" "lb_build (write_java ws s) = lb_build s"
  by (simp_all add: write_java_def)

lemma build_hooker_frame:
  assumes "build_hooker L cb b s = Some (bt, s')"
  shows "lb_R s' = lb_R s" "lb_m s' = lb_m s" "lb_pool s' = lb_pool s" "lb_F s' = lb_F s"
  using assms
  by (auto simp: build_hooker_def Let_def split: option.splits hook_callback.splits if_splits)

lemma prepare_backup_frame [simp]:
  "lb_R (prepare_backup L tm ho rb bt s) = lb_R s" "lb_m (prepare_backup L tm ho rb bt s) = lb_m s"
  "lb_pool (prepare_backup L tm ho rb bt s) = lb_pool s" "lb_F (prepare_backup L tm ho rb bt s) = lb_F s"
  by (simp_all add: prepare_backup_def Let_def)

lemma attach_native_data_frame [simp]:
  "lb_R (attach_native_data L cb t b bt s) = lb_R s" "lb_m (attach_native_data L cb t b bt s) = lb_m s"
  "lb_pool (attach_native_data L cb t b bt s) = lb_pool s" "lb_F (attach_native_data L cb t b bt s) = lb_F s"
  by (simp_all add: attach_native_data_def Let_def)

lemma hook_failed_0 [simp]: "ho_object hook_failed = 0"
  by (simp add: hook_failed_def)

lemma install_hook_Some:
  assumes "install_hook L tm t ho cb is_proxy bargs bt s = (res, s')" "ho_object res \<noteq> 0"
    and "b = art_method L (ho_object res)"
  obtains slot pool m bp where
    "DoHook (be_S L) (be_H L) (le_f L) (le_sc L) (le_tramp L) (le_imm L) t (bt_hook bt) b (lb_pool s, lb_m s)
       = (slot, pool, m)" "slot \<noteq> 0" "lb_m s' = m" "lb_pool s' = pool"
    "lb_R s' = add_hook t b \<lparr> hi_hook = bt_hook bt, hi_class_def = class_def_of L m t, hi_slot = slot,
       hi_backup_method = bp, hi_proxy = is_proxy, hi_hook_class_def = class_def_of L m (bt_hook bt),
       hi_entry = GetEntryPoint (be_S L) m b \<rparr> (lb_R s)"
    "lb_F s' = propagate_internal (jni_FromReflectedMethod (be_E L) tm) bp (lb_F s)"
proof -
  let ?rb = "jni_ToReflectedMethod (be_E L) (bt_class bt) (bt_backup bt) True"
  obtain slot pool m where d: "DoHook (be_S L) (be_H L) (le_f L) (le_sc L) (le_tramp L) (le_imm L) t (bt_hook bt)
      (art_method L ?rb) (lb_pool s, lb_m s) = (slot, pool, m)" by (metis prod_cases3)
  have nz: "slot \<noteq> 0" using assms(1,2) d by (auto simp: install_hook_def Let_def split: if_splits)
  have b: "b = art_method L ?rb" using assms(1,3) d nz by (auto simp: install_hook_def Let_def)
  have f: "lb_m (record_hook L tm t' h b' sl ip bt' s1) = lb_m s1" "lb_pool (record_hook L tm t' h b' sl ip bt' s1) = lb_pool s1"
    "lb_F (record_hook L tm t' h b' sl ip bt' s1) =
      propagate_internal (jni_FromReflectedMethod (be_E L) tm) (bt_backup bt') (lb_F s1)"
    for t' h b' sl ip bt' s1
    by (simp_all add: record_hook_def Let_def)
  have s': "s' = record_hook L tm t (bt_hook bt) b slot is_proxy bt
      ((prepare_backup L tm ho ?rb bt (attach_native_data L cb t bargs bt s))\<lparr> lb_pool := pool, lb_m := m \<rparr>)"
    using assms(1) d nz b by (simp add: install_hook_def Let_def)
  show ?thesis
    by (rule that [OF d [folded b] nz]) (simp_all add: s' f record_hook_add)
qed

lemma HookMethod_Some:
  assumes "HookMethod L tm ho cb s = Some (res, s')" "ho_object res \<noteq> 0"
  obtains bt bargs s1 is_proxy where
    "install_hook L tm (art_method L tm) ho cb is_proxy bargs bt s1 = (res, s')"
    "lb_R s1 = lb_R s" "lb_m s1 = lb_m s" "lb_pool s1 = lb_pool s" "lb_F s1 = lb_F s" "executable L s tm"
    "IsHooked (lb_R s) (art_method L tm) = 0" "IsBackup (lb_R s) (art_method L tm) = 0"
proof -
  let ?t = "art_method L tm"
  let ?proxy = "IsProxyMethod (le_C L) (lb_F s) (be_E L) (lb_m s) (GetDeclaringClass (be_S L) (lb_m s) ?t) tm"
  have e: "executable L s tm" using assms by (auto simp: HookMethod_def Let_def split: if_splits)
  then obtain pack where p: "callback_pack L s cb = Some pack"
    using assms by (cases "callback_pack L s cb") (auto simp: HookMethod_def Let_def)
  let ?b = "hook_build_args L s ?t tm cb pack (target_shorty L s ?t tm ?proxy)"
  have n: "\<not> IsAbstract (be_S L) (lb_m s) ?t" "IsHooked (lb_R s) ?t = 0" "IsBackup (lb_R s) ?t = 0"
    using assms e p by (auto simp: HookMethod_def Let_def split: if_splits)
  obtain bt s1 where bh: "build_hooker L cb ?b s = Some (bt, s1)"
    using assms e p n by (cases "build_hooker L cb ?b s") (auto simp: HookMethod_def Let_def split: if_splits)
  have "install_hook L tm ?t ho cb ?proxy ?b bt s1 = (res, s')"
    using assms e p n bh by (auto simp: HookMethod_def Let_def split: if_splits)
  then show ?thesis using that build_hooker_frame [OF bh] e n by blast
qed

text \<open>C26. A hook is refused, and nothing changes, when the target is not a method, is abstract, is hooked
  already or is itself a backup, or when the callback is missing or of the wrong type.\<close>

theorem hook_refused:
  assumes "\<not> executable L s tm \<or> callback_pack L s cb = None \<or> IsAbstract (be_S L) (lb_m s) (art_method L tm) \<or>
    api_IsHooked L tm s \<or> IsBackup (lb_R s) (art_method L tm) \<noteq> 0"
  shows "HookMethod L tm ho cb s = Some (hook_failed, s)"
  using assms
  by (cases "callback_pack L s cb") (auto simp: HookMethod_def Let_def api_IsHooked_def split: if_splits)

text \<open>What the environment has to give a hook: the static trampoline patched at initialization, a slot for
  its code, and a backup that is a method of its own, as the methods of a newly loaded class are.\<close>

definition hook_ready :: "lib_env \<Rightarrow> addr set \<Rightarrow> addr \<Rightarrow> lib \<Rightarrow> addr \<Rightarrow> addr \<Rightarrow> bool" where
  "hook_ready L A p s t b \<longleftrightarrow> reg_ok (lb_R s) \<and> hook_setting (be_S L) A (le_f L) (le_imm L) p \<and>
     le_tramp L = patched (am_arch (be_S L)) (le_imm L) \<and>
     fst (next_slot (am_arch (be_S L)) (le_sc L) (lb_pool s)) = Some p \<and>
     {t, b} \<subseteq> A \<and> t \<noteq> 0 \<and> b \<noteq> 0 \<and> t \<noteq> b \<and> IsHooked (lb_R s) b = 0 \<and> IsBackup (lb_R s) b = 0"

lemma hook_ready_run:
  assumes run: "HookMethod L tm ho cb s = Some (res, s')" "ho_object res \<noteq> 0"
    and t: "t = art_method L tm" and b: "b = art_method L (ho_object res)" and ready: "hook_ready L A p s t b"
  shows "\<exists>x bp. lb_R s' = add_hook t b x (lb_R s) \<and> tramp_at (am_arch (be_S L)) (le_imm L) (lb_m s') p (hi_slot x) (hi_hook x) \<and>
      lb_F s' = propagate_internal (jni_FromReflectedMethod (be_E L) tm) bp (lb_F s) \<and>
      hi_backup_method x = bp \<and> hi_slot x \<noteq> 0"
    and "GetEntryPoint (be_S L) (lb_m s') t = p" "copy_of (be_S L) (lb_m s) t (lb_m s') b"
    and "touches (be_S L) A {t, b} (lb_m s) (lb_m s')"
    and "IsHooked (lb_R s) t = 0" "IsBackup (lb_R s) t = 0" "executable L s tm"
proof -
  obtain bt bargs s1 is_proxy where i: "install_hook L tm t ho cb is_proxy bargs bt s1 = (res, s')"
    and f: "lb_R s1 = lb_R s" "lb_m s1 = lb_m s" "lb_pool s1 = lb_pool s" "lb_F s1 = lb_F s"
    and n: "executable L s tm" "IsHooked (lb_R s) t = 0" "IsBackup (lb_R s) t = 0"
    by (rule HookMethod_Some [OF run, folded t])
  obtain slot pool m bp where d: "DoHook (be_S L) (be_H L) (le_f L) (le_sc L) (le_tramp L) (le_imm L) t (bt_hook bt) b
       (lb_pool s1, lb_m s1) = (slot, pool, m)" "slot \<noteq> 0" "lb_m s' = m" "lb_pool s' = pool"
    and R: "lb_R s' = add_hook t b \<lparr> hi_hook = bt_hook bt, hi_class_def = class_def_of L m t, hi_slot = slot,
       hi_backup_method = bp, hi_proxy = is_proxy, hi_hook_class_def = class_def_of L m (bt_hook bt),
       hi_entry = GetEntryPoint (be_S L) m b \<rparr> (lb_R s1)"
    and F: "lb_F s' = propagate_internal (jni_FromReflectedMethod (be_E L) tm) bp (lb_F s1)"
    by (rule install_hook_Some [OF i run(2) b])
  have r: "hook_setting (be_S L) A (le_f L) (le_imm L) p" "t \<in> A" "b \<in> A" "t \<noteq> b"
    "le_tramp L = patched (am_arch (be_S L)) (le_imm L)"
    using ready by (auto simp: hook_ready_def)
  obtain pool1 where np: "next_slot (am_arch (be_S L)) (le_sc L) (lb_pool s) = (Some p, pool1)"
    using ready by (metis hook_ready_def prod.collapse)
  note h = DoHook_run [OF r(1-4) d(1) [unfolded f r(5)] d(2) np]
  show "\<exists>x bp. lb_R s' = add_hook t b x (lb_R s) \<and> tramp_at (am_arch (be_S L)) (le_imm L) (lb_m s') p (hi_slot x) (hi_hook x) \<and>
      lb_F s' = propagate_internal (jni_FromReflectedMethod (be_E L) tm) bp (lb_F s) \<and>
      hi_backup_method x = bp \<and> hi_slot x \<noteq> 0"
    using R F h(3) d(2,3) by (intro exI conjI) (auto simp: f)
  show "GetEntryPoint (be_S L) (lb_m s') t = p" "copy_of (be_S L) (lb_m s) t (lb_m s') b"
    "touches (be_S L) A {t, b} (lb_m s) (lb_m s')"
    using h d(3) by simp_all
  show "IsHooked (lb_R s) t = 0" "IsBackup (lb_R s) t = 0" "executable L s tm" using n by simp_all
qed

lemma hook_ready_fresh:
  assumes "hook_ready L A p s t b"
  shows "reg_ok (lb_R s)" "t \<noteq> 0" "b \<noteq> 0" "t \<noteq> b" "IsHooked (lb_R s) b = 0" "IsBackup (lb_R s) b = 0"
  using assms by (auto simp: hook_ready_def)

text \<open>C1. A hook that succeeds adds exactly its pair of target and backup to the table the queries see, in
  both directions; the target's entry point leads to a trampoline for the recorded hook, the backup is
  the old target, counted as deoptimized so that its code is left alone, and no other method changes.\<close>

theorem hook_installs:
  assumes run: "HookMethod L tm ho cb s = Some (res, s')" "ho_object res \<noteq> 0"
    and t: "t = art_method L tm" and b: "b = art_method L (ho_object res)" and ready: "hook_ready L A p s t b"
  shows "reg_ok (lb_R s') \<and> IsHooked (lb_R s') = (IsHooked (lb_R s))(t := b) \<and>
    IsBackup (lb_R s') = (IsBackup (lb_R s))(b := t) \<and> IsDeoptimized (lb_R s') b \<and>
    (\<exists>r. hooked_methods (lb_R s') t = Some r \<and> GetEntryPoint (be_S L) (lb_m s') t = p \<and>
       tramp_at (am_arch (be_S L)) (le_imm L) (lb_m s') p (hr_slot r) (hr_hook r)) \<and>
    copy_of (be_S L) (lb_m s) t (lb_m s') b \<and> touches (be_S L) A {t, b} (lb_m s) (lb_m s')"
proof -
  note h = hook_ready_run [OF run t b ready] and f = hook_ready_fresh [OF ready]
  obtain x bp where x: "lb_R s' = add_hook t b x (lb_R s)"
    "tramp_at (am_arch (be_S L)) (le_imm L) (lb_m s') p (hi_slot x) (hi_hook x)"
    using h(1) by blast
  have n: "hooked_methods (lb_R s) t = None" "backuped_methods (lb_R s) b = None"
    using h(5) f by (simp_all add: not_hooked not_backup)
  have "IsDeoptimized (lb_R s') b"
    by (simp add: x(1) IsDeoptimized_def add_hook_tables [OF n] emplace_def split: option.split)
  then show ?thesis
    using regs.add_hooked [OF f(1-4) h(5,6) f(5,6), of x] h(2-4) x(2)
    by (auto simp: x(1) add_hook_tables [OF n])
qed

lemma UnHook_run:
  assumes run: "UnHook L tm s = (r, s')" and t: "t = art_method L tm" and R: "reg_ok (lb_R s)"
  shows "r \<longleftrightarrow> executable L s tm \<and> IsHooked (lb_R s) t \<noteq> 0"
    and "\<not> r \<Longrightarrow> s' = s"
    and "r \<Longrightarrow> \<exists>hr pool. hooked_methods (lb_R s) t = Some hr \<and> lb_R s' = del_hook t (class_def_of L (lb_m s) t) (lb_R s) \<and>
      DoUnHook (be_S L) (be_H L) (le_f L) t (hr_backup hr) (lb_pool s, lb_m s) = (True, pool, lb_m s') \<and>
      lb_F s' = propagate_internal (hr_backup_method hr) (jni_FromReflectedMethod (be_E L) tm) (lb_F s) \<and>
      deoptimized_methods (lb_R s') = deoptimized_methods (lb_R s) \<and> jit_movements (lb_R s') = jit_movements (lb_R s)"
proof -
  let ?done = "\<lambda>hr pool. hooked_methods (lb_R s) t = Some hr \<and> lb_R s' = del_hook t (class_def_of L (lb_m s) t) (lb_R s) \<and>
      DoUnHook (be_S L) (be_H L) (le_f L) t (hr_backup hr) (lb_pool s, lb_m s) = (True, pool, lb_m s') \<and>
      lb_F s' = propagate_internal (hr_backup_method hr) (jni_FromReflectedMethod (be_E L) tm) (lb_F s) \<and>
      deoptimized_methods (lb_R s') = deoptimized_methods (lb_R s) \<and> jit_movements (lb_R s') = jit_movements (lb_R s)"
  have all: "(r \<longleftrightarrow> executable L s tm \<and> IsHooked (lb_R s) t \<noteq> 0) \<and> (\<not> r \<longrightarrow> s' = s) \<and> (r \<longrightarrow> (\<exists>hr pool. ?done hr pool))"
  proof (cases "executable L s tm \<and> hooked_methods (lb_R s) t \<noteq> None")
    case False
    then show ?thesis
      using run not_hooked [OF R, of t] by (auto simp: UnHook_def t EraseHooked_def Let_def split: if_splits)
  next
    case True
    then obtain hr where hr: "hooked_methods (lb_R s) t = Some hr" by auto
    have "fst (DoUnHook (be_S L) (be_H L) (le_f L) t (hr_backup hr) (lb_pool s, lb_m s))"
      by (simp add: DoUnHook_def in_scopes_def Let_def split: prod.split)
    then obtain pool m where d: "DoUnHook (be_S L) (be_H L) (le_f L) t (hr_backup hr) (lb_pool s, lb_m s) = (True, pool, m)"
      by (metis (full_types) prod.collapse)
    show ?thesis
      using run True hr d not_hooked [OF R, of t]
      by (auto simp: UnHook_def t [symmetric] EraseHooked_def del_hook_def Let_def)
  qed
  then show "r \<longleftrightarrow> executable L s tm \<and> IsHooked (lb_R s) t \<noteq> 0" "\<not> r \<Longrightarrow> s' = s"
    "r \<Longrightarrow> \<exists>hr pool. ?done hr pool" by blast+
qed

text \<open>C21. \<open>UnHook\<close> succeeds exactly on the methods \<open>IsHooked\<close> confirms; it takes the target's pair out of the
  table, so that the method can be hooked again, and changes nothing when it fails.\<close>

theorem unhook_removes:
  assumes run: "UnHook L tm s = (r, s')" and t: "t = art_method L tm" and R: "reg_ok (lb_R s)"
  shows "(r \<longleftrightarrow> api_IsHooked L tm s) \<and> (\<not> r \<longrightarrow> s' = s) \<and>
    (r \<longrightarrow> reg_ok (lb_R s') \<and> IsHooked (lb_R s') = (IsHooked (lb_R s))(t := 0) \<and>
       IsBackup (lb_R s') = (IsBackup (lb_R s))(IsHooked (lb_R s) t := 0) \<and> IsBackup (lb_R s') t = 0)"
proof -
  note u = UnHook_run [OF run t R]
  show ?thesis
  proof (cases r)
    case True
    then have h: "IsHooked (lb_R s) t \<noteq> 0" and R': "lb_R s' = del_hook t (class_def_of L (lb_m s) t) (lb_R s)"
      using u(1) u(3) by auto
    have "IsBackup (lb_R s) t = 0" by (rule regs.apart_sets [OF R h])
    then show ?thesis
      using True u(1) regs.del_hooked [OF R h, of "class_def_of L (lb_m s) t"]
      by (simp add: R' t api_IsHooked_def)
  next
    case False
    moreover have "\<not> api_IsHooked L tm s" using u(1) False by (simp add: t api_IsHooked_def)
    ultimately show ?thesis using u(2) by simp
  qed
qed

section \<open>Hook and unhook\<close>

lemma find_map_id:
  assumes "find (\<lambda>v. f v = x) vs = Some v" "\<forall>w \<in> set vs. f w \<noteq> y"
  shows "find (\<lambda>w. (f(v := y)) w = y) vs = Some v"
proof -
  obtain i where i: "i < length vs" "f (vs ! i) = x" "v = vs ! i" "\<forall>j < i. f (vs ! j) \<noteq> x"
    using assms(1) by (auto simp: find_Some_iff)
  have "(f(v := y)) (vs ! j) \<noteq> y" if "j < i" for j
    using that i assms(2) nth_mem [of j vs] by (auto simp del: nth_mem)
  then show ?thesis
    unfolding find_Some_iff using i by (intro exI [of _ i]) auto
qed

lemma propagate_twice:
  assumes "\<forall>v \<in> set kInternalMethods. rf_ids F v \<noteq> y"
  shows "rf_ids (propagate_internal y x (propagate_internal x y F)) = rf_ids F"
proof (cases "find (\<lambda>v. rf_ids F v = x) kInternalMethods")
  case None
  moreover have "find (\<lambda>v. rf_ids F v = y) kInternalMethods = None" using assms by (simp add: find_None_iff)
  ultimately show ?thesis by (simp add: propagate_internal_def)
next
  case (Some v)
  then have "rf_ids F v = x" by (auto simp: find_Some_iff)
  then show ?thesis
    using Some find_map_id [OF Some assms] by (auto simp: propagate_internal_def set_id_def fun_eq_iff)
qed

text \<open>C5. Hooking a method and unhooking it gives back the table of hooks, every byte of the method but its
  access flags, and the ids of methods the library itself uses; ART may change everything but the
  backup in between. What stays is the entry of the backup among the deoptimized methods.\<close>

theorem hook_unhook_api:
  assumes run: "HookMethod L tm ho cb s = Some (res, s1)" "ho_object res \<noteq> 0"
    and t: "t = art_method L tm" and b: "b = art_method L (ho_object res)" and ready: "hook_ready L A p s t b"
    and ids: "\<forall>hr. hooked_methods (lb_R s1) t = Some hr \<longrightarrow>
      (\<forall>v \<in> set kInternalMethods. rf_ids (lb_F s) v \<noteq> hr_backup_method hr)"
    and between: "lb_R s2 = lb_R s1" "lb_F s2 = lb_F s1" "same_bytes (blocks (be_S L) {b}) (lb_m s1) (lb_m s2)"
    and un: "UnHook L tm s2 = (True, s3)"
  shows "IsHooked (lb_R s3) = IsHooked (lb_R s) \<and> IsBackup (lb_R s3) = IsBackup (lb_R s) \<and>
    copy_of (be_S L) (lb_m s) t (lb_m s3) t \<and> rf_ids (lb_F s3) = rf_ids (lb_F s) \<and>
    GetAccessFlags (be_S L) (lb_m s3) t = GetAccessFlags (be_S L) (lb_m s2) t \<and> IsDeoptimized (lb_R s3) b"
proof -
  note h = hook_ready_run [OF run t b ready] and f = hook_ready_fresh [OF ready]
  obtain x where x: "lb_R s1 = add_hook t b x (lb_R s)"
    and F1: "lb_F s1 = propagate_internal (jni_FromReflectedMethod (be_E L) tm) (hi_backup_method x) (lb_F s)"
    using h(1) by blast
  have n: "hooked_methods (lb_R s) t = None" "backuped_methods (lb_R s) b = None"
    using h(5) f by (simp_all add: not_hooked not_backup)
  note tab = add_hook_tables [OF n, of x]
  note ad = regs.add_hooked [OF f(1-4) h(5,6) f(5,6), of x]
  have R2: "reg_ok (lb_R s2)" using ad by (simp add: between(1) x)
  obtain hr pool where u: "hooked_methods (lb_R s2) t = Some hr"
    "lb_R s3 = del_hook t (class_def_of L (lb_m s2) t) (lb_R s2)"
    "DoUnHook (be_S L) (be_H L) (le_f L) t (hr_backup hr) (lb_pool s2, lb_m s2) = (True, pool, lb_m s3)"
    "lb_F s3 = propagate_internal (hr_backup_method hr) (jni_FromReflectedMethod (be_E L) tm) (lb_F s2)"
    "deoptimized_methods (lb_R s3) = deoptimized_methods (lb_R s2)"
    using UnHook_run(3) [OF un t R2] by blast
  have hr: "hr_backup hr = b" "hr_backup_method hr = hi_backup_method x"
    using u(1) by (auto simp: between(1) x tab)
  have set: "hook_setting (be_S L) A (le_f L) (le_imm L) p" and tA: "t \<in> A" "b \<in> A" using ready by (auto simp: hook_ready_def)
  note d = DoUnHook_run [OF set tA f(4) u(3) [unfolded hr(1)]]
  have "copy_of (be_S L) (lb_m s) t (lb_m s3) t"
    using copy_of_trans [OF h(3) copy_of_trans [OF copy_of_same_bytes [OF between(3)] d(3)]] .
  moreover have "rf_ids (lb_F s3) = rf_ids (lb_F s)"
    using propagate_twice [of "lb_F s" "hi_backup_method x"] ids u(1)
    by (simp add: u(4) hr(2) between F1)
  moreover have "IsDeoptimized (lb_R s3) b"
    by (simp add: IsDeoptimized_def u(5) between(1) x tab emplace_def split: option.split)
  ultimately show ?thesis
    using regs.add_del [OF f(1-4) h(5,6) f(5,6), where x = x and y = "class_def_of L (lb_m s2) t"] d(4)
    by (simp add: u(2) between(1) x)
qed

text \<open>Where the access flags of a class cannot be read, \<open>IsProxyMethod\<close> asks the question the wrong way
  round: with JNI's \<open>IsAssignableFrom\<close> (the first class is a subclass of the second), the methods of a
  proxy class are not recognized, and those of \<open>Object\<close> count as proxy methods.\<close>

theorem proxy_fallback_reversed:
  assumes off: "cs_access_flags_offset C = 0"
    and jni: "\<And>a b. jni_IsAssignableFrom E a b \<longleftrightarrow> subclass a b" "\<And>a b. subclass a b \<Longrightarrow> subclass b a \<Longrightarrow> a = b"
    and proxy: "proxy = GlobalRef_get F ''proxy_class_ref''" "proxy \<noteq> 0"
    and cls: "cls = jni_CallObjectMethod E meth (rf_ids F ''method_get_declaring_class'')" "cls \<noteq> 0"
  shows "(subclass cls proxy \<and> cls \<noteq> proxy \<longrightarrow> \<not> IsProxyMethod C F E m mirror meth) \<and>
    (subclass proxy cls \<longrightarrow> IsProxyMethod C F E m mirror meth)"
  using off jni(2) [of cls proxy] proxy cls
  by (auto simp: IsProxyMethod_def IsProxyClass_def Class_GetAccessFlags_def Let_def jni(1))

section \<open>A run on concrete values\<close>

text \<open>The method at 64, its hook at 128 and the backup at 256, in a runtime that shows no method flags.\<close>

definition demo_jni :: jni_env where
  "demo_jni = demo_env\<lparr> jni_FromReflectedMethod := (\<lambda>x. x), jni_GetStaticMethodID := (\<lambda>c n s. 128),
     jni_ToReflectedMethod := (\<lambda>c x st. 256) \<rparr>"

definition demo_api_build :: build_env where
  "demo_api_build = demo_build\<lparr> be_E := demo_jni \<rparr>"

definition demo_lib_env :: lib_env where
  "demo_lib_env = build_env.extend demo_api_build \<lparr> le_cfg = demo_config, le_C = class_state_init,
     le_N = \<lparr> mn_GetShorty = None, mn_GetMethodShortyL = None, mn_GetMethodShorty = None, mn_PrettyMethod = None,
       mn_PrettyMethodStatic = None, mn_PrettyMethodMirror = None \<rparr>,
     le_I = \<lparr> ip_bridge = 4096, ip_set = None \<rparr>, le_tramp = patched kArm64 24, le_imm = 24, le_sc = hook_calls,
     le_f = (\<lambda>v args s. s), le_class_def = (\<lambda>a. a + 1), le_mirror = (\<lambda>a. a), le_base_offset = 0 \<rparr>"

definition demo_lib :: lib where
  "demo_lib = \<lparr> lb_R = empty_registry, lb_F = demo_build_refs, lb_V = stack_state_init, lb_build = demo_build_state,
     lb_native = (\<lambda>_. None), lb_pool = 0, lb_guard = 0, lb_m = demo_mem, lb_java = [] \<rparr>"

lemma demo_lib_env_fields [simp]:
  "be_S demo_lib_env = arm64_statics" "be_E demo_lib_env = demo_jni" "be_H demo_lib_env = hook_state_init"
  "le_cfg demo_lib_env = demo_config" "le_C demo_lib_env = class_state_init" "le_I demo_lib_env = \<lparr> ip_bridge = 4096, ip_set = None \<rparr>"
  "le_tramp demo_lib_env = patched kArm64 24" "le_imm demo_lib_env = 24" "le_sc demo_lib_env = hook_calls"
  "le_f demo_lib_env = (\<lambda>v args s. s)" "al_art_method_field (be_L demo_lib_env) = 0"
  "build_env.truncate demo_lib_env = demo_api_build"
  by (simp_all add: demo_lib_env_def build_env.defs demo_build_def demo_api_build_def)

lemma demo_lib_fields [simp]:
  "lb_R demo_lib = empty_registry" "lb_F demo_lib = demo_build_refs" "lb_m demo_lib = demo_mem" "lb_pool demo_lib = 0"
  "lb_build demo_lib = demo_build_state"
  by (simp_all add: demo_lib_def)

lemma demo_art_method [simp]: "art_method demo_lib_env x = x"
  by (simp add: art_method_def FromReflectedMethod_def demo_jni_def)

lemma demo_executable: "executable demo_lib_env s x \<longleftrightarrow> x \<noteq> 0"
  by (simp add: executable_def is_executable_def demo_jni_def demo_env_def)

lemma demo_not_abstract: "\<not> IsAbstract arm64_statics demo_mem 64" "\<not> IsFastNative arm64_statics demo_mem 64"
  by (simp_all add: IsAbstract_def IsFastNative_def has_flag_def GetAccessFlags_def load_eval demo_mem_def kAcc_defs
      arm64_statics_def)

lemma demo_build_some:
  assumes "ba_shorty b = c # cs" "\<not> ba_is_fast_native b"
  shows "\<exists>bt ws bs. BuildDex demo_api_build demo_config demo_build_refs demo_mem b demo_build_state
    = Some (bt, ws, bs) \<and> bt_class bt = 600 \<and> bt_field bt \<noteq> 0 \<and> bt_hook bt = 128 \<and> bt_backup bt = 128"
proof -
  let ?B = demo_api_build
  have dex: "OpenInMemoryHookerDex (be_X ?B) (be_H ?B) demo_build_refs (be_E ?B) (be_J ?B) (be_D ?B) img (bs_dex demo_build_state)
      = (500, [], bs_dex demo_build_state)" for img
    by (simp add: OpenInMemoryHookerDex_def demo_api_build_def demo_build_def IsMemoryDexSupported_def dex_statics_init_def open_by_java_def
        demo_build_refs_def set_id_def demo_vm_def reflection_init_def)
  have wf: "jm_wf (bs_loaders demo_build_state)" by (simp add: demo_build_state_def jm_wf_empty)
  obtain l loaders where l: "hooker_loader demo_build_refs (be_J ?B) (ba_class_loader b) (bs_loaders demo_build_state)
      = Some (l, loaders)" using hooker_loader_spec [OF wf] by blast
  have load: "vm_CallObject (be_J ?B) 500 i as = 600" for i as by (simp add: demo_api_build_def demo_build_def demo_vm_def)
  have fm: "FindStaticMethod (be_S ?B) (be_L ?B) (be_E ?B) (be_RT ?B) m 600 n g = 128" for m n g
    by (simp add: FindStaticMethod_def FindMethod_def FromJMethodID_def demo_api_build_def demo_build_def demo_jni_def IsIndexId_def Let_def)
  have ids: "jni_GetStaticMethodID (be_E ?B) k n g = 128" "jni_GetStaticFieldID (be_E ?B) k n g = 1280 + length n" for k n g
    by (simp_all add: demo_api_build_def demo_jni_def demo_env_def)
  show ?thesis
    using assms l by (simp add: BuildDex_def dex load fm ids)
qed

lemma demo_hook:
  "\<exists>res s1. HookMethod demo_lib_env 64 0 (NativeCallback 5000) demo_lib = Some (res, s1) \<and> ho_object res = 256 \<and>
     (\<forall>hr. hooked_methods (lb_R s1) 64 = Some hr \<longrightarrow> hr_backup_method hr = 128) \<and>
     (\<exists>hr. hooked_methods (lb_R s1) 64 = Some hr \<and> hr_hook hr = 128)"
proof -
  let ?b = "hook_build_args demo_lib_env demo_lib 64 64 (NativeCallback 5000) False
    (target_shorty demo_lib_env demo_lib 64 64 False)"
  have pr: "\<not> IsProxyMethod class_state_init demo_build_refs demo_jni demo_mem x 64" for x
    by (simp add: IsProxyMethod_def IsProxyClass_def Class_GetAccessFlags_def class_state_init_def GlobalRef_get_def
        demo_build_refs_def set_id_def reflection_init_def jl_get_def jl_empty_def Let_def)
  have sh: "\<exists>c cs. ba_shorty ?b = c # cs"
    by (simp add: hook_build_args_def Let_def target_shorty_def GetReflectedMethodShorty_def demo_lib_env_def
        build_env.defs CanGetMethodShorty_def)
  have nf: "\<not> ba_is_fast_native ?b" by (simp add: hook_build_args_def Let_def demo_not_abstract)
  obtain bt ws bs where bt: "BuildDex demo_api_build demo_config demo_build_refs demo_mem ?b demo_build_state
      = Some (bt, ws, bs)" "bt_class bt = 600" "bt_field bt \<noteq> 0" "bt_hook bt = 128" "bt_backup bt = 128"
    using demo_build_some [OF _ nf] sh by blast
  have "\<exists>s1. build_hooker demo_lib_env (NativeCallback 5000) ?b demo_lib = Some (bt, s1)"
    using bt(1) by (simp add: build_hooker_def Let_def)
  then obtain s1 where s1: "build_hooker demo_lib_env (NativeCallback 5000) ?b demo_lib = Some (bt, s1)" by blast
  note f = build_hooker_frame [OF s1]
  obtain m' where d: "DoHook arm64_statics hook_state_init (\<lambda>v args s. s) hook_calls (patched kArm64 24) 24 64 128 256 (0, demo_mem)
     = (65537, 65537, m')" using demo_DoHook by blast
  have rb: "jni_ToReflectedMethod demo_jni c x t = 256" for c x t by (simp add: demo_jni_def)
  have "HookMethod demo_lib_env 64 0 (NativeCallback 5000) demo_lib
      = Some (install_hook demo_lib_env 64 64 0 (NativeCallback 5000) False ?b bt s1)"
    using s1 bt by (simp add: HookMethod_def demo_executable callback_pack_def demo_not_abstract pr
        IsHooked_def IsBackup_def empty_registry_def)
  moreover have "hooked_methods (empty_registry :: registry) 64 = None" "backuped_methods (empty_registry :: registry) 256 = None"
    by (simp_all add: empty_registry_def)
  ultimately show ?thesis
    by (simp add: install_hook_def Let_def rb bt d f record_hook_add add_hook_tables)
qed

lemma demo_ready: "hook_ready demo_lib_env {64, 128, 256} 65536 demo_lib 64 256"
  by (simp add: hook_ready_def demo_setting hook_calls_slot reg_ok_def reg_inv_def targets_def backups_def empty_registry_def
      IsHooked_def IsBackup_def)

theorem hook_refused_witness:
  "HookMethod demo_lib_env 0 0 (NativeCallback 5000) demo_lib = Some (hook_failed, demo_lib)"
  using hook_refused [of demo_lib_env demo_lib 0 "NativeCallback 5000" 0] by (simp add: demo_executable)

theorem hook_installs_witness:
  "\<exists>res s1. HookMethod demo_lib_env 64 0 (NativeCallback 5000) demo_lib = Some (res, s1) \<and>
     IsHooked (lb_R s1) 64 = 256 \<and> IsBackup (lb_R s1) 256 = 64 \<and> GetEntryPoint arm64_statics (lb_m s1) 64 = 65536"
proof -
  obtain res s1 where run: "HookMethod demo_lib_env 64 0 (NativeCallback 5000) demo_lib = Some (res, s1)" "ho_object res = 256"
    using demo_hook by blast
  show ?thesis
    using hook_installs [OF run(1) _ refl refl, of "{64, 128, 256}" 65536] run demo_ready by auto
qed

theorem unhook_removes_witness:
  "\<exists>res s1 s2. HookMethod demo_lib_env 64 0 (NativeCallback 5000) demo_lib = Some (res, s1) \<and>
     UnHook demo_lib_env 64 s1 = (True, s2) \<and> IsHooked (lb_R s2) 64 = 0 \<and> IsBackup (lb_R s2) 256 = 0"
proof -
  obtain res s1 where run: "HookMethod demo_lib_env 64 0 (NativeCallback 5000) demo_lib = Some (res, s1)" "ho_object res = 256"
    using demo_hook by blast
  obtain r s2 where un: "UnHook demo_lib_env 64 s1 = (r, s2)" by (metis prod.exhaust)
  obtain x where x: "lb_R s1 = add_hook 64 256 x (lb_R demo_lib)"
    using hook_ready_run(1) [OF run(1) _ refl refl, of "{64, 128, 256}" 65536] run(2) demo_ready by auto
  note f = hook_ready_fresh [OF demo_ready]
  have z: "IsHooked (lb_R demo_lib) 64 = 0" "IsBackup (lb_R demo_lib) 64 = 0"
    by (simp_all add: IsHooked_def IsBackup_def empty_registry_def)
  note a = regs.add_hooked [OF f(1-4) z f(5,6), of x]
  show ?thesis
    using unhook_removes [OF un refl] run un a x by (auto simp: api_IsHooked_def demo_executable)
qed

theorem hook_unhook_api_witness:
  "\<exists>res s1 s2. HookMethod demo_lib_env 64 0 (NativeCallback 5000) demo_lib = Some (res, s1) \<and>
     UnHook demo_lib_env 64 s1 = (True, s2) \<and> copy_of arm64_statics demo_mem 64 (lb_m s2) 64 \<and>
     IsDeoptimized (lb_R s2) 256"
proof -
  obtain res s1 where run: "HookMethod demo_lib_env 64 0 (NativeCallback 5000) demo_lib = Some (res, s1)" "ho_object res = 256"
    and bm: "\<forall>hr. hooked_methods (lb_R s1) 64 = Some hr \<longrightarrow> hr_backup_method hr = 128"
    using demo_hook by blast
  obtain r s2 where un: "UnHook demo_lib_env 64 s1 = (r, s2)" by (metis prod.exhaust)
  obtain x where x: "lb_R s1 = add_hook 64 256 x (lb_R demo_lib)"
    using hook_ready_run(1) [OF run(1) _ refl refl, of "{64, 128, 256}" 65536] run(2) demo_ready by auto
  note f = hook_ready_fresh [OF demo_ready]
  have z: "IsHooked (lb_R demo_lib) 64 = 0" "IsBackup (lb_R demo_lib) 64 = 0"
    by (simp_all add: IsHooked_def IsBackup_def empty_registry_def)
  note a = regs.add_hooked [OF f(1-4) z f(5,6), of x]
  have "r" using UnHook_run(1) [OF un refl] a by (simp add: x demo_executable)
  with un have un: "UnHook demo_lib_env 64 s1 = (True, s2)" by simp
  have nz: "ho_object res \<noteq> 0" and b: "256 = art_method demo_lib_env (ho_object res)"
    and same: "same_bytes (blocks (be_S demo_lib_env) {256}) (lb_m s1) (lb_m s1)"
    and t: "64 = art_method demo_lib_env 64"
    using run(2) by (simp_all add: same_bytes_def)
  have ids: "\<forall>hr. hooked_methods (lb_R s1) 64 = Some hr \<longrightarrow>
      (\<forall>v \<in> set kInternalMethods. rf_ids (lb_F demo_lib) v \<noteq> hr_backup_method hr)"
    using bm by (auto simp: demo_build_refs_def set_id_def reflection_init_def)
  show ?thesis
    using hook_unhook_api [OF run(1) nz t b demo_ready ids refl refl same un] run un by auto
qed

text \<open>Class 96 extends the proxy class 64, and both are subclasses of \<open>Object\<close>, 32.\<close>

definition demo_subclass :: "addr \<Rightarrow> addr \<Rightarrow> bool" where
  "demo_subclass a b \<longleftrightarrow> a = b \<or> b = 32 \<or> a = 96 \<and> b = 64"

theorem proxy_fallback_reversed_witness:
  "demo_subclass 96 64 \<and>
   \<not> IsProxyMethod class_state_init (GlobalRef_set ''proxy_class_ref'' 64 reflection_init)
      (demo_env\<lparr> jni_IsAssignableFrom := demo_subclass \<rparr>) demo_mem 0 96 \<and>
   IsProxyMethod class_state_init (GlobalRef_set ''proxy_class_ref'' 64 reflection_init)
      (demo_env\<lparr> jni_IsAssignableFrom := demo_subclass \<rparr>) demo_mem 0 32"
proof -
  let ?F = "GlobalRef_set ''proxy_class_ref'' 64 reflection_init"
  let ?E = "demo_env\<lparr> jni_IsAssignableFrom := demo_subclass \<rparr>"
  have g: "64 = GlobalRef_get ?F ''proxy_class_ref''" by code_simp
  have j: "\<And>a b. jni_IsAssignableFrom ?E a b \<longleftrightarrow> demo_subclass a b"
    "\<And>a b. demo_subclass a b \<Longrightarrow> demo_subclass b a \<Longrightarrow> a = b"
    by (auto simp: demo_subclass_def)
  have c: "x = jni_CallObjectMethod ?E x (rf_ids ?F ''method_get_declaring_class'')" for x
    by (simp add: demo_env_def GlobalRef_set_def reflection_init_def Let_def split: option.split prod.split)
  have off: "cs_access_flags_offset class_state_init = 0" by (simp add: class_state_init_def)
  show ?thesis
    using proxy_fallback_reversed [OF off j g _ c [of 96]] proxy_fallback_reversed [OF off j g _ c [of 32]]
    by (simp add: demo_subclass_def)
qed

end
