(* ===== verification/Invoke_Special.thy ===== *)
theory Invoke_Special
  imports Hook_API
begin

text \<open>
  \<open>InvokeSpecial\<close> of lsplant.cc: a reflective call that can skip virtual dispatch. It unboxes the arguments by the
  method's shorty, makes one of JNI's calls and boxes the result.

  JNI's calls are a parameter: \<open>iv_call kind type id args\<close> is the raw result of the call for the return type
  \<open>type\<close> and the exception it has left pending, 0 for none; nothing is assumed about the result of a call that
  has thrown. The functions return the calls they have made, in order, and the outcome: \<open>None\<close> is
  \<open>std::abort\<close>; \<open>Thrown\<close> is an exception the function raises itself, which is pending when it returns null as
  its value; \<open>Result\<close> is a value, with the exception of the call that is still pending, 0 for none;
  \<open>Exception\<close> is the call's exception, cleared and handed on as \<open>std::unexpected\<close>.
\<close>

section \<open>Code\<close>

datatype invoke_kind = CallStatic addr | CallNonvirtual addr addr | CallVirtual addr

datatype invoke_result =
    Thrown string string "jval list"
  | Result addr addr
  | Exception addr

type_synonym invoke_call = "invoke_kind \<times> char \<times> addr \<times> jvalue list"

record invoke_env =
  iv_GetObjectClass :: "addr \<Rightarrow> addr"
  iv_ToReflectedClass :: "addr \<Rightarrow> addr"
  iv_boxing :: boxing
  iv_call :: "invoke_kind \<Rightarrow> char \<Rightarrow> addr \<Rightarrow> jvalue list \<Rightarrow> jvalue \<times> addr"

definition kNullPointerException :: string where "kNullPointerException = ''java/lang/NullPointerException''"
definition kIllegalArgumentException :: string where "kIllegalArgumentException = ''java/lang/IllegalArgumentException''"

definition invoke_class :: "lib_env \<Rightarrow> invoke_env \<Rightarrow> lib \<Rightarrow> addr \<Rightarrow> addr \<Rightarrow> addr \<Rightarrow> addr" where
  "invoke_class L V s meth declaring_class receiver =
     (if declaring_class = 0
      then (if receiver \<noteq> 0 \<and> \<not> IsStatic (be_S L) (lb_m s) meth then iv_GetObjectClass V receiver
            else iv_ToReflectedClass V (GetDeclaringClass (be_S L) (lb_m s) meth))
      else declaring_class)"

definition invoke_shorty :: "lib_env \<Rightarrow> lib \<Rightarrow> addr \<Rightarrow> addr \<Rightarrow> string" where
  "invoke_shorty L s executable_obj meth =
     (let S = be_S L; m = lb_m s;
          np_method = GetInterfaceMethodIfProxy S m meth;
          shown = (if IsProxyMethod (le_C L) (lb_F s) (be_E L) m (GetDeclaringClass S m meth) executable_obj
                   then (if np_method \<noteq> 0 \<and> IsAbstract S m np_method then np_method else 0) else meth)
      in if CanGetMethodShorty (le_N L) \<and> shown \<noteq> 0 then GetShorty (le_N L) shown
         else GetReflectedMethodShorty (be_E L) (lb_F s) executable_obj)"

text \<open>The loop over the arguments; \<open>args\<close> starts as zero.\<close>

fun unwrap_args :: "boxing \<Rightarrow> reflection \<Rightarrow> string \<Rightarrow> addr list \<Rightarrow> jvalue list option" where
  "unwrap_args B F (c # cs) (w # ws) =
     (case if c \<noteq> CHR ''L'' then Unwrap B F c 0 w else Some (word_of_nat w) of
        None \<Rightarrow> None | Some v \<Rightarrow> map_option ((#) v) (unwrap_args B F cs ws))"
| "unwrap_args B F _ _ = Some []"

text \<open>One \<open>case\<close> of the three switches. For most types the exception is only asked for when the result is 0;
  otherwise \<open>Wrap\<close> runs with what is pending.\<close>

definition invoke_and_wrap ::
  "invoke_env \<Rightarrow> reflection \<Rightarrow> invoke_kind \<Rightarrow> char \<Rightarrow> addr \<Rightarrow> jvalue list \<Rightarrow> invoke_call list \<times> invoke_result option" where
  "invoke_and_wrap V F kind type mid args =
     (if type \<in> set ''ZBSCIJFDLV'' then
        (let (v, exception) = iv_call V kind type mid args;
             v = take_bit (jvalue_bits type) v
         in ([(kind, type, mid, args)],
            if exception \<noteq> 0 \<and> (type \<in> set ''FDV'' \<or> v = 0) then Some (Exception exception)
            else if type = CHR ''L'' then Some (Result (unat v) exception)
            else map_option (\<lambda>w. Result w exception) (Wrap (iv_boxing V) F type v)))
      else ([], None))"

definition invoke_elements :: "lib_env \<Rightarrow> addr \<Rightarrow> addr list" where
  "invoke_elements L args_array = (if args_array \<noteq> 0 then jni_array (be_E L) args_array else [])"

definition InvokeSpecial ::
  "lib_env \<Rightarrow> invoke_env \<Rightarrow> lib \<Rightarrow> addr \<Rightarrow> addr \<Rightarrow> addr \<Rightarrow> addr \<Rightarrow> invoke_call list \<times> invoke_result option" where
  "InvokeSpecial L V s executable_obj declaring_class receiver args_array =
     (if executable_obj = 0 then ([], Some (Thrown kNullPointerException ''null method'' []))
      else
        (let S = be_S L; m = lb_m s; meth = art_method L executable_obj in
         if meth = 0 then ([], Some (Thrown kNullPointerException ''Executable.artMethod'' []))
         else
           (let clazz = invoke_class L V s meth declaring_class receiver in
            if declaring_class \<noteq> 0 \<and> clazz \<noteq> declaring_class \<and> \<not> jni_IsAssignableFrom (be_E L) clazz declaring_class
            then ([], Some (Thrown kIllegalArgumentException ''%s is not inherited from %s''
              [JStr (java_string L s declaring_class ''class_get_name''), JStr (java_string L s clazz ''class_get_name'')]))
            else if receiver = 0 \<and> \<not> IsConstructor S m meth \<and> \<not> IsStatic S m meth
            then ([], Some (Thrown kNullPointerException ''null receiver'' []))
            else
              (let receiver = (if receiver = 0 \<and> IsConstructor S m meth
                     then jni_AllocObject (be_E L) (if declaring_class \<noteq> 0 then declaring_class else clazz) else receiver);
                   shorty = invoke_shorty L s executable_obj meth;
                   parameter_count = int (length shorty) - 1;
                   elements = invoke_elements L args_array;
                   kind = (if IsStatic S m meth then CallStatic clazz
                     else if declaring_class \<noteq> 0 then CallNonvirtual receiver declaring_class else CallVirtual receiver)
               in if int (length elements) \<noteq> parameter_count
                  then ([], Some (Thrown kIllegalArgumentException ''Wrong number of arguments; expected %d, got %d''
                    [JInt parameter_count, JInt (int (length elements))]))
                  else (case unwrap_args (iv_boxing V) (lb_F s) (tl shorty) elements of
                      None \<Rightarrow> ([], None)
                    | Some args \<Rightarrow> invoke_and_wrap V (lb_F s) kind (hd shorty) (ToJMethodID meth) args)))))"

section \<open>What a call means\<close>

text \<open>\<open>raw\<close> is a value as the callee expects it in its slot: the low bytes of a primitive, a reference.\<close>

definition arg_raw :: "boxing \<Rightarrow> reflection \<Rightarrow> char \<Rightarrow> addr \<Rightarrow> jvalue" where
  "arg_raw B F c w =
     (case primitive_name c of Some prim \<Rightarrow> take_bit (jvalue_bits c) (Unwrap_prim B F prim w) | None \<Rightarrow> word_of_nat w)"

lemma primitive_letters: "c \<in> set ''ZBSCIJFD'' \<Longrightarrow> \<exists>prim. primitive_name c = Some prim"
  by (auto simp: primitive_name_def)

lemma no_primitive [simp]: "primitive_name (CHR ''L'') = None" "primitive_name (CHR ''V'') = None"
  by (simp_all add: primitive_name_def)

lemma unwrap_args_raw:
  assumes "set cs \<subseteq> set ''ZBSCIJFDL''" "length ws = length cs"
  shows "unwrap_args B F cs ws = Some (map2 (arg_raw B F) cs ws)"
  using assms
proof (induction cs arbitrary: ws)
  case (Cons c cs)
  then obtain w ws' where ws: "ws = w # ws'" "length ws' = length cs" by (cases ws) auto
  have ih: "unwrap_args B F cs ws' = Some (map2 (arg_raw B F) cs ws')" using Cons ws by simp
  show ?case
  proof (cases "c = CHR ''L''")
    case True
    then show ?thesis by (simp add: ws(1) ih arg_raw_def)
  next
    case False
    then obtain prim where "primitive_name c = Some prim" using Cons.prems(1) primitive_letters [of c] by auto
    then show ?thesis using False by (simp add: ws(1) ih arg_raw_def Unwrap_def Let_def)
  qed
qed simp

definition boxed_result :: "boxing \<Rightarrow> reflection \<Rightarrow> char \<Rightarrow> jvalue \<Rightarrow> addr" where
  "boxed_result B F c v =
     (case primitive_name c of Some prim \<Rightarrow> Wrap_prim B F prim (take_bit (jvalue_bits c) v)
      | None \<Rightarrow> if c = CHR ''L'' then unat v else 0)"

text \<open>The exception of a call is asked for: always for \<open>float\<close>, \<open>double\<close> and \<open>void\<close>, else when the result is 0.\<close>

definition asked_for :: "char \<Rightarrow> jvalue \<Rightarrow> bool" where
  "asked_for c v \<longleftrightarrow> c \<in> {CHR ''F'', CHR ''D'', CHR ''V''} \<or> take_bit (jvalue_bits c) v = 0"

lemma invoke_and_wrap_outcome:
  assumes "c \<in> set ''ZBSCIJFDLV''" "iv_call V k c i as = (v, exc)"
  shows "invoke_and_wrap V F k c i as = ([(k, c, i, as)],
    Some (if exc \<noteq> 0 \<and> asked_for c v then Exception exc else Result (boxed_result (iv_boxing V) F c v) exc))"
proof -
  consider prim where "primitive_name c = Some prim" | "c = CHR ''L''" | "c = CHR ''V''"
    using assms(1) primitive_letters [of c] by auto
  then show ?thesis
  proof cases
    case (1 prim)
    then show ?thesis
      using assms by (auto simp: invoke_and_wrap_def boxed_result_def asked_for_def Wrap_def Let_def)
  next
    case 2
    then show ?thesis
      using assms(2)
      by (auto simp: invoke_and_wrap_def boxed_result_def asked_for_def jvalue_bits_def Let_def take_bit_word_eq_self)
  next
    case 3
    then show ?thesis
      using assms(2) by (auto simp: invoke_and_wrap_def boxed_result_def asked_for_def Wrap_def Let_def)
  qed
qed

text \<open>A call that passes the checks, on \<open>object\<close>: the receiver or the new object.\<close>

lemma invoke_special_run:
  assumes ex: "executable_obj \<noteq> 0" "meth = art_method L executable_obj" "meth \<noteq> 0"
    and r: "receiver \<noteq> 0 \<or> IsStatic (be_S L) (lb_m s) meth \<or> IsConstructor (be_S L) (lb_m s) meth"
    and obj: "object = (if receiver = 0 \<and> IsConstructor (be_S L) (lb_m s) meth
      then jni_AllocObject (be_E L) (if cls \<noteq> 0 then cls else invoke_class L V s meth cls receiver) else receiver)"
    and sh: "invoke_shorty L s executable_obj meth = c # cs" "set cs \<subseteq> set ''ZBSCIJFDL''"
    and args: "length (invoke_elements L args_array) = length cs"
  shows "InvokeSpecial L V s executable_obj cls receiver args_array =
    invoke_and_wrap V (lb_F s) (if IsStatic (be_S L) (lb_m s) meth then CallStatic (invoke_class L V s meth cls receiver)
        else if cls \<noteq> 0 then CallNonvirtual object cls else CallVirtual object) c meth
      (map2 (arg_raw (iv_boxing V) (lb_F s)) cs (invoke_elements L args_array))"
proof -
  have cl: "cls \<noteq> 0 \<Longrightarrow> invoke_class L V s meth cls receiver = cls" by (simp add: invoke_class_def)
  note u = unwrap_args_raw [OF sh(2) args, of "iv_boxing V" "lb_F s"]
  show ?thesis
    using r cl by (auto simp: InvokeSpecial_def Let_def ex(1,3) ex(2) [symmetric] sh(1) args u ToJMethodID_def obj)
qed

text \<open>C22. A reflective call with a receiver, or of a static method, and with as many arguments as the method
  has parameters makes exactly one call, of the kind the method and the class ask for, with the arguments
  unboxed by the shorty. It returns the boxed result when nothing was thrown. An exception of the call is
  handed on in place of the result when it is asked for: always for \<open>float\<close>, \<open>double\<close> and \<open>void\<close>, for the
  other types only when the raw result is 0; with any other result it stays pending behind a boxed value.\<close>

theorem invoke_special_calls:
  assumes ex: "executable_obj \<noteq> 0" "meth = art_method L executable_obj" "meth \<noteq> 0"
    and r: "receiver \<noteq> 0 \<or> IsStatic (be_S L) (lb_m s) meth \<and> \<not> IsConstructor (be_S L) (lb_m s) meth"
    and sh: "invoke_shorty L s executable_obj meth = c # cs" "c \<in> set ''ZBSCIJFDLV''" "set cs \<subseteq> set ''ZBSCIJFDL''"
    and args: "length (invoke_elements L args_array) = length cs"
      "as = map2 (arg_raw (iv_boxing V) (lb_F s)) cs (invoke_elements L args_array)"
    and kind: "kind = (if IsStatic (be_S L) (lb_m s) meth then CallStatic (invoke_class L V s meth cls receiver)
        else if cls \<noteq> 0 then CallNonvirtual receiver cls else CallVirtual receiver)"
    and call: "iv_call V kind c meth as = (v, exc)"
  shows "InvokeSpecial L V s executable_obj cls receiver args_array = ([(kind, c, meth, as)],
    Some (if exc \<noteq> 0 \<and> (c \<in> {CHR ''F'', CHR ''D'', CHR ''V''} \<or> take_bit (jvalue_bits c) v = 0) then Exception exc
          else Result (boxed_result (iv_boxing V) (lb_F s) c v) exc))"
proof -
  have "InvokeSpecial L V s executable_obj cls receiver args_array = invoke_and_wrap V (lb_F s) kind c meth as"
    using invoke_special_run [OF ex _ refl sh(1,3) args(1), where receiver = receiver and cls = cls] r by (auto simp: kind args(2))
  then show ?thesis by (simp add: invoke_and_wrap_outcome [OF sh(2) call] asked_for_def)
qed

text \<open>C39. A constructor (not a static initializer) that is called without a receiver runs on a new object of
  the given class, or of its own class when none is given, with the arguments unboxed; but the object is lost:
  the shorty of a constructor returns void, so unless it throws the value is null.\<close>

theorem invoke_special_loses_object:
  assumes ex: "executable_obj \<noteq> 0" "meth = art_method L executable_obj" "meth \<noteq> 0"
    and ctor: "IsConstructor (be_S L) (lb_m s) meth" "\<not> IsStatic (be_S L) (lb_m s) meth"
    and sh: "invoke_shorty L s executable_obj meth = CHR ''V'' # cs" "set cs \<subseteq> set ''ZBSCIJFDL''"
    and args: "length (invoke_elements L args_array) = length cs"
      "as = map2 (arg_raw (iv_boxing V) (lb_F s)) cs (invoke_elements L args_array)"
    and obj: "obj = jni_AllocObject (be_E L) (if cls \<noteq> 0 then cls
        else iv_ToReflectedClass V (GetDeclaringClass (be_S L) (lb_m s) meth))"
    and kind: "kind = (if cls \<noteq> 0 then CallNonvirtual obj cls else CallVirtual obj)"
    and call: "iv_call V kind (CHR ''V'') meth as = (v, exc)"
  shows "InvokeSpecial L V s executable_obj cls 0 args_array =
    ([(kind, CHR ''V'', meth, as)], Some (if exc \<noteq> 0 then Exception exc else Result 0 0))"
proof -
  have "InvokeSpecial L V s executable_obj cls 0 args_array = invoke_and_wrap V (lb_F s) kind (CHR ''V'') meth as"
    using invoke_special_run [OF ex _ refl sh args(1), where receiver = 0 and cls = cls and V = V] ctor
    by (simp add: kind args(2) obj invoke_class_def)
  then show ?thesis by (simp add: invoke_and_wrap_outcome [OF _ call] asked_for_def boxed_result_def)
qed

text \<open>The check that the class of the receiver inherits from the given class is dead: it compares the given
  class with itself.\<close>

lemma if_neq: "x \<noteq> z \<Longrightarrow> y \<noteq> z \<Longrightarrow> (if b then x else y) \<noteq> z"
  by simp

lemma if_snd_neq: "snd x \<noteq> z \<Longrightarrow> snd y \<noteq> z \<Longrightarrow> snd (if b then x else y) \<noteq> z"
  by simp

lemma option_snd_neq: "snd n \<noteq> z \<Longrightarrow> (\<And>x. snd (f x) \<noteq> z) \<Longrightarrow> snd (case q of None \<Rightarrow> n | Some x \<Rightarrow> f x) \<noteq> z"
  by (simp split: option.split)

lemma inherit_check_dead:
  "snd (InvokeSpecial L V s executable_obj cls receiver args_array) \<noteq>
     Some (Thrown kIllegalArgumentException ''%s is not inherited from %s'' as)"
proof -
  have w: "snd (invoke_and_wrap V F k c i vs) \<noteq> Some (Thrown x y z)" for F k c i vs x y z
    unfolding invoke_and_wrap_def Let_def case_prod_beta
    by (intro if_snd_neq) (simp_all only: snd_conv, intro if_neq, simp_all)
  have c: "\<not> (cls \<noteq> 0 \<and> invoke_class L V s meth cls receiver \<noteq> cls \<and> b)" for meth b
    by (simp add: invoke_class_def)
  show ?thesis
    unfolding InvokeSpecial_def Let_def if_not_P [OF c]
    by (intro if_snd_neq option_snd_neq w) (simp_all add: kNullPointerException_def)
qed

section \<open>Calls on concrete values\<close>

text \<open>A machine whose calls return their first argument and throw 99 when it is 7.\<close>

definition demo_invoke :: invoke_env where
  "demo_invoke = \<lparr> iv_GetObjectClass = (\<lambda>x. x + 1), iv_ToReflectedClass = (\<lambda>x. x + 2), iv_boxing = demo_boxing,
     iv_call = (\<lambda>k c i as. (if as = [] then 0 else hd as, if as \<noteq> [] \<and> hd as = 7 then 99 else 0)) \<rparr>"

text \<open>The static method at 64 takes two objects; it returns an object, or nothing when its shorty is the
  second one. The call of the first returns, that of the second throws although its result is not 0.\<close>

lemma demo_static: "IsStatic arm64_statics demo_mem 64" "\<not> IsConstructor arm64_statics demo_mem 64"
  by (simp_all add: IsStatic_def IsConstructor_def has_flag_def GetAccessFlags_def load_eval demo_mem_def kAcc_defs
      arm64_statics_def)

abbreviation demo_shorty_env :: "string \<Rightarrow> lib_env" where
  "demo_shorty_env shorty \<equiv> demo_lib_env\<lparr> le_N := (le_N demo_lib_env)\<lparr> mn_GetShorty := Some (\<lambda>_. shorty) \<rparr> \<rparr>"

lemma demo_shorty: "invoke_shorty (demo_shorty_env shorty) (demo_lib\<lparr> lb_m := m \<rparr>) 64 64 = shorty"
proof -
  have "\<not> IsProxyMethod class_state_init demo_build_refs demo_jni m c 64" for c
    by (simp add: IsProxyMethod_def IsProxyClass_def Class_GetAccessFlags_def class_state_init_def GlobalRef_get_def
        demo_build_refs_def set_id_def reflection_init_def jl_get_def jl_empty_def Let_def)
  then show ?thesis
    by (simp add: invoke_shorty_def Let_def CanGetMethodShorty_def GetShorty_def)
qed

lemma demo_elements: "invoke_elements (demo_shorty_env shorty) x = (if x \<noteq> 0 then [x, x + 1] else [])"
  by (simp add: invoke_elements_def demo_jni_def demo_env_def)

lemma demo_invoke_method: "art_method (demo_shorty_env shorty) 64 = 64"
  by (simp add: art_method_def FromReflectedMethod_def demo_jni_def)

theorem invoke_special_calls_witness:
  "InvokeSpecial (demo_shorty_env ''LLL'') demo_invoke (demo_lib\<lparr> lb_m := demo_mem \<rparr>) 64 32 0 71 =
     ([(CallStatic 32, CHR ''L'', 64, [71, 72])], Some (Result 71 0)) \<and>
   InvokeSpecial (demo_shorty_env ''VLL'') demo_invoke (demo_lib\<lparr> lb_m := demo_mem \<rparr>) 64 32 0 7 =
     ([(CallStatic 32, CHR ''V'', 64, [7, 8])], Some (Exception 99))"
proof -
  note c = invoke_special_calls [of 64 64 _ 0 "demo_lib\<lparr> lb_m := demo_mem \<rparr>" _ "''LL''" _ _ demo_invoke "CallStatic 32" 32]
  have "InvokeSpecial (demo_shorty_env ''LLL'') demo_invoke (demo_lib\<lparr> lb_m := demo_mem \<rparr>) 64 32 0 71 =
     ([(CallStatic 32, CHR ''L'', 64, [71, 72])], Some (Result 71 0))"
    by (subst c [of "demo_shorty_env ''LLL''" "CHR ''L''" 71 "[71, 72]" 71 0])
      (simp_all only: demo_shorty demo_elements demo_invoke_method,
       simp_all add: demo_static demo_invoke_def arg_raw_def boxed_result_def invoke_class_def)
  moreover have "InvokeSpecial (demo_shorty_env ''VLL'') demo_invoke (demo_lib\<lparr> lb_m := demo_mem \<rparr>) 64 32 0 7 =
     ([(CallStatic 32, CHR ''V'', 64, [7, 8])], Some (Exception 99))"
    by (subst c [of "demo_shorty_env ''VLL''" "CHR ''V''" 7 "[7, 8]" 7 99])
      (simp_all only: demo_shorty demo_elements demo_invoke_method,
       simp_all add: demo_static demo_invoke_def arg_raw_def boxed_result_def invoke_class_def)
  ultimately show ?thesis ..
qed

text \<open>A constructor at 64 with two parameters; \<open>demo_jni\<close> decides which object is allocated.\<close>

theorem invoke_special_loses_object_witness:
  "\<exists>obj. InvokeSpecial (demo_shorty_env ''VLL'') demo_invoke (demo_lib\<lparr> lb_m := (\<lambda>x. if x = 70 then 1 else 0) \<rparr>) 64 32 0 71 =
     ([(CallNonvirtual obj 32, CHR ''V'', 64, [71, 72])], Some (Result 0 0))"
proof -
  let ?m = "(\<lambda>x. if x = 70 then 1 else 0) :: memory"
  let ?o = "jni_AllocObject (be_E demo_lib_env) 32"
  have f: "\<not> IsStatic arm64_statics ?m 64" "IsConstructor arm64_statics ?m 64"
    by (simp_all add: IsStatic_def IsConstructor_def has_flag_def GetAccessFlags_def load_eval kAcc_defs arm64_statics_def)
  show ?thesis
    by (rule exI, subst invoke_special_loses_object [of 64 64 "demo_shorty_env ''VLL''" "demo_lib\<lparr> lb_m := ?m \<rparr>" "''LL''" 71
          "[71, 72]" demo_invoke ?o 32 "CallNonvirtual ?o 32" 71 0])
      (simp_all only: demo_shorty demo_elements demo_invoke_method,
       simp_all add: f demo_invoke_def arg_raw_def)
qed

end
