(* ===== verification/Jni_Scopes.thy ===== *)
theory Jni_Scopes
  imports Prelude Step_Systems
begin

text \<open>
  The owners of JNI resources in include/utils/jni_helper.hpp: \<open>ScopedLocalRef\<close> (of an object, of a
  primitive array and of an object array), \<open>JObjectArrayElement\<close> and the iterator of arrays of objects,
  \<open>JUTFString\<close>, \<open>JNIScopeFrame\<close> and \<open>JNIMonitor\<close>.

  What the virtual machine does is not modelled. A definition extends the trace of the JNI calls made so
  far; the answers of the machine are \<open>jni_answers\<close>, functions of that trace and the arguments. What JNI
  says of a trace is \<open>live\<close> (the local references that exist after it) and \<open>legal\<close> (no reference is deleted
  that does not exist). References and pointers are addresses, 0 being null. All objects belong to one
  thread, so \<open>env_\<close> is left out, except where the code gives a null one.
\<close>

section \<open>Traces of JNI calls\<close>

datatype release_mode = CopyBackFree | JNI_COMMIT | JNI_ABORT

datatype jni_arg = ARef addr | AStr string | AInt int

datatype jni_event =
    CallEnv string "jni_arg list" bool addr
  | ExceptionCheck bool
  | ExceptionOccurred addr
  | ExceptionClear
  | LogWrite addr
  | NewLocalRef addr addr
  | DeleteLocalRef addr
  | GetArrayLength addr nat
  | GetArrayElements addr addr
  | ReleaseArrayElements addr addr release_mode
  | GetObjectArrayElement addr int addr
  | SetObjectArrayElement addr int addr
  | GetStringChars addr addr
  | ReleaseStringChars addr addr
  | PushLocalFrame int
  | PopLocalFrame addr addr
  | MonitorEnter addr
  | MonitorExit addr

type_synonym jtrace = "jni_event list"

text \<open>\<open>CallEnv\<close> is any other function of \<open>JNIEnv\<close>, by name; its flag says that the result is a local
  reference. \<open>an_pending\<close> is whether an exception is pending.\<close>

record jni_answers =
  an_Call :: "jtrace \<Rightarrow> string \<Rightarrow> jni_arg list \<Rightarrow> bool \<Rightarrow> addr"
  an_pending :: "jtrace \<Rightarrow> bool"
  an_ExceptionOccurred :: "jtrace \<Rightarrow> addr"
  an_NewLocalRef :: "jtrace \<Rightarrow> addr \<Rightarrow> addr"
  an_GetArrayLength :: "jtrace \<Rightarrow> addr \<Rightarrow> nat"
  an_GetArrayElements :: "jtrace \<Rightarrow> addr \<Rightarrow> addr"
  an_GetObjectArrayElement :: "jtrace \<Rightarrow> addr \<Rightarrow> int \<Rightarrow> addr"
  an_GetStringChars :: "jtrace \<Rightarrow> addr \<Rightarrow> addr"
  an_PopLocalFrame :: "jtrace \<Rightarrow> addr \<Rightarrow> addr"

text \<open>The reference a call creates and the one it deletes, 0 for none. Deleting null is allowed.\<close>

fun created :: "jni_event \<Rightarrow> addr" where
  "created (NewLocalRef x r) = r"
| "created (GetObjectArrayElement a i r) = r"
| "created (CallEnv f as is_ref r) = (if is_ref then r else 0)"
| "created (ExceptionOccurred r) = r"
| "created e = 0"

fun deleted :: "jni_event \<Rightarrow> addr" where
  "deleted (DeleteLocalRef r) = r"
| "deleted e = 0"

definition live_step :: "jni_event \<Rightarrow> addr set \<Rightarrow> addr set" where
  "live_step e L = (L - {deleted e}) \<union> ({created e} - {0})"

definition live :: "addr set \<Rightarrow> jtrace \<Rightarrow> addr set" where
  "live L tr = fold live_step tr L"

fun legal :: "addr set \<Rightarrow> jtrace \<Rightarrow> bool" where
  "legal L [] = True"
| "legal L (e # tr) = ((deleted e = 0 \<or> deleted e \<in> L) \<and> legal (live_step e L) tr)"

lemma live_simps [simp]:
  "live L [] = L" "live L (tr @ tr') = live (live L tr) tr'" "live L (e # tr) = live (live_step e L) tr"
  by (simp_all add: live_def)

lemma legal_append [simp]: "legal L (tr @ tr') \<longleftrightarrow> legal L tr \<and> legal (live L tr) tr'"
  by (induction tr arbitrary: L) auto

text \<open>What JNI promises of new references: they are null or none of those that exist.\<close>

definition fresh_refs :: "jni_answers \<Rightarrow> addr set \<Rightarrow> bool" where
  "fresh_refs A L \<longleftrightarrow>
     (\<forall>tr x. an_NewLocalRef A tr x \<notin> live L tr) \<and> (\<forall>tr a i. an_GetObjectArrayElement A tr a i \<notin> live L tr) \<and>
     (\<forall>tr f as. an_Call A tr f as True \<notin> live L tr) \<and> (\<forall>tr. an_ExceptionOccurred A tr \<notin> live L tr)"

section \<open>References to objects\<close>

text \<open>A \<open>ScopedLocalRef\<close> is its field \<open>local_ref_\<close>; the operations take the trace along.\<close>

type_synonym 'a jni = "jtrace \<Rightarrow> 'a \<times> jtrace"

definition sr_reset :: "addr \<Rightarrow> addr \<Rightarrow> addr jni" where
  "sr_reset ptr local_ref tr =
     (if ptr \<noteq> local_ref
      then (ptr, if local_ref \<noteq> 0 then tr @ [DeleteLocalRef local_ref] else tr)
      else (local_ref, tr))"

definition sr_release :: "addr \<Rightarrow> addr \<times> addr" where
  "sr_release local_ref = (local_ref, 0)"

definition sr_construct :: "addr \<Rightarrow> addr jni" where
  "sr_construct local_ref tr = sr_reset local_ref 0 tr"

definition sr_clone :: "jni_answers \<Rightarrow> addr \<Rightarrow> addr jni" where
  "sr_clone A local_ref tr =
     (let r = an_NewLocalRef A tr local_ref in sr_construct r (tr @ [NewLocalRef local_ref r]))"

definition sr_destroy :: "addr \<Rightarrow> jtrace \<Rightarrow> jtrace" where
  "sr_destroy local_ref tr = snd (sr_reset 0 local_ref tr)"

subsection \<open>Client programs\<close>

text \<open>
  A client has named scopes and raw references that it owns itself: results of JNI calls it has not
  wrapped, and what \<open>release\<close> gave it. The step relation lets it do what C++ and JNI allow: a raw
  reference is given to a scope only by its owner, and only constructed scopes are used.
\<close>

record scopes =
  sc_refs :: "nat \<rightharpoonup> addr"
  sc_raw :: "addr set"
  sc_trace :: jtrace

definition move_construct :: "nat \<Rightarrow> nat \<Rightarrow> addr \<Rightarrow> scopes \<Rightarrow> scopes" where
  "move_construct v w s_ref s =
     (let (p, s_ref) = sr_release s_ref; (r, tr) = sr_construct p (sc_trace s)
      in s\<lparr> sc_refs := (sc_refs s)(w \<mapsto> s_ref, v \<mapsto> r), sc_trace := tr \<rparr>)"

text \<open>In \<open>operator=\<close> the argument is released first; when it is the scope itself, \<open>reset\<close> finds null.\<close>

definition move_assign :: "nat \<Rightarrow> nat \<Rightarrow> addr \<Rightarrow> scopes \<Rightarrow> scopes" where
  "move_assign v w s_ref s =
     (let (p, s_ref) = sr_release s_ref; refs = (sc_refs s)(w \<mapsto> s_ref);
          (r, tr) = sr_reset p (the (refs v)) (sc_trace s)
      in s\<lparr> sc_refs := refs(v \<mapsto> r), sc_trace := tr \<rparr>)"

inductive scope_step :: "jni_answers \<Rightarrow> scopes \<Rightarrow> scopes \<Rightarrow> bool" for A where
  construct: "\<lbrakk> sc_refs s v = None; p = 0 \<or> p \<in> sc_raw s; sr_construct p (sc_trace s) = (r, tr) \<rbrakk> \<Longrightarrow>
    scope_step A s (s\<lparr> sc_refs := (sc_refs s)(v \<mapsto> r), sc_raw := sc_raw s - {p}, sc_trace := tr \<rparr>)"
| move_constr: "\<lbrakk> sc_refs s v = None; sc_refs s w = Some q \<rbrakk> \<Longrightarrow> scope_step A s (move_construct v w q s)"
| clone: "\<lbrakk> sc_refs s v = None; sc_refs s w = Some q; sr_clone A q (sc_trace s) = (r, tr) \<rbrakk> \<Longrightarrow>
    scope_step A s (s\<lparr> sc_refs := (sc_refs s)(v \<mapsto> r), sc_trace := tr \<rparr>)"
| move_asgn: "\<lbrakk> sc_refs s v = Some p; sc_refs s w = Some q \<rbrakk> \<Longrightarrow> scope_step A s (move_assign v w q s)"
| reset: "\<lbrakk> sc_refs s v = Some q; p = 0 \<or> p = q \<or> p \<in> sc_raw s; sr_reset p q (sc_trace s) = (r, tr) \<rbrakk> \<Longrightarrow>
    scope_step A s (s\<lparr> sc_refs := (sc_refs s)(v \<mapsto> r), sc_raw := sc_raw s - {p}, sc_trace := tr \<rparr>)"
| release: "\<lbrakk> sc_refs s v = Some q; sr_release q = (p, r) \<rbrakk> \<Longrightarrow>
    scope_step A s (s\<lparr> sc_refs := (sc_refs s)(v \<mapsto> r), sc_raw := sc_raw s \<union> ({p} - {0}) \<rparr>)"
| destroy: "sc_refs s v = Some q \<Longrightarrow>
    scope_step A s (s\<lparr> sc_refs := (sc_refs s)(v := None), sc_trace := sr_destroy q (sc_trace s) \<rparr>)"
| call: "r = an_NewLocalRef A (sc_trace s) x \<Longrightarrow>
    scope_step A s (s\<lparr> sc_raw := sc_raw s \<union> ({r} - {0}), sc_trace := sc_trace s @ [NewLocalRef x r] \<rparr>)"

definition scopes_init :: "addr set \<Rightarrow> scopes" where
  "scopes_init R = \<lparr> sc_refs = Map.empty, sc_raw = R, sc_trace = [] \<rparr>"

text \<open>Every live reference has one owner, a scope or the client, and was never deleted before.\<close>

definition held :: "scopes \<Rightarrow> addr set" where
  "held s = ran (sc_refs s) - {0}"

definition one_owner :: "addr set \<Rightarrow> scopes \<Rightarrow> bool" where
  "one_owner R s \<longleftrightarrow>
     legal R (sc_trace s) \<and> live R (sc_trace s) = sc_raw s \<union> held s \<and> 0 \<notin> sc_raw s \<and> sc_raw s \<inter> held s = {} \<and>
     (\<forall>v w r. sc_refs s v = Some r \<longrightarrow> sc_refs s w = Some r \<longrightarrow> v \<noteq> w \<longrightarrow> r = 0)"

lemma sr_reset_cases:
  "sr_reset p q tr = (r, tr') \<longleftrightarrow> r = p \<and> tr' = (if p = q \<or> q = 0 then tr else tr @ [DeleteLocalRef q])"
  by (auto simp: sr_reset_def)

lemma sr_construct_cases: "sr_construct p tr = (r, tr') \<longleftrightarrow> r = p \<and> tr' = tr"
  by (auto simp: sr_construct_def sr_reset_cases)

lemma live_step_simps [simp]:
  "live_step (DeleteLocalRef q) L = L - {q}" "live_step (NewLocalRef x r) L = (L - {0}) \<union> ({r} - {0})"
  "live_step (GetObjectArrayElement a i r) L = (L - {0}) \<union> ({r} - {0})"
  by (auto simp: live_step_def)

lemma held_simps:
  "q \<in> held s \<longleftrightarrow> q \<noteq> 0 \<and> (\<exists>v. sc_refs s v = Some q)"
  by (auto simp: held_def ran_def)

lemma one_owner_unique:
  assumes "one_owner R s" and "sc_refs s v = Some r" and "sc_refs s w = Some r"
  shows "r = 0 \<or> w = v"
  using assms unfolding one_owner_def by blast

lemma held_without:
  assumes "one_owner R s" and "q = (case sc_refs s v of Some q \<Rightarrow> q | None \<Rightarrow> 0)"
  shows "{r. r \<noteq> 0 \<and> (\<exists>w. w \<noteq> v \<and> sc_refs s w = Some r)} = held s - {q}"
proof (intro set_eqI iffI)
  fix r assume "r \<in> {r. r \<noteq> 0 \<and> (\<exists>w. w \<noteq> v \<and> sc_refs s w = Some r)}"
  then obtain w where w: "r \<noteq> 0" "w \<noteq> v" "sc_refs s w = Some r" by blast
  then have "r \<noteq> q" using one_owner_unique [OF assms(1) _ w(3), of v] assms(2) by (auto split: option.splits)
  then show "r \<in> held s - {q}" using w by (auto simp: held_simps)
next
  fix r assume "r \<in> held s - {q}"
  then obtain w where "r \<noteq> 0" "r \<noteq> q" "sc_refs s w = Some r" by (auto simp: held_simps)
  then show "r \<in> {r. r \<noteq> 0 \<and> (\<exists>w. w \<noteq> v \<and> sc_refs s w = Some r)}" using assms(2) by force
qed

lemma held_put:
  assumes "one_owner R s" and "q = (case sc_refs s v of Some q \<Rightarrow> q | None \<Rightarrow> 0)"
  shows "held (s\<lparr> sc_refs := (sc_refs s)(v := x), sc_raw := w, sc_trace := tr \<rparr>) =
    (held s - {q}) \<union> (set_option x - {0})"
  unfolding held_without [OF assms, symmetric] by (cases x) (auto simp: held_def ran_def)

lemma held_zero [simp]: "0 \<notin> held s"
  by (simp add: held_def)

lemma one_ownerD:
  assumes "one_owner R s"
  shows "legal R (sc_trace s)" "live R (sc_trace s) = sc_raw s \<union> held s" "0 \<notin> sc_raw s"
    "sc_raw s \<inter> held s = {}" "p \<in> sc_raw s \<Longrightarrow> sc_refs s v \<noteq> Some p"
    "\<forall>v w r. sc_refs s v = Some r \<longrightarrow> sc_refs s w = Some r \<longrightarrow> v \<noteq> w \<longrightarrow> r = 0"
proof -
  show d: "legal R (sc_trace s)" "live R (sc_trace s) = sc_raw s \<union> held s" "0 \<notin> sc_raw s"
    "sc_raw s \<inter> held s = {}"
    "\<forall>v w r. sc_refs s v = Some r \<longrightarrow> sc_refs s w = Some r \<longrightarrow> v \<noteq> w \<longrightarrow> r = 0"
    using assms unfolding one_owner_def by blast+
  show "sc_refs s v \<noteq> Some p" if p: "p \<in> sc_raw s"
  proof -
    have "p \<noteq> 0" "p \<notin> held s" using p d(3,4) by auto
    then show ?thesis by (simp add: held_simps)
  qed
qed

text \<open>Giving scope \<open>v\<close> the reference \<open>p\<close> that no scope holds, with what it held before deleted.\<close>

lemma one_owner_put:
  assumes o: "one_owner R s" and p: "p = 0 \<or> p \<in> sc_raw s"
    and q: "q = (case sc_refs s v of Some q \<Rightarrow> q | None \<Rightarrow> 0)"
  shows "one_owner R (s\<lparr> sc_refs := (sc_refs s)(v \<mapsto> p), sc_raw := sc_raw s - {p},
      sc_trace := if q = 0 then sc_trace s else sc_trace s @ [DeleteLocalRef q] \<rparr>)" (is "one_owner R ?s")
proof -
  note d = one_ownerD [OF o]
  have h: "held ?s = (held s - {q}) \<union> ({p} - {0})" by (simp add: held_put [OF o q])
  have q': "q = 0 \<or> q \<in> held s" using q by (auto simp: held_simps split: option.splits)
  then have qr: "q \<notin> sc_raw s" using d(3,4) by auto
  have "\<forall>w r. sc_refs s w = Some r \<longrightarrow> p = r \<longrightarrow> r = 0" using d(5) p by blast
  then have "\<forall>x w r. sc_refs ?s x = Some r \<longrightarrow> sc_refs ?s w = Some r \<longrightarrow> x \<noteq> w \<longrightarrow> r = 0"
    using d(6) by simp blast
  moreover have "legal R (sc_trace ?s)" using d(1,2) q' by auto
  moreover have "live R (sc_trace ?s) = sc_raw ?s \<union> held ?s"
  proof -
    have "live R (sc_trace ?s) = (sc_raw s \<union> held s) - {q}" using d(2) d(3) by simp
    also have "\<dots> = sc_raw ?s \<union> held ?s" unfolding h using p qr d(3) by auto
    finally show ?thesis .
  qed
  moreover have "sc_raw ?s \<inter> held ?s = {}" unfolding h using d(3,4) by auto
  ultimately show ?thesis using d(3) unfolding one_owner_def by simp
qed

text \<open>Taking the reference of scope \<open>v\<close> into the client's hands.\<close>

lemma one_owner_take:
  assumes o: "one_owner R s" and v: "sc_refs s v = Some q"
  shows "one_owner R (s\<lparr> sc_refs := (sc_refs s)(v \<mapsto> 0), sc_raw := sc_raw s \<union> ({q} - {0}) \<rparr>)" (is "one_owner R ?s")
proof -
  note d = one_ownerD [OF o]
  have h: "held ?s = held s - {q}"
    using held_put [OF o, where v = v and q = q and x = "Some 0" and tr = "sc_trace s"] v by simp
  have q': "q = 0 \<or> q \<in> held s" using v by (auto simp: held_simps)
  have "sc_raw ?s \<union> held ?s = sc_raw s \<union> held s" unfolding h using q' by auto
  then have "live R (sc_trace ?s) = sc_raw ?s \<union> held ?s" using d(2) by simp
  moreover have "sc_raw ?s \<inter> held ?s = {}" unfolding h using d(4) by auto
  moreover have "\<forall>x w r. sc_refs ?s x = Some r \<longrightarrow> sc_refs ?s w = Some r \<longrightarrow> x \<noteq> w \<longrightarrow> r = 0"
    using d(6) by simp
  moreover have "legal R (sc_trace ?s)" "0 \<notin> sc_raw ?s" using d(1,3) by simp_all
  ultimately show ?thesis unfolding one_owner_def by blast
qed

lemma one_owner_call:
  assumes o: "one_owner R s" and "fresh_refs A R" and "r = an_NewLocalRef A (sc_trace s) x"
  shows "one_owner R (s\<lparr> sc_raw := sc_raw s \<union> ({r} - {0}), sc_trace := sc_trace s @ [NewLocalRef x r] \<rparr>)"
    (is "one_owner R ?s")
proof -
  note d = one_ownerD [OF o]
  have h: "held ?s = held s" by (simp add: held_def)
  have "r \<notin> live R (sc_trace s)" using assms(2,3) by (simp add: fresh_refs_def)
  then have "r \<notin> held s" using d(2) by simp
  then have "sc_raw ?s \<inter> held ?s = {}" unfolding h using d(4) by auto
  moreover have "live R (sc_trace ?s) = sc_raw ?s \<union> held ?s" unfolding h using d(2,3) by auto
  ultimately show ?thesis using d(1,3,6) unfolding one_owner_def by simp
qed

lemma one_owner_drop:
  assumes o: "one_owner R s" and v: "sc_refs s v = Some q"
  shows "one_owner R (s\<lparr> sc_refs := (sc_refs s)(v := None), sc_trace := sr_destroy q (sc_trace s) \<rparr>)"
    (is "one_owner R ?s")
proof -
  note d = one_ownerD [OF o]
  have h: "held ?s = held s - {q}"
    using held_put [OF o, where v = v and q = q and x = None and w = "sc_raw s"] v by simp
  have t: "sr_destroy q (sc_trace s) = (if q = 0 then sc_trace s else sc_trace s @ [DeleteLocalRef q])"
    by (auto simp: sr_destroy_def sr_reset_def)
  have q': "q = 0 \<or> q \<in> held s" using v by (auto simp: held_simps)
  have "live R (sc_trace ?s) = sc_raw ?s \<union> held ?s" unfolding h using d(2,3,4) q' t by auto
  moreover have "legal R (sc_trace ?s)" using d(1,2) q' t by auto
  moreover have "\<forall>x w r. sc_refs ?s x = Some r \<longrightarrow> sc_refs ?s w = Some r \<longrightarrow> x \<noteq> w \<longrightarrow> r = 0"
    using d(6) by simp
  moreover have "sc_raw ?s \<inter> held ?s = {}" unfolding h using d(4) by auto
  ultimately show ?thesis using d(3) unfolding one_owner_def by simp
qed

lemma take_put_raw:
  assumes "one_owner R s" and "sc_refs s w = Some q"
  shows "insert q (sc_raw s) - {0} - {q} = sc_raw s" and "sc_raw s \<union> ({q} - {0}) - {q} = sc_raw s"
  using one_ownerD(3) [OF assms(1)] one_ownerD(5) [OF assms(1), of q w] assms(2) by auto

lemma one_owner_move:
  assumes o: "one_owner R s" and w: "sc_refs s w = Some q"
    and p: "p = (case ((sc_refs s)(w \<mapsto> 0)) v of Some p \<Rightarrow> p | None \<Rightarrow> 0)"
  shows "one_owner R (s\<lparr> sc_refs := (sc_refs s)(w \<mapsto> 0, v \<mapsto> q),
    sc_trace := if p = 0 then sc_trace s else sc_trace s @ [DeleteLocalRef p] \<rparr>)"
proof -
  let ?t = "s\<lparr> sc_refs := (sc_refs s)(w \<mapsto> 0), sc_raw := sc_raw s \<union> ({q} - {0}) \<rparr>"
  have "one_owner R (?t\<lparr> sc_refs := (sc_refs ?t)(v \<mapsto> q), sc_raw := sc_raw ?t - {q},
      sc_trace := if p = 0 then sc_trace ?t else sc_trace ?t @ [DeleteLocalRef p] \<rparr>)"
    by (rule one_owner_put [OF one_owner_take [OF o w]]) (use p in auto)
  then show ?thesis by (cases "p = 0") (simp_all add: take_put_raw(2) [OF o w])
qed

lemma scope_step_one_owner:
  assumes "scope_step A s t" and A: "fresh_refs A R" and o: "one_owner R s"
  shows "one_owner R t"
  using assms(1) o
proof cases
  case (construct v p r tr)
  then show ?thesis using one_owner_put [OF o construct(3), of 0 v] by (simp add: sr_construct_cases)
next
  case (move_constr v w q)
  then have "v \<noteq> w" by auto
  then show ?thesis
    using move_constr one_owner_move [OF o move_constr(3), of 0 v]
    by (auto simp: move_construct_def sr_release_def sr_construct_def sr_reset_def)
next
  case (clone v w q r tr)
  have r: "r = an_NewLocalRef A (sc_trace s) q" and tr: "tr = sc_trace s @ [NewLocalRef q r]"
    using clone(4) by (simp_all add: sr_clone_def sr_construct_cases Let_def)
  let ?t = "s\<lparr> sc_raw := sc_raw s \<union> ({r} - {0}), sc_trace := tr \<rparr>"
  have t: "one_owner R ?t" using one_owner_call [OF o A r] tr by simp
  have "r \<notin> live R (sc_trace s)" using A r by (simp add: fresh_refs_def)
  then have "r \<notin> sc_raw s" unfolding one_ownerD(2) [OF o] by simp
  then have raw: "sc_raw ?t - {r} = sc_raw s" using one_ownerD(3) [OF o] by auto
  have "r = 0 \<or> r \<in> sc_raw ?t" by auto
  then show ?thesis using one_owner_put [OF t, of r 0 v] clone(1,2) raw by simp
next
  case (move_asgn v p w q)
  then show ?thesis
    using one_owner_move [OF o move_asgn(3) refl, of v] one_owner_unique [OF o, of v p w]
    by (auto simp: move_assign_def sr_release_def sr_reset_def Let_def)
next
  case (reset v q p r tr)
  show ?thesis
  proof (cases "p = q")
    case True
    then have "sc_raw s - {p} = sc_raw s" using one_ownerD(5) [OF o, of q v] reset(2) by auto
    then show ?thesis using reset True o by (simp add: sr_reset_cases fun_upd_idem)
  next
    case False
    then show ?thesis using one_owner_put [OF o, of p q v] reset by (auto simp: sr_reset_cases)
  qed
next
  case (release v q p r)
  then show ?thesis using one_owner_take [OF o] by (simp add: sr_release_def)
next
  case (destroy v q)
  then show ?thesis using one_owner_drop [OF o] by simp
next
  case (call r x)
  then show ?thesis using one_owner_call [OF o A] by simp
qed

interpretation owners: step_invariant "scope_step A" "\<lambda>s. fresh_refs A R \<and> one_owner R s" for A R
  by unfold_locales (use scope_step_one_owner in blast)

text \<open>C29. Whatever a client does with its scopes (construction, move construction and assignment,
  \<open>clone\<close>, \<open>reset\<close>, \<open>release\<close>, destruction, in any order, also a move of a scope into itself), no local
  reference is deleted twice or used after it was deleted, no two scopes hold the same reference, and
  none is lost: the references that exist are those the scopes hold and those the client has taken.\<close>

theorem local_refs_owned_once:
  assumes "(scope_step A)\<^sup>*\<^sup>* (scopes_init R) s" and "fresh_refs A R" and "0 \<notin> R"
  shows "legal R (sc_trace s) \<and> live R (sc_trace s) = sc_raw s \<union> held s \<and> sc_raw s \<inter> held s = {} \<and>
    (\<forall>v w r. sc_refs s v = Some r \<longrightarrow> sc_refs s w = Some r \<longrightarrow> v \<noteq> w \<longrightarrow> r = 0) \<and>
    (sc_refs s = Map.empty \<longrightarrow> live R (sc_trace s) = sc_raw s)"
proof -
  have "one_owner R (scopes_init R)" using assms(3) by (simp add: scopes_init_def one_owner_def held_def)
  then have "one_owner R s" using owners.run_inv [OF assms(1)] assms(2) by blast
  note d = one_ownerD [OF this]
  have "live R (sc_trace s) = sc_raw s" if "sc_refs s = Map.empty" using d(2) that by (simp add: held_def)
  then show ?thesis using d by blast
qed

text \<open>A machine in which \<open>CallObjectMethod\<close> throws and whose new references are one more than the largest reference of the trace.\<close>

fun event_refs :: "jni_event \<Rightarrow> addr list" where
  "event_refs (NewLocalRef x r) = [r]"
| "event_refs (GetObjectArrayElement a i r) = [r]"
| "event_refs (CallEnv f as is_ref r) = [r]"
| "event_refs (ExceptionOccurred r) = [r]"
| "event_refs e = []"

definition next_ref :: "addr list \<Rightarrow> jtrace \<Rightarrow> addr" where
  "next_ref R tr = Suc (foldr max (R @ concat (map event_refs tr)) 0)"

definition pending_step :: "jni_event \<Rightarrow> bool \<Rightarrow> bool" where
  "pending_step e p =
     (case e of ExceptionClear \<Rightarrow> False | CallEnv f as is_ref r \<Rightarrow> p \<or> f = ''CallObjectMethod'' | _ \<Rightarrow> p)"

definition demo_pending :: "jtrace \<Rightarrow> bool" where
  "demo_pending tr = fold pending_step tr False"

definition demo_answers :: "addr list \<Rightarrow> jni_answers" where
  "demo_answers R = \<lparr> an_Call = (\<lambda>tr f as is_ref. next_ref R tr), an_pending = demo_pending,
     an_ExceptionOccurred = (\<lambda>tr. next_ref R tr), an_NewLocalRef = (\<lambda>tr x. if x = 0 then 0 else next_ref R tr), an_GetArrayLength = (\<lambda>tr a. 2),
     an_GetArrayElements = (\<lambda>tr a. 4096 + a), an_GetObjectArrayElement = (\<lambda>tr a i. next_ref R tr),
     an_GetStringChars = (\<lambda>tr s. 8192 + s), an_PopLocalFrame = (\<lambda>tr r. next_ref R tr) \<rparr>"

lemma foldr_max_ge: "x \<in> set xs \<Longrightarrow> x \<le> foldr max xs (0 :: nat)"
  by (induction xs) auto

lemma live_bound: "live (set R) tr \<subseteq> set (R @ concat (map event_refs tr))"
proof (induction tr rule: rev_induct)
  case (snoc e tr)
  then show ?case by (cases e) (auto simp: live_step_def)
qed simp

lemma demo_fresh: "0 \<notin> set R \<Longrightarrow> fresh_refs (demo_answers R) (set R)"
proof -
  assume R: "0 \<notin> set R"
  have "next_ref R tr \<notin> live (set R) tr" for tr
    using live_bound [of R tr] foldr_max_ge [of _ "R @ concat (map event_refs tr)"]
    by (fastforce simp: next_ref_def)
  moreover have "0 \<notin> live (set R) tr" for tr
    by (induction tr rule: rev_induct) (auto simp: R live_step_def)
  ultimately show ?thesis by (simp add: fresh_refs_def demo_answers_def)
qed

theorem local_refs_owned_once_witness:
  "let A = demo_answers [5]; s = \<lparr> sc_refs = [0 \<mapsto> 0, 2 \<mapsto> 6], sc_raw = {},
       sc_trace = [NewLocalRef 5 6, DeleteLocalRef 5] \<rparr>
   in (scope_step A)\<^sup>*\<^sup>* (scopes_init {5}) s \<and> fresh_refs A {5} \<and> legal {5} (sc_trace s) \<and>
      live {5} (sc_trace s) = {6}"
proof -
  let ?A = "demo_answers [5]"
  let ?s = "\<lambda>refs raw tr. \<lparr> sc_refs = refs, sc_raw = raw, sc_trace = tr \<rparr> :: scopes"
  have "scope_step ?A (scopes_init {5}) (?s [0 \<mapsto> 5] {} [])"
    using scope_step.construct [of "scopes_init {5}" 0 5 5 "[]" ?A]
    by (simp add: scopes_init_def sr_construct_cases)
  moreover have "scope_step ?A (?s [0 \<mapsto> 5] {} []) (?s [0 \<mapsto> 0, 1 \<mapsto> 5] {} [])"
    using scope_step.move_constr [of "?s [0 \<mapsto> 5] {} []" 1 0 5 ?A]
    by (simp add: move_construct_def sr_release_def sr_construct_def sr_reset_def)
  moreover have "scope_step ?A (?s [0 \<mapsto> 0, 1 \<mapsto> 5] {} []) (?s [0 \<mapsto> 0, 1 \<mapsto> 5, 2 \<mapsto> 6] {} [NewLocalRef 5 6])"
    using scope_step.clone [of "?s [0 \<mapsto> 0, 1 \<mapsto> 5] {} []" 2 1 5 ?A 6 "[NewLocalRef 5 6]"]
    by (simp add: sr_clone_def sr_construct_cases demo_answers_def next_ref_def)
  moreover have "scope_step ?A (?s [0 \<mapsto> 0, 1 \<mapsto> 5, 2 \<mapsto> 6] {} [NewLocalRef 5 6])
      (?s [0 \<mapsto> 0, 2 \<mapsto> 6] {} [NewLocalRef 5 6, DeleteLocalRef 5])"
    using scope_step.destroy [of "?s [0 \<mapsto> 0, 1 \<mapsto> 5, 2 \<mapsto> 6] {} [NewLocalRef 5 6]" 1 5 ?A]
    by (simp add: sr_destroy_def sr_reset_def fun_upd_twist)
  ultimately have r: "(scope_step ?A)\<^sup>*\<^sup>* (scopes_init {5}) (?s [0 \<mapsto> 0, 2 \<mapsto> 6] {} [NewLocalRef 5 6, DeleteLocalRef 5])"
    by (meson converse_rtranclp_into_rtranclp rtranclp.rtrancl_refl)
  have f: "fresh_refs ?A {5}" using demo_fresh [of "[5]"] by simp
  show ?thesis
    using local_refs_owned_once [OF r f] r f by (auto simp: held_def)
qed

section \<open>Arrays of primitives\<close>

text \<open>\<open>ScopedLocalRef\<close> of an array keeps the elements the machine handed out. The eight types have the same
  code with their own JNI functions; they are \<open>GetArrayElements\<close> and \<open>ReleaseArrayElements\<close> here.
  \<open>size_\<close> has no initializer: a new scope has whatever was in the memory, the argument of \<open>ar_new\<close>.\<close>

record array_ref =
  ar_local_ref :: addr
  ar_size :: nat
  ar_elements :: addr
  ar_modified :: bool

definition ar_new :: "nat \<Rightarrow> array_ref" where
  "ar_new garbage = \<lparr> ar_local_ref = 0, ar_size = garbage, ar_elements = 0, ar_modified = False \<rparr>"

definition ReleaseElements :: "release_mode \<Rightarrow> array_ref \<Rightarrow> jtrace \<Rightarrow> jtrace" where
  "ReleaseElements mode a tr =
     (if ar_local_ref a = 0 \<or> ar_elements a = 0 then tr
      else tr @ [ReleaseArrayElements (ar_local_ref a) (ar_elements a) mode])"

definition release_mode_of :: "array_ref \<Rightarrow> release_mode" where
  "release_mode_of a = (if ar_modified a then CopyBackFree else JNI_ABORT)"

definition ar_reset :: "jni_answers \<Rightarrow> addr \<Rightarrow> array_ref \<Rightarrow> array_ref jni" where
  "ar_reset A ptr a tr =
     (if ptr = ar_local_ref a then (a, tr)
      else
        (let (a, tr) = (if ar_local_ref a \<noteq> 0
               then (a\<lparr> ar_elements := 0 \<rparr>, ReleaseElements (release_mode_of a) a tr @ [DeleteLocalRef (ar_local_ref a)])
               else (a, tr))
         in if ptr = 0 then (a\<lparr> ar_local_ref := 0, ar_size := 0 \<rparr>, tr)
            else
              (let n = an_GetArrayLength A tr ptr; tr = tr @ [GetArrayLength ptr n];
                   e = an_GetArrayElements A tr ptr
               in (a\<lparr> ar_local_ref := ptr, ar_size := n, ar_elements := e \<rparr>, tr @ [GetArrayElements ptr e]))))"

text \<open>\<open>release\<close> clears \<open>local_ref_\<close> before it calls \<open>ReleaseElements\<close>.\<close>

definition ar_release :: "array_ref \<Rightarrow> (addr \<times> array_ref) jni" where
  "ar_release a tr =
     (let localRef = ar_local_ref a;
          a = a\<lparr> ar_size := 0, ar_local_ref := 0 \<rparr>;
          tr = ReleaseElements (release_mode_of a) a tr
      in ((localRef, a\<lparr> ar_elements := 0 \<rparr>), tr))"

definition ar_construct :: "jni_answers \<Rightarrow> nat \<Rightarrow> addr \<Rightarrow> array_ref jni" where
  "ar_construct A garbage local_ref tr = ar_reset A local_ref (ar_new garbage) tr"

definition ar_destroy :: "array_ref \<Rightarrow> jtrace \<Rightarrow> jtrace" where
  "ar_destroy a tr = (let ((p, a), tr) = ar_release a tr in tr @ [DeleteLocalRef p])"

definition ar_index :: "array_ref \<Rightarrow> array_ref" where
  "ar_index a = a\<lparr> ar_modified := True \<rparr>"

definition ar_commit :: "array_ref \<Rightarrow> array_ref jni" where
  "ar_commit a tr = (a\<lparr> ar_modified := False \<rparr>, ReleaseElements JNI_COMMIT a tr)"

definition ar_move :: "array_ref \<Rightarrow> array_ref \<times> array_ref" where
  "ar_move s =
     (\<lparr> ar_local_ref = ar_local_ref s, ar_size = ar_size s, ar_elements = ar_elements s, ar_modified = ar_modified s \<rparr>,
      s\<lparr> ar_elements := 0, ar_size := 0, ar_modified := False, ar_local_ref := 0 \<rparr>)"

text \<open>A client that uses an array between its construction and its end.\<close>

datatype array_use = Access | Commit

fun use_array :: "array_use list \<Rightarrow> array_ref \<Rightarrow> array_ref jni" where
  "use_array [] a tr = (a, tr)"
| "use_array (Access # us) a tr = use_array us (ar_index a) tr"
| "use_array (Commit # us) a tr = (let (a, tr) = ar_commit a tr in use_array us a tr)"

definition with_array :: "jni_answers \<Rightarrow> nat \<Rightarrow> addr \<Rightarrow> array_use list \<Rightarrow> jtrace \<Rightarrow> jtrace" where
  "with_array A garbage local_ref us tr =
     (let (a, tr) = ar_construct A garbage local_ref tr; (a, tr) = use_array us a tr in ar_destroy a tr)"

text \<open>The elements a trace holds of an array: handed out and not given back. A commit copies them back
  and keeps them.\<close>

fun pin_step :: "jni_event \<Rightarrow> addr set \<Rightarrow> addr set" where
  "pin_step (GetArrayElements r e) P = P \<union> ({e} - {0})"
| "pin_step (ReleaseArrayElements r e mode) P = (if mode = JNI_COMMIT then P else P - {e})"
| "pin_step e P = P"

definition pinned :: "jtrace \<Rightarrow> addr set" where
  "pinned tr = fold pin_step tr {}"

lemma pinned_simps [simp]:
  "pinned [] = {}" "pinned (tr @ [e]) = pin_step e (pinned tr)"
  by (simp_all add: pinned_def)

text \<open>Whether the last access of an array was followed by a call that copies the elements back.\<close>

fun written_back :: "array_use list \<Rightarrow> bool" where
  "written_back [] = True"
| "written_back (Access # us) = (Commit \<in> set us \<and> written_back us)"
| "written_back (Commit # us) = written_back us"

definition commits :: "addr \<Rightarrow> addr \<Rightarrow> array_use list \<Rightarrow> jtrace" where
  "commits r e us = map (\<lambda>_. ReleaseArrayElements r e JNI_COMMIT) (filter (\<lambda>u. u = Commit) us)"

lemma use_array_run:
  assumes "ar_local_ref a \<noteq> 0" and "ar_elements a \<noteq> 0"
  shows "use_array us a tr =
    (a\<lparr> ar_modified := (if us = [] then ar_modified a else ar_modified a \<and> Commit \<notin> set us \<or> \<not> written_back us) \<rparr>,
     tr @ commits (ar_local_ref a) (ar_elements a) us)"
  using assms
proof (induction us arbitrary: a tr)
  case (Cons u us)
  then show ?case
    by (cases u) (auto simp: ar_index_def ar_commit_def ReleaseElements_def commits_def)
qed (simp add: commits_def)

lemma pinned_commits: "pinned (tr @ commits r e us) = pinned tr"
  by (induction us rule: rev_induct) (auto simp: commits_def pinned_def)

text \<open>The same use of an array, ended by \<open>reset()\<close>.\<close>

definition with_array_reset :: "jni_answers \<Rightarrow> nat \<Rightarrow> addr \<Rightarrow> array_use list \<Rightarrow> jtrace \<Rightarrow> jtrace" where
  "with_array_reset A garbage local_ref us tr =
     (let (a, tr) = ar_construct A garbage local_ref tr; (a, tr) = use_array us a tr in snd (ar_reset A 0 a tr))"

lemma use_constructed:
  assumes "r \<noteq> 0" and "n = an_GetArrayLength A tr r"
    and "e = an_GetArrayElements A (tr @ [GetArrayLength r n]) r" and "e \<noteq> 0"
  shows "(let (a, tr) = ar_construct A garbage r tr in use_array us a tr) =
    (\<lparr> ar_local_ref = r, ar_size = n, ar_elements = e, ar_modified = \<not> written_back us \<rparr>,
     tr @ [GetArrayLength r n, GetArrayElements r e] @ commits r e us)"
proof -
  have "ar_construct A garbage r tr =
    (\<lparr> ar_local_ref = r, ar_size = n, ar_elements = e, ar_modified = False \<rparr>,
     tr @ [GetArrayLength r n, GetArrayElements r e])"
    using assms by (simp add: ar_construct_def ar_new_def ar_reset_def Let_def)
  then show ?thesis using assms(1,4) by (simp add: use_array_run)
qed

text \<open>C32. The destructor of a scope of an array never gives the elements of the array back: \<open>release\<close> has
  cleared \<open>local_ref_\<close> by the time it asks for it. The elements stay pinned or their copy is leaked, and
  what was written since the last \<open>commit\<close> is lost where the machine handed out a copy. A scope that is
  \<open>reset\<close> gives them back, once, and copies them back when they were accessed since the last \<open>commit\<close>.\<close>

theorem array_elements_leak:
  assumes "r \<noteq> 0" and "n = an_GetArrayLength A tr r"
    and "e = an_GetArrayElements A (tr @ [GetArrayLength r n]) r" and "e \<noteq> 0" and "e \<notin> pinned tr"
  shows "with_array A garbage r us tr =
      tr @ [GetArrayLength r n, GetArrayElements r e] @ commits r e us @ [DeleteLocalRef r] \<and>
    pinned (with_array A garbage r us tr) = insert e (pinned tr) \<and>
    with_array_reset A garbage r us tr =
      tr @ [GetArrayLength r n, GetArrayElements r e] @ commits r e us @
        [ReleaseArrayElements r e (if written_back us then JNI_ABORT else CopyBackFree), DeleteLocalRef r] \<and>
    pinned (with_array_reset A garbage r us tr) = pinned tr"
proof -
  let ?tr = "tr @ [GetArrayLength r n, GetArrayElements r e]"
  obtain a tr1 where c: "ar_construct A garbage r tr = (a, tr1)" by (metis prod.exhaust)
  have u: "use_array us a tr1 =
      (\<lparr> ar_local_ref = r, ar_size = n, ar_elements = e, ar_modified = \<not> written_back us \<rparr>, ?tr @ commits r e us)"
    using use_constructed [OF assms(1-4), of garbage us] c by simp
  have d: "with_array A garbage r us tr = ?tr @ commits r e us @ [DeleteLocalRef r]"
    using c u by (simp add: with_array_def ar_destroy_def ar_release_def ReleaseElements_def Let_def)
  have s: "with_array_reset A garbage r us tr = ?tr @ commits r e us @
      [ReleaseArrayElements r e (if written_back us then JNI_ABORT else CopyBackFree), DeleteLocalRef r]"
    using c u assms(1,4)
    by (simp add: with_array_reset_def ar_reset_def ReleaseElements_def release_mode_of_def Let_def)
  have p: "pinned (?tr @ commits r e us) = insert e (pinned tr)"
    unfolding pinned_commits using assms(4) by (simp add: pinned_def)
  have "pinned ((?tr @ commits r e us) @ [DeleteLocalRef r]) = insert e (pinned tr)"
    unfolding pinned_simps p by simp
  moreover have "pinned (((?tr @ commits r e us) @
      [ReleaseArrayElements r e (if written_back us then JNI_ABORT else CopyBackFree)]) @ [DeleteLocalRef r]) = pinned tr"
    unfolding pinned_simps p using assms(5) by simp
  ultimately show ?thesis using d s by simp
qed

theorem array_elements_leak_witness:
  "with_array (demo_answers [5]) 77 5 [Access, Commit, Access] [] =
     [GetArrayLength 5 2, GetArrayElements 5 4101, ReleaseArrayElements 5 4101 JNI_COMMIT, DeleteLocalRef 5] \<and>
   pinned (with_array (demo_answers [5]) 77 5 [Access, Commit, Access] []) = {4101} \<and>
   with_array_reset (demo_answers [5]) 77 5 [Access, Commit, Access] [] =
     [GetArrayLength 5 2, GetArrayElements 5 4101, ReleaseArrayElements 5 4101 JNI_COMMIT,
      ReleaseArrayElements 5 4101 CopyBackFree, DeleteLocalRef 5]"
  using array_elements_leak [of 5 2 "demo_answers [5]" "[]" 4101 77 "[Access, Commit, Access]"]
  by (simp add: demo_answers_def commits_def pinned_def)

text \<open>A move leaves the source empty; what the target of \<open>operator=\<close> held before is neither deleted nor
  given back, unlike for a scope of an object.\<close>

lemma array_move_leaks:
  "ar_move s = (s, s\<lparr> ar_local_ref := 0, ar_size := 0, ar_elements := 0, ar_modified := False \<rparr>)"
  by (simp add: ar_move_def)

section \<open>Arrays of objects\<close>

text \<open>An element of an array of objects: its index and a scope of the object at that index. Outside of the
  array the scope is null and has no \<open>env_\<close>.\<close>

record array_elem =
  el_array :: addr
  el_i :: int
  el_size :: int
  el_item :: addr

definition el_obtain :: "jni_answers \<Rightarrow> addr \<Rightarrow> int \<Rightarrow> int \<Rightarrow> addr jni" where
  "el_obtain A arr i len tr =
     (if i < 0 \<or> i \<ge> len then (0, tr)
      else (let r = an_GetObjectArrayElement A tr arr i
            in sr_construct r (tr @ [GetObjectArrayElement arr i r])))"

definition el_new :: "jni_answers \<Rightarrow> addr \<Rightarrow> int \<Rightarrow> int \<Rightarrow> array_elem jni" where
  "el_new A arr i len tr =
     (let (item, tr) = el_obtain A arr i len tr
      in (\<lparr> el_array = arr, el_i = i, el_size = len, el_item = item \<rparr>, tr))"

text \<open>\<open>operator++\<close> and \<open>operator--\<close>: the new object is obtained before the old one is deleted.\<close>

definition el_step :: "jni_answers \<Rightarrow> int \<Rightarrow> array_elem \<Rightarrow> array_elem jni" where
  "el_step A d e tr =
     (let i = el_i e + d; (item, tr) = el_obtain A (el_array e) i (el_size e) tr;
          (p, item) = sr_release item; (r, tr) = sr_reset p (el_item e) tr
      in (e\<lparr> el_i := i, el_item := r \<rparr>, tr))"

definition el_inc :: "jni_answers \<Rightarrow> array_elem \<Rightarrow> array_elem jni" where
  "el_inc A = el_step A 1"

definition el_dec :: "jni_answers \<Rightarrow> array_elem \<Rightarrow> array_elem jni" where
  "el_dec A = el_step A (-1)"

definition el_post_inc :: "jni_answers \<Rightarrow> array_elem \<Rightarrow> (array_elem \<times> array_elem) jni" where
  "el_post_inc A e tr = (let (e', tr) = el_new A (el_array e) (el_i e + 1) (el_size e) tr in ((e', e), tr))"

definition el_post_dec :: "jni_answers \<Rightarrow> array_elem \<Rightarrow> (array_elem \<times> array_elem) jni" where
  "el_post_dec A e tr = (let (e', tr) = el_new A (el_array e) (el_i e - 1) (el_size e) tr in ((e', e), tr))"

definition el_reset :: "addr \<Rightarrow> array_elem \<Rightarrow> array_elem jni" where
  "el_reset item e tr =
     (let (r, tr) = sr_reset item (el_item e) tr
      in (e\<lparr> el_item := r \<rparr>, tr @ [SetObjectArrayElement (el_array e) (el_i e) r]))"

definition el_assign :: "jni_answers \<Rightarrow> addr \<Rightarrow> array_elem \<Rightarrow> array_elem jni" where
  "el_assign A s e tr =
     (let r = an_NewLocalRef A tr s in el_reset r e (tr @ [NewLocalRef s r]))"

definition el_assign_move :: "addr \<Rightarrow> array_elem \<Rightarrow> (addr \<times> array_elem) jni" where
  "el_assign_move s e tr =
     (let (p, s) = sr_release s; (e, tr) = el_reset p e tr in ((s, e), tr))"

definition el_destroy :: "array_elem \<Rightarrow> jtrace \<Rightarrow> jtrace" where
  "el_destroy e tr = sr_destroy (el_item e) tr"

section \<open>Iterating over an array of objects\<close>

definition it_begin :: "jni_answers \<Rightarrow> addr \<Rightarrow> nat \<Rightarrow> array_elem jni" where
  "it_begin A arr len tr = el_new A arr 0 (int len) tr"

definition it_end :: "jni_answers \<Rightarrow> addr \<Rightarrow> nat \<Rightarrow> array_elem jni" where
  "it_end A arr len tr = el_new A arr (int len) (int len) tr"

definition it_differs :: "array_elem \<Rightarrow> array_elem \<Rightarrow> bool" where
  "it_differs e e' \<longleftrightarrow> el_i e' \<noteq> el_i e"

text \<open>\<open>for (auto &x : array)\<close> with a body that reads \<open>x\<close>: the objects it sees, in order.\<close>

partial_function (option) visit :: "jni_answers \<Rightarrow> array_elem \<Rightarrow> array_elem \<Rightarrow> jtrace \<Rightarrow> (addr list \<times> jtrace) option" where
  "visit A it en tr =
     (if it_differs it en
      then (case el_inc A it tr of (it', tr') \<Rightarrow>
        Option.bind (visit A it' en tr') (\<lambda>(xs, tr'). Some (el_item it # xs, tr')))
      else Some ([], el_destroy en (el_destroy it tr)))"

definition range_for :: "jni_answers \<Rightarrow> addr \<Rightarrow> nat \<Rightarrow> jtrace \<Rightarrow> (addr list \<times> jtrace) option" where
  "range_for A arr len tr =
     (let (it, tr) = it_begin A arr len tr; (en, tr) = it_end A arr len tr in visit A it en tr)"

fun is_get :: "jni_event \<Rightarrow> bool" where
  "is_get (GetObjectArrayElement a i r) = True"
| "is_get e = False"

definition lookups :: "jtrace \<Rightarrow> jtrace" where
  "lookups tr = filter is_get tr"

lemma lookups_append [simp]: "lookups (tr @ tr') = lookups tr @ lookups tr'" "lookups [] = []"
  by (simp_all add: lookups_def)

text \<open>The trace of an array walked from index \<open>i\<close> on, the object at \<open>i\<close> being held as \<open>x\<close>.\<close>

definition elem_at :: "addr \<Rightarrow> nat \<Rightarrow> nat \<Rightarrow> addr \<Rightarrow> array_elem" where
  "elem_at arr i n x = \<lparr> el_array = arr, el_i = int i, el_size = int n, el_item = x \<rparr>"

definition get_of :: "addr \<Rightarrow> nat \<Rightarrow> addr \<Rightarrow> jni_event" where
  "get_of arr i x = GetObjectArrayElement arr (int i) x"

lemma el_inc_at:
  assumes "i < n"
  shows "el_inc A (elem_at arr i n x) tr =
    (let y = (if Suc i < n then an_GetObjectArrayElement A tr arr (int (Suc i)) else 0);
         tr1 = (if Suc i < n then tr @ [get_of arr (Suc i) y] else tr)
     in (elem_at arr (Suc i) n y, if y = x \<or> x = 0 then tr1 else tr1 @ [DeleteLocalRef x]))"
  using assms
  by (simp add: el_inc_def el_step_def elem_at_def el_obtain_def sr_construct_def sr_reset_def sr_release_def
      get_of_def Let_def add.commute)

fun lookup_list :: "addr \<Rightarrow> nat \<Rightarrow> addr list \<Rightarrow> jtrace" where
  "lookup_list arr i [] = []"
| "lookup_list arr i (x # xs) = get_of arr i x # lookup_list arr (Suc i) xs"

lemma zero_not_live: "0 \<notin> R \<Longrightarrow> 0 \<notin> live R tr"
  by (induction tr rule: rev_induct) (auto simp: live_step_def)

text \<open>One step of the loop: the next object is obtained, the current one deleted.\<close>

lemma el_inc_live:
  assumes A: "fresh_refs A R" "0 \<notin> R" and i: "i < n" and x: "x = 0 \<or> x \<in> live R tr" and l: "legal R tr"
    and y: "y = (if Suc i < n then an_GetObjectArrayElement A tr arr (int (Suc i)) else 0)"
  shows "\<exists>ev. el_inc A (elem_at arr i n x) tr = (elem_at arr (Suc i) n y, tr @ ev) \<and>
    lookups ev = (if Suc i < n then [get_of arr (Suc i) y] else []) \<and> legal R (tr @ ev) \<and>
    live R (tr @ ev) = live R tr - {x} \<union> ({y} - {0}) \<and> (y = 0 \<or> y \<notin> live R tr)"
proof -
  have z: "0 \<notin> live R tr" using zero_not_live [OF A(2)] .
  have fr: "y = 0 \<or> y \<notin> live R tr" using A(1) y by (auto simp: fresh_refs_def)
  then have yx: "y = x \<longleftrightarrow> y = 0 \<and> x = 0" using x z by auto
  let ?g = "if Suc i < n then [get_of arr (Suc i) y] else []"
  let ?ev = "?g @ (if x = 0 then [] else [DeleteLocalRef x])"
  have lg: "live R (tr @ ?g) = live R tr \<union> ({y} - {0})" "legal R (tr @ ?g)"
    using y l z by (auto simp: get_of_def)
  have "el_inc A (elem_at arr i n x) tr = (elem_at arr (Suc i) n y, tr @ ?ev)"
    unfolding el_inc_at [OF i] y [symmetric] using yx by (auto simp: Let_def)
  moreover have "lookups ?ev = ?g" by (simp add: lookups_def get_of_def)
  moreover have "legal R (tr @ ?ev)" using lg x by auto
  moreover have "live R (tr @ ?ev) = live R tr - {x} \<union> ({y} - {0})"
    using lg(1) yx x z by auto
  ultimately show ?thesis using fr by blast
qed

lemma visit_from:
  assumes A: "fresh_refs A R" "0 \<notin> R"
  shows "i \<le> n \<Longrightarrow> (i = n \<Longrightarrow> x = 0) \<Longrightarrow> legal R tr \<Longrightarrow> x = 0 \<or> x \<in> live R tr \<Longrightarrow>
    \<exists>xs ev. visit A (elem_at arr i n x) (elem_at arr n n 0) tr = Some (xs, tr @ ev) \<and> length xs = n - i \<and>
      (if i < n then [get_of arr i x] else []) @ lookups ev = lookup_list arr i xs \<and> legal R (tr @ ev) \<and>
      live R (tr @ ev) = live R tr - {x}"
proof (induction "n - i" arbitrary: i x tr)
  case 0
  then have "i = n" "x = 0" by auto
  then have "visit A (elem_at arr i n x) (elem_at arr n n 0) tr = Some ([], tr)"
    by (simp add: visit.simps it_differs_def el_destroy_def sr_destroy_def sr_reset_def elem_at_def)
  then show ?case using 0 \<open>i = n\<close> \<open>x = 0\<close> zero_not_live [OF A(2)] by (intro exI [of _ "[]"]) simp
next
  case (Suc m)
  then have i: "i < n" by simp
  define y where "y = (if Suc i < n then an_GetObjectArrayElement A tr arr (int (Suc i)) else 0)"
  obtain ev where ev: "el_inc A (elem_at arr i n x) tr = (elem_at arr (Suc i) n y, tr @ ev)"
    "lookups ev = (if Suc i < n then [get_of arr (Suc i) y] else [])" "legal R (tr @ ev)"
    "live R (tr @ ev) = live R tr - {x} \<union> ({y} - {0})" "y = 0 \<or> y \<notin> live R tr"
    using el_inc_live [OF A i Suc.prems(4,3) y_def] by blast
  have p: "m = n - Suc i" "Suc i \<le> n" using Suc.hyps(2) i by simp_all
  have y: "Suc i = n \<Longrightarrow> y = 0" "y = 0 \<or> y \<in> live R (tr @ ev)" unfolding ev(4) by (auto simp: y_def)
  then obtain xs ev' where v: "visit A (elem_at arr (Suc i) n y) (elem_at arr n n 0) (tr @ ev) = Some (xs, (tr @ ev) @ ev')"
    "length xs = n - Suc i" "(if Suc i < n then [get_of arr (Suc i) y] else []) @ lookups ev' = lookup_list arr (Suc i) xs"
    "legal R ((tr @ ev) @ ev')" "live R ((tr @ ev) @ ev') = live R (tr @ ev) - {y}"
    using Suc.hyps(1) [OF p y(1) ev(3) y(2)] by blast
  have d: "it_differs (elem_at arr i n x) (elem_at arr n n 0)" "el_item (elem_at arr i n x) = x"
    using i by (simp_all add: it_differs_def elem_at_def)
  have "visit A (elem_at arr i n x) (elem_at arr n n 0) tr = Some (x # xs, tr @ (ev @ ev'))"
    using v(1) ev(1) d by (simp add: visit.simps [of A "elem_at arr i n x"])
  moreover have "length (x # xs) = n - i" using v(2) i by simp
  moreover have "[get_of arr i x] @ lookups (ev @ ev') = lookup_list arr i (x # xs)" using v(3) ev(2) by auto
  moreover have "live R (tr @ (ev @ ev')) = live R tr - {x}"
    using v(5) ev(4,5) zero_not_live [OF A(2), of tr] by auto
  ultimately show ?case using v(4) i by (intro exI [of _ "x # xs"] exI [of _ "ev @ ev'"]) simp
qed

lemma range_for_run:
  assumes "fresh_refs A R" and "0 \<notin> R" and "legal R tr"
  shows "\<exists>xs ev. range_for A arr n tr = Some (xs, tr @ ev) \<and> length xs = n \<and>
    lookups ev = lookup_list arr 0 xs \<and> legal R (tr @ ev) \<and> live R (tr @ ev) = live R tr"
proof -
  define x where "x = (if 0 < n then an_GetObjectArrayElement A tr arr 0 else 0)"
  let ?g = "if 0 < n then [get_of arr 0 x] else []"
  have b: "it_begin A arr n tr = (elem_at arr 0 n x, tr @ ?g)"
    by (simp add: it_begin_def el_new_def el_obtain_def sr_construct_def sr_reset_def elem_at_def x_def get_of_def Let_def)
  have e: "it_end A arr n tr' = (elem_at arr n n 0, tr')" for tr'
    by (simp add: it_end_def el_new_def el_obtain_def elem_at_def)
  have z: "0 \<notin> live R tr" using zero_not_live [OF assms(2)] .
  have xr: "x = 0 \<or> x \<notin> live R tr" using assms(1) by (auto simp: x_def fresh_refs_def)
  have g: "live R (tr @ ?g) = live R tr \<union> ({x} - {0})" "legal R (tr @ ?g)" "lookups ?g = ?g"
    using assms(3) z by (auto simp: get_of_def x_def lookups_def)
  have "0 = n \<Longrightarrow> x = 0" "x = 0 \<or> x \<in> live R (tr @ ?g)" unfolding g(1) by (auto simp: x_def)
  then obtain xs ev where v: "visit A (elem_at arr 0 n x) (elem_at arr n n 0) (tr @ ?g) = Some (xs, (tr @ ?g) @ ev)"
    "length xs = n" "?g @ lookups ev = lookup_list arr 0 xs" "legal R ((tr @ ?g) @ ev)"
    "live R ((tr @ ?g) @ ev) = live R (tr @ ?g) - {x}"
    using visit_from [OF assms(1,2) le0, of n x "tr @ ?g" arr] g(2) by auto
  have "range_for A arr n tr = Some (xs, tr @ (?g @ ev))" using b e v(1) by (simp add: range_for_def)
  moreover have "lookups (?g @ ev) = lookup_list arr 0 xs" using g(3) v(3) by simp
  moreover have "live R (tr @ (?g @ ev)) = live R tr" using v(5) g(1) xr z by auto
  ultimately show ?thesis using v(2,4) by (metis append.assoc)
qed

text \<open>C31. A loop over an array of objects ends, sees each object once and in the order of the indices, asks
  for nothing outside of the array, and leaves no reference behind: each object's is deleted when the
  next has been obtained, so at most two exist at a time however long the array is.\<close>

theorem range_for_visits_all:
  assumes "fresh_refs A R" and "0 \<notin> R" and "legal R tr"
  shows "\<exists>xs ev. range_for A arr n tr = Some (xs, tr @ ev) \<and> length xs = n \<and>
    lookups ev = lookup_list arr 0 xs \<and> legal R (tr @ ev) \<and> live R (tr @ ev) = live R tr"
  by (rule range_for_run [OF assms])

theorem range_for_visits_all_witness:
  "\<exists>xs ev. range_for (demo_answers [5]) 5 2 [] = Some (xs, [] @ ev) \<and> length xs = 2 \<and>
     lookups ev = lookup_list 5 0 xs \<and> legal {5} ([] @ ev) \<and> live {5} ([] @ ev) = {5}"
  using range_for_visits_all [of "demo_answers [5]" "{5}" "[]" 5 2] demo_fresh [of "[5]"] by simp

text \<open>Post-increment moves nothing: the iterator stays where it is, and the result is the next position.\<close>

lemma post_inc_does_not_move:
  "\<exists>e' tr'. el_post_inc A e tr = ((e', e), tr') \<and> el_i e' = el_i e + 1"
  by (auto simp: el_post_inc_def el_new_def Let_def split: prod.splits)

text \<open>An assignment stores the object at the index of the element and keeps one reference to it.\<close>

lemma el_assign_stores:
  assumes "fresh_refs A R" and "legal R tr" and "0 \<notin> R" and "el_item e \<in> live R tr \<or> el_item e = 0"
  shows "\<exists>r e' ev. el_assign A s e tr = (e', tr @ ev) \<and> el_item e' = r \<and> legal R (tr @ ev) \<and>
    SetObjectArrayElement (el_array e) (el_i e) r \<in> set ev \<and> NewLocalRef s r \<in> set ev \<and>
    live R (tr @ ev) = (live R tr - {el_item e}) \<union> ({r} - {0})"
proof -
  define r where "r = an_NewLocalRef A tr s"
  have r: "r \<notin> live R tr" using assms(1) by (simp add: fresh_refs_def r_def)
  have z: "0 \<notin> live R tr" using zero_not_live [OF assms(3)] .
  let ?ev = "[NewLocalRef s r] @ (if r = el_item e \<or> el_item e = 0 then [] else [DeleteLocalRef (el_item e)]) @
    [SetObjectArrayElement (el_array e) (el_i e) r]"
  have "el_assign A s e tr = (e\<lparr> el_item := r \<rparr>, tr @ ?ev)"
    by (auto simp: el_assign_def el_reset_def sr_reset_def r_def Let_def)
  moreover have "legal R (tr @ ?ev)" using assms(2,4) z by auto
  moreover have "live R (tr @ ?ev) = (live R tr - {el_item e}) \<union> ({r} - {0})"
    using assms(4) z r by (auto simp: live_step_def)
  ultimately show ?thesis by (intro exI [of _ r] exI [of _ "e\<lparr> el_item := r \<rparr>"] exI [of _ ?ev]) simp
qed

section \<open>Strings, frames and monitors\<close>

text \<open>\<open>JUTFString\<close>. \<open>env\<close> is
  whether a machine was given; \<open>default_str\<close> is the address of the default.\<close>

record jstring_chars =
  js_env :: bool
  js_str :: addr
  js_data :: addr

definition js_construct :: "jni_answers \<Rightarrow> bool \<Rightarrow> addr \<Rightarrow> addr option \<Rightarrow> jstring_chars jni" where
  "js_construct A env jstr default_str tr =
     (if env \<and> jstr \<noteq> 0
      then (let p = an_GetStringChars A tr jstr
            in (\<lparr> js_env = env, js_str = jstr, js_data = p \<rparr>, tr @ [GetStringChars jstr p]))
      else (\<lparr> js_env = env, js_str = jstr, js_data = (case default_str of Some d \<Rightarrow> d | None \<Rightarrow> 0) \<rparr>, tr))"

definition js_destroy :: "jstring_chars \<Rightarrow> jtrace \<Rightarrow> jtrace" where
  "js_destroy s tr = (if js_env s \<and> js_str s \<noteq> 0 then tr @ [ReleaseStringChars (js_str s) (js_data s)] else tr)"

text \<open>A move takes \<open>data_\<close> from its source, and nothing else; \<open>operator=\<close> drops what its target had.\<close>

definition js_move :: "jstring_chars \<Rightarrow> jstring_chars \<times> jstring_chars" where
  "js_move s = (s, s\<lparr> js_data := 0 \<rparr>)"

text \<open>The characters of a string that is not moved are given back once, with the pointer the machine
  handed out, and none are asked for without a machine or a string. A string that was moved from gives
  back a second time, and then a null pointer.\<close>

theorem string_chars_given_back:
  shows "(let (s, tr') = js_construct A env jstr dflt tr in js_destroy s tr') =
      (if env \<and> jstr \<noteq> 0
       then tr @ [GetStringChars jstr (an_GetStringChars A tr jstr), ReleaseStringChars jstr (an_GetStringChars A tr jstr)]
       else tr) \<and>
    (let (s, tr') = js_construct A env jstr dflt tr; (t, s) = js_move s in js_destroy s (js_destroy t tr')) =
      (if env \<and> jstr \<noteq> 0
       then tr @ [GetStringChars jstr (an_GetStringChars A tr jstr), ReleaseStringChars jstr (an_GetStringChars A tr jstr),
              ReleaseStringChars jstr 0]
       else tr)"
  by (simp add: js_construct_def js_destroy_def js_move_def Let_def)

text \<open>\<open>JNIScopeFrame\<close>: whether \<open>env_\<close> is still set.\<close>

definition fr_push :: "int \<Rightarrow> bool jni" where
  "fr_push capacity tr = (True, tr @ [PushLocalFrame capacity])"

definition fr_pop :: "jni_answers \<Rightarrow> addr \<Rightarrow> bool \<Rightarrow> (addr \<times> bool) jni" where
  "fr_pop A obj open_frame tr =
     (if open_frame
      then (let r = an_PopLocalFrame A tr obj in ((r, False), tr @ [PopLocalFrame obj r]))
      else ((0, open_frame), tr))"

definition fr_destroy :: "jni_answers \<Rightarrow> bool \<Rightarrow> jtrace \<Rightarrow> jtrace" where
  "fr_destroy A open_frame tr =
     (if open_frame then tr @ [PopLocalFrame 0 (an_PopLocalFrame A tr 0)] else tr)"

text \<open>\<open>JNIMonitor\<close>.\<close>

definition mon_enter :: "addr \<Rightarrow> addr jni" where
  "mon_enter obj tr = (obj, tr @ [MonitorEnter obj])"

definition mon_exit :: "addr \<Rightarrow> jtrace \<Rightarrow> jtrace" where
  "mon_exit obj tr = tr @ [MonitorExit obj]"

fun pops :: "jni_answers \<Rightarrow> addr list \<Rightarrow> bool \<Rightarrow> (addr list \<times> bool) jni" where
  "pops A [] fr tr = (([], fr), tr)"
| "pops A (obj # os) fr tr =
     (let ((r, fr), tr) = fr_pop A obj fr tr; ((rs, fr), tr) = pops A os fr tr in ((r # rs, fr), tr))"

definition in_frame :: "jni_answers \<Rightarrow> int \<Rightarrow> addr list \<Rightarrow> addr list jni" where
  "in_frame A capacity os tr =
     (let (fr, tr) = fr_push capacity tr; ((rs, fr), tr) = pops A os fr tr in (rs, fr_destroy A fr tr))"

text \<open>A frame is popped exactly once, by the first \<open>pop\<close> or by the destructor, however often \<open>pop\<close> is
  called; later calls give null.\<close>

lemma pops_closed: "pops A os False tr = ((replicate (length os) 0, False), tr)"
  by (induction os) (simp_all add: fr_pop_def)

lemma frame_popped_once:
  "in_frame A capacity os tr =
    (let tr1 = tr @ [PushLocalFrame capacity]; obj = (case os of [] \<Rightarrow> 0 | x # _ \<Rightarrow> x); r = an_PopLocalFrame A tr1 obj
     in (case os of [] \<Rightarrow> [] | _ # os' \<Rightarrow> r # replicate (length os') 0, tr1 @ [PopLocalFrame obj r]))"
  by (cases os) (simp_all add: in_frame_def fr_push_def fr_destroy_def fr_pop_def pops_closed Let_def)

lemma monitor_balanced:
  "(let (o', tr') = mon_enter obj tr in mon_exit o' tr') = tr @ [MonitorEnter obj, MonitorExit obj]"
  by (simp add: mon_enter_def mon_exit_def)

section \<open>Scopes of arrays of objects\<close>

record object_array =
  oa_local_ref :: addr
  oa_size :: nat

definition oa_reset :: "jni_answers \<Rightarrow> addr \<Rightarrow> object_array \<Rightarrow> object_array jni" where
  "oa_reset A ptr a tr =
     (if ptr = oa_local_ref a then (a, tr)
      else
        (let tr = (if oa_local_ref a \<noteq> 0 then tr @ [DeleteLocalRef (oa_local_ref a)] else tr);
             n = (if ptr \<noteq> 0 then an_GetArrayLength A tr ptr else 0);
             tr = (if ptr \<noteq> 0 then tr @ [GetArrayLength ptr n] else tr)
         in (a\<lparr> oa_local_ref := ptr, oa_size := n \<rparr>, tr)))"

definition oa_construct :: "jni_answers \<Rightarrow> nat \<Rightarrow> addr \<Rightarrow> object_array jni" where
  "oa_construct A garbage local_ref tr = oa_reset A local_ref \<lparr> oa_local_ref = 0, oa_size = garbage \<rparr> tr"

definition oa_release :: "object_array \<Rightarrow> addr \<times> object_array" where
  "oa_release a = (oa_local_ref a, a\<lparr> oa_size := 0, oa_local_ref := 0 \<rparr>)"

definition oa_destroy :: "object_array \<Rightarrow> jtrace \<Rightarrow> jtrace" where
  "oa_destroy a tr = (let (p, a) = oa_release a in tr @ [DeleteLocalRef p])"

definition oa_at :: "jni_answers \<Rightarrow> object_array \<Rightarrow> nat \<Rightarrow> array_elem jni" where
  "oa_at A a index tr = el_new A (oa_local_ref a) (int index) (int (oa_size a)) tr"

definition oa_move :: "object_array \<Rightarrow> object_array \<times> object_array" where
  "oa_move s = (\<lparr> oa_local_ref = oa_local_ref s, oa_size = oa_size s \<rparr>, s\<lparr> oa_size := 0, oa_local_ref := 0 \<rparr>)"

text \<open>A scope of an array that is constructed, walked in a loop and destroyed: the trace is legal, and no
  reference that did not exist before is left; the array itself is deleted.\<close>

lemma object_array_walk:
  assumes "fresh_refs A R" and "0 \<notin> R" and "legal R tr" and "r \<in> live R tr"
    and c: "oa_construct A garbage r tr = (a, tr1)"
  shows "\<exists>xs tr2. range_for A (oa_local_ref a) (oa_size a) tr1 = Some (xs, tr2) \<and>
    length xs = an_GetArrayLength A tr r \<and> legal R (oa_destroy a tr2) \<and> live R (oa_destroy a tr2) = live R tr - {r}"
proof -
  have z: "0 \<notin> live R tr" using zero_not_live [OF assms(2)] .
  then have r: "r \<noteq> 0" using assms(4) by metis
  have a: "oa_local_ref a = r" "oa_size a = an_GetArrayLength A tr r" "tr1 = tr @ [GetArrayLength r (oa_size a)]"
    using c r by (auto simp: oa_construct_def oa_reset_def Let_def)
  have l: "legal R tr1" "live R tr1 = live R tr" using a(3) assms(3) z by (auto simp: live_step_def)
  obtain xs ev where v: "range_for A r (oa_size a) tr1 = Some (xs, tr1 @ ev)" "length xs = oa_size a"
    "legal R (tr1 @ ev)" "live R (tr1 @ ev) = live R tr1"
    using range_for_run [OF assms(1,2) l(1)] by blast
  have "legal R (oa_destroy a (tr1 @ ev))" "live R (oa_destroy a (tr1 @ ev)) = live R tr - {r}"
    using a(1) v(3,4) l(2) assms(4) by (simp_all add: oa_destroy_def oa_release_def)
  then show ?thesis using v(1,2) a(1,2) by auto
qed

section \<open>Classes the collections cache\<close>

record collection_statics =
  cs_object_class :: addr
  cs_system_class :: addr
  cs_arraycopy :: addr

text \<open>A weak global reference that was cleared is the same object as null.\<close>

definition cached_class :: "jni_answers \<Rightarrow> string \<Rightarrow> addr \<Rightarrow> addr jni" where
  "cached_class A name c tr =
     (let same = (if c = 0 then 1 else an_Call A tr ''IsSameObject'' [ARef c, ARef 0] False);
          tr = (if c = 0 then tr else tr @ [CallEnv ''IsSameObject'' [ARef c, ARef 0] False same])
      in if same \<noteq> 0 then
           (let clazz = an_Call A tr ''FindClass'' [AStr name] True;
                tr = tr @ [CallEnv ''FindClass'' [AStr name] True clazz];
                w = an_Call A tr ''NewWeakGlobalRef'' [ARef clazz] False
            in (w, tr @ [CallEnv ''NewWeakGlobalRef'' [ARef clazz] False w, DeleteLocalRef clazz]))
         else (c, tr))"

definition get_object_class :: "jni_answers \<Rightarrow> collection_statics \<Rightarrow> (addr \<times> collection_statics) jni" where
  "get_object_class A S tr =
     (let (c, tr) = cached_class A ''java/lang/Object'' (cs_object_class S) tr
      in ((c, S\<lparr> cs_object_class := c \<rparr>), tr))"

definition get_system_class :: "jni_answers \<Rightarrow> collection_statics \<Rightarrow> (addr \<times> collection_statics) jni" where
  "get_system_class A S tr =
     (let (c, tr) = cached_class A ''java/lang/System'' (cs_system_class S) tr
      in ((c, S\<lparr> cs_system_class := c \<rparr>), tr))"

definition get_system_arraycopy_method :: "jni_answers \<Rightarrow> addr \<Rightarrow> collection_statics \<Rightarrow> (addr \<times> collection_statics) jni" where
  "get_system_arraycopy_method A cls S tr =
     (if cs_arraycopy S \<noteq> 0 then ((cs_arraycopy S, S), tr)
      else
        (let as = [ARef cls, AStr ''arraycopy'', AStr ''(Ljava/lang/Object;ILjava/lang/Object;II)V''];
             m = an_Call A tr ''GetStaticMethodID'' as False
         in ((m, S\<lparr> cs_arraycopy := m \<rparr>), tr @ [CallEnv ''GetStaticMethodID'' as False m])))"

definition delete_weak_globals :: "collection_statics \<Rightarrow> collection_statics jni" where
  "delete_weak_globals S tr =
     (S\<lparr> cs_object_class := 0, cs_system_class := 0 \<rparr>,
      tr @ (if cs_object_class S \<noteq> 0 then [CallEnv ''DeleteWeakGlobalRef'' [ARef (cs_object_class S)] False 0] else []) @
        (if cs_system_class S \<noteq> 0 then [CallEnv ''DeleteWeakGlobalRef'' [ARef (cs_system_class S)] False 0] else []))"

text \<open>Looking a class up leaves no local reference; what is returned is a weak reference that was not
  cleared, or a new one.\<close>

lemma cached_class_balanced:
  assumes "fresh_refs A R" and "0 \<notin> R" and "legal R tr" and "cached_class A name c tr = (w, tr')"
  shows "legal R tr' \<and> live R tr' = live R tr"
proof -
  have z: "0 \<notin> live R tr" using zero_not_live [OF assms(2)] .
  define same where "same = (if c = 0 then 1 else an_Call A tr ''IsSameObject'' [ARef c, ARef 0] False)"
  define t where "t = (if c = 0 then tr else tr @ [CallEnv ''IsSameObject'' [ARef c, ARef 0] False same])"
  have t: "legal R t" "live R t = live R tr" using assms(3) z by (auto simp: t_def live_step_def)
  define k where "k = an_Call A t ''FindClass'' [AStr name] True"
  have k: "k \<notin> live R t" using assms(1) by (simp add: fresh_refs_def k_def)
  consider "tr' = t" | w where "tr' = t @ [CallEnv ''FindClass'' [AStr name] True k,
      CallEnv ''NewWeakGlobalRef'' [ARef k] False w, DeleteLocalRef k]"
    using assms(4) by (auto simp: cached_class_def Let_def same_def t_def k_def split: if_splits)
  then show ?thesis
  proof cases
    case 2
    have "0 \<notin> live R t" using z t(2) by simp
    then show ?thesis unfolding 2 using t k by (auto simp: live_step_def)
  qed (simp add: t)
qed

end
