(* ===== verification/Jni_Invoke.thy ===== *)
theory Jni_Invoke
  imports Jni_Scopes Arch
begin

text \<open>
  How include/utils/jni_helper.hpp calls functions of \<open>JNIEnv\<close>: \<open>JNI_Invoke\<close>, \<open>JNI_SafeInvoke\<close> and
  \<open>JNISafeInvocationFinally\<close>, which reports and clears the exception a call left pending, and the
  wrappers \<open>JNI_...\<close>, one per function of \<open>JNIEnv\<close>, with the templates that choose among them by type
  (\<open>JNI_GetField\<close>, \<open>JNI_CallMethod\<close>, \<open>JNI_NewArray\<close> and their kind).
\<close>

section \<open>Calls\<close>

text \<open>Arguments of wrappers: \<open>UnwrapScope\<close> takes what JNI wants out of them.\<close>

datatype wrapper_arg =
    ScopeArg addr
  | ElemArg array_elem
  | BoolArg bool
  | NameArg string
  | RawArg jni_arg

fun UnwrapScope :: "wrapper_arg \<Rightarrow> jni_arg" where
  "UnwrapScope (NameArg x) = AStr x"
| "UnwrapScope (ScopeArg x) = ARef x"
| "UnwrapScope (ElemArg x) = ARef (el_item x)"
| "UnwrapScope (BoolArg x) = AInt (if x then 1 else 0)"
| "UnwrapScope (RawArg x) = x"

text \<open>The result is put into a scope when it is a reference.\<close>

definition JNI_Invoke :: "jni_answers \<Rightarrow> string \<Rightarrow> bool \<Rightarrow> wrapper_arg list \<Rightarrow> addr jni" where
  "JNI_Invoke A f is_ref args tr =
     (let as = map UnwrapScope args; result = an_Call A tr f as is_ref; tr = tr @ [CallEnv f as is_ref result]
      in if is_ref then sr_construct result tr else (result, tr))"

text \<open>\<open>toString\<close> is a static variable, set by the first call.\<close>

definition ClearException :: "jni_answers \<Rightarrow> addr option \<Rightarrow> (addr \<times> addr option) jni" where
  "ClearException A toString tr =
     (let ex = an_ExceptionOccurred A tr;
          tr = tr @ [ExceptionOccurred ex, ExceptionClear];
          name = [AStr ''android/util/Log'']; log = an_Call A tr ''FindClass'' name True;
          tr = tr @ [CallEnv ''FindClass'' name True log];
          (m, tr) = (case toString of Some m \<Rightarrow> (m, tr)
            | None \<Rightarrow>
               (let sig = [ARef log, AStr ''getStackTraceString'', AStr ''(Ljava/lang/Throwable;)Ljava/lang/String;''];
                    m = an_Call A tr ''GetStaticMethodID'' sig False
                in (m, tr @ [CallEnv ''GetStaticMethodID'' sig False m])));
          call = [ARef log, ARef m, ARef ex];
          str = an_Call A tr ''CallStaticObjectMethod'' call True;
          tr = tr @ [CallEnv ''CallStaticObjectMethod'' call True str, DeleteLocalRef log, DeleteLocalRef ex];
          (r, tr) = sr_construct str tr
      in ((r, Some m), tr))"

text \<open>The destructor of \<open>JNISafeInvocationFinally\<close>; the first argument is \<open>JNI_HELPER_LOG_DISABLED\<close>.\<close>

definition finally_destroy :: "bool \<Rightarrow> jni_answers \<Rightarrow> addr option \<Rightarrow> addr option jni" where
  "finally_destroy log_disabled A toString tr =
     (if log_disabled then (toString, tr @ [ExceptionClear])
      else
        (let pending = an_pending A tr; tr = tr @ [ExceptionCheck pending]
         in if \<not> pending then (toString, tr)
            else
              (let ((exception, toString), tr) = ClearException A toString tr;
                   (s, tr) = js_construct A True exception None tr;
                   tr = js_destroy s (tr @ [LogWrite (js_data s)])
               in (toString, sr_destroy exception tr))))"

definition JNI_SafeInvoke :: "bool \<Rightarrow> jni_answers \<Rightarrow> string \<Rightarrow> bool \<Rightarrow> wrapper_arg list \<Rightarrow> addr option \<Rightarrow>
    (addr \<times> addr option) jni" where
  "JNI_SafeInvoke log_disabled A f is_ref args toString tr =
     (let (result, tr) = JNI_Invoke A f is_ref args tr;
          (toString, tr) = finally_destroy log_disabled A toString tr
      in ((result, toString), tr))"

text \<open>What JNI says of pending exceptions: \<open>ExceptionClear\<close> leaves none, and the calls that look at an
  exception or give something back neither throw nor clear one. Nothing is said of any other call: it may throw.\<close>

fun keeps_pending :: "jni_event \<Rightarrow> bool" where
  "keeps_pending (ExceptionCheck p) = True"
| "keeps_pending (ExceptionOccurred r) = True"
| "keeps_pending (LogWrite p) = True"
| "keeps_pending (DeleteLocalRef r) = True"
| "keeps_pending (ReleaseStringChars s p) = True"
| "keeps_pending e = False"

definition exception_laws :: "jni_answers \<Rightarrow> bool" where
  "exception_laws A \<longleftrightarrow>
     (\<forall>tr. \<not> an_pending A (tr @ [ExceptionClear])) \<and>
     (\<forall>tr e. keeps_pending e \<longrightarrow> an_pending A (tr @ [e]) = an_pending A tr)"

text \<open>The calls that make the text of an exception, which may throw themselves.\<close>

fun report_call :: "jni_event \<Rightarrow> bool" where
  "report_call (CallEnv f as b r) \<longleftrightarrow>
     f = ''FindClass'' \<and> as = [AStr ''android/util/Log''] \<or>
     f = ''GetStaticMethodID'' \<and> List.tl as = [AStr ''getStackTraceString'', AStr ''(Ljava/lang/Throwable;)Ljava/lang/String;''] \<or>
     f = ''CallStaticObjectMethod'' \<and> length as = 3"
| "report_call (GetStringChars x p) = True"
| "report_call e = False"

definition quiet :: "jtrace \<Rightarrow> bool" where
  "quiet es \<longleftrightarrow> (\<forall>e \<in> set es. keeps_pending e \<or> report_call e)"

lemma quiet_simps [simp]:
  "quiet []" "quiet (e # es) \<longleftrightarrow> (keeps_pending e \<or> report_call e) \<and> quiet es" "quiet (es @ es') \<longleftrightarrow> quiet es \<and> quiet es'"
  by (auto simp: quiet_def)

text \<open>A call of the report that raised an exception where none was pending: a place in \<open>es\<close> after \<open>t\<close>.\<close>

definition raised_in :: "jni_answers \<Rightarrow> jtrace \<Rightarrow> jtrace \<Rightarrow> bool" where
  "raised_in A t es \<longleftrightarrow> (\<exists>p e q. es = p @ e # q \<and> report_call e \<and> \<not> an_pending A (t @ p) \<and> an_pending A (t @ p @ [e]))"

lemma raised_in_append:
  assumes "raised_in A (t @ xs) ys"
  shows "raised_in A t (xs @ ys)"
proof -
  obtain p e q where *: "ys = p @ e # q" "report_call e" "\<not> an_pending A (t @ xs @ p)" "an_pending A (t @ xs @ p @ [e])"
    using assms by (auto simp: raised_in_def)
  show ?thesis
    unfolding raised_in_def by (rule exI [of _ "xs @ p"], rule exI [of _ e], rule exI [of _ q]) (simp add: *)
qed

lemma pending_raised:
  assumes L: "exception_laws A" and "quiet es" "\<not> an_pending A t" "an_pending A (t @ es)"
  shows "raised_in A t es"
  using assms(2-)
proof (induction es rule: rev_induct)
  case (snoc e es)
  show ?case
  proof (cases "an_pending A (t @ es)")
    case True
    then have "raised_in A t es" using snoc by simp
    then obtain p d q where *: "es = p @ d # q" "report_call d" "\<not> an_pending A (t @ p)" "an_pending A (t @ p @ [d])"
      by (auto simp: raised_in_def)
    show ?thesis
      unfolding raised_in_def by (rule exI [of _ p], rule exI [of _ d], rule exI [of _ "q @ [e]"]) (simp add: *)
  next
    case False
    have "\<not> keeps_pending e"
    proof
      assume "keeps_pending e"
      then have "an_pending A ((t @ es) @ [e]) = an_pending A (t @ es)" using L unfolding exception_laws_def by blast
      then show False using False snoc.prems(3) by simp
    qed
    then have "report_call e" using snoc.prems(1) by simp
    then show ?thesis
      unfolding raised_in_def using False snoc.prems(3)
      by (intro exI [of _ es] exI [of _ e] exI [of _ "[]"]) simp
  qed
qed simp

text \<open>The report of an exception clears it and deletes its references.\<close>

lemma ClearException_runs:
  assumes F: "fresh_refs A R" and R: "0 \<notin> R" "legal R tr"
    and run: "ClearException A toString tr = ((str, ts), tr')"
  obtains ex es where "tr' = tr @ [ExceptionOccurred ex, ExceptionClear] @ es" "quiet es"
    "legal R tr'" "live R tr' = live R tr \<union> ({str} - {0})" "str = 0 \<or> str \<notin> live R tr"
proof -
  define ex where "ex = an_ExceptionOccurred A tr"
  define t1 where "t1 = tr @ [ExceptionOccurred ex, ExceptionClear]"
  let ?name = "[AStr ''android/util/Log'']"
  define log where "log = an_Call A t1 ''FindClass'' ?name True"
  define t2 where "t2 = t1 @ [CallEnv ''FindClass'' ?name True log]"
  let ?sig = "[ARef log, AStr ''getStackTraceString'', AStr ''(Ljava/lang/Throwable;)Ljava/lang/String;'']"
  define m where "m = (case toString of Some m \<Rightarrow> m | None \<Rightarrow> an_Call A t2 ''GetStaticMethodID'' ?sig False)"
  define g where "g = (case toString of Some m \<Rightarrow> [] | None \<Rightarrow> [CallEnv ''GetStaticMethodID'' ?sig False m])"
  let ?call = "[ARef log, ARef m, ARef ex]"
  define x where "x = an_Call A (t2 @ g) ''CallStaticObjectMethod'' ?call True"
  define t4 where "t4 = (t2 @ g) @ [CallEnv ''CallStaticObjectMethod'' ?call True x]"
  have r: "str = x" "tr' = t4 @ [DeleteLocalRef log, DeleteLocalRef ex]"
    using run by (auto simp: ClearException_def Let_def ex_def t1_def log_def t2_def m_def g_def x_def t4_def
        sr_construct_cases split: option.splits prod.splits)
  have z: "0 \<notin> live R t" for t using zero_not_live [OF R(1)] .
  have n: "ex \<notin> live R tr" "log \<notin> live R t1" "x \<notin> live R (t2 @ g)"
    using F unfolding fresh_refs_def ex_def log_def x_def by blast+
  have l1: "live R t1 = live R tr \<union> ({ex} - {0})" using z [of tr] by (auto simp: t1_def live_step_def)
  have l2: "live R t2 = live R t1 \<union> ({log} - {0})" using z [of t1] by (auto simp: t2_def live_step_def)
  have l3: "live R (t2 @ g) = live R t2" using z [of t2] by (auto simp: g_def live_step_def split: option.splits)
  have l4: "live R t4 = live R (t2 @ g) \<union> ({x} - {0})" using z [of "t2 @ g"] by (auto simp: t4_def live_step_def)
  have lg: "legal R t4" using R(2) by (simp add: t1_def t2_def g_def t4_def split: option.splits)
  have d: "ex = 0 \<or> ex \<in> live R t4" "log = 0 \<or> log \<in> live R t4 - {ex}" "x = 0 \<or> x \<notin> {ex, log}"
    using l1 l2 l3 l4 n z by auto
  have legal: "legal R tr'" unfolding r using lg d(1,2) by (auto simp: live_step_def)
  have live: "live R tr' = live R tr \<union> ({x} - {0})"
    unfolding r using l1 l2 l3 l4 n z d by (auto simp: live_step_def)
  have fresh: "x = 0 \<or> x \<notin> live R tr" using n(3) l1 l2 l3 by auto
  let ?es = "[CallEnv ''FindClass'' ?name True log] @ g @
    [CallEnv ''CallStaticObjectMethod'' ?call True x, DeleteLocalRef log, DeleteLocalRef ex]"
  have "quiet ?es" by (simp add: g_def split: option.split)
  moreover have "tr' = tr @ [ExceptionOccurred ex, ExceptionClear] @ ?es" by (simp add: r t4_def t2_def t1_def)
  ultimately show ?thesis using that legal live fresh r(1) by metis
qed

lemma finally_runs:
  assumes L: "exception_laws A" and F: "fresh_refs A R" and R: "0 \<notin> R" "legal R tr"
    and run: "finally_destroy log_disabled A toString tr = (ts, tr')"
  shows "legal R tr' \<and> live R tr' = live R tr \<and>
    (an_pending A tr' \<longrightarrow> \<not> log_disabled \<and> an_pending A tr \<and> (\<exists>es. tr' = tr @ es \<and> raised_in A tr es))"
proof -
  have z: "0 \<notin> live R tr" using zero_not_live [OF R(1)] .
  have clear: "\<not> an_pending A (t @ [ExceptionClear])" for t using L by (simp add: exception_laws_def)
  consider (off) "log_disabled" | (none) "\<not> log_disabled" "\<not> an_pending A tr" | (some) "\<not> log_disabled" "an_pending A tr"
    by blast
  then show ?thesis
  proof cases
    case off
    then show ?thesis using run R(2) z clear by (auto simp: finally_destroy_def live_step_def)
  next
    case none
    then have t: "tr' = tr @ [ExceptionCheck False]" using run by (simp add: finally_destroy_def)
    moreover have "an_pending A (tr @ [ExceptionCheck False]) = an_pending A tr"
      using L unfolding exception_laws_def by (metis keeps_pending.simps(1))
    ultimately show ?thesis using none R(2) z by (auto simp: live_step_def)
  next
    case some
    let ?t = "tr @ [ExceptionCheck True]"
    obtain str m t1 where c: "ClearException A toString ?t = ((str, m), t1)" by (metis prod.exhaust)
    have t: "legal R ?t" "live R ?t = live R tr" using R(2) z by (auto simp: live_step_def)
    obtain ex es where cl: "t1 = ?t @ [ExceptionOccurred ex, ExceptionClear] @ es" "quiet es"
      "legal R t1" "live R t1 = live R ?t \<union> ({str} - {0})" "str = 0 \<or> str \<notin> live R ?t"
      by (rule ClearException_runs [OF F R(1) t(1) c])
    let ?p = "an_GetStringChars A t1 str"
    let ?mid = "if str = 0 then [LogWrite 0] else [GetStringChars str ?p, LogWrite ?p, ReleaseStringChars str ?p, DeleteLocalRef str]"
    have tr': "tr' = t1 @ ?mid"
      using run some c by (auto simp: finally_destroy_def js_construct_def js_destroy_def sr_destroy_def sr_reset_def Let_def
          split: if_splits)
    have "legal R tr'" unfolding tr' using cl(3,4) zero_not_live [OF R(1), of t1] by (auto simp: live_step_def)
    moreover have "live R tr' = live R tr"
      unfolding tr' using cl(4,5) t(2) zero_not_live [OF R(1), of t1] by (auto simp: live_step_def)
    moreover
    let ?c = "[ExceptionCheck True, ExceptionOccurred ex, ExceptionClear]"
    have e: "tr' = tr @ ?c @ es @ ?mid" by (simp add: tr' cl(1))
    have "raised_in A tr (?c @ es @ ?mid)" if "an_pending A tr'"
    proof (rule raised_in_append, rule pending_raised [OF L])
      show "quiet (es @ ?mid)" using cl(2) by simp
      show "\<not> an_pending A (tr @ ?c)" using clear [of "tr @ [ExceptionCheck True, ExceptionOccurred ex]"] by simp
      show "an_pending A ((tr @ ?c) @ es @ ?mid)" using that e by simp
    qed
    ultimately show ?thesis using some e by blast
  qed
qed

text \<open>C30. A safe invocation returns what the function returned, and of the references of the invocation and of
  the report of its exception only the result is left, whatever throws. The exception of the function is
  always cleared: none is pending afterwards unless logging is on, the function has thrown, and a call of the
  report of that exception (finding \<open>Log\<close>, looking up or running \<open>getStackTraceString\<close>, reading its text) has
  raised another one itself, where none was pending; that one is left.\<close>

theorem safe_invoke_clears:
  assumes L: "exception_laws A" and F: "fresh_refs A R" and R: "0 \<notin> R" "legal R tr"
    and run: "JNI_SafeInvoke log_disabled A f is_ref args toString tr = ((result, ts), tr')"
    and t: "t = tr @ [CallEnv f (map UnwrapScope args) is_ref result]"
  shows "result = an_Call A tr f (map UnwrapScope args) is_ref \<and> legal R tr' \<and>
    live R tr' = live R tr \<union> (if is_ref then {result} - {0} else {}) \<and>
    (an_pending A tr' \<longrightarrow> \<not> log_disabled \<and> an_pending A t \<and> (\<exists>es. tr' = t @ es \<and> raised_in A t es))"
proof -
  let ?r = "an_Call A tr f (map UnwrapScope args) is_ref"
  let ?t = "tr @ [CallEnv f (map UnwrapScope args) is_ref ?r]"
  have i: "JNI_Invoke A f is_ref args tr = (?r, ?t)"
    by (simp add: JNI_Invoke_def sr_construct_def sr_reset_def Let_def)
  have lt: "legal R ?t" "live R ?t = live R tr \<union> (if is_ref then {?r} - {0} else {})"
    using R(2) zero_not_live [OF R(1), of tr] by (auto simp: live_step_def)
  have fd: "finally_destroy log_disabled A toString ?t = (ts, tr')" "result = ?r"
    using run i by (simp_all add: JNI_SafeInvoke_def split: prod.splits)
  then have "t = ?t" using t by simp
  then show ?thesis using finally_runs [OF L F R(1) lt(1) fd(1)] lt(2) fd(2) by simp
qed

text \<open>A machine in which \<open>FindClass\<close> throws for every class that \<open>known\<close> does not hold of.\<close>

definition missing_step :: "(string \<Rightarrow> bool) \<Rightarrow> jni_event \<Rightarrow> bool \<Rightarrow> bool" where
  "missing_step known e p =
     (case e of ExceptionClear \<Rightarrow> False
      | CallEnv f as is_ref r \<Rightarrow> p \<or> f = ''FindClass'' \<and> (case as of [AStr n] \<Rightarrow> \<not> known n | _ \<Rightarrow> False)
      | _ \<Rightarrow> p)"

definition missing_answers :: "(string \<Rightarrow> bool) \<Rightarrow> addr list \<Rightarrow> jni_answers" where
  "missing_answers known R = (demo_answers R)\<lparr>
     an_Call := (\<lambda>tr f as is_ref. if missing_step known (CallEnv f as is_ref 0) False then 0 else next_ref R tr),
     an_pending := (\<lambda>tr. fold (missing_step known) tr False) \<rparr>"

lemma missing_laws: "exception_laws (missing_answers known R)"
  unfolding exception_laws_def
proof (intro conjI allI impI)
  show "keeps_pending e \<Longrightarrow> an_pending (missing_answers known R) (tr @ [e]) = an_pending (missing_answers known R) tr" for tr e
    by (cases e) (simp_all add: missing_answers_def missing_step_def)
qed (simp add: missing_answers_def missing_step_def)

lemma missing_fresh: "0 \<notin> set R \<Longrightarrow> fresh_refs (missing_answers known R) (set R)"
  using demo_fresh [of R] zero_not_live [of "set R"] by (simp add: fresh_refs_def missing_answers_def demo_answers_def)

lemma missing_raises:
  assumes "raised_in (missing_answers known R) t es"
  shows "\<not> known ''android/util/Log''"
proof -
  obtain p e q where *: "report_call e" "\<not> an_pending (missing_answers known R) (t @ p)"
    "an_pending (missing_answers known R) (t @ p @ [e])"
    using assms by (auto simp: raised_in_def)
  show ?thesis using * by (cases e) (auto simp: missing_answers_def missing_step_def)
qed

text \<open>A class that does not exist is looked for; its exception is gone afterwards.\<close>

theorem safe_invoke_clears_witness:
  "let A = missing_answers (\<lambda>n. n = ''android/util/Log'') [5] in
   \<exists>ts tr'. JNI_SafeInvoke False A ''FindClass'' True [NameArg ''missing/Class''] None [] = ((0, ts), tr') \<and>
     an_pending A [CallEnv ''FindClass'' [AStr ''missing/Class''] True 0] \<and> \<not> an_pending A tr' \<and> live {5} tr' = {5}"
proof -
  let ?A = "missing_answers (\<lambda>n. n = ''android/util/Log'') [5]"
  obtain r ts tr' where run:
    "JNI_SafeInvoke False ?A ''FindClass'' True [NameArg ''missing/Class''] None [] = ((r, ts), tr')"
    by (metis prod.exhaust)
  have f: "fresh_refs ?A {5}" using missing_fresh [of "[5]"] by simp
  have r: "r = 0" "live {5} tr' = {5}"
    using safe_invoke_clears [OF missing_laws f _ _ run refl] by (auto simp: missing_answers_def missing_step_def)
  moreover have "\<not> an_pending ?A tr'"
    using safe_invoke_clears [OF missing_laws f _ _ run refl] missing_raises by fastforce
  moreover have "an_pending ?A [CallEnv ''FindClass'' [AStr ''missing/Class''] True 0]"
    by (simp add: missing_answers_def missing_step_def)
  ultimately show ?thesis using run by (simp add: Let_def)
qed

text \<open>When the report fails, the safe invocation leaves an exception pending: here \<open>Log\<close> is not found.\<close>

lemma report_leaves_exception:
  assumes "JNI_SafeInvoke False (missing_answers (\<lambda>n. False) R) ''FindClass'' True [NameArg n] None [] = ((r, ts), tr')"
  shows "an_pending (missing_answers (\<lambda>n. False) R) tr'"
  using assms
  by (auto simp: JNI_SafeInvoke_def JNI_Invoke_def finally_destroy_def ClearException_def sr_construct_cases sr_destroy_def
      sr_reset_def js_construct_def js_destroy_def missing_answers_def missing_step_def Let_def split: if_splits prod.splits)

section \<open>The wrappers\<close>

text \<open>A wrapper: the function of \<open>JNIEnv\<close> it calls, whether it does so by \<open>JNI_SafeInvoke\<close>, and whether the
  result is a local reference.\<close>

record jni_fn =
  fn_name :: string
  fn_safe :: bool
  fn_ref :: bool

definition run_wrapper :: "bool \<Rightarrow> jni_answers \<Rightarrow> jni_fn \<Rightarrow> wrapper_arg list \<Rightarrow> addr option \<Rightarrow>
    (addr \<times> addr option) jni" where
  "run_wrapper log_disabled A f args toString tr =
     (if fn_safe f then JNI_SafeInvoke log_disabled A (fn_name f) (fn_ref f) args toString tr
      else (let (r, tr) = JNI_Invoke A (fn_name f) (fn_ref f) args tr in ((r, toString), tr)))"

datatype jkind = KBoolean | KByte | KShort | KChar | KInt | KFloat | KLong | KDouble

datatype slot = Kind jkind | ObjectSlot | VoidSlot

fun kind_name :: "jkind \<Rightarrow> string" where
  "kind_name KBoolean = ''Boolean''"
| "kind_name KByte = ''Byte''"
| "kind_name KShort = ''Short''"
| "kind_name KChar = ''Char''"
| "kind_name KInt = ''Int''"
| "kind_name KFloat = ''Float''"
| "kind_name KLong = ''Long''"
| "kind_name KDouble = ''Double''"

fun slot_name :: "slot \<Rightarrow> string" where
  "slot_name (Kind k) = kind_name k"
| "slot_name ObjectSlot = ''Object''"
| "slot_name VoidSlot = ''Void''"

text \<open>The families of wrappers, one wrapper for each slot: field access never runs Java code and is
  plain, calls are safe.\<close>

definition get_field_fn :: "slot \<Rightarrow> jni_fn" where
  "get_field_fn k = \<lparr> fn_name = ''Get'' @ slot_name k @ ''Field'', fn_safe = False, fn_ref = (k = ObjectSlot) \<rparr>"

definition set_field_fn :: "slot \<Rightarrow> jni_fn" where
  "set_field_fn k = \<lparr> fn_name = ''Set'' @ slot_name k @ ''Field'', fn_safe = False, fn_ref = False \<rparr>"

definition get_static_field_fn :: "slot \<Rightarrow> jni_fn" where
  "get_static_field_fn k = \<lparr> fn_name = ''GetStatic'' @ slot_name k @ ''Field'', fn_safe = False, fn_ref = (k = ObjectSlot) \<rparr>"

definition set_static_field_fn :: "slot \<Rightarrow> jni_fn" where
  "set_static_field_fn k = \<lparr> fn_name = ''SetStatic'' @ slot_name k @ ''Field'', fn_safe = False, fn_ref = False \<rparr>"

definition call_fn :: "slot \<Rightarrow> jni_fn" where
  "call_fn k = \<lparr> fn_name = ''Call'' @ slot_name k @ ''Method'', fn_safe = True, fn_ref = (k = ObjectSlot) \<rparr>"

definition call_static_fn :: "slot \<Rightarrow> jni_fn" where
  "call_static_fn k = \<lparr> fn_name = ''CallStatic'' @ slot_name k @ ''Method'', fn_safe = True, fn_ref = (k = ObjectSlot) \<rparr>"

definition call_nonvirtual_fn :: "slot \<Rightarrow> jni_fn" where
  "call_nonvirtual_fn k =
     \<lparr> fn_name = ''CallNonvirtual'' @ slot_name k @ ''Method'', fn_safe = True, fn_ref = (k = ObjectSlot) \<rparr>"

text \<open>\<open>JNI_NewObjectArray\<close> is the only safe one.\<close>

definition new_array_fn :: "slot \<Rightarrow> jni_fn" where
  "new_array_fn k = \<lparr> fn_name = ''New'' @ slot_name k @ ''Array'', fn_safe = (k = ObjectSlot), fn_ref = True \<rparr>"

definition class_fn :: "string \<Rightarrow> jni_fn option" where
  "class_fn f =
     (if f = ''FindClass'' then Some \<lparr> fn_name = f, fn_safe = True, fn_ref = True \<rparr>
      else if f = ''GetSuperclass'' \<or> f = ''GetObjectClass'' then Some \<lparr> fn_name = f, fn_safe = False, fn_ref = True \<rparr>
      else None)"

definition id_fn :: "string \<Rightarrow> jni_fn option" where
  "id_fn f =
     (if f \<in> {''GetFieldID'', ''GetStaticFieldID'', ''GetMethodID'', ''GetStaticMethodID''}
      then Some \<lparr> fn_name = f, fn_safe = True, fn_ref = False \<rparr> else None)"

definition reflect_fn :: "string \<Rightarrow> jni_fn option" where
  "reflect_fn f =
     (if f \<in> {''ToReflectedMethod'', ''ToReflectedField''}
      then Some \<lparr> fn_name = f, fn_safe = False, fn_ref = True \<rparr> else None)"

definition object_fn :: "string \<Rightarrow> jni_fn option" where
  "object_fn f =
     (if f \<in> {''AllocObject'', ''NewObject''} then Some \<lparr> fn_name = f, fn_safe = True, fn_ref = True \<rparr>
      else if f = ''RegisterNatives'' then Some \<lparr> fn_name = f, fn_safe = True, fn_ref = False \<rparr> else None)"

text \<open>\<open>JNI_RegisterNatives\<close> compares the result with \<open>JNI_OK\<close>, 0.\<close>

definition JNI_RegisterNatives :: "bool \<Rightarrow> jni_answers \<Rightarrow> wrapper_arg \<Rightarrow> addr \<Rightarrow> int \<Rightarrow> addr option \<Rightarrow>
    (bool \<times> addr option) jni" where
  "JNI_RegisterNatives log_disabled A clazz methods len toString tr =
     (let ((r, toString), tr) = JNI_SafeInvoke log_disabled A ''RegisterNatives'' False
            [clazz, RawArg (ARef methods), RawArg (AInt len)] toString tr
      in ((r = 0, toString), tr))"

text \<open>\<open>JNI_NewStringUTF\<close> and \<open>JNI_NewString\<close> wrap the new string and leave its exception.\<close>

definition JNI_NewStringUTF :: "jni_answers \<Rightarrow> string \<Rightarrow> addr jni" where
  "JNI_NewStringUTF A sv tr =
     (let r = an_Call A tr ''NewStringUTF'' [AStr sv] True
      in sr_construct r (tr @ [CallEnv ''NewStringUTF'' [AStr sv] True r]))"

definition JNI_GetObjectFieldOf :: "bool \<Rightarrow> jni_answers \<Rightarrow> addr \<Rightarrow> string \<Rightarrow> string \<Rightarrow> addr option \<Rightarrow>
    (addr \<times> addr option) jni" where
  "JNI_GetObjectFieldOf log_disabled A object fname sig toString tr =
     (let (clazz, tr) = JNI_Invoke A ''GetObjectClass'' True [ScopeArg object] tr;
          ((field, toString), tr) = JNI_SafeInvoke log_disabled A ''GetFieldID'' False
            [ScopeArg clazz, NameArg fname, NameArg sig] toString tr;
          (r, tr) = JNI_Invoke A ''GetObjectField'' True [ScopeArg object, RawArg (ARef field)] tr
      in ((r, toString), sr_destroy clazz tr))"

section \<open>The choice by type\<close>

text \<open>A template argument: a primitive type, a pointer (a reference such as \<open>jobject\<close> is one) or \<open>void\<close>.
  \<open>None\<close> is \<open>std::unreachable()\<close>.\<close>

datatype cpp_type = Prim jkind | Pointer | Reference | Void

definition is_pointer :: "cpp_type \<Rightarrow> bool" where
  "is_pointer t \<longleftrightarrow> t = Pointer \<or> t = Reference"

definition sizeof_jint :: nat where "sizeof_jint = 4"
definition sizeof_jlong :: nat where "sizeof_jlong = 8"

definition JNI_GetField :: "arch \<Rightarrow> cpp_type \<Rightarrow> jni_fn option" where
  "JNI_GetField a t =
     (if t = Prim KBoolean then Some (get_field_fn (Kind KBoolean))
      else if t = Prim KByte then Some (get_field_fn (Kind KByte))
      else if t = Prim KShort then Some (get_field_fn (Kind KShort))
      else if t = Prim KChar then Some (get_field_fn (Kind KChar))
      else if t = Prim KInt \<or> is_pointer t \<and> kPointerSize a = sizeof_jint then Some (get_field_fn (Kind KInt))
      else if t = Prim KFloat then Some (get_field_fn (Kind KFloat))
      else if t = Prim KLong \<or> is_pointer t \<and> kPointerSize a = sizeof_jlong then Some (get_field_fn (Kind KLong))
      else if t = Prim KDouble then Some (get_field_fn (Kind KDouble))
      else None)"

definition JNI_SetField :: "arch \<Rightarrow> cpp_type \<Rightarrow> jni_fn option" where
  "JNI_SetField a t =
     (if t = Prim KBoolean then Some (set_field_fn (Kind KBoolean))
      else if t = Prim KByte then Some (set_field_fn (Kind KByte))
      else if t = Prim KShort then Some (set_field_fn (Kind KShort))
      else if t = Prim KChar then Some (set_field_fn (Kind KChar))
      else if t = Prim KInt \<or> is_pointer t \<and> kPointerSize a = sizeof_jint then Some (set_field_fn (Kind KInt))
      else if t = Prim KFloat then Some (set_field_fn (Kind KFloat))
      else if t = Prim KLong \<or> is_pointer t \<and> kPointerSize a = sizeof_jlong then Some (set_field_fn (Kind KLong))
      else if t = Prim KDouble then Some (set_field_fn (Kind KDouble))
      else None)"

definition JNI_GetStaticField :: "arch \<Rightarrow> cpp_type \<Rightarrow> jni_fn option" where
  "JNI_GetStaticField a t =
     (if t = Prim KBoolean then Some (get_static_field_fn (Kind KBoolean))
      else if t = Prim KByte then Some (get_static_field_fn (Kind KByte))
      else if t = Prim KShort then Some (get_static_field_fn (Kind KShort))
      else if t = Prim KChar then Some (get_static_field_fn (Kind KChar))
      else if t = Prim KInt \<or> is_pointer t \<and> kPointerSize a = sizeof_jint then Some (get_static_field_fn (Kind KInt))
      else if t = Prim KFloat then Some (get_static_field_fn (Kind KFloat))
      else if t = Prim KLong \<or> is_pointer t \<and> kPointerSize a = sizeof_jlong then Some (get_static_field_fn (Kind KLong))
      else if t = Prim KDouble then Some (get_static_field_fn (Kind KDouble))
      else None)"

definition JNI_SetStaticField :: "arch \<Rightarrow> cpp_type \<Rightarrow> jni_fn option" where
  "JNI_SetStaticField a t =
     (if t = Prim KBoolean then Some (set_static_field_fn (Kind KBoolean))
      else if t = Prim KByte then Some (set_static_field_fn (Kind KByte))
      else if t = Prim KShort then Some (set_static_field_fn (Kind KShort))
      else if t = Prim KChar then Some (set_static_field_fn (Kind KChar))
      else if t = Prim KInt \<or> is_pointer t \<and> kPointerSize a = sizeof_jint then Some (set_static_field_fn (Kind KInt))
      else if t = Prim KFloat then Some (set_static_field_fn (Kind KFloat))
      else if t = Prim KLong \<or> is_pointer t \<and> kPointerSize a = sizeof_jlong then Some (set_static_field_fn (Kind KLong))
      else if t = Prim KDouble then Some (set_static_field_fn (Kind KDouble))
      else None)"

definition JNI_CallMethod :: "arch \<Rightarrow> cpp_type \<Rightarrow> jni_fn option" where
  "JNI_CallMethod a t =
     (if t = Prim KBoolean then Some (call_fn (Kind KBoolean))
      else if t = Prim KByte then Some (call_fn (Kind KByte))
      else if t = Prim KShort then Some (call_fn (Kind KShort))
      else if t = Prim KChar then Some (call_fn (Kind KChar))
      else if t = Prim KInt \<or> is_pointer t \<and> kPointerSize a = sizeof_jint then Some (call_fn (Kind KInt))
      else if t = Prim KFloat then Some (call_fn (Kind KFloat))
      else if t = Prim KLong \<or> is_pointer t \<and> kPointerSize a = sizeof_jlong then Some (call_fn (Kind KLong))
      else if t = Prim KDouble then Some (call_fn (Kind KDouble))
      else if t = Void then Some (call_fn VoidSlot)
      else None)"

definition JNI_CallStaticMethod :: "arch \<Rightarrow> cpp_type \<Rightarrow> jni_fn option" where
  "JNI_CallStaticMethod a t =
     (if t = Prim KBoolean then Some (call_static_fn (Kind KBoolean))
      else if t = Prim KByte then Some (call_static_fn (Kind KByte))
      else if t = Prim KShort then Some (call_static_fn (Kind KShort))
      else if t = Prim KChar then Some (call_static_fn (Kind KChar))
      else if t = Prim KInt \<or> is_pointer t \<and> kPointerSize a = sizeof_jint then Some (call_static_fn (Kind KInt))
      else if t = Prim KFloat then Some (call_static_fn (Kind KFloat))
      else if t = Prim KLong \<or> is_pointer t \<and> kPointerSize a = sizeof_jlong then Some (call_static_fn (Kind KLong))
      else if t = Prim KDouble then Some (call_static_fn (Kind KDouble))
      else if t = Void then Some (call_static_fn VoidSlot)
      else None)"

definition JNI_CallNonvirtualMethod :: "arch \<Rightarrow> cpp_type \<Rightarrow> jni_fn option" where
  "JNI_CallNonvirtualMethod a t =
     (if t = Prim KBoolean then Some (call_nonvirtual_fn (Kind KBoolean))
      else if t = Prim KByte then Some (call_nonvirtual_fn (Kind KByte))
      else if t = Prim KShort then Some (call_nonvirtual_fn (Kind KShort))
      else if t = Prim KChar then Some (call_nonvirtual_fn (Kind KChar))
      else if t = Prim KInt \<or> is_pointer t \<and> kPointerSize a = sizeof_jint then Some (call_nonvirtual_fn (Kind KInt))
      else if t = Prim KFloat then Some (call_nonvirtual_fn (Kind KFloat))
      else if t = Prim KLong \<or> is_pointer t \<and> kPointerSize a = sizeof_jlong then Some (call_nonvirtual_fn (Kind KLong))
      else if t = Prim KDouble then Some (call_nonvirtual_fn (Kind KDouble))
      else if t = Void then Some (call_nonvirtual_fn VoidSlot)
      else None)"

definition JNI_NewArray :: "arch \<Rightarrow> cpp_type \<Rightarrow> jni_fn option" where
  "JNI_NewArray a t =
     (if t = Prim KBoolean then Some (new_array_fn (Kind KBoolean))
      else if t = Prim KByte then Some (new_array_fn (Kind KByte))
      else if t = Prim KShort then Some (new_array_fn (Kind KShort))
      else if t = Prim KChar then Some (new_array_fn (Kind KChar))
      else if t = Prim KInt \<or> is_pointer t \<and> kPointerSize a = sizeof_jint then Some (new_array_fn (Kind KInt))
      else if t = Prim KFloat then Some (new_array_fn (Kind KFloat))
      else if t = Prim KLong \<or> is_pointer t \<and> kPointerSize a = sizeof_jlong then Some (new_array_fn (Kind KLong))
      else if t = Prim KDouble then Some (new_array_fn (Kind KDouble))
      else None)"

text \<open>The slot a type should have, void only for calls.\<close>

definition slot_of :: "arch \<Rightarrow> bool \<Rightarrow> cpp_type \<Rightarrow> slot option" where
  "slot_of a call t =
     (case t of Prim k \<Rightarrow> Some (Kind k)
      | Pointer \<Rightarrow> Some (Kind (PickLP a KLong KInt))
      | Reference \<Rightarrow> Some ObjectSlot
      | Void \<Rightarrow> (if call then Some VoidSlot else None))"

text \<open>The slot the templates take: references count as pointers.\<close>

definition chosen_slot :: "arch \<Rightarrow> bool \<Rightarrow> cpp_type \<Rightarrow> slot option" where
  "chosen_slot a call t = slot_of a call (if t = Reference then Pointer else t)"

lemma pointer_slot:
  assumes "real_arch a"
  shows "kPointerSize a = sizeof_jint \<longleftrightarrow> PickLP a KLong KInt = KInt"
    and "kPointerSize a = sizeof_jlong \<longleftrightarrow> PickLP a KLong KInt = KLong"
  using assms
  by (auto simp: is_arch.simps kPointerSize_def PickLP_def kLPCurrent_def real_arch_def sizeof_jint_def sizeof_jlong_def)

lemmas dispatch_defs = JNI_GetField_def JNI_SetField_def JNI_GetStaticField_def JNI_SetStaticField_def
  JNI_CallMethod_def JNI_CallStaticMethod_def JNI_CallNonvirtualMethod_def JNI_NewArray_def



end
