(* ===== verification/Jni_Buffers.thy ===== *)
theory Jni_Buffers
  imports Jni_Invoke
begin

text \<open>
  The rest of include/utils/jni_helper.hpp: \<open>JString\<close>, \<open>JDirectBuffer\<close>, the iterators over the elements
  of an array of primitives and of a constant array of objects, the iterator of \<open>JBasicObjectList\<close>, and the
  wrappers that are neither field access nor calls; and \<open>ThrowNewException\<close> of lsplant.cc.
\<close>

section \<open>Strings of 16-bit characters\<close>

text \<open>\<open>copy\<close> is what \<open>GetStringChars\<close> writes into \<open>is_copy_\<close>; \<open>default_str\<close> is the address and the length of the
  default.\<close>

record wide_string = jstring_chars +
  ws_size :: "32 word"
  ws_is_copy :: bool

definition ws_construct :: "jni_answers \<Rightarrow> bool \<Rightarrow> bool \<Rightarrow> addr \<Rightarrow> (addr \<times> nat) option \<Rightarrow> wide_string jni" where
  "ws_construct A copy env jstr default_str tr =
     (if env \<and> jstr \<noteq> 0
      then
        (let p = an_GetStringChars A tr jstr; tr = tr @ [GetStringChars jstr p];
             n = an_Call A tr ''GetStringLength'' [ARef jstr] False
         in (\<lparr> js_env = env, js_str = jstr, js_data = p, ws_size = word_of_nat n, ws_is_copy = copy \<rparr>,
             tr @ [CallEnv ''GetStringLength'' [ARef jstr] False n]))
      else (case default_str of
          Some (d, n) \<Rightarrow> (\<lparr> js_env = env, js_str = jstr, js_data = d, ws_size = word_of_nat n, ws_is_copy = False \<rparr>, tr)
        | None \<Rightarrow> (\<lparr> js_env = env, js_str = jstr, js_data = 0, ws_size = 0, ws_is_copy = False \<rparr>, tr)))"

definition ws_destroy :: "wide_string \<Rightarrow> jtrace \<Rightarrow> jtrace" where
  "ws_destroy s tr = (if js_env s \<and> js_str s \<noteq> 0 then tr @ [ReleaseStringChars (js_str s) (js_data s)] else tr)"

definition ws_move :: "wide_string \<Rightarrow> wide_string \<times> wide_string" where
  "ws_move s = (s, s\<lparr> js_data := 0, ws_size := 0 \<rparr>)"

text \<open>\<open>operator=\<close> of both kinds of strings; \<open>same\<close> is \<open>&other == this\<close>.\<close>

definition js_assign :: "bool \<Rightarrow> jstring_chars \<Rightarrow> jstring_chars \<Rightarrow> jstring_chars \<times> jstring_chars" where
  "js_assign same t s = (if same then (t, s) else (s, s\<lparr> js_data := 0 \<rparr>))"

definition ws_assign :: "bool \<Rightarrow> wide_string \<Rightarrow> wide_string \<Rightarrow> wide_string \<times> wide_string" where
  "ws_assign same t s = (if same then (t, s) else (s, s\<lparr> js_data := 0, ws_size := 0 \<rparr>))"

text \<open>\<open>operator std::u16string_view\<close> and \<open>operator std::u16string\<close>: the characters; \<open>jsize\<close> is extended to \<open>size_t\<close>.\<close>

definition ws_view :: "arch \<Rightarrow> memory \<Rightarrow> wide_string \<Rightarrow> nat list" where
  "ws_view a m s =
     map (\<lambda>i. load m (js_data s + 2 * i) 2) [0..<nat (sint (ws_size s) mod 2 ^ (8 * kPointerSize a))]"

text \<open>A string that is not moved asks for its characters once and gives them back once; one that was moved
  from gives back a second time, a null pointer; what the target of an assignment had is never given back.\<close>

definition wide_life :: "jni_answers \<Rightarrow> bool \<Rightarrow> addr \<Rightarrow> jtrace \<Rightarrow> jtrace" where
  "wide_life A copy jstr tr = (let (s, tr) = ws_construct A copy True jstr None tr in ws_destroy s tr)"

definition wide_assign_life :: "jni_answers \<Rightarrow> bool \<Rightarrow> addr \<Rightarrow> addr \<Rightarrow> jtrace \<Rightarrow> jtrace" where
  "wide_assign_life A copy j1 j2 tr =
     (let (t, tr) = ws_construct A copy True j1 None tr; (s, tr) = ws_construct A copy True j2 None tr;
          (t, s) = ws_assign False t s
      in ws_destroy t (ws_destroy s tr))"

definition given_back :: "jtrace \<Rightarrow> (addr \<times> addr) list" where
  "given_back tr = List.map_filter (\<lambda>e. case e of ReleaseStringChars s p \<Rightarrow> Some (s, p) | _ \<Rightarrow> None) tr"

lemma given_back_simps [simp]:
  "given_back [] = []" "given_back (tr @ tr') = given_back tr @ given_back tr'"
  "given_back (ReleaseStringChars s p # tr) = (s, p) # given_back tr"
  "given_back (GetStringChars s p # tr) = given_back tr" "given_back (CallEnv f as b r # tr) = given_back tr"
  by (simp_all add: given_back_def map_filter_simps) (simp add: List.map_filter_def)

lemma wide_string_life:
  assumes "jstr \<noteq> 0"
  shows "given_back (wide_life A copy jstr tr) = given_back tr @ [(jstr, an_GetStringChars A tr jstr)]"
  using assms by (simp add: wide_life_def ws_construct_def ws_destroy_def Let_def)

lemma wide_assign_leaks:
  assumes "j1 \<noteq> 0" and "j2 \<noteq> 0"
  shows "\<exists>p. given_back (wide_assign_life A copy j1 j2 tr) = given_back tr @ [(j2, 0), (j2, p)]"
  using assms by (simp add: wide_assign_life_def ws_construct_def ws_assign_def ws_destroy_def Let_def)

lemma ws_view_length:
  assumes "ws_construct A copy True jstr d tr = (s, tr')" and "jstr \<noteq> 0"
    and n: "n = an_Call A (tr @ [GetStringChars jstr (an_GetStringChars A tr jstr)]) ''GetStringLength'' [ARef jstr] False"
    and "n < 2 ^ 31" and a: "real_arch a"
  shows "length (ws_view a m s) = n"
proof -
  have "s = \<lparr> js_env = True, js_str = jstr, js_data = an_GetStringChars A tr jstr, ws_size = word_of_nat n, ws_is_copy = copy \<rparr>"
    using assms(1,2) n by (auto simp: ws_construct_def Let_def)
  moreover have "sint (word_of_nat n :: 32 word) = int n"
    using assms(4) by (simp add: signed_of_nat signed_take_bit_int_eq_self)
  moreover have "int n < 2 ^ (8 * kPointerSize a)"
    using assms(4) a by (auto simp: kPointerSize_def real_arch_def kLPCurrent_def)
  ultimately show ?thesis by (simp add: ws_view_def)
qed

section \<open>Direct buffers\<close>

text \<open>A \<open>jlong\<close> JNI returns is given by its 64 bits. Without a buffer \<open>address_\<close> and \<open>size_\<close> keep whatever was in
  the memory, \<open>garbage\<close>. \<open>sz\<close> is \<open>sizeof(T)\<close>.\<close>

record direct_buffer =
  db_buffer :: addr
  db_address :: addr
  db_size :: nat

definition db_construct :: "jni_answers \<Rightarrow> arch \<Rightarrow> addr \<times> nat \<Rightarrow> bool \<Rightarrow> addr \<Rightarrow> direct_buffer jni" where
  "db_construct A a garbage env buffer tr =
     (if env \<and> buffer \<noteq> 0
      then
        (let p = an_Call A tr ''GetDirectBufferAddress'' [ARef buffer] False;
             tr = tr @ [CallEnv ''GetDirectBufferAddress'' [ARef buffer] False p];
             n = an_Call A tr ''GetDirectBufferCapacity'' [ARef buffer] False
         in (\<lparr> db_buffer = buffer, db_address = p, db_size = n mod 256 ^ kPointerSize a \<rparr>,
             tr @ [CallEnv ''GetDirectBufferCapacity'' [ARef buffer] False n]))
      else (\<lparr> db_buffer = buffer, db_address = fst garbage, db_size = snd garbage \<rparr>, tr))"

definition db_valid :: "direct_buffer \<Rightarrow> bool" where
  "db_valid b \<longleftrightarrow> db_address b \<noteq> 0"

definition db_length :: "nat \<Rightarrow> direct_buffer \<Rightarrow> nat" where
  "db_length sz b = db_size b div sz"

definition db_at :: "nat \<Rightarrow> direct_buffer \<Rightarrow> nat \<Rightarrow> addr" where
  "db_at sz b i = db_address b + i * sz"

text \<open>Elements below \<open>length()\<close> lie inside of the buffer and do not overlap.\<close>

lemma db_at_inside:
  assumes "i < db_length sz b"
  shows "db_address b \<le> db_at sz b i \<and> db_at sz b i + sz \<le> db_address b + db_size b"
proof -
  have "Suc i * sz \<le> db_size b"
    using assms mult_le_mono1 [of "Suc i" "db_size b div sz" sz] div_times_less_eq_dividend [of "db_size b" sz]
    by (auto simp: db_length_def Suc_le_eq intro: le_trans)
  then show ?thesis by (simp add: db_at_def)
qed

lemma db_at_apart: "i < j \<Longrightarrow> db_at sz b i + sz \<le> db_at sz b j"
  using mult_le_mono1 [of "Suc i" j sz] by (simp add: db_at_def)

text \<open>For an object that is no direct buffer JNI gives a null address and the capacity -1, so the size is the
  largest number of its type although there is nothing.\<close>

lemma not_direct:
  assumes "real_arch a" and "buffer \<noteq> 0"
    and "\<And>tr. an_Call A tr ''GetDirectBufferAddress'' [ARef buffer] False = 0"
    and "\<And>tr. an_Call A tr ''GetDirectBufferCapacity'' [ARef buffer] False = 2 ^ 64 - 1"
  shows "\<exists>b tr'. db_construct A a g True buffer tr = (b, tr') \<and> \<not> db_valid b \<and> db_size b = 256 ^ kPointerSize a - 1"
  using assms
  by (auto simp: db_construct_def db_valid_def kPointerSize_def real_arch_def kLPCurrent_def Let_def)

section \<open>Iterating over an array of primitives\<close>

text \<open>Both iterators are a pointer \<open>e_\<close>; \<open>begin\<close> and \<open>end\<close> of a mutable array mark it as modified.\<close>

definition pa_begin :: "array_ref \<Rightarrow> addr \<times> array_ref" where
  "pa_begin a = (ar_elements a, a\<lparr> ar_modified := True \<rparr>)"

definition pa_end :: "nat \<Rightarrow> array_ref \<Rightarrow> addr \<times> array_ref" where
  "pa_end sz a = (ar_elements a + ar_size a * sz, a\<lparr> ar_modified := True \<rparr>)"

definition pa_cbegin :: "array_ref \<Rightarrow> addr" where
  "pa_cbegin a = ar_elements a"

definition pa_cend :: "nat \<Rightarrow> array_ref \<Rightarrow> addr" where
  "pa_cend sz a = ar_elements a + ar_size a * sz"

definition pi_inc :: "nat \<Rightarrow> addr \<Rightarrow> addr" where "pi_inc sz e = e + sz"
definition pi_dec :: "nat \<Rightarrow> addr \<Rightarrow> addr" where "pi_dec sz e = e - sz"

text \<open>The result, which is the old position, and the iterator.\<close>

definition pi_post_inc :: "nat \<Rightarrow> addr \<Rightarrow> addr \<times> addr" where
  "pi_post_inc sz e = (e, pi_inc sz e)"

definition pi_post_dec :: "nat \<Rightarrow> addr \<Rightarrow> addr \<times> addr" where
  "pi_post_dec sz e = (e, pi_dec sz e)"

text \<open>\<open>for (auto x : array)\<close>, reading the elements.\<close>

partial_function (option) pa_visit :: "memory \<Rightarrow> nat \<Rightarrow> addr \<Rightarrow> addr \<Rightarrow> nat list option" where
  "pa_visit m sz it en =
     (if it \<noteq> en then Option.bind (pa_visit m sz (pi_inc sz it) en) (\<lambda>xs. Some (load m it sz # xs)) else Some [])"

definition pa_for :: "memory \<Rightarrow> nat \<Rightarrow> array_ref \<Rightarrow> (nat list \<times> array_ref) option" where
  "pa_for m sz a =
     (let (it, a) = pa_begin a; (en, a) = pa_end sz a
      in Option.bind (pa_visit m sz it en) (\<lambda>xs. Some (xs, a)))"

definition pa_const_for :: "memory \<Rightarrow> nat \<Rightarrow> array_ref \<Rightarrow> nat list option" where
  "pa_const_for m sz a = pa_visit m sz (pa_cbegin a) (pa_cend sz a)"

definition pa_elements :: "memory \<Rightarrow> nat \<Rightarrow> array_ref \<Rightarrow> nat list" where
  "pa_elements m sz a = map (\<lambda>i. load m (ar_elements a + i * sz) sz) [0..<ar_size a]"

lemma pa_visit_run:
  assumes "0 < sz"
  shows "i \<le> n \<Longrightarrow> pa_visit m sz (e + i * sz) (e + n * sz) = Some (map (\<lambda>i. load m (e + i * sz) sz) [i..<n])"
proof (induction "n - i" arbitrary: i)
  case 0
  then show ?case by (simp add: pa_visit.simps)
next
  case (Suc k)
  then have i: "i < n" "k = n - Suc i" by simp_all
  have "pi_inc sz (e + i * sz) = e + Suc i * sz" by (simp add: pi_inc_def)
  then show ?case
    using Suc.hyps(1) [OF i(2)] i(1) assms
    by (simp add: pa_visit.simps [of m sz "e + i * sz"] upt_conv_Cons [of i n])
qed

text \<open>The loop ends and sees each element once, in order, whether the array is constant or not; the loop over
  a mutable array marks it, so that a \<open>reset()\<close> afterwards writes the elements back.\<close>

lemma pa_for_run:
  assumes "0 < sz"
  shows "pa_for m sz a = Some (pa_elements m sz a, a\<lparr> ar_modified := True \<rparr>)"
    and "pa_const_for m sz a = Some (pa_elements m sz a)"
  using pa_visit_run [OF assms, of 0 "ar_size a" m "ar_elements a"]
  by (simp_all add: pa_for_def pa_const_for_def pa_begin_def pa_end_def pa_cbegin_def pa_cend_def pa_elements_def)

lemma pa_for_writes_back:
  assumes "0 < sz" and "pa_for m sz a = Some (xs, a')" and "ar_local_ref a \<noteq> 0" and "ar_elements a \<noteq> 0"
  shows "\<exists>a''. ar_reset A 0 a' tr = (a'', tr @ [ReleaseArrayElements (ar_local_ref a) (ar_elements a) CopyBackFree,
    DeleteLocalRef (ar_local_ref a)])"
proof -
  have "a' = a\<lparr> ar_modified := True \<rparr>" using assms(2) pa_for_run(1) [OF assms(1), of m a] by simp
  then show ?thesis using assms(3,4) by (auto simp: ar_reset_def release_mode_of_def ReleaseElements_def Let_def)
qed

text \<open>The eight array types and their elements, with the sizes the JNI gives them; so the loops above are
  total on each of them.\<close>

datatype jarray = jbooleanArray | jbyteArray | jcharArray | jshortArray | jintArray | jlongArray | jfloatArray | jdoubleArray

fun JArrayUnderlyingType :: "jarray \<Rightarrow> jkind" where
  "JArrayUnderlyingType jbooleanArray = KBoolean"
| "JArrayUnderlyingType jbyteArray = KByte"
| "JArrayUnderlyingType jcharArray = KChar"
| "JArrayUnderlyingType jshortArray = KShort"
| "JArrayUnderlyingType jintArray = KInt"
| "JArrayUnderlyingType jlongArray = KLong"
| "JArrayUnderlyingType jfloatArray = KFloat"
| "JArrayUnderlyingType jdoubleArray = KDouble"

fun kind_size :: "jkind \<Rightarrow> nat" where
  "kind_size KBoolean = 1"
| "kind_size KByte = 1"
| "kind_size KShort = 2"
| "kind_size KChar = 2"
| "kind_size KInt = 4"
| "kind_size KFloat = 4"
| "kind_size KLong = 8"
| "kind_size KDouble = 8"

lemma kind_size_pos [simp]: "0 < kind_size k"
  by (cases k) simp_all

lemma array_loops:
  "pa_for m (kind_size (JArrayUnderlyingType t)) a =
     Some (pa_elements m (kind_size (JArrayUnderlyingType t)) a, a\<lparr> ar_modified := True \<rparr>)"
  "pa_const_for m (kind_size (JArrayUnderlyingType t)) a = Some (pa_elements m (kind_size (JArrayUnderlyingType t)) a)"
  by (rule pa_for_run [OF kind_size_pos])+

section \<open>Iterating over a constant array of objects\<close>

text \<open>\<open>ConstIterator\<close> has the fields of an element; outside of the array its object is null.\<close>

definition ci_obtain :: "jni_answers \<Rightarrow> array_elem \<Rightarrow> addr jni" where
  "ci_obtain A c tr =
     (if el_i c < 0 \<or> el_i c \<ge> el_size c then sr_construct 0 tr
      else
        (let r = an_GetObjectArrayElement A tr (el_array c) (el_i c)
         in sr_construct r (tr @ [GetObjectArrayElement (el_array c) (el_i c) r])))"

definition ci_new :: "jni_answers \<Rightarrow> addr \<Rightarrow> int \<Rightarrow> int \<Rightarrow> array_elem jni" where
  "ci_new A arr i len tr =
     (let c = \<lparr> el_array = arr, el_i = i, el_size = len, el_item = 0 \<rparr>; (item, tr) = ci_obtain A c tr
      in (c\<lparr> el_item := item \<rparr>, tr))"

definition ci_move :: "jni_answers \<Rightarrow> array_elem \<Rightarrow> array_elem jni" where
  "ci_move A c tr =
     (let (item, tr) = ci_obtain A c tr; (p, item) = sr_release item; (r, tr) = sr_reset p (el_item c) tr
      in (c\<lparr> el_item := r \<rparr>, sr_destroy item tr))"

definition ci_inc :: "jni_answers \<Rightarrow> array_elem \<Rightarrow> array_elem jni" where
  "ci_inc A c tr = ci_move A (c\<lparr> el_i := el_i c + 1 \<rparr>) tr"

definition ci_dec :: "jni_answers \<Rightarrow> array_elem \<Rightarrow> array_elem jni" where
  "ci_dec A c tr = ci_move A (c\<lparr> el_i := el_i c - 1 \<rparr>) tr"

definition ci_post_inc :: "jni_answers \<Rightarrow> array_elem \<Rightarrow> (array_elem \<times> array_elem) jni" where
  "ci_post_inc A c tr = (let (c', tr) = ci_new A (el_array c) (el_i c + 1) (el_size c) tr in ((c', c), tr))"

definition ci_post_dec :: "jni_answers \<Rightarrow> array_elem \<Rightarrow> (array_elem \<times> array_elem) jni" where
  "ci_post_dec A c tr = (let (c', tr) = ci_new A (el_array c) (el_i c - 1) (el_size c) tr in ((c', c), tr))"

definition ci_begin :: "jni_answers \<Rightarrow> addr \<Rightarrow> nat \<Rightarrow> array_elem jni" where
  "ci_begin A arr len tr = ci_new A arr 0 (int len) tr"

definition ci_end :: "jni_answers \<Rightarrow> addr \<Rightarrow> nat \<Rightarrow> array_elem jni" where
  "ci_end A arr len tr = ci_new A arr (int len) (int len) tr"

partial_function (option) ci_visit :: "jni_answers \<Rightarrow> array_elem \<Rightarrow> array_elem \<Rightarrow> jtrace \<Rightarrow> (addr list \<times> jtrace) option" where
  "ci_visit A it en tr =
     (if it_differs it en
      then (case ci_inc A it tr of (it', tr') \<Rightarrow>
        Option.bind (ci_visit A it' en tr') (\<lambda>(xs, tr'). Some (el_item it # xs, tr')))
      else Some ([], el_destroy en (el_destroy it tr)))"

definition ci_for :: "jni_answers \<Rightarrow> addr \<Rightarrow> nat \<Rightarrow> jtrace \<Rightarrow> (addr list \<times> jtrace) option" where
  "ci_for A arr len tr =
     (let (it, tr) = ci_begin A arr len tr; (en, tr) = ci_end A arr len tr in ci_visit A it en tr)"

text \<open>A constant array is walked with the same JNI calls as a mutable one.\<close>

lemma ci_new_el: "ci_new A arr i len tr = el_new A arr i len tr"
  by (simp add: ci_new_def ci_obtain_def el_new_def el_obtain_def sr_construct_def sr_reset_def Let_def)

lemma ci_inc_el: "ci_inc A c tr = el_inc A c tr" "ci_dec A c tr = el_dec A c tr"
  by (auto simp: ci_inc_def ci_dec_def ci_move_def ci_obtain_def el_inc_def el_dec_def el_step_def el_obtain_def
      sr_construct_def sr_reset_def sr_release_def sr_destroy_def Let_def)

lemma ci_visit_upto: "i \<le> n \<Longrightarrow> ci_visit A (elem_at arr i n x) (elem_at arr n n 0) tr = visit A (elem_at arr i n x) (elem_at arr n n 0) tr"
proof (induction "n - i" arbitrary: i x tr)
  case 0
  then show ?case by (simp add: ci_visit.simps visit.simps it_differs_def elem_at_def)
next
  case (Suc k)
  then have i: "i < n" "k = n - Suc i" by simp_all
  obtain y tr' where s: "el_inc A (elem_at arr i n x) tr = (elem_at arr (Suc i) n y, tr')"
    using el_inc_at [OF i(1), of A arr x tr] by (simp add: Let_def)
  then have "ci_inc A (elem_at arr i n x) tr = (elem_at arr (Suc i) n y, tr')" by (simp add: ci_inc_el)
  moreover have "Suc i \<le> n" using i(1) by simp
  ultimately show ?case
    using Suc.hyps(1) [OF i(2), of y tr'] s
    by (simp add: ci_visit.simps [of A "elem_at arr i n x"] visit.simps [of A "elem_at arr i n x"])
qed

lemma ci_for_range_for: "ci_for A arr n tr = range_for A arr n tr"
proof -
  obtain x tr1 where b: "it_begin A arr n tr = (elem_at arr 0 n x, tr1)"
    by (cases "el_obtain A arr 0 (int n) tr") (simp add: it_begin_def el_new_def elem_at_def)
  have e: "it_end A arr n tr' = (elem_at arr n n 0, tr')" for tr'
    by (simp add: it_end_def el_new_def el_obtain_def elem_at_def)
  have "ci_begin A arr n tr = it_begin A arr n tr" "ci_end A arr n tr' = it_end A arr n tr'" for tr'
    by (simp_all add: ci_begin_def ci_end_def it_begin_def it_end_def ci_new_el)
  then show ?thesis using ci_visit_upto [of 0 n A arr x tr1] by (simp add: ci_for_def range_for_def b e)
qed

section \<open>Iterating over a list of objects\<close>

text \<open>\<open>JBasicObjectList::Iterator\<close>: the array and the index. \<open>operator*\<close> gives a raw reference; \<open>end()\<close> has no array.\<close>

record list_iter =
  li_array :: addr
  li_index :: int

definition li_begin :: "addr \<Rightarrow> list_iter" where
  "li_begin arr = \<lparr> li_array = arr, li_index = 0 \<rparr>"

definition li_end :: "nat \<Rightarrow> list_iter" where
  "li_end len = \<lparr> li_array = 0, li_index = int len \<rparr>"

definition li_deref :: "jni_answers \<Rightarrow> list_iter \<Rightarrow> addr jni" where
  "li_deref A it tr =
     (let r = an_GetObjectArrayElement A tr (li_array it) (li_index it)
      in (r, tr @ [GetObjectArrayElement (li_array it) (li_index it) r]))"

definition li_inc :: "list_iter \<Rightarrow> list_iter" where
  "li_inc it = it\<lparr> li_index := li_index it + 1 \<rparr>"

definition li_differs :: "list_iter \<Rightarrow> list_iter \<Rightarrow> bool" where
  "li_differs it other \<longleftrightarrow> li_index it \<noteq> li_index other"

partial_function (option) li_visit :: "jni_answers \<Rightarrow> list_iter \<Rightarrow> list_iter \<Rightarrow> jtrace \<Rightarrow> (addr list \<times> jtrace) option" where
  "li_visit A it en tr =
     (if li_differs it en
      then (case li_deref A it tr of (x, tr') \<Rightarrow>
        Option.bind (li_visit A (li_inc it) en tr') (\<lambda>(xs, tr'). Some (x # xs, tr')))
      else Some ([], tr))"

text \<open>The loop visits every slot of the array, the free ones too, and the references it has read exist
  afterwards: whoever walks a list has to delete them.\<close>

lemma li_visit_from:
  assumes "0 \<notin> R"
  shows "i \<le> n \<Longrightarrow> legal R tr \<Longrightarrow> \<exists>xs ev. li_visit A \<lparr> li_array = arr, li_index = int i \<rparr> (li_end n) tr = Some (xs, tr @ ev) \<and>
    length xs = n - i \<and> lookups ev = lookup_list arr i xs \<and> legal R (tr @ ev) \<and>
    live R (tr @ ev) = live R tr \<union> (set xs - {0})"
proof (induction "n - i" arbitrary: i tr)
  case 0
  then show ?case by (intro exI [of _ "[]"]) (simp add: li_visit.simps li_differs_def li_end_def)
next
  case (Suc k)
  then have i: "i < n" "k = n - Suc i" "Suc i \<le> n" by simp_all
  define x where "x = an_GetObjectArrayElement A tr arr (int i)"
  let ?t = "tr @ [get_of arr i x]"
  have z: "0 \<notin> live R tr" using zero_not_live [OF assms] .
  have l: "legal R ?t" "live R ?t = live R tr \<union> ({x} - {0})" using Suc.prems(2) z by (auto simp: get_of_def)
  obtain xs ev where v: "li_visit A \<lparr> li_array = arr, li_index = int (Suc i) \<rparr> (li_end n) ?t = Some (xs, ?t @ ev)"
    "length xs = n - Suc i" "lookups ev = lookup_list arr (Suc i) xs" "legal R (?t @ ev)"
    "live R (?t @ ev) = live R ?t \<union> (set xs - {0})"
    using Suc.hyps(1) [OF i(2,3) l(1)] by blast
  have d: "li_differs \<lparr> li_array = arr, li_index = int i \<rparr> (li_end n)" using i(1) by (simp add: li_differs_def li_end_def)
  have "li_visit A \<lparr> li_array = arr, li_index = int i \<rparr> (li_end n) tr = Some (x # xs, tr @ (get_of arr i x # ev))"
    using v(1) d
    by (simp add: li_visit.simps [of A "\<lparr> li_array = arr, li_index = int i \<rparr>"] li_deref_def li_inc_def get_of_def x_def
        add.commute Let_def)
  moreover have "lookups (get_of arr i x # ev) = lookup_list arr i (x # xs)"
    using v(3) by (simp add: lookups_def get_of_def)
  moreover have "legal R (tr @ (get_of arr i x # ev))" using v(4) by simp
  moreover have "live R (tr @ (get_of arr i x # ev)) = live R tr \<union> (set (x # xs) - {0})"
    using v(5) l(2) by auto
  ultimately show ?case using v(2) i(1) by (intro exI [of _ "x # xs"] exI [of _ "get_of arr i x # ev"]) simp
qed

lemma list_loop_keeps_references:
  assumes "0 \<notin> R" and "legal R tr"
  shows "\<exists>xs ev. li_visit A (li_begin arr) (li_end n) tr = Some (xs, tr @ ev) \<and> length xs = n \<and>
    lookups ev = lookup_list arr 0 xs \<and> live R (tr @ ev) = live R tr \<union> (set xs - {0})"
proof -
  have "li_begin arr = \<lparr> li_array = arr, li_index = int 0 \<rparr>" by (simp add: li_begin_def)
  then show ?thesis using li_visit_from [OF assms(1) le0 assms(2), where n = n and A = A and arr = arr] by auto
qed

section \<open>Other wrappers\<close>

text \<open>Questions about objects and new global references go to \<open>JNIEnv\<close> directly, so that their result is not put into
  a scope.\<close>

definition plain_fn :: "string \<Rightarrow> jni_fn option" where
  "plain_fn f =
     (if f \<in> {''IsInstanceOf'', ''IsAssignableFrom'', ''IsSameObject'', ''NewGlobalRef'', ''NewWeakGlobalRef''}
      then Some \<lparr> fn_name = f, fn_safe = False, fn_ref = False \<rparr> else None)"

definition new_ref_fn :: "string \<Rightarrow> jni_fn option" where
  "new_ref_fn f =
     (if f \<in> {''NewLocalRef'', ''NewDirectByteBuffer''} then Some \<lparr> fn_name = f, fn_safe = False, fn_ref = True \<rparr> else None)"

definition length_fn :: jni_fn where
  "length_fn = \<lparr> fn_name = ''GetArrayLength'', fn_safe = False, fn_ref = False \<rparr>"

text \<open>\<open>JNI_NewString\<close>: the address and the length of the characters.\<close>

definition JNI_NewString :: "jni_answers \<Rightarrow> addr \<Rightarrow> nat \<Rightarrow> addr jni" where
  "JNI_NewString A data len tr =
     (let as = [ARef data, AInt (int len)]; r = an_Call A tr ''NewString'' as True
      in sr_construct r (tr @ [CallEnv ''NewString'' as True r]))"

text \<open>\<open>JNI_Cast\<close> makes a scope of another type from a scope: the result and what is left of the argument.\<close>

definition JNI_Cast :: "addr \<Rightarrow> (addr \<times> addr) jni" where
  "JNI_Cast x tr = (let (p, x) = sr_release x; (r, tr) = sr_construct p tr in ((r, x), tr))"

lemma cast_moves: "JNI_Cast x tr = ((x, 0), tr)"
  by (simp add: JNI_Cast_def sr_release_def sr_construct_def sr_reset_def)

text \<open>\<open>ThrowNewException\<close>; \<open>message\<close> is the formatted message, cut to 1023 characters when there are arguments.\<close>

definition ThrowNewException :: "jni_answers \<Rightarrow> string \<Rightarrow> string \<Rightarrow> jtrace \<Rightarrow> jtrace" where
  "ThrowNewException A exception message tr =
     (let c = an_Call A tr ''FindClass'' [AStr exception] True; tr = tr @ [CallEnv ''FindClass'' [AStr exception] True c]
      in if c = 0 then tr
         else
           (let as = [ARef c, AStr message]; r = an_Call A tr ''ThrowNew'' as False
            in tr @ [CallEnv ''ThrowNew'' as False r, DeleteLocalRef c]))"

definition exception_message :: "('a list \<Rightarrow> string) \<Rightarrow> string \<Rightarrow> 'a list \<Rightarrow> string" where
  "exception_message format fmt args = (if args \<noteq> [] then take 1023 (format args) else fmt)"

lemma throw_keeps_references:
  assumes "fresh_refs A R" and "0 \<notin> R" and "legal R tr"
  shows "legal R (ThrowNewException A exception message tr) \<and> live R (ThrowNewException A exception message tr) = live R tr"
proof -
  define c where "c = an_Call A tr ''FindClass'' [AStr exception] True"
  have c: "c \<notin> live R tr" using assms(1) by (simp add: fresh_refs_def c_def)
  have z: "0 \<notin> live R tr" using zero_not_live [OF assms(2)] .
  show ?thesis
    using assms(3) c z by (auto simp: ThrowNewException_def c_def [symmetric] live_step_def Let_def)
qed

end
