(* ===== verification/Art_Frame.thy ===== *)
theory Art_Frame
  imports Hook_API
begin

text \<open>
  What the library writes: the fields of the methods it manages, and the slot of the trampoline it makes or
  rewrites. \<open>P\<close> is any set of bytes apart from the methods, such as the code of the trampolines in use; the
  functions of the library, and the hooks on functions of ART that leave \<open>P\<close> alone, leave it alone too.
\<close>

definition frame_ok :: "art_statics \<Rightarrow> interp_entry \<Rightarrow> registry \<Rightarrow> addr set \<Rightarrow> addr set \<Rightarrow> bool" where
  "frame_ok S I R A P \<longleftrightarrow> linker_ok S I R A \<and> P \<inter> blocks S A = {}"

text \<open>A function of ART, called on methods, that leaves \<open>P\<close> alone.\<close>

definition spares :: "addr set \<Rightarrow> addr set \<Rightarrow> (addr \<Rightarrow> memory \<Rightarrow> memory) \<Rightarrow> bool" where
  "spares P A f \<longleftrightarrow> (\<forall>a \<in> A. \<forall>m. same_bytes P m (f a m))"

lemma sparesD: "spares P A f \<Longrightarrow> a \<in> A \<Longrightarrow> same_bytes P m (f a m)"
  by (simp add: spares_def)

section \<open>Fields\<close>

lemma frame_block:
  assumes "frame_ok S I R A P" "a \<in> A" "same_outside a (art_method_size S) m m'"
  shows "same_bytes P m m'"
proof (rule same_outside_bytes [OF assms(3)])
  fix x assume "x \<in> P"
  then have "x \<notin> blocks S A" using assms(1) by (auto simp: frame_ok_def)
  then show "x < a \<or> a + art_method_size S \<le> x" using assms(2) by (auto simp: blocks_def not_le)
qed

lemma frame_okD:
  assumes "frame_ok S I R A P"
  shows "linker_ok S I R A" "wf_statics S" "interp_ok S I" "separate S A" "P \<inter> blocks S A = {}"
    "IsHooked R a \<noteq> 0 \<Longrightarrow> IsHooked R a \<in> A" "t \<in> targets R \<Longrightarrow> t \<in> A"
proof -
  show lk: "linker_ok S I R A" and "P \<inter> blocks S A = {}" using assms by (simp_all add: frame_ok_def)
  note k = linker_okD [OF lk]
  show "wf_statics S" "interp_ok S I" "separate S A" "t \<in> targets R \<Longrightarrow> t \<in> A" using k by simp_all
  show "IsHooked R a \<in> A" if "IsHooked R a \<noteq> 0"
    using that IsHooked_iff [OF k(1), of a] IsHooked_target [OF k(1), of a] k(6) by blast
qed

lemma frame_fields:
  assumes ok: "frame_ok S I R A P" and a: "a \<in> A"
  shows "same_bytes P m (SetEntryPoint S a v m)" "same_bytes P m (SetData S a v m)"
    "same_bytes P m (CopyFrom S a b m)" "flags_only S a m m' \<Longrightarrow> same_bytes P m m'"
    "same_bytes P m (snd (SetEntryPointsToInterpreter S I a m))"
proof -
  note wf = frame_okD(2) [OF ok] and b = frame_block [OF ok a]
  show ep: "same_bytes P m (SetEntryPoint S a v m)" for v m by (rule b [OF SetEntryPoint_frame [OF wf]])
  show "same_bytes P m (SetData S a v m)" by (rule b [OF SetData_frame [OF wf]])
  show "same_bytes P m (CopyFrom S a b m)" by (rule b) (simp add: CopyFrom_def same_outside_memcpy)
  show "flags_only S a m m' \<Longrightarrow> same_bytes P m m'" by (rule b [OF flags_only_frame [OF wf]])
  have "same_bytes P m (f a m)" if "ip_set I = Some f" for f
    using frame_okD(3) [OF ok] that by (intro b) (simp add: interp_ok_def)
  then show "same_bytes P m (snd (SetEntryPointsToInterpreter S I a m))"
    using ep by (auto simp: SetEntryPointsToInterpreter_def split: option.split)
qed

text \<open>Two writes, and loops.\<close>

lemma frame_seq:
  "frame_ok S I R A P \<Longrightarrow> a \<in> A \<Longrightarrow> same_bytes P m m1 \<Longrightarrow> same_bytes P m (SetEntryPoint S a v m1)"
  "frame_ok S I R A P \<Longrightarrow> a \<in> A \<Longrightarrow> same_bytes P m m1 \<Longrightarrow> same_bytes P m (SetData S a v m1)"
  using same_bytes_trans frame_fields by blast+

lemma frame_fold:
  "(\<And>x m. x \<in> set xs \<Longrightarrow> same_bytes P m (f x m)) \<Longrightarrow> same_bytes P m (fold f xs m)"
  by (induction xs arbitrary: m) (auto intro: same_bytes_trans)

lemma frame_fold_snd:
  "(\<And>x s. x \<in> set xs \<Longrightarrow> same_bytes P (snd s) (snd (f x s))) \<Longrightarrow> same_bytes P (snd s) (snd (fold f xs s))"
proof (induction xs arbitrary: s)
  case (Cons x xs)
  then have "same_bytes P (snd s) (snd (f x s))" "same_bytes P (snd (f x s)) (snd (fold f xs (f x s)))" by simp_all
  then show ?case by (simp add: same_bytes_trans)
qed simp

section \<open>The hooks on ART\<close>

lemma frame_RestoreBackup:
  assumes ok: "frame_ok S I R A P" and run: "RestoreBackup S I R c self (C, m) = (C', m')"
    and A: "fst ` set (fst (PopBackup c self C)) \<subseteq> A"
  shows "same_bytes P m m'"
proof -
  have one: "same_bytes P m (restore_one S I R x m)" if "fst x \<in> A" for x m
  proof -
    obtain a old where x: "x = (a, old)" by (metis prod.exhaust)
    have s: "same_bytes P m (SetEntryPoint S a old m)" using frame_fields(1) [OF ok] that by (simp add: x)
    show ?thesis
      using s that frame_okD(6) [OF ok, of a] frame_seq(1) [OF ok] same_bytes_trans [OF s frame_fields(5) [OF ok]]
      by (auto simp: x restore_one_def Let_def)
  qed
  obtain ms where ms: "PopBackup c self C = (ms, C')" "m' = fold (restore_one S I R) ms m"
    using run by (auto simp: RestoreBackup_def split: prod.splits)
  show ?thesis unfolding ms(2) by (rule frame_fold, rule one) (use A ms(1) in auto)
qed

lemma frame_HandleMethodCodeUpdated:
  "frame_ok S I R A P \<Longrightarrow> a \<in> A \<Longrightarrow> same_bytes P m (HandleMethodCodeUpdated S R a e e' m)"
  by (auto simp: HandleMethodCodeUpdated_def Let_def frame_okD(6) frame_fields(1) frame_seq(1))

lemma frame_code_hooks:
  assumes ok: "frame_ok S I R A P" and a: "a \<in> A"
  shows "spares P A (\<lambda>a. art2 a code) \<Longrightarrow> same_bytes P m (UpdateMethodsCode_hook S R art2 a code m)"
    "spares P A (\<lambda>a. art2 a code) \<Longrightarrow> same_bytes P m (InitializeMethodsCode_hook S R art2 a code m)"
    "spares P A art \<Longrightarrow> same_bytes P m (ReinitializeMethodsCode_hook S R art a m)"
    "spares P A art \<Longrightarrow> same_bytes P m (UpdateMethodsCodeToInterpreterEntryPoint_hook S R art a m)"
proof -
  have u: "MaybeUseBackupMethod S R m a q \<in> A" for m q
    using a frame_okD(6) [OF ok, of a] by (simp add: MaybeUseBackupMethod_def Let_def)
  show "same_bytes P m (UpdateMethodsCode_hook S R art2 a code m)" if art: "spares P A (\<lambda>a. art2 a code)"
    unfolding UpdateMethodsCode_hook_def Let_def
    using same_bytes_trans [OF sparesD [OF art a] frame_HandleMethodCodeUpdated [OF ok a]] sparesD [OF art a]
    by (cases "GetEntryPoint S m a \<noteq> code") (simp_all only: if_True if_False simp_thms)
  show "spares P A (\<lambda>a. art2 a code) \<Longrightarrow> same_bytes P m (InitializeMethodsCode_hook S R art2 a code m)"
    "spares P A art \<Longrightarrow> same_bytes P m (ReinitializeMethodsCode_hook S R art a m)"
    "spares P A art \<Longrightarrow> same_bytes P m (UpdateMethodsCodeToInterpreterEntryPoint_hook S R art a m)"
    using u by (simp_all add: InitializeMethodsCode_hook_def ReinitializeMethodsCode_hook_def
        UpdateMethodsCodeToInterpreterEntryPoint_hook_def spares_def)
qed

lemma frame_updater_finish:
  assumes ok: "frame_ok S I R A P" and n: "noted S R m0 ms"
  shows "same_bytes P m (updater_finish S ms m)"
  unfolding updater_finish_def
proof (rule frame_fold)
  fix x m assume x: "x \<in> set ms"
  obtain t b d e where xe: "x = (t, b, d, e)" by (metis prod.exhaust)
  have b: "IsHooked R t = b" "b \<noteq> 0" using n x by (auto simp: noted_def xe)
  have "t \<in> targets R" using b IsHooked_nontarget [of t R] by auto
  then have "t \<in> A" by (rule frame_okD(7) [OF ok])
  moreover have "b \<in> A" using b frame_okD(6) [OF ok, of t] by simp
  ultimately show "same_bytes P m (updater_finish_one S x m)"
    using frame_fields(2) [OF ok] by (auto simp: xe updater_finish_one_def Let_def intro!: frame_seq [OF ok])
qed

lemma frame_move:
  assumes ok: "frame_ok S I R A P" and mv: "\<And>f t b m. move = Some f \<Longrightarrow> same_bytes P m (f t b m)"
    and A: "fst ` set ms \<subseteq> A" "snd ` set ms \<subseteq> A"
  shows "same_bytes P m (fold (move_one S move) ms m)"
proof (rule frame_fold)
  fix x m assume x: "x \<in> set ms"
  obtain t b where xe: "x = (t, b)" by (metis prod.exhaust)
  have "t \<in> A" "b \<in> A" using A x by (force simp: xe)+
  then show "same_bytes P m (move_one S move x m)"
    using mv frame_fields(2) [OF ok] by (auto simp: xe move_one_def Let_def intro!: frame_seq(2) [OF ok] split: option.split)
qed

subsection \<open>The boot image\<close>

lemma set_update: "x \<in> set (AList.update k v xs) \<Longrightarrow> x = (k, v) \<or> x \<in> set xs"
  by (induction xs) (auto split: if_splits)

definition saved_in :: "addr set \<Rightarrow> saved_entries \<Rightarrow> bool" where
  "saved_in A ms \<longleftrightarrow> (\<forall>(t, b, d, e) \<in> set ms. t \<in> A \<and> (b = 0 \<or> b \<in> A))"

lemma saved_in_update: "saved_in A ms \<Longrightarrow> t \<in> A \<Longrightarrow> b = 0 \<or> b \<in> A \<Longrightarrow> saved_in A (AList.update t (b, x) ms)"
  by (fastforce simp: saved_in_def dest: set_update)

lemma frame_saving:
  assumes ok: "frame_ok S I R A P" and ds: "fst ` set ds \<subseteq> A" and hs: "fst ` set hs \<subseteq> A" "snd ` set hs \<subseteq> A"
    and s1: "fold (save_deoptimized S) ds ([], m) = (ms1, m1)" and s2: "fold (save_hooked S) hs (ms1, m1) = (ms2, m2)"
  shows "saved_in A ms2" "same_bytes P m m2"
proof -
  let ?Q = "\<lambda>s. saved_in A (fst s) \<and> same_bytes P m (snd s)"
  have "?Q (fold (save_deoptimized S) ds ([], m))"
    by (rule fold_invariant [of ds "\<lambda>x. fst x \<in> A"])
      (use ds in \<open>auto simp: save_deoptimized_def saved_in_update frame_seq(1) [OF ok], simp add: saved_in_def\<close>)
  then have Q1: "?Q (ms1, m1)" by (simp add: s1)
  have "?Q (fold (save_hooked S) hs (ms1, m1))"
    by (rule fold_invariant [of hs "\<lambda>x. fst x \<in> A \<and> snd x \<in> A"])
      (use hs Q1 in \<open>auto simp: save_hooked_def saved_in_update Let_def intro!: frame_seq [OF ok]\<close>)
  then show "saved_in A ms2" "same_bytes P m m2" by (simp_all add: s2)
qed

lemma frame_put_back:
  assumes ok: "frame_ok S I R0 A P" and x: "t \<in> A" "b = 0 \<or> b \<in> A"
  shows "same_bytes P (snd s) (snd (put_back S (t, b, d, e) s))"
proof -
  obtain R m where s: "s = (R, m)" by (metis prod.exhaust)
  note f = frame_fields(1,2) [OF ok]
  show ?thesis
    using x f by (auto simp: s put_back_def Let_def intro!: frame_seq [OF ok])
qed

lemma frame_map_boot_image:
  assumes ok: "frame_ok S I R A P" and ds: "fst ` set ds \<subseteq> A" and hs: "fst ` set hs \<subseteq> A" "snd ` set hs \<subseteq> A"
    and perm: "\<And>ms. mset (order ms) = mset ms" and art: "\<And>m. same_bytes P m (art m)"
    and run: "MapBootImageMethods_hook S ds hs order art (R1, m) = (R', m')"
  shows "same_bytes P m m'"
proof -
  obtain ms1 m1 where s1: "fold (save_deoptimized S) ds ([], m) = (ms1, m1)" by (metis prod.exhaust)
  obtain ms2 m2 where s2: "fold (save_hooked S) hs (ms1, m1) = (ms2, m2)" by (metis prod.exhaust)
  note sv = frame_saving [OF ok ds hs s1 s2]
  have fin: "fold (put_back S) (order ms2) (R1, art m2) = (R', m')"
    using run by (simp add: MapBootImageMethods_hook_def s1 s2)
  have "same_bytes P (snd (R1, art m2)) (snd (fold (put_back S) (order ms2) (R1, art m2)))"
  proof (rule frame_fold_snd)
    fix x s assume "x \<in> set (order ms2)"
    have "set (order ms2) = set ms2" by (rule mset_eq_setD [OF perm])
    then have "x \<in> set ms2" using \<open>x \<in> set (order ms2)\<close> by simp
    obtain t b d e where xe: "x = (t, b, d, e)" by (metis prod.exhaust)
    have "t \<in> A \<and> (b = 0 \<or> b \<in> A)" using sv(1) \<open>x \<in> set ms2\<close> by (auto simp: saved_in_def xe)
    then show "same_bytes P (snd s) (snd (put_back S x s))"
      unfolding xe by (intro frame_put_back [OF ok]) simp_all
  qed
  then have "same_bytes P (art m2) m'" by (simp add: fin)
  then show ?thesis using same_bytes_trans [OF sv(2) same_bytes_trans [OF art]] by blast
qed

section \<open>The clients' calls\<close>

lemma scopes_ok_mono: "scopes_ok X f \<Longrightarrow> Y \<subseteq> X \<Longrightarrow> scopes_ok Y f"
  unfolding scopes_ok_def by (blast intro: same_bytes_mono)

text \<open>Patching: every byte of \<open>P\<close> is off both methods.\<close>

lemma frame_patch:
  assumes ok: "frame_ok S I R A P" and ab: "t \<in> A" "b \<in> A" "t \<noteq> b" and S: "intrinsic_ok S" "is_ptr S entry"
  shows "same_bytes P m (patch_methods S t b entry m)"
  unfolding same_bytes_def
proof
  fix x assume "x \<in> P"
  then have "x \<notin> blocks S A" using frame_okD(5) [OF ok] by auto
  then have off: "disj_ranges x 1 a (art_method_size S)" if "a \<in> A" for a
    using that by (auto simp: blocks_def disj_ranges_def not_le)
  have "same_bytes {x..<x + 1} m (patch_methods S t b entry m)"
    by (rule patch_off_code [OF frame_okD(4) [OF ok] ab S off [OF ab(1)] off [OF ab(2)]])
  then show "patch_methods S t b entry m x = m x" by (simp add: same_bytes_def)
qed

lemma frame_DoHook:
  assumes ok: "frame_ok S I R A P" and f: "scopes_ok P f" and set: "hook_setting S A f0 e p"
    and ab: "t \<in> A" "b \<in> A" "t \<noteq> b" and next_p: "next_slot (am_arch S) sc pool = (Some p, pool1)"
    and apart: "{p..<p + kTrampolineSize (am_arch S)} \<inter> P = {}"
    and run: "DoHook S H f sc (patched (am_arch S) e) e t hm b (pool, m) = (slot, pool', m')"
  shows "same_bytes P m m'"
proof -
  note d = hook_settingD [OF set]
  let ?a = "am_arch S"
  obtain m1 m2 where b: "same_bytes P m m1" "same_bytes P m2 m'"
    and body: "(case GenerateTrampolineFor ?a sc (patched ?a e) e hm (pool, m1) of
          (None, pool, m) \<Rightarrow> (0, pool, m)
        | (Some (entrypoint, slot), pool, m) \<Rightarrow> (slot, pool, patch_methods S t b entrypoint m)) =
      (slot, pool', m2)"
    by (rule in_scopes_ok [OF f run [unfolded DoHook_def]])
  obtain s3 m3 where w: "WriteTrampoline ?a (patched ?a e) e p hm m1 = (s3, m3)" by (metis prod.exhaust)
  note fr = WriteTrampoline_frame [OF d(1) _ w, simplified]
  have wr: "same_bytes P m1 m3"
  proof (rule same_outside_bytes [OF fr])
    fix x assume "x \<in> P"
    then have "x \<notin> {p..<p + kTrampolineSize ?a}" using apart by blast
    then show "x < p \<or> p + kTrampolineSize ?a \<le> x" by auto
  qed
  have "m2 = m1 \<or> m2 = patch_methods S t b p m3"
    using body next_p w by (auto simp: GenerateTrampolineFor_def split: if_splits)
  moreover have "same_bytes P m1 (patch_methods S t b p m3)"
    using same_bytes_trans [OF wr frame_patch [OF ok ab d(4,7)]] .
  ultimately have "same_bytes P m1 m2" by auto
  then show ?thesis using b same_bytes_trans by blast
qed

lemma frame_HookMethod:
  assumes ok: "frame_ok (be_S L) I R A P" and f: "scopes_ok P (le_f L)"
    and run: "HookMethod L tm ho cb s = Some (res, s')" "ho_object res \<noteq> 0"
    and ready: "hook_ready L A p s (art_method L tm) (art_method L (ho_object res))"
    and apart: "{p..<p + kTrampolineSize (am_arch (be_S L))} \<inter> P = {}"
  shows "same_bytes P (lb_m s) (lb_m s')"
proof -
  let ?t = "art_method L tm" and ?b = "art_method L (ho_object res)"
  obtain bt bargs s1 is_proxy where i: "install_hook L tm ?t ho cb is_proxy bargs bt s1 = (res, s')"
    and fr: "lb_m s1 = lb_m s" "lb_pool s1 = lb_pool s"
    by (rule HookMethod_Some [OF run])
  obtain slot pool m where d: "DoHook (be_S L) (be_H L) (le_f L) (le_sc L) (le_tramp L) (le_imm L) ?t (bt_hook bt) ?b
       (lb_pool s1, lb_m s1) = (slot, pool, m)" "lb_m s' = m"
    by (rule install_hook_Some [OF i run(2) refl])
  have r: "hook_setting (be_S L) A (le_f L) (le_imm L) p" "?t \<in> A" "?b \<in> A" "?t \<noteq> ?b"
    "le_tramp L = patched (am_arch (be_S L)) (le_imm L)"
    using ready by (auto simp: hook_ready_def)
  obtain pool1 where np: "next_slot (am_arch (be_S L)) (le_sc L) (lb_pool s) = (Some p, pool1)"
    using ready by (metis hook_ready_def prod.collapse)
  show ?thesis
    using frame_DoHook [OF ok f r(1-4) np apart d(1) [unfolded fr r(5)]] d(2) by simp
qed

lemma frame_UnHook:
  assumes ok: "frame_ok (be_S L) I (lb_R s) A P" and f: "scopes_ok P (le_f L)" and run: "UnHook L tm s = (r, s')"
  shows "same_bytes P (lb_m s) (lb_m s')"
proof -
  let ?t = "art_method L tm"
  note lk = linker_okD [OF frame_okD(1) [OF ok]]
  note u = UnHook_run [OF run refl lk(1)]
  show ?thesis
  proof (cases r)
    case True
    obtain hr pool where hr: "hooked_methods (lb_R s) ?t = Some hr"
      "DoUnHook (be_S L) (be_H L) (le_f L) ?t (hr_backup hr) (lb_pool s, lb_m s) = (True, pool, lb_m s')"
      using u(3) [OF True] by blast
    have t: "?t \<in> targets (lb_R s)" "IsHooked (lb_R s) ?t = hr_backup hr" using hr(1) by (simp_all add: targets_def IsHooked_def dom_def)
    have A: "?t \<in> A" "hr_backup hr \<in> A" "?t \<noteq> hr_backup hr"
      using lk(5,6) t IsHooked_target [OF lk(1) t(1)] IsHooked_neq_target [OF lk(1) t(1) t(1)] by auto
    obtain m1 m2 where b: "same_bytes P (lb_m s) m1" "same_bytes P m2 (lb_m s')"
      and body: "(\<lambda>(pool, m). (True, pool, unpatch_methods (be_S L) ?t (hr_backup hr) m)) (lb_pool s, m1) = (True, pool, m2)"
      by (rule in_scopes_ok [OF f hr(2) [unfolded DoUnHook_def]])
    have "same_bytes P m1 m2"
      using frame_block [OF ok A(1) unpatch_frame [OF lk(3) separate_apart [OF lk(2) A]], of m1] body by simp
    then show ?thesis using b same_bytes_trans by blast
  qed (use u(2) in simp)
qed

lemma frame_Deoptimize:
  assumes ok: "frame_ok (be_S L) (le_I L) (lb_R s) A P" and a: "art_method L tm \<in> A" and run: "Deoptimize L tm s = (r, s')"
  shows "same_bytes P (lb_m s) (lb_m s')"
proof (cases "s' = s")
  case False
  let ?a = "art_method L tm"
  let ?R = "RecordDeoptimized (class_def_of L (lb_m s) ?a) ?a (GetEntryPoint (be_S L) (lb_m s) ?a) (lb_R s)"
  let ?b = "if IsHooked (lb_R s) ?a \<noteq> 0 then IsHooked (lb_R s) ?a else ?a"
  have ih: "IsHooked ?R x = IsHooked (lb_R s) x" for x by (simp add: IsHooked_def RecordDeoptimized_def)
  have "lb_m s' = snd (SetEntryPointsToInterpreter (be_S L) (le_I L) ?b (lb_m s))"
    using run False by (auto simp: Deoptimize_def Let_def ih split: if_splits prod.splits)
  moreover have "?b \<in> A" using a frame_okD(6) [OF ok, of ?a] by simp
  ultimately show ?thesis using frame_fields(5) [OF ok] by simp
qed simp

lemma frame_MakeClassInheritable:
  assumes ok: "frame_ok (be_S L) I R A P" and run: "MakeClassInheritable L c s = (r, s')"
    and A: "art_method L ` set (jni_array (be_E L) (jni_CallObjectMethod (be_E L) c
      (rf_ids (lb_F s) ''class_get_declared_constructors''))) \<subseteq> A"
  shows "same_bytes P (lb_m s) (lb_m s')"
proof -
  have one: "same_bytes P m (make_constructor_visible (be_S L) a m)" if "a \<in> A" for a m
  proof (rule frame_fields(4) [OF ok that])
    have "flags_only (be_S L) a m (SetNonFinal (be_S L) a (SetProtected (be_S L) a m))"
      using flags_only_trans [OF flags_only_mutators(5) flags_only_mutators(6)] .
    then show "flags_only (be_S L) a m (make_constructor_visible (be_S L) a m)"
      by (simp add: make_constructor_visible_def Let_def)
  qed
  show ?thesis
    using run by (auto simp: MakeClassInheritable_def Let_def write_java_def intro!: frame_fold one split: if_splits)
      (use A in auto)
qed

end
