(* ===== verification/Art_Events.thy ===== *)
theory Art_Events
  imports Art_Frame
begin

text \<open>
  The library and ART as one transition system: ART's functions the library has hooked and the functions
  clients call, in any order. The components' theories show what each hook does; here they are composed.

  What ART does inside of a hooked function is a parameter of the step, restricted to what that function
  is for. \<open>T\<close> are the methods the client leaves alone: it neither unhooks nor deoptimizes them.
\<close>

record sys =
  sy_lib :: lib
  sy_C :: class_state

abbreviation sy_R :: "sys \<Rightarrow> registry" where "sy_R s \<equiv> lb_R (sy_lib s)"
abbreviation sy_m :: "sys \<Rightarrow> memory" where "sy_m s \<equiv> lb_m (sy_lib s)"

definition with_memory :: "memory \<Rightarrow> sys \<Rightarrow> sys" where
  "with_memory m s = s\<lparr> sy_lib := (sy_lib s)\<lparr> lb_m := m \<rparr> \<rparr>"

definition with_registry :: "registry \<times> memory \<Rightarrow> sys \<Rightarrow> sys" where
  "with_registry = (\<lambda>(R, m) s. s\<lparr> sy_lib := (sy_lib s)\<lparr> lb_R := R, lb_m := m \<rparr> \<rparr>)"

definition with_class :: "class_state \<times> memory \<Rightarrow> sys \<Rightarrow> sys" where
  "with_class = (\<lambda>(C, m) s. with_memory m (s\<lparr> sy_C := C \<rparr>))"

lemma with_simps [simp]:
  "sy_R (with_memory m s) = sy_R s" "sy_m (with_memory m s) = m" "sy_C (with_memory m s) = sy_C s"
  "sy_R (with_registry (R, m) s) = R" "sy_m (with_registry (R, m) s) = m" "sy_C (with_registry (R, m) s) = sy_C s"
  "sy_R (with_class (C, m) s) = sy_R s" "sy_m (with_class (C, m) s) = m" "sy_C (with_class (C, m) s) = C"
  by (simp_all add: with_memory_def with_registry_def with_class_def)

text \<open>The entry points of a set of methods stay the same.\<close>

definition entries_kept :: "art_statics \<Rightarrow> addr set \<Rightarrow> memory \<Rightarrow> memory \<Rightarrow> bool" where
  "entries_kept S B m m' \<longleftrightarrow> (\<forall>t \<in> B. GetEntryPoint S m' t = GetEntryPoint S m t)"

text \<open>An entry point that \<open>SetStatus\<close> saved and nobody has taken out yet.\<close>

definition pending :: "class_state \<Rightarrow> addr \<Rightarrow> addr \<Rightarrow> bool" where
  "pending C a e \<longleftrightarrow> (\<exists>(th, cl) \<in> set (cs_backup_methods C). \<exists>(c, ms) \<in> set cl. (a, e) \<in> set ms)"

section \<open>Steps\<close>

text \<open>The slot recorded for a method is that of a trampoline, apart from the methods and from \<open>P\<close>.\<close>

definition own_slot :: "lib_env \<Rightarrow> addr set \<Rightarrow> addr set \<Rightarrow> sys \<Rightarrow> addr \<Rightarrow> bool" where
  "own_slot L A P s t \<longleftrightarrow> (\<forall>r. hooked_methods (sy_R s) t = Some r \<longrightarrow>
     (\<exists>q h. tramp_at (am_arch (be_S L)) (le_imm L) (sy_m s) q (hr_slot r) h \<and> even q \<and>
        (\<forall>x \<in> A. disj_ranges q (kTrampolineSize (am_arch (be_S L))) x (art_method_size (be_S L))) \<and>
        {q..<q + kTrampolineSize (am_arch (be_S L))} \<inter> P = {}))"

definition constructors_of :: "lib_env \<Rightarrow> addr \<Rightarrow> sys \<Rightarrow> addr set" where
  "constructors_of L c s = art_method L ` set (jni_array (be_E L) (jni_CallObjectMethod (be_E L) c
     (rf_ids (lb_F (sy_lib s)) ''class_get_declared_constructors'')))"

inductive sys_step :: "lib_env \<Rightarrow> addr set \<Rightarrow> addr set \<Rightarrow> addr set \<Rightarrow> sys \<Rightarrow> sys \<Rightarrow> bool" for L A P T where
  set_status: "\<lbrakk> SetStatus_hook (be_S L) (sy_R s) art c st self (sy_C s, sy_m s) = r;
      \<And>m. same_bytes P m (art m); entries_kept (be_S L) (targets (sy_R s)) (sy_m s) (art (sy_m s)) \<rbrakk> \<Longrightarrow>
    sys_step L A P T s (with_class r s)"
| fixup_trampolines: "\<lbrakk> FixupStaticTrampolines_hook (be_S L) (le_I L) (sy_R s) art c self (sy_C s, sy_m s) = r;
      \<And>m. same_bytes P m (art m);
      entries_kept (be_S L) (targets (sy_R s) - fst ` set (fst (PopBackup c self (sy_C s)))) (sy_m s) (art (sy_m s)) \<rbrakk> \<Longrightarrow>
    sys_step L A P T s (with_class r s)"
| mark_visible: "\<lbrakk> MarkVisiblyInitialized_hook (be_S L) (le_I L) (sy_R s) art self (sy_C s, sy_m s) = r;
      \<And>m. same_bytes P m (art m);
      entries_kept (be_S L) (targets (sy_R s) - fst ` set (fst (PopBackup 0 self (sy_C s)))) (sy_m s) (art (sy_m s)) \<rbrakk> \<Longrightarrow>
    sys_step L A P T s (with_class r s)"
| update_code: "\<lbrakk> a \<in> A; spares P A (\<lambda>a. art a code); own_change (be_S L) A (\<lambda>a. art a code); is_ptr (be_S L) code;
      GetEntryPoint (be_S L) (sy_m s) a = code \<Longrightarrow> GetEntryPoint (be_S L) (art a code (sy_m s)) a = code \<rbrakk> \<Longrightarrow>
    sys_step L A P T s (with_memory (UpdateMethodsCode_hook (be_S L) (sy_R s) art a code (sy_m s)) s)"
| initialize_code: "\<lbrakk> a \<in> A; spares P A (\<lambda>a. art a code); own_change (be_S L) A (\<lambda>a. art a code);
      GetEntryPoint (be_S L) (sy_m s) a = code \<Longrightarrow> GetEntryPoint (be_S L) (art a code (sy_m s)) a = code \<rbrakk> \<Longrightarrow>
    sys_step L A P T s (with_memory (InitializeMethodsCode_hook (be_S L) (sy_R s) art a code (sy_m s)) s)"
| reinitialize_code: "\<lbrakk> a \<in> A; spares P A art; own_change (be_S L) A art; GetEntryPoint (be_S L) (sy_m s) a \<noteq> 0 \<rbrakk> \<Longrightarrow>
    sys_step L A P T s (with_memory (ReinitializeMethodsCode_hook (be_S L) (sy_R s) art a (sy_m s)) s)"
| to_interpreter: "\<lbrakk> a \<in> A; spares P A art; own_change (be_S L) A art; GetEntryPoint (be_S L) (sy_m s) a \<noteq> 0 \<rbrakk> \<Longrightarrow>
    sys_step L A P T s (with_memory (UpdateMethodsCodeToInterpreterEntryPoint_hook (be_S L) (sy_R s) art a (sy_m s)) s)"
| map_boot_image: "\<lbrakk> enumerates ds (deoptimized_methods (sy_R s)); enumerates hs (hooked_backups (sy_R s));
      \<And>ms. mset (order ms) = mset ms; \<And>m. same_bytes P m (art m);
      MapBootImageMethods_hook (be_S L) ds hs order art (sy_R s, sy_m s) = r \<rbrakk> \<Longrightarrow>
    sys_step L A P T s (with_registry r s)"
| register_natives: "\<lbrakk> ms = updater_register (be_S L) (sy_R s) (be_L L) (be_E L) (be_RT L) (sy_m s) clazz nms;
      \<And>m. same_bytes P m (snd (art m));
      entries_kept (be_S L) (targets (sy_R s) - fst ` set ms) (sy_m s) (snd (art (sy_m s)));
      RegisterNativesJNIEnv_hook (be_S L) ms art (sy_m s) = (r :: int, m') \<rbrakk> \<Longrightarrow>
    sys_step L A P T s (with_memory m' s)"
| collect_jit_cache: "\<lbrakk> \<And>f t b m. move = Some f \<Longrightarrow> entries_kept (be_S L) A m (f t b m) \<and> same_bytes P m (f t b m);
      \<And>m. entries_kept (be_S L) (targets (sy_R s)) m (art m) \<and> same_bytes P m (art m);
      GarbageCollectCache_hook (be_S L) move art (sy_R s, sy_m s) = r \<rbrakk> \<Longrightarrow>
    sys_step L A P T s (with_registry r s)"
| art_other: "entries_kept (be_S L) (targets (sy_R s)) (sy_m s) m' \<Longrightarrow> same_bytes P (sy_m s) m' \<Longrightarrow>
    sys_step L A P T s (with_memory m' s)"
| hook_added: "\<lbrakk> HookMethod L tm ho cb (sy_lib s) = Some (res, l); ho_object res \<noteq> 0;
      hook_ready L A p (sy_lib s) (art_method L tm) (art_method L (ho_object res));
      {p..<p + kTrampolineSize (am_arch (be_S L))} \<inter> P = {};
      \<And>e. \<not> pending (sy_C s) (art_method L tm) e \<rbrakk> \<Longrightarrow>
    sys_step L A P T s (s\<lparr> sy_lib := l \<rparr>)"
| hook_not_added: "\<lbrakk> HookMethod L tm ho cb (sy_lib s) = Some (res, l); ho_class res = 0 \<rbrakk> \<Longrightarrow>
    sys_step L A P T s (s\<lparr> sy_lib := l \<rparr>)"
| unhook: "\<lbrakk> UnHook L tm (sy_lib s) = (r, l); art_method L tm \<notin> T \<rbrakk> \<Longrightarrow> sys_step L A P T s (s\<lparr> sy_lib := l \<rparr>)"
| deoptimize: "\<lbrakk> Deoptimize L tm (sy_lib s) = (r, l); art_method L tm \<in> A - T \<rbrakk> \<Longrightarrow>
    sys_step L A P T s (s\<lparr> sy_lib := l \<rparr>)"
| set_enabled: "\<lbrakk> SetHookEnabled (be_S L) (be_L L) (be_E L) (lb_F (sy_lib s)) (le_tramp L) (le_imm L) tm enabled
        (sy_R s, sy_m s) = (r :: bool, R', m');
      own_slot L A P s (art_method L tm); art_method L tm \<notin> T \<rbrakk> \<Longrightarrow>
    sys_step L A P T s (with_registry (R', m') s)"
| make_inheritable: "\<lbrakk> MakeClassInheritable L c (sy_lib s) = (r, l); constructors_of L c s \<subseteq> A \<rbrakk> \<Longrightarrow>
    sys_step L A P T s (s\<lparr> sy_lib := l \<rparr>)"
| method_hidden: "MakeMethodHidden L tm (sy_lib s) = (r, l) \<Longrightarrow> sys_step L A P T s (s\<lparr> sy_lib := l \<rparr>)"
| class_hidden: "MakeClassHidden L c (sy_lib s) = (n, l) \<Longrightarrow> sys_step L A P T s (s\<lparr> sy_lib := l \<rparr>)"
| class_visible: "MakeClassVisible L c (sy_lib s) = (n, l) \<Longrightarrow> sys_step L A P T s (s\<lparr> sy_lib := l \<rparr>)"

section \<open>The invariant\<close>

text \<open>What initialization has found, and what it has to be like.\<close>

definition env_ok :: "lib_env \<Rightarrow> addr set \<Rightarrow> addr set \<Rightarrow> bool" where
  "env_ok L A P \<longleftrightarrow> real_arch (am_arch (be_S L)) \<and> separate (be_S L) A \<and> interp_ok (be_S L) (le_I L) \<and>
     le_tramp L = patched (am_arch (be_S L)) (le_imm L) \<and>
     P \<inter> blocks (be_S L) A = {} \<and> scopes_ok (blocks (be_S L) A \<union> P) (le_f L)"

lemma env_okD:
  assumes "env_ok L A P"
  shows "real_arch (am_arch (be_S L))" "separate (be_S L) A" "interp_ok (be_S L) (le_I L)"
    "le_tramp L = patched (am_arch (be_S L)) (le_imm L)" "P \<inter> blocks (be_S L) A = {}"
    "scopes_ok (blocks (be_S L) A) (le_f L)" "scopes_ok P (le_f L)"
  using assms scopes_ok_mono [of "blocks (be_S L) A \<union> P" "le_f L"] by (auto simp: env_ok_def)

definition tables_ok :: "art_statics \<Rightarrow> addr set \<Rightarrow> registry \<Rightarrow> bool" where
  "tables_ok S A R \<longleftrightarrow> reg_ok R \<and> targets R \<union> backups R \<subseteq> A \<and> (\<forall>c. saved_methods R c \<subseteq> A) \<and>
     dom (deoptimized_methods R) \<subseteq> A \<and> (\<forall>a e. deoptimized_methods R a = Some e \<longrightarrow> is_ptr S e) \<and>
     fst ` set (jit_movements R) \<subseteq> A \<and> snd ` set (jit_movements R) \<subseteq> A"

text \<open>The hooks that are safe: deoptimized methods run in the interpreter anyway.\<close>

definition live_hooks :: "registry \<Rightarrow> addr set" where
  "live_hooks R = {t \<in> targets R. \<not> IsDeoptimized R t}"

definition pending_ok :: "art_statics \<Rightarrow> addr set \<Rightarrow> sys \<Rightarrow> bool" where
  "pending_ok S A s \<longleftrightarrow> (\<forall>a e. pending (sy_C s) a e \<longrightarrow> a \<in> A \<and> is_ptr S e \<and>
     (a \<in> live_hooks (sy_R s) \<longrightarrow> e = GetEntryPoint S (sy_m s) a))"

definition sys_ok :: "lib_env \<Rightarrow> addr set \<Rightarrow> sys \<Rightarrow> bool" where
  "sys_ok L A s \<longleftrightarrow> tables_ok (be_S L) A (sy_R s) \<and> pending_ok (be_S L) A s"

text \<open>Their backups and entry points.\<close>

definition live_table :: "lib_env \<Rightarrow> sys \<Rightarrow> addr \<rightharpoonup> addr \<times> addr" where
  "live_table L s t = (if t \<in> live_hooks (sy_R s)
     then Some (IsHooked (sy_R s) t, GetEntryPoint (be_S L) (sy_m s) t) else None)"

text \<open>What a step leaves of the hooks \<open>B\<close>.\<close>

definition hooks_kept :: "lib_env \<Rightarrow> addr set \<Rightarrow> sys \<Rightarrow> sys \<Rightarrow> bool" where
  "hooks_kept L B s s' \<longleftrightarrow> (\<forall>t \<in> B. hooked_methods (sy_R s') t = hooked_methods (sy_R s) t \<and>
     (IsDeoptimized (sy_R s') t \<longleftrightarrow> IsDeoptimized (sy_R s) t) \<and>
     GetEntryPoint (be_S L) (sy_m s') t = GetEntryPoint (be_S L) (sy_m s) t)"

lemma sys_linker_ok: "env_ok L A P \<Longrightarrow> tables_ok (be_S L) A R \<Longrightarrow> linker_ok (be_S L) (le_I L) R A"
  by (simp add: env_ok_def tables_ok_def linker_ok_def)

section \<open>Saved entry points\<close>

definition class_entries :: "(addr \<times> backup_methods) list \<Rightarrow> (addr \<times> addr) set" where
  "class_entries cl = (\<Union>x \<in> set cl. set (snd x))"

definition saved_set :: "(addr \<times> (addr \<times> backup_methods) list) list \<Rightarrow> (addr \<times> addr) set" where
  "saved_set xs = (\<Union>x \<in> set xs. class_entries (snd x))"

lemma pending_iff: "pending C a e \<longleftrightarrow> (a, e) \<in> saved_set (cs_backup_methods C)"
  by (force simp: pending_def saved_set_def class_entries_def)

lemma saved_set_simps [simp]: "saved_set [] = {}" "saved_set (x # xs) = class_entries (snd x) \<union> saved_set xs"
  "class_entries [] = {}" "class_entries (y # ys) = set (snd y) \<union> class_entries ys"
  by (simp_all add: saved_set_def class_entries_def)

lemma set_al_merge: "set (al_merge xs ys) \<subseteq> set xs \<union> set ys"
proof (induction ys arbitrary: xs)
  case (Cons y ys)
  have "al_merge xs (y # ys) = al_merge (al_emplace (fst y) (snd y) xs) ys"
    by (simp add: al_merge_def case_prod_beta)
  moreover have "set (al_emplace (fst y) (snd y) xs) \<subseteq> insert y (set xs)" by (auto simp: al_emplace_def)
  ultimately show ?case using Cons.IH [of "al_emplace (fst y) (snd y) xs"] by auto
qed (simp add: al_merge_def)

lemma class_entries_erase: "class_entries (al_erase c cl) \<subseteq> class_entries cl"
  by (auto simp: class_entries_def al_erase_def)

lemma saved_set_erase: "saved_set (al_erase c xs) \<subseteq> saved_set xs"
  by (auto simp: saved_set_def al_erase_def)

lemma class_entries_mem: "map_of cl c = Some ms \<Longrightarrow> set ms \<subseteq> class_entries cl"
  by (force simp: class_entries_def dest: map_of_SomeD)

lemma pop_class_saved:
  "pop_class c xs acc = (ms, rest) \<Longrightarrow> distinct (map fst acc) \<Longrightarrow>
   set ms \<subseteq> set acc \<union> saved_set xs \<and> saved_set rest \<subseteq> saved_set xs \<and> distinct (map fst ms)"
proof (induction xs arbitrary: acc ms rest)
  case (Cons x xs)
  obtain th cl where x: "x = (th, cl)" by (metis prod.exhaust)
  define acc1 where "acc1 = (case map_of cl c of Some found \<Rightarrow> al_merge acc found | None \<Rightarrow> acc)"
  define cl1 where "cl1 = (case map_of cl c of Some found \<Rightarrow> al_erase c cl | None \<Rightarrow> cl)"
  obtain ms1 rest1 where p: "pop_class c xs acc1 = (ms1, rest1)" by (metis prod.exhaust)
  have r: "ms = ms1" "rest = (if cl1 = [] then rest1 else (th, cl1) # rest1)"
    using Cons.prems(1) p by (auto simp: x acc1_def cl1_def split: option.splits)
  have a: "set acc1 \<subseteq> set acc \<union> class_entries cl"
    using set_al_merge [of acc] class_entries_mem [of cl c] by (fastforce simp: acc1_def split: option.splits)
  have d: "distinct (map fst acc1)" using Cons.prems(2) by (auto simp: acc1_def distinct_al_merge split: option.splits)
  have c1: "class_entries cl1 \<subseteq> class_entries cl"
    using class_entries_erase [of c cl] by (auto simp: cl1_def split: option.splits)
  show ?case using Cons.IH [OF p d] a c1 by (auto simp: r x)
qed simp

lemma merge_all_saved:
  "distinct (map fst acc) \<Longrightarrow> set (fold (\<lambda>(c, ms) acc. al_merge acc ms) cl acc) \<subseteq> set acc \<union> class_entries cl \<and>
   distinct (map fst (fold (\<lambda>(c, ms) acc. al_merge acc ms) cl acc))"
proof (induction cl arbitrary: acc)
  case (Cons y cl)
  obtain c ms where y: "y = (c, ms)" by (metis prod.exhaust)
  show ?case using Cons.IH [OF distinct_al_merge [OF Cons.prems, of ms]] set_al_merge [of acc ms] by (auto simp: y)
qed simp

lemma PopBackup_saved:
  assumes "PopBackup c self C = (ms, C')"
  shows "set ms \<subseteq> saved_set (cs_backup_methods C)" "saved_set (cs_backup_methods C') \<subseteq> saved_set (cs_backup_methods C)"
    "distinct (map fst ms)"
proof -
  have "set ms \<subseteq> saved_set (cs_backup_methods C) \<and> saved_set (cs_backup_methods C') \<subseteq> saved_set (cs_backup_methods C) \<and>
    distinct (map fst ms)"
  proof (cases "cs_backup_methods C = [] \<or> c = 0")
    case False
    then show ?thesis
      using assms pop_class_saved [of c "cs_backup_methods C" "[]"] by (auto simp: PopBackup_def split: prod.splits)
  next
    case True
    show ?thesis
    proof (cases "map_of (cs_backup_methods C) self")
      case (Some cl)
      then have "class_entries cl \<subseteq> saved_set (cs_backup_methods C)"
        by (force simp: saved_set_def dest: map_of_SomeD)
      then show ?thesis
        using assms True Some merge_all_saved [of "[]" cl] saved_set_erase [of self "cs_backup_methods C"]
        by (auto simp: PopBackup_def split: if_splits)
    qed (use assms True in \<open>auto simp: PopBackup_def split: if_splits\<close>)
  qed
  then show "set ms \<subseteq> saved_set (cs_backup_methods C)" "distinct (map fst ms)"
    "saved_set (cs_backup_methods C') \<subseteq> saved_set (cs_backup_methods C)" by blast+
qed

lemma BackupClassMethods_saved:
  "saved_set (cs_backup_methods (BackupClassMethods S R m c self C)) \<subseteq>
   saved_set (cs_backup_methods C) \<union> set (saved S R m c)"
proof -
  let ?old = "case map_of (cs_backup_methods C) self of Some x \<Rightarrow> x | None \<Rightarrow> []"
  let ?out = "saved S R m c"
  have old: "class_entries ?old \<subseteq> saved_set (cs_backup_methods C)"
  proof (cases "map_of (cs_backup_methods C) self")
    case (Some cl)
    then show ?thesis by (force simp: saved_set_def dest: map_of_SomeD)
  qed simp
  have new: "class_entries (al_emplace c ?out ?old) \<subseteq> class_entries ?old \<union> set ?out"
    by (auto simp: al_emplace_def class_entries_def)
  have upd: "saved_set (AList.update self v xs) \<subseteq> class_entries v \<union> saved_set xs" for v xs
    by (induction xs) auto
  show ?thesis
    using upd [of "al_emplace c ?out ?old" "cs_backup_methods C"] old new
    by (auto simp: BackupClassMethods_def Let_def saved_def [symmetric])
qed

section \<open>Steps that keep the tables\<close>

text \<open>What has to be shown of a step.\<close>

definition step_ok :: "lib_env \<Rightarrow> addr set \<Rightarrow> addr set \<Rightarrow> sys \<Rightarrow> sys \<Rightarrow> bool" where
  "step_ok L A T s s' \<longleftrightarrow> sys_ok L A s' \<and> hooks_kept L (T \<inter> live_hooks (sy_R s)) s s'"

lemma sys_okD:
  assumes "sys_ok L A s"
  shows "tables_ok (be_S L) A (sy_R s)" "pending (sy_C s) a e \<Longrightarrow> a \<in> A" "pending (sy_C s) a e \<Longrightarrow> is_ptr (be_S L) e"
    "pending (sy_C s) a e \<Longrightarrow> a \<in> live_hooks (sy_R s) \<Longrightarrow> e = GetEntryPoint (be_S L) (sy_m s) a"
  using assms by (auto simp: sys_ok_def pending_ok_def)

lemma tables_okD:
  assumes "tables_ok S A R"
  shows "reg_ok R" "t \<in> targets R \<Longrightarrow> t \<in> A" "b \<in> backups R \<Longrightarrow> b \<in> A" "saved_methods R c \<subseteq> A"
    "deoptimized_methods R a = Some e \<Longrightarrow> is_ptr S e" "dom (deoptimized_methods R) \<subseteq> A"
    "fst ` set (jit_movements R) \<subseteq> A" "snd ` set (jit_movements R) \<subseteq> A"
  using assms by (auto simp: tables_ok_def)

lemma live_target: "t \<in> live_hooks R \<Longrightarrow> t \<in> targets R"
  by (simp add: live_hooks_def)

lemma step_okI:
  assumes s: "sys_ok L A s" and tab: "tables_ok (be_S L) A (sy_R s')"
    and pend: "\<And>a e. pending (sy_C s') a e \<Longrightarrow> pending (sy_C s) a e \<or>
      a \<in> A \<and> is_ptr (be_S L) e \<and> (a \<in> targets (sy_R s) \<longrightarrow> e = GetEntryPoint (be_S L) (sy_m s) a)"
    and live: "\<And>t e. t \<in> live_hooks (sy_R s') \<Longrightarrow> pending (sy_C s') t e \<Longrightarrow> t \<in> live_hooks (sy_R s)"
    and entry: "\<And>t. t \<in> live_hooks (sy_R s) \<Longrightarrow> t \<in> live_hooks (sy_R s') \<or> t \<in> T \<Longrightarrow>
      GetEntryPoint (be_S L) (sy_m s') t = GetEntryPoint (be_S L) (sy_m s) t"
    and tables: "\<And>t. t \<in> T \<Longrightarrow> t \<in> live_hooks (sy_R s) \<Longrightarrow>
      hooked_methods (sy_R s') t = hooked_methods (sy_R s) t \<and> (IsDeoptimized (sy_R s') t \<longleftrightarrow> IsDeoptimized (sy_R s) t)"
  shows "step_ok L A T s s'"
proof -
  have "a \<in> A \<and> is_ptr (be_S L) e \<and> (a \<in> live_hooks (sy_R s') \<longrightarrow> e = GetEntryPoint (be_S L) (sy_m s') a)"
    if p: "pending (sy_C s') a e" for a e
  proof -
    have "a \<in> A" "is_ptr (be_S L) e" using pend [OF p] sys_okD(2,3) [OF s] by blast+
    moreover have "e = GetEntryPoint (be_S L) (sy_m s') a" if l: "a \<in> live_hooks (sy_R s')"
      using pend [OF p] sys_okD(4) [OF s _ live [OF l p]] entry [OF live [OF l p]] l live_target [OF live [OF l p]]
      by auto
    ultimately show ?thesis by blast
  qed
  then show ?thesis
    using tab entry tables by (simp add: step_ok_def sys_ok_def pending_ok_def hooks_kept_def)
qed

text \<open>Most steps change the memory only.\<close>

lemma step_memoryI:
  assumes "sys_ok L A s" and "sy_R s' = sy_R s"
    and "\<And>a e. pending (sy_C s') a e \<Longrightarrow> pending (sy_C s) a e \<or>
      a \<in> A \<and> is_ptr (be_S L) e \<and> (a \<in> targets (sy_R s) \<longrightarrow> e = GetEntryPoint (be_S L) (sy_m s) a)"
    and "\<And>t. t \<in> live_hooks (sy_R s) \<Longrightarrow> GetEntryPoint (be_S L) (sy_m s') t = GetEntryPoint (be_S L) (sy_m s) t"
  shows "step_ok L A T s s'"
  by (rule step_okI [OF assms(1)]) (use assms sys_okD(1) [OF assms(1)] in auto)

lemma step_set_status:
  assumes s: "sys_ok L A s" and run: "SetStatus_hook (be_S L) (sy_R s) art c st self (sy_C s, sy_m s) = (C', m')"
    and art: "entries_kept (be_S L) (targets (sy_R s)) (sy_m s) (art (sy_m s))"
  shows "step_ok L A T s (with_class (C', m') s)"
proof (rule step_memoryI [OF s])
  let ?sv = "saved (be_S L) (sy_R s) (sy_m s) c"
  have m': "m' = art (sy_m s)" and C': "C' = sy_C s \<or> C' = BackupClassMethods (be_S L) (sy_R s) (sy_m s) c self (sy_C s)"
    using run by (auto simp: SetStatus_hook_def Let_def split: if_splits)
  show "GetEntryPoint (be_S L) (sy_m (with_class (C', m') s)) t = GetEntryPoint (be_S L) (sy_m s) t"
    if "t \<in> live_hooks (sy_R s)" for t
    using art live_target [OF that] by (simp add: m' entries_kept_def)
  fix a e assume p: "pending (sy_C (with_class (C', m') s)) a e"
  have "(a, e) \<in> set ?sv \<Longrightarrow> a \<in> A \<and> is_ptr (be_S L) e \<and> e = GetEntryPoint (be_S L) (sy_m s) a"
  proof -
    assume mem: "(a, e) \<in> set ?sv"
    have "map_of ?sv a = Some e" using mem distinct_saved by simp
    then have "e = GetEntryPoint (be_S L) (sy_m s) a" by (simp add: saved_spec split: if_splits)
    moreover have "a \<in> A" using saved_keys mem tables_okD(4) [OF sys_okD(1) [OF s]] by force
    ultimately show ?thesis by simp
  qed
  then show "pending (sy_C s) a e \<or> a \<in> A \<and> is_ptr (be_S L) e \<and>
      (a \<in> targets (sy_R s) \<longrightarrow> e = GetEntryPoint (be_S L) (sy_m s) a)"
    using p C' BackupClassMethods_saved [of "be_S L" "sy_R s" "sy_m s" c self "sy_C s"] by (auto simp: pending_iff)
qed simp

lemma step_restore:
  assumes env: "env_ok L A P" and s: "sys_ok L A s"
    and run: "RestoreBackup (be_S L) (le_I L) (sy_R s) c self (sy_C s, art (sy_m s)) = (C', m')"
    and art: "entries_kept (be_S L) (targets (sy_R s) - fst ` set (fst (PopBackup c self (sy_C s)))) (sy_m s) (art (sy_m s))"
  shows "step_ok L A T s (with_class (C', m') s)"
proof (rule step_memoryI [OF s])
  note lk = sys_linker_ok [OF env sys_okD(1) [OF s]]
  obtain ms where pop: "PopBackup c self (sy_C s) = (ms, C')"
    and m': "m' = fold (restore_one (be_S L) (le_I L) (sy_R s)) ms (art (sy_m s))"
    using run by (auto simp: RestoreBackup_def split: prod.splits)
  note sv = PopBackup_saved [OF pop]
  have p: "(a, e) \<in> set ms \<Longrightarrow> pending (sy_C s) a e" for a e using sv(1) by (auto simp: pending_iff)
  have keys: "fst ` set ms \<subseteq> A" "\<forall>(a, old) \<in> set ms. is_ptr (be_S L) old"
    using p sys_okD(2,3) [OF s] by fastforce+
  show "pending (sy_C (with_class (C', m') s)) a e \<Longrightarrow> pending (sy_C s) a e \<or> a \<in> A \<and> is_ptr (be_S L) e \<and>
      (a \<in> targets (sy_R s) \<longrightarrow> e = GetEntryPoint (be_S L) (sy_m s) a)" for a e
    using sv(2) by (auto simp: pending_iff)
  fix t assume t: "t \<in> live_hooks (sy_R s)"
  show "GetEntryPoint (be_S L) (sy_m (with_class (C', m') s)) t = GetEntryPoint (be_S L) (sy_m s) t"
  proof (cases "map_of ms t")
    case None
    then have "t \<notin> fst ` set ms" by (metis map_of_eq_None_iff)
    then show ?thesis
      using restore_all_entry [OF lk keys sv(3) live_target [OF t], of "art (sy_m s)"] art live_target [OF t] None
      by (simp add: m' pop entries_kept_def)
  next
    case (Some old)
    then show ?thesis
      using restore_all_entry [OF lk keys sv(3) live_target [OF t], of "art (sy_m s)"]
        sys_okD(4) [OF s p t] map_of_SomeD [OF Some] by (simp add: m')
  qed
qed simp

text \<open>Steps that leave the saved entry points alone, and the table of hooks.\<close>

lemma step_memory:
  assumes s: "sys_ok L A s"
    and e: "\<And>t. t \<in> targets (sy_R s) \<Longrightarrow> \<not> IsDeoptimized (sy_R s) t \<Longrightarrow>
      GetEntryPoint (be_S L) m' t = GetEntryPoint (be_S L) (sy_m s) t"
  shows "step_ok L A T s (with_memory m' s)"
  by (rule step_memoryI [OF s]) (use e in \<open>auto simp: live_hooks_def\<close>)

lemma step_registry:
  assumes s: "sys_ok L A s" and tab: "tables_ok (be_S L) A R'"
    and R': "hooked_methods R' = hooked_methods (sy_R s)" "dom (deoptimized_methods R') = dom (deoptimized_methods (sy_R s))"
    and e: "\<And>t. t \<in> targets (sy_R s) \<Longrightarrow> \<not> IsDeoptimized (sy_R s) t \<Longrightarrow>
      GetEntryPoint (be_S L) m' t = GetEntryPoint (be_S L) (sy_m s) t"
  shows "step_ok L A T s (with_registry (R', m') s)"
proof -
  have d: "IsDeoptimized R' t \<longleftrightarrow> IsDeoptimized (sy_R s) t" for t
    using R'(2) by (auto simp: IsDeoptimized_def dom_def set_eq_iff)
  show ?thesis
    by (rule step_okI [OF s]) (use tab R' e in \<open>auto simp: live_hooks_def targets_def d\<close>)
qed

lemma step_update_code:
  assumes env: "env_ok L A P" and s: "sys_ok L A s" and a: "a \<in> A" and art: "own_change (be_S L) A (\<lambda>a. art a code)"
    and code: "is_ptr (be_S L) code"
    and same: "GetEntryPoint (be_S L) (sy_m s) a = code \<Longrightarrow> GetEntryPoint (be_S L) (art a code (sy_m s)) a = code"
  shows "step_ok L A T s (with_memory (UpdateMethodsCode_hook (be_S L) (sy_R s) art a code (sy_m s)) s)"
proof (rule step_memory [OF s])
  note lk = sys_linker_ok [OF env sys_okD(1) [OF s]]
  fix t assume t: "t \<in> targets (sy_R s)"
  have tA: "t \<in> A" "IsHooked (sy_R s) a \<noteq> t" if "a \<in> targets (sy_R s)"
    using t that linker_okD(5) [OF lk] IsHooked_neq_target [OF linker_okD(1) [OF lk]] by blast+
  have tA': "t \<in> A" using linker_okD(5) [OF lk t] .
  show "GetEntryPoint (be_S L) (UpdateMethodsCode_hook (be_S L) (sy_R s) art a code (sy_m s)) t =
      GetEntryPoint (be_S L) (sy_m s) t"
  proof (cases "GetEntryPoint (be_S L) (sy_m s) a = code")
    case True
    then show ?thesis
      using same touchesD(1) [OF own_changeD [OF art a] tA', of "sy_m s"]
      by (cases "t = a") (simp_all add: UpdateMethodsCode_hook_def Let_def)
  next
    case False
    then show ?thesis
      using update_code_spec [OF lk a, of art code, OF art code False tA' refl] tA t touchesD(1) [OF own_changeD [OF art a] tA', of "sy_m s"]
      by (cases "t = a") auto
  qed
qed

lemma step_initialize_code:
  assumes env: "env_ok L A P" and s: "sys_ok L A s" and a: "a \<in> A" and art: "own_change (be_S L) A (\<lambda>a. art a code)"
    and same: "GetEntryPoint (be_S L) (sy_m s) a = code \<Longrightarrow> GetEntryPoint (be_S L) (art a code (sy_m s)) a = code"
  shows "step_ok L A T s (with_memory (InitializeMethodsCode_hook (be_S L) (sy_R s) art a code (sy_m s)) s)"
proof (rule step_memory [OF s])
  note lk = sys_linker_ok [OF env sys_okD(1) [OF s]]
  fix t assume t: "t \<in> targets (sy_R s)"
  have tA: "t \<in> A" using linker_okD(5) [OF lk t] .
  show "GetEntryPoint (be_S L) (InitializeMethodsCode_hook (be_S L) (sy_R s) art a code (sy_m s)) t =
      GetEntryPoint (be_S L) (sy_m s) t"
  proof (cases "GetEntryPoint (be_S L) (sy_m s) a = code")
    case True
    then show ?thesis
      using same touchesD(1) [OF own_changeD [OF art a] tA, of "sy_m s"]
      by (cases "t = a") (simp_all add: InitializeMethodsCode_hook_def MaybeUseBackupMethod_def Let_def)
  next
    case False
    show ?thesis using reinitialize_keeps_hooks [OF lk a t False, of art, OF art] by (simp add: same_method_def)
  qed
qed

lemma step_no_code:
  assumes env: "env_ok L A P" and s: "sys_ok L A s" and a: "a \<in> A" and art: "own_change (be_S L) A art"
    and nz: "GetEntryPoint (be_S L) (sy_m s) a \<noteq> 0"
  shows "step_ok L A T s (with_memory (ReinitializeMethodsCode_hook (be_S L) (sy_R s) art a (sy_m s)) s)"
    "step_ok L A T s (with_memory (UpdateMethodsCodeToInterpreterEntryPoint_hook (be_S L) (sy_R s) art a (sy_m s)) s)"
  by (rule step_memory [OF s];
      use reinitialize_keeps_hooks_no_code [OF sys_linker_ok [OF env sys_okD(1) [OF s]] a _ nz art] in
        \<open>simp add: same_method_def\<close>)+

lemma step_register_natives:
  assumes env: "env_ok L A P" and s: "sys_ok L A s"
    and ms: "ms = updater_register (be_S L) (sy_R s) (be_L L) (be_E L) (be_RT L) (sy_m s) clazz nms"
    and art: "entries_kept (be_S L) (targets (sy_R s) - fst ` set ms) (sy_m s) (snd (art (sy_m s)))"
    and run: "RegisterNativesJNIEnv_hook (be_S L) ms art (sy_m s) = (r, m')"
  shows "step_ok L A T s (with_memory m' s)"
proof (rule step_memory [OF s])
  note lk = sys_linker_ok [OF env sys_okD(1) [OF s]]
  have n: "noted (be_S L) (sy_R s) (sy_m s) ms" unfolding ms by (rule noted_register)
  have m': "m' = updater_finish (be_S L) ms (snd (art (sy_m s)))"
    using run by (auto simp: RegisterNativesJNIEnv_hook_def split: prod.splits)
  fix t assume t: "t \<in> targets (sy_R s)"
  note f = finish_fields [OF lk n t, of "snd (art (sy_m s))", folded m']
  show "GetEntryPoint (be_S L) m' t = GetEntryPoint (be_S L) (sy_m s) t"
  proof (cases "map_of ms t")
    case None
    then have "t \<notin> fst ` set ms" by (metis map_of_eq_None_iff)
    then show ?thesis using f None art t by (simp add: entries_kept_def)
  next
    case (Some x)
    then show ?thesis using f n map_of_SomeD [OF Some] by (cases x) (auto simp: noted_def)
  qed
qed

subsection \<open>The JIT\<close>

lemma put_back_tables:
  assumes "put_back S x (R, m) = (R', m')"
  shows "R' = R\<lparr> deoptimized_methods := deoptimized_methods R' \<rparr>"
    "dom (deoptimized_methods R') \<subseteq> insert (fst x) (dom (deoptimized_methods R))"
    "dom (deoptimized_methods R) \<subseteq> dom (deoptimized_methods R')"
    "fst (snd x) \<noteq> 0 \<Longrightarrow> R' = R"
    "deoptimized_methods R' a = Some e \<Longrightarrow> deoptimized_methods R a = Some e \<or> is_ptr S e"
  using assms by (cases x; auto simp: put_back_def Let_def split: if_splits)+

lemma put_back_all_tables:
  assumes "fold (put_back S) ms (R, m) = (R', m')" "\<forall>(a, b, d, e) \<in> set ms. b = 0 \<longrightarrow> IsDeoptimized R a"
  shows "R' = R\<lparr> deoptimized_methods := deoptimized_methods R' \<rparr> \<and>
    dom (deoptimized_methods R') = dom (deoptimized_methods R) \<and>
    (\<forall>a e. deoptimized_methods R' a = Some e \<longrightarrow> deoptimized_methods R a = Some e \<or> is_ptr S e)"
  using assms
proof (induction ms arbitrary: R m)
  case (Cons x ms)
  obtain R1 m1 where x: "put_back S x (R, m) = (R1, m1)" by (metis prod.exhaust)
  note p = put_back_tables [OF x]
  have d: "dom (deoptimized_methods R1) = dom (deoptimized_methods R)"
    using p(2-4) Cons.prems(2) by (cases "fst (snd x) = 0") (auto simp: IsDeoptimized_def case_prod_beta)
  have nd: "IsDeoptimized R1 a = IsDeoptimized R a" for a using d by (auto simp: IsDeoptimized_def dom_def set_eq_iff)
  have "fold (put_back S) ms (R1, m1) = (R', m')" using Cons.prems(1) x by simp
  from Cons.IH [OF this] have IH: "R' = R1\<lparr> deoptimized_methods := deoptimized_methods R' \<rparr>"
    "dom (deoptimized_methods R') = dom (deoptimized_methods R1)"
    "\<And>a e. deoptimized_methods R' a = Some e \<Longrightarrow> deoptimized_methods R1 a = Some e \<or> is_ptr S e"
    using Cons.prems(2) nd by auto
  have "R' = R\<lparr> deoptimized_methods := deoptimized_methods R' \<rparr>"
    using IH(1) p(1) by (metis registry.update_convs(4) registry.surjective)
  then show ?case using IH(2,3) p(5) d by blast
qed simp

lemma save_hooked_zero:
  "(a, 0, d, e) \<in> set (fst (fold (save_hooked S) hs (ms, m))) \<Longrightarrow> \<forall>(t, b) \<in> set hs. b \<noteq> 0 \<Longrightarrow> (a, 0, d, e) \<in> set ms"
proof (induction hs arbitrary: ms m)
  case (Cons x hs)
  obtain t b where x: "x = (t, b)" by (metis prod.exhaust)
  obtain m1 where "save_hooked S x (ms, m) = (AList.update t (b, GetData S m t, GetEntryPoint S m t) ms, m1)"
    by (simp add: x save_hooked_def)
  then have "(a, 0, d, e) \<in> set (AList.update t (b, GetData S m t, GetEntryPoint S m t) ms)"
    using Cons by simp
  then show ?case using set_update Cons.prems(2) by (fastforce simp: x)
qed simp

lemma map_boot_image_tables:
  assumes ds: "enumerates ds (deoptimized_methods R)" and hs: "enumerates hs (hooked_backups R)" and R: "reg_ok R"
    and perm: "\<And>ms. mset (order ms) = mset ms"
    and run: "MapBootImageMethods_hook S ds hs order art (R, m) = (R', m')"
  shows "R' = R\<lparr> deoptimized_methods := deoptimized_methods R' \<rparr> \<and>
    dom (deoptimized_methods R') = dom (deoptimized_methods R) \<and>
    (\<forall>a e. deoptimized_methods R' a = Some e \<longrightarrow> deoptimized_methods R a = Some e \<or> is_ptr S e)"
proof -
  obtain ms1 m1 where s1: "fold (save_deoptimized S) ds ([], m) = (ms1, m1)" by (metis prod.exhaust)
  obtain ms2 m2 where s2: "fold (save_hooked S) hs (ms1, m1) = (ms2, m2)" by (metis prod.exhaust)
  have fin: "fold (put_back S) (order ms2) (R, art m2) = (R', m')"
    using run by (simp add: MapBootImageMethods_hook_def s1 s2)
  have nz: "\<forall>(t, b) \<in> set hs. b \<noteq> 0"
    using enumerates_mem [OF hs] hooked_backups_iff [of R] IsHooked_target [OF R] by blast
  have "IsDeoptimized R a" if "(a, 0, d, e) \<in> set ms2" for a d e
  proof -
    have "(a, 0, d, e) \<in> set ms1"
      using save_hooked_zero [of a d e S hs ms1 m1] that nz by (simp add: s2)
    then have "a \<in> fst ` set ms1" by force
    then have "a \<in> fst ` set ds" using saved_keys1 [of S ds "[]" m] by (simp add: s1)
    then show ?thesis using enumerates_mem [OF ds] by (auto simp: IsDeoptimized_def)
  qed
  then show ?thesis
    using mset_eq_setD [OF perm, of ms2] by (intro put_back_all_tables [OF fin]) auto
qed

lemma step_map_boot_image:
  assumes env: "env_ok L A P" and s: "sys_ok L A s"
    and ds: "enumerates ds (deoptimized_methods (sy_R s))" and hs: "enumerates hs (hooked_backups (sy_R s))"
    and perm: "\<And>ms. mset (order ms) = mset ms"
    and run: "MapBootImageMethods_hook (be_S L) ds hs order art (sy_R s, sy_m s) = (R', m')"
  shows "step_ok L A T s (with_registry (R', m') s)"
proof -
  note tab = sys_okD(1) [OF s] and lk = sys_linker_ok [OF env sys_okD(1) [OF s]]
  note t = map_boot_image_tables [OF ds hs tables_okD(1) [OF tab] perm run]
  define D where "D = deoptimized_methods R'"
  have R': "R' = (sy_R s)\<lparr> deoptimized_methods := D \<rparr>" and D: "dom D = dom (deoptimized_methods (sy_R s))"
    "\<And>a e. D a = Some e \<Longrightarrow> is_ptr (be_S L) e"
    using t tables_okD(5) [OF tab] unfolding D_def by blast+
  have boot: "boot_ok (be_S L) (le_I L) (sy_R s) A ds hs order"
    using lk ds hs perm tables_okD(5,6) [OF tab] by (simp add: boot_ok_def)
  have "tables_ok (be_S L) A R'"
    using tab D by (simp add: R' tables_ok_def reg_ok_def reg_inv_def targets_def backups_def saved_methods_def)
  then show ?thesis
  proof (rule step_registry [OF s])
    show "hooked_methods R' = hooked_methods (sy_R s)" "dom (deoptimized_methods R') = dom (deoptimized_methods (sy_R s))"
      using D(1) by (simp_all add: R')
    show "GetEntryPoint (be_S L) m' t = GetEntryPoint (be_S L) (sy_m s) t"
      if "t \<in> targets (sy_R s)" "\<not> IsDeoptimized (sy_R s) t" for t
      using map_boot_image_entry(1) [OF boot boot_okD(2) [OF boot that(1)] run that(1)] that(2)
      by (simp add: IsDeoptimized_def)
  qed
qed

lemma move_all_entry:
  assumes sep: "separate S A" and f: "\<And>f t b m. move = Some f \<Longrightarrow> entries_kept S A m (f t b m)"
    and ms: "fst ` set ms \<subseteq> A" "snd ` set ms \<subseteq> A" and c: "c \<in> A"
  shows "GetEntryPoint S (fold (move_one S move) ms m) c = GetEntryPoint S m c"
  using ms
proof (induction ms arbitrary: m)
  case (Cons x ms)
  obtain t b where x: "x = (t, b)" by (metis prod.exhaust)
  have A: "t \<in> A" "b \<in> A" using Cons.prems by (simp_all add: x)
  have z: "is_ptr S 0" by (simp add: is_ptr_def)
  have "GetEntryPoint S (move_one S move x m) c = GetEntryPoint S m c"
    using f c other_SetData(1) [OF sep A(1) c] other_SetData(1) [OF sep A(2) c]
    by (auto simp: move_one_def x entries_kept_def Let_def split: option.split)
  then show ?case using Cons.IH [of "move_one S move x m"] Cons.prems by simp
qed simp

lemma step_collect:
  assumes env: "env_ok L A P" and s: "sys_ok L A s"
    and f: "\<And>f t b m. move = Some f \<Longrightarrow> entries_kept (be_S L) A m (f t b m)"
    and art: "\<And>m. entries_kept (be_S L) (targets (sy_R s)) m (art m)"
    and run: "GarbageCollectCache_hook (be_S L) move art (sy_R s, sy_m s) = (R', m')"
  shows "step_ok L A T s (with_registry (R', m') s)"
proof -
  note tab = sys_okD(1) [OF s]
  note sep = env_okD(2) [OF env]
  have R': "R' = (sy_R s)\<lparr> jit_movements := [] \<rparr>"
    and m': "m' = art (fold (move_one (be_S L) move) (jit_movements (sy_R s)) (sy_m s))"
    using run by (auto simp: GarbageCollectCache_hook_def MoveObsoleteMethods_def GetJitMovements_def)
  have mv: "GetEntryPoint (be_S L) (fold (move_one (be_S L) move) (jit_movements (sy_R s)) (sy_m s)) c =
      GetEntryPoint (be_S L) (sy_m s) c" if "c \<in> A" for c
    by (rule move_all_entry [OF sep _ tables_okD(7,8) [OF tab] that]) (rule f)
  have "tables_ok (be_S L) A R'"
    using tab by (simp add: R' tables_ok_def reg_ok_def reg_inv_def targets_def backups_def saved_methods_def)
  then show ?thesis
    by (rule step_registry [OF s])
      (use art mv tables_okD(2) [OF tab] in \<open>simp_all add: R' m' entries_kept_def\<close>)
qed

section \<open>Steps of the clients\<close>

lemma class_members_erase_sub: "class_members (class_erase m d u) c \<subseteq> class_members m c"
  by (auto simp: class_members_def class_erase_def Let_def split: option.splits)

lemma saved_add_hook: "saved_methods (add_hook t b x R) c \<subseteq> saved_methods R c \<union> {t, b}"
  by (auto simp: saved_methods_def add_hook_def RecordHooked_def RecordJitMovement_def RecordDeoptimized_def Let_def
      class_members_emplace)

lemma jit_add_hook: "set (jit_movements (add_hook t b x R)) \<subseteq> insert (t, b) (set (jit_movements R))"
  by (auto simp: add_hook_def RecordHooked_def RecordJitMovement_def RecordDeoptimized_def Let_def)

lemma tables_add_hook:
  assumes tab: "tables_ok S A R" and n: "hooked_methods R t = None" "backuped_methods R b = None"
    and ok: "reg_ok (add_hook t b x R)" and A: "t \<in> A" "b \<in> A" and x: "is_ptr S (hi_entry x)"
  shows "tables_ok S A (add_hook t b x R)"
proof -
  note f = add_hook_tables [OF n, of x]
  have "targets (add_hook t b x R) \<union> backups (add_hook t b x R) \<subseteq> A"
    using tab A by (auto simp: targets_def backups_def f tables_ok_def)
  moreover have "dom (deoptimized_methods (add_hook t b x R)) \<subseteq> A"
    using tables_okD(6) [OF tab] A(2) by (auto simp: f dest: emplace_Some)
  moreover have "is_ptr S e" if "deoptimized_methods (add_hook t b x R) a = Some e" for a e
    using that tables_okD(5) [OF tab] x emplace_Some by (metis f(3))
  moreover have "saved_methods (add_hook t b x R) c \<subseteq> A" for c
    using saved_add_hook [of t b x R c] tables_okD(4) [OF tab, of c] A by blast
  moreover have "fst ` set (jit_movements (add_hook t b x R)) \<subseteq> A" "snd ` set (jit_movements (add_hook t b x R)) \<subseteq> A"
    using jit_add_hook [of t b x R] tables_okD(7,8) [OF tab] A by fastforce+
  ultimately show ?thesis using ok by (simp add: tables_ok_def)
qed

text \<open>What \<open>HookMethod\<close> records for the backup is an entry point.\<close>

lemma hook_entry_ptr:
  assumes run: "HookMethod L tm ho cb s = Some (res, s')" "ho_object res \<noteq> 0"
  shows "\<exists>x. lb_R s' = add_hook (art_method L tm) (art_method L (ho_object res)) x (lb_R s) \<and> is_ptr (be_S L) (hi_entry x)"
proof -
  let ?t = "art_method L tm"
  obtain bt bargs s1 is_proxy where i: "install_hook L tm ?t ho cb is_proxy bargs bt s1 = (res, s')"
    and R1: "lb_R s1 = lb_R s"
    by (rule HookMethod_Some [OF run])
  obtain slot m bp where R: "lb_R s' = add_hook ?t (art_method L (ho_object res)) \<lparr> hi_hook = bt_hook bt,
       hi_class_def = class_def_of L m ?t, hi_slot = slot, hi_backup_method = bp, hi_proxy = is_proxy,
       hi_hook_class_def = class_def_of L m (bt_hook bt),
       hi_entry = GetEntryPoint (be_S L) m (art_method L (ho_object res)) \<rparr> (lb_R s1)"
    by (rule install_hook_Some [OF i run(2) refl])
  then show ?thesis by (intro exI conjI) (assumption | simp add: R1)+
qed

lemma step_hook:
  assumes s: "sys_ok L A s"
    and run: "HookMethod L tm ho cb (sy_lib s) = Some (res, l)" "ho_object res \<noteq> 0"
    and ready: "hook_ready L A p (sy_lib s) (art_method L tm) (art_method L (ho_object res))"
    and np: "\<And>e. \<not> pending (sy_C s) (art_method L tm) e"
  shows "step_ok L A T s (s\<lparr> sy_lib := l \<rparr>)"
proof -
  let ?t = "art_method L tm" and ?b = "art_method L (ho_object res)"
  note tab = sys_okD(1) [OF s]
  obtain x where x: "lb_R l = add_hook ?t ?b x (sy_R s)" "is_ptr (be_S L) (hi_entry x)"
    using hook_entry_ptr [OF run] by blast
  note h = hook_ready_run [OF run refl refl ready] and f = hook_ready_fresh [OF ready]
  have n: "hooked_methods (sy_R s) ?t = None" "backuped_methods (sy_R s) ?b = None" "hooked_methods (sy_R s) ?b = None"
    using h(5) f by (simp_all add: not_hooked not_backup)
  note F = add_hook_tables [OF n(1,2), of x]
  have A: "?t \<in> A" "?b \<in> A" using ready by (auto simp: hook_ready_def)
  have ok: "reg_ok (add_hook ?t ?b x (sy_R s))" using regs.add_hooked [OF f(1-4) h(5,6) f(5,6), of x] by blast
  have deopt: "IsDeoptimized (lb_R l) u \<longleftrightarrow> u = ?b \<or> IsDeoptimized (sy_R s) u" for u
    by (auto simp: IsDeoptimized_def x(1) F(3) emplace_def split: option.splits)
  have other: "u \<in> targets (sy_R s) \<Longrightarrow> u \<noteq> ?t \<and> u \<noteq> ?b" for u using n by (auto simp: targets_def)
  show ?thesis
  proof (rule step_okI [OF s])
    show "tables_ok (be_S L) A (sy_R (s\<lparr> sy_lib := l \<rparr>))"
      using tables_add_hook [OF tab n(1,2) ok A x(2)] by (simp add: x(1))
    show "t \<in> live_hooks (sy_R s)" if "t \<in> live_hooks (sy_R (s\<lparr> sy_lib := l \<rparr>))" "pending (sy_C (s\<lparr> sy_lib := l \<rparr>)) t e"
      for t e
    proof -
      have "t \<noteq> ?t" using np that(2) by auto
      then show ?thesis using that(1) deopt by (auto simp: live_hooks_def targets_def x(1) F(1))
    qed
    show "GetEntryPoint (be_S L) (sy_m (s\<lparr> sy_lib := l \<rparr>)) t = GetEntryPoint (be_S L) (sy_m s) t"
      if "t \<in> live_hooks (sy_R s)" for t
      using touchesD(1) [OF h(4) tables_okD(2) [OF tab live_target [OF that]]] other [OF live_target [OF that]] by simp
    show "hooked_methods (sy_R (s\<lparr> sy_lib := l \<rparr>)) t = hooked_methods (sy_R s) t \<and>
        (IsDeoptimized (sy_R (s\<lparr> sy_lib := l \<rparr>)) t \<longleftrightarrow> IsDeoptimized (sy_R s) t)"
      if "t \<in> live_hooks (sy_R s)" for t
      using other [OF live_target [OF that]] deopt by (simp add: x(1) F(1))
  qed simp
qed

text \<open>The slot of a generated trampoline is never null: the trampoline starts with code, and the field comes
  after it.\<close>

lemma WriteTrampoline_slot: "real_arch a \<Longrightarrow> WriteTrampoline a tramp e p h m \<noteq> (0, m')"
  by (auto simp: WriteTrampoline_def real_arch_def art_method_offset_def Let_def)

lemma DoHook_no_slot:
  assumes arch: "real_arch (am_arch S)" and f: "scopes_ok X f"
    and run: "DoHook S H f sc tramp e t h b (pool, m) = (0, pool', m')"
  shows "same_bytes X m m'"
proof -
  define body where "body = (\<lambda>s. case GenerateTrampolineFor (am_arch S) sc tramp e h s of
      (None, pool, m) \<Rightarrow> (0 :: addr, pool, m)
    | (Some (entrypoint, slot), pool, m) \<Rightarrow> (slot, pool, patch_methods S t b entrypoint m))"
  have "in_scopes H ''LSPlant Hook'' f body (pool, m) = (0, pool', m')" using run by (simp add: DoHook_def body_def)
  then obtain m1 m2 where b: "same_bytes X m m1" "body (pool, m1) = (0, pool', m2)" "same_bytes X m2 m'"
    using in_scopes_ok [OF f] by metis
  have "m2 = m1"
    using b(2) WriteTrampoline_slot [OF arch, of tramp e _ h m1]
    by (auto simp: body_def GenerateTrampolineFor_def Let_def split: option.splits prod.splits if_splits)
  then show ?thesis using b same_bytes_trans by blast
qed

lemma HookMethod_fails:
  assumes arch: "real_arch (am_arch (be_S L))" and f: "scopes_ok X (le_f L)"
    and run: "HookMethod L tm ho cb s = Some (res, s')" "ho_class res = 0"
  shows "lb_R s' = lb_R s \<and> same_bytes X (lb_m s) (lb_m s')"
proof -
  have inst: "lb_R s2 = lb_R s1 \<and> same_bytes X (lb_m s1) (lb_m s2)"
    if i: "install_hook L tm t ho cb is_proxy bargs bt s1 = (res, s2)" "0 < bt_class bt" for t is_proxy bargs bt s1 s2
  proof -
    let ?rb = "jni_ToReflectedMethod (be_E L) (bt_class bt) (bt_backup bt) True"
    obtain slot pool m where d: "DoHook (be_S L) (be_H L) (le_f L) (le_sc L) (le_tramp L) (le_imm L) t (bt_hook bt)
        (art_method L ?rb) (lb_pool s1, lb_m s1) = (slot, pool, m)" by (metis prod_cases3)
    have z: "slot = 0" using i run(2) d by (auto simp: install_hook_def Let_def split: if_splits)
    then have "lb_R s2 = lb_R s1 \<and> lb_m s2 = m" using i(1) d by (auto simp: install_hook_def Let_def)
    then show ?thesis using DoHook_no_slot [OF arch f] d z by metis
  qed
  have frame: "lb_R s1 = lb_R s \<and> lb_m s1 = lb_m s" if "build_hooker L cb bargs s = Some (bt, s1)" for bargs bt s1
    using build_hooker_frame [OF that] by simp
  show ?thesis
    using run by (auto simp: HookMethod_def Let_def split: option.splits if_splits dest!: inst frame)
qed

lemma step_hook_fails:
  assumes env: "env_ok L A P" and s: "sys_ok L A s"
    and run: "HookMethod L tm ho cb (sy_lib s) = Some (res, l)" "ho_class res = 0"
  shows "step_ok L A T s (s\<lparr> sy_lib := l \<rparr>)"
proof -
  note e = env_okD(1,6,2) [OF env]
  note f = HookMethod_fails [OF e(1,2) run]
  show ?thesis
    by (rule step_memoryI [OF s])
      (use f touchesD(1) [OF touches_same_bytes [OF e(3) conjunct2 [OF f], of "{}"]]
        tables_okD(2) [OF sys_okD(1) [OF s]] in \<open>auto simp: live_hooks_def\<close>)
qed

lemma DoUnHook_touches:
  assumes sep: "separate S A" and f: "scopes_ok (blocks S A) f" and ab: "t \<in> A" "b \<in> A" "t \<noteq> b"
    and run: "DoUnHook S H f t b (pool, m) = (r, pool', m')"
  shows "touches S A {t} m m'"
proof -
  obtain m1 m2 where b: "same_bytes (blocks S A) m m1" "same_bytes (blocks S A) m2 m'"
    and body: "(\<lambda>(pool, m). (True, pool, unpatch_methods S t b m)) (pool, m1) = (r, pool', m2)"
    by (rule in_scopes_ok [OF f run [unfolded DoUnHook_def]])
  have m2: "m2 = unpatch_methods S t b m1" using body by simp
  note u = unpatch_spec [OF separate_wf [OF sep] separate_apart [OF sep ab], of m1, folded m2]
  show ?thesis
    using touches_trans [OF touches_same_bytes [OF sep b(1)] touches_trans [OF touches_frame [OF sep ab(1) u(3)]
        touches_same_bytes [OF sep b(2)]]] .
qed

lemma tables_del_hook:
  assumes tab: "tables_ok S A R" and t: "IsHooked R t \<noteq> 0"
  shows "tables_ok S A (del_hook t c R)"
    "hooked_methods (del_hook t c R) = (hooked_methods R)(t := None)"
proof -
  note R = tables_okD(1) [OF tab]
  obtain r where r: "hooked_methods R t = Some r" using t not_hooked [OF R, of t] by auto
  then have d: "del_hook t c R = R\<lparr> hooked_methods := (hooked_methods R)(t := None),
      backuped_methods := (backuped_methods R)(hr_backup r := None),
      backuped_proxy_methods := backuped_proxy_methods R - {hr_backup r},
      hooked_classes := class_erase (hooked_classes R) c t \<rparr>"
    by (simp add: del_hook_def EraseHooked_def)
  show "hooked_methods (del_hook t c R) = (hooked_methods R)(t := None)" by (simp add: d)
  have "reg_ok (del_hook t c R)" using regs.del_hooked [OF R t, of c] by blast
  moreover have "targets (del_hook t c R) \<union> backups (del_hook t c R) \<subseteq> A"
    using tab by (auto simp: d targets_def backups_def tables_ok_def)
  moreover have "saved_methods (del_hook t c R) k \<subseteq> A" for k
    using tables_okD(4) [OF tab, of k] class_members_erase_sub by (fastforce simp: d saved_methods_def)
  ultimately show "tables_ok S A (del_hook t c R)"
    using tab by (simp add: tables_ok_def) (simp add: d)
qed

lemma step_unhook:
  assumes env: "env_ok L A P" and s: "sys_ok L A s"
    and run: "UnHook L tm (sy_lib s) = (r, l)" and T: "art_method L tm \<notin> T"
  shows "step_ok L A T s (s\<lparr> sy_lib := l \<rparr>)"
proof -
  let ?t = "art_method L tm"
  note tab = sys_okD(1) [OF s]
  note R = tables_okD(1) [OF tab]
  note u = UnHook_run [OF run refl R]
  note e = env_okD(6,2) [OF env]
  show ?thesis
  proof (cases r)
    case False
    then show ?thesis using u(2) by (intro step_memoryI [OF s]) auto
  next
    case True
    obtain hr pool where hr: "hooked_methods (sy_R s) ?t = Some hr"
      "lb_R l = del_hook ?t (class_def_of L (sy_m s) ?t) (sy_R s)"
      "DoUnHook (be_S L) (be_H L) (le_f L) ?t (hr_backup hr) (lb_pool (sy_lib s), sy_m s) = (True, pool, lb_m l)"
      "deoptimized_methods (lb_R l) = deoptimized_methods (sy_R s)"
      using u(3) [OF True] by blast
    have b: "hr_backup hr = IsHooked (sy_R s) ?t" and t: "?t \<in> targets (sy_R s)"
      using hr(1) by (auto simp: IsHooked_def targets_def)
    have h: "IsHooked (sy_R s) ?t \<noteq> 0" "IsHooked (sy_R s) ?t \<in> backups (sy_R s)" using IsHooked_target [OF R t] by auto
    have A: "?t \<in> A" "hr_backup hr \<in> A" "?t \<noteq> hr_backup hr"
      using tables_okD(2,3) [OF tab] t h b IsHooked_neq_target [OF R t t] by auto
    note touch = DoUnHook_touches [OF e(2,1) A hr(3)]
    note d = tables_del_hook [OF tab h(1), of "class_def_of L (sy_m s) ?t", folded hr(2)]
    have dp: "IsDeoptimized (lb_R l) x \<longleftrightarrow> IsDeoptimized (sy_R s) x" for x by (simp add: IsDeoptimized_def hr(4))
    show ?thesis
    proof (rule step_okI [OF s])
      show "tables_ok (be_S L) A (sy_R (s\<lparr> sy_lib := l \<rparr>))" using d(1) by simp
      show "t \<in> live_hooks (sy_R s)" if "t \<in> live_hooks (sy_R (s\<lparr> sy_lib := l \<rparr>))" for t
        using that by (auto simp: live_hooks_def targets_def d(2) dp split: if_splits)
      show "GetEntryPoint (be_S L) (sy_m (s\<lparr> sy_lib := l \<rparr>)) t = GetEntryPoint (be_S L) (sy_m s) t"
        if "t \<in> live_hooks (sy_R s)" "t \<in> live_hooks (sy_R (s\<lparr> sy_lib := l \<rparr>)) \<or> t \<in> T" for t
      proof -
        have "t \<noteq> ?t" using that(2) T by (auto simp: live_hooks_def targets_def d(2))
        then show ?thesis using touchesD(1) [OF touch tables_okD(2) [OF tab live_target [OF that(1)]]] by simp
      qed
      show "hooked_methods (sy_R (s\<lparr> sy_lib := l \<rparr>)) t = hooked_methods (sy_R s) t \<and>
          (IsDeoptimized (sy_R (s\<lparr> sy_lib := l \<rparr>)) t \<longleftrightarrow> IsDeoptimized (sy_R s) t)" if "t \<in> T" for t
        using that T by (auto simp: d(2) dp)
    qed simp
  qed
qed

lemma tables_deoptimize:
  assumes tab: "tables_ok S A R" and a: "a \<in> A" and e: "is_ptr S e"
  shows "tables_ok S A (RecordDeoptimized c a e R)"
proof -
  let ?R = "RecordDeoptimized c a e R"
  have f: "hooked_methods ?R = hooked_methods R" "backuped_methods ?R = backuped_methods R"
    "deoptimized_methods ?R = emplace (deoptimized_methods R) a e" "jit_movements ?R = jit_movements R"
    by (simp_all add: RecordDeoptimized_def)
  have "dom (deoptimized_methods ?R) \<subseteq> A" using tables_okD(6) [OF tab] a by (auto simp: f dest: emplace_Some)
  moreover have "is_ptr S v" if "deoptimized_methods ?R k = Some v" for k v
    using that tables_okD(5) [OF tab] e emplace_Some by (metis f(3))
  moreover have "saved_methods ?R k \<subseteq> A" for k
    using tables_okD(4) [OF tab, of k] a by (auto simp: saved_methods_def RecordDeoptimized_def class_members_emplace split: if_splits)
  ultimately show ?thesis
    using tab by (simp add: tables_ok_def reg_ok_def targets_def backups_def f)
qed

lemma step_deoptimize:
  assumes env: "env_ok L A P" and s: "sys_ok L A s"
    and run: "Deoptimize L tm (sy_lib s) = (r, l)" and a: "art_method L tm \<in> A" "art_method L tm \<notin> T"
  shows "step_ok L A T s (s\<lparr> sy_lib := l \<rparr>)"
proof -
  let ?a = "art_method L tm"
  let ?b = "if IsHooked (sy_R s) ?a \<noteq> 0 then IsHooked (sy_R s) ?a else ?a"
  note tab = sys_okD(1) [OF s]
  note R = tables_okD(1) [OF tab]
  note e = env_okD(2,3) [OF env]
  have bA: "?b \<in> A" using a(1) IsHooked_target [OF R] IsHooked_iff [OF R, of ?a] tables_okD(3) [OF tab] by auto
  show ?thesis
  proof (cases "l = sy_lib s")
    case True
    then show ?thesis by (intro step_memoryI [OF s]) auto
  next
    case False
    let ?R = "RecordDeoptimized (class_def_of L (sy_m s) ?a) ?a (GetEntryPoint (be_S L) (sy_m s) ?a) (sy_R s)"
    let ?m = "snd (SetEntryPointsToInterpreter (be_S L) (le_I L) ?b (sy_m s))"
    have ih: "IsHooked ?R x = IsHooked (sy_R s) x" for x by (simp add: IsHooked_def RecordDeoptimized_def)
    have l: "l = (sy_lib s)\<lparr> lb_R := ?R, lb_m := ?m \<rparr>"
      using run False by (auto simp: Deoptimize_def Let_def ih split: if_splits prod.splits)
    have dp: "IsDeoptimized ?R x \<longleftrightarrow> x = ?a \<or> IsDeoptimized (sy_R s) x" for x
      by (auto simp: IsDeoptimized_def RecordDeoptimized_def emplace_def split: option.splits)
    have hm: "hooked_methods ?R = hooked_methods (sy_R s)" by (simp add: RecordDeoptimized_def)
    note touch = SetEntryPointsToInterpreter_touches [OF e bA, of "sy_m s"]
    show ?thesis
    proof (rule step_okI [OF s])
      show "tables_ok (be_S L) A (sy_R (s\<lparr> sy_lib := l \<rparr>))"
        using tables_deoptimize [OF tab a(1) GetEntryPoint_ptr] by (simp add: l)
      show "t \<in> live_hooks (sy_R s)" if "t \<in> live_hooks (sy_R (s\<lparr> sy_lib := l \<rparr>))" for t
        using that by (simp add: l live_hooks_def targets_def hm dp)
      show "GetEntryPoint (be_S L) (sy_m (s\<lparr> sy_lib := l \<rparr>)) t = GetEntryPoint (be_S L) (sy_m s) t"
        if "t \<in> live_hooks (sy_R s)" "t \<in> live_hooks (sy_R (s\<lparr> sy_lib := l \<rparr>)) \<or> t \<in> T" for t
      proof -
        have t: "t \<in> targets (sy_R s)" "t \<noteq> ?a" using that a(2) by (auto simp: l live_hooks_def dp)
        then have "t \<noteq> ?b" using IsHooked_neq_target [OF R _ t(1), of ?a] IsHooked_iff [OF R, of ?a] by auto
        then show ?thesis using touchesD(1) [OF touch tables_okD(2) [OF tab t(1)]] by (simp add: l)
      qed
      show "hooked_methods (sy_R (s\<lparr> sy_lib := l \<rparr>)) t = hooked_methods (sy_R s) t \<and>
          (IsDeoptimized (sy_R (s\<lparr> sy_lib := l \<rparr>)) t \<longleftrightarrow> IsDeoptimized (sy_R s) t)" if "t \<in> T" for t
        using that a(2) by (auto simp: l hm dp)
    qed simp
  qed
qed

lemma reg_ok_set_record:
  assumes R: "reg_ok R" and r: "hooked_methods R t = Some r" "hr_backup r' = hr_backup r"
  shows "reg_ok (R\<lparr> hooked_methods := (hooked_methods R)(t \<mapsto> r') \<rparr>)"
proof -
  let ?R = "R\<lparr> hooked_methods := (hooked_methods R)(t \<mapsto> r') \<rparr>"
  have tg: "targets ?R = targets R" "backups ?R = backups R" using r(1) by (auto simp: targets_def backups_def)
  have inv: "reg_inv R" using R by (simp add: reg_ok_def)
  have "\<exists>ra. hooked_methods ?R u = Some ra \<and> hr_backup ra = b" if "backuped_methods R b = Some u" for b u
    using reg_inv_backup [OF inv that] r by (cases "u = t") auto
  moreover have "t \<noteq> 0" using inv r(1) by (cases "t = 0") (simp_all add: reg_inv_def)
  ultimately have "reg_inv ?R" using inv r by (auto simp: reg_inv_def)
  then show ?thesis using R tg by (simp add: reg_ok_def)
qed

lemma SetHookEnabled_run:
  assumes run: "SetHookEnabled S L E F tramp e tm enabled (R, m) = (res, R', m')"
  obtains "R' = R" "m' = m"
  | r r' where "hooked_methods R (FromReflectedMethod S L E tm) = Some r"
      "set_enabled (am_arch S) tramp e enabled (r, m) = (r', m')"
      "R' = R\<lparr> hooked_methods := (hooked_methods R)(FromReflectedMethod S L E tm \<mapsto> r') \<rparr>"
proof (cases "is_executable F E tm")
  case False
  then show ?thesis using run that(1) by (simp add: SetHookEnabled_def Let_def)
next
  case True
  show ?thesis
  proof (cases "hooked_methods R (FromReflectedMethod S L E tm)")
    case None
    then show ?thesis using run True that(1) by (simp add: SetHookEnabled_def Let_def)
  next
    case (Some r)
    obtain r' m1 where se: "set_enabled (am_arch S) tramp e enabled (r, m) = (r', m1)" by (metis prod.exhaust)
    show ?thesis
      using run True Some se that(1) that(2) [OF Some]
      by (cases "hr_enabled r = enabled") (simp_all add: SetHookEnabled_def Let_def)
  qed
qed

lemma step_set_enabled:
  assumes env: "env_ok L A P" and s: "sys_ok L A s"
    and run: "SetHookEnabled (be_S L) (be_L L) (be_E L) (lb_F (sy_lib s)) (le_tramp L) (le_imm L) tm enabled
      (sy_R s, sy_m s) = (res, R', m')"
    and own: "own_slot L A P s (art_method L tm)" and T: "art_method L tm \<notin> T"
  shows "step_ok L A T s (with_registry (R', m') s)" "same_bytes P (sy_m s) m'"
    "live_table L (with_registry (R', m') s) = live_table L s"
proof -
  let ?t = "art_method L tm" and ?s' = "with_registry (R', m') s"
  note tab = sys_okD(1) [OF s] and e = env_okD [OF env]
  have all: "step_ok L A T s ?s' \<and> same_bytes P (sy_m s) m' \<and> live_table L ?s' = live_table L s"
  proof (rule SetHookEnabled_run [OF run])
    assume "R' = sy_R s" "m' = sy_m s"
    then show ?thesis using step_memoryI [OF s, of ?s'] by (auto simp: live_table_def)
  next
    fix r r'
    assume r: "hooked_methods (sy_R s) (FromReflectedMethod (be_S L) (be_L L) (be_E L) tm) = Some r"
      and se: "set_enabled (am_arch (be_S L)) (le_tramp L) (le_imm L) enabled (r, sy_m s) = (r', m')"
      and R': "R' = (sy_R s)\<lparr> hooked_methods := (hooked_methods (sy_R s))(FromReflectedMethod (be_S L) (be_L L) (be_E L) tm \<mapsto> r') \<rparr>"
    obtain q h where q: "tramp_at (am_arch (be_S L)) (le_imm L) (sy_m s) q (hr_slot r) h" "even q"
      "\<And>x. x \<in> A \<Longrightarrow> disj_ranges q (kTrampolineSize (am_arch (be_S L))) x (art_method_size (be_S L))"
      "{q..<q + kTrampolineSize (am_arch (be_S L))} \<inter> P = {}"
      using own r unfolding own_slot_def art_method_def by blast
    note f = set_enabled_at [OF e(1) q(1,2) se [unfolded e(4)]]
    have P: "same_bytes P (sy_m s) m'"
    proof (rule same_outside_bytes [OF f(2)])
      fix x assume "x \<in> P"
      then have "x \<notin> {q..<q + kTrampolineSize (am_arch (be_S L))}" using q(4) by blast
      then show "x < q \<or> q + kTrampolineSize (am_arch (be_S L)) \<le> x" by auto
    qed
    have ep: "GetEntryPoint (be_S L) m' u = GetEntryPoint (be_S L) (sy_m s) u" if "u \<in> A" for u
      using touchesD(1) [OF touches_outside(1) [OF e(2) f(2) q(3), of "{}"] that] by simp
    have tg: "targets R' = targets (sy_R s)" "IsDeoptimized R' = IsDeoptimized (sy_R s)"
      "IsHooked R' = IsHooked (sy_R s)"
      using r f(3) by (auto simp: R' targets_def IsDeoptimized_def IsHooked_def fun_eq_iff)
    have lv: "live_hooks R' = live_hooks (sy_R s)" by (simp add: live_hooks_def tg)
    have "reg_ok R'" using reg_ok_set_record [OF tables_okD(1) [OF tab] r f(3)] by (simp add: R')
    then have tab': "tables_ok (be_S L) A R'"
      using tab tg(1) by (simp add: tables_ok_def backups_def saved_methods_def R')
    have "step_ok L A T s ?s'"
      by (rule step_okI [OF s])
        (use tab' lv tg(2) ep tables_okD(2) [OF tab] live_target T in \<open>auto simp: R' art_method_def\<close>)
    moreover have "live_table L ?s' = live_table L s"
      using ep tables_okD(2) [OF tab] live_target by (auto simp: live_table_def lv tg(3) fun_eq_iff)
    ultimately show ?thesis using P by blast
  qed
  then show "step_ok L A T s ?s'" "same_bytes P (sy_m s) m'" "live_table L ?s' = live_table L s" by blast+
qed

lemma step_inheritable:
  assumes env: "env_ok L A P" and s: "sys_ok L A s" and run: "MakeClassInheritable L c (sy_lib s) = (r, l)"
    and A: "constructors_of L c s \<subseteq> A"
  shows "step_ok L A T s (s\<lparr> sy_lib := l \<rparr>)" "lb_R l = sy_R s"
proof -
  note sep = env_okD(2) [OF env]
  have one: "GetEntryPoint (be_S L) (make_constructor_visible (be_S L) a m) u = GetEntryPoint (be_S L) m u"
    if "a \<in> A" "u \<in> A" for a u m
  proof -
    have fl: "GetEntryPoint (be_S L) m2 u = GetEntryPoint (be_S L) m1 u" if f: "flags_only (be_S L) a m1 m2" for m1 m2
      using touchesD(1) [OF touches_flags_only [OF sep \<open>a \<in> A\<close> f] \<open>u \<in> A\<close>]
        flags_only_fields [OF separate_wf [OF sep] f] by (cases "u = a") auto
    show ?thesis
      using fl [OF flags_only_mutators(5)] fl [OF flags_only_mutators(6)]
      by (simp add: make_constructor_visible_def Let_def)
  qed
  have "GetEntryPoint (be_S L) (fold (\<lambda>x. make_constructor_visible (be_S L) (art_method L x)) xs m) u =
      GetEntryPoint (be_S L) m u" if "art_method L ` set xs \<subseteq> A" "u \<in> A" for xs u m
    using that by (induction xs arbitrary: m) (simp_all add: one)
  then have ep: "GetEntryPoint (be_S L) (lb_m l) u = GetEntryPoint (be_S L) (sy_m s) u" if "u \<in> A" for u
    using run A that by (auto simp: MakeClassInheritable_def Let_def constructors_of_def split: if_splits)
  show R: "lb_R l = sy_R s" using run by (auto simp: MakeClassInheritable_def Let_def split: if_splits)
  show "step_ok L A T s (s\<lparr> sy_lib := l \<rparr>)"
    by (rule step_memoryI [OF s]) (use R ep tables_okD(2) [OF sys_okD(1) [OF s]] live_target in auto)
qed

text \<open>Hiding and showing changes what stack traces show, and nothing the hooks depend on.\<close>

lemma in_class_scopes_frame:
  assumes f: "scopes_ok X (le_f L)" and run: "in_class_scopes L c visit s = (n, l)"
  shows "lb_R l = lb_R s" "same_bytes X (lb_m s) (lb_m l)"
proof -
  let ?meths = "\<lambda>getter. map (art_method L) (jni_array (be_E L) (jni_CallObjectMethod (be_E L) c (rf_ids (lb_F s) getter)))"
  define body where "body = (\<lambda>(pool :: nat, m). (visit m (le_mirror L c) (?meths ''class_get_declared_constructors'')
         (?meths ''class_get_declared_methods'') (lb_V s), pool, m))"
  obtain x where x: "in_scopes (be_H L) ''LSPlant Hide'' (le_f L) body (lb_pool s, lb_m s) = x" by blast
  obtain k V pool m where "x = ((k, V), pool, m)" by (cases x) auto
  with x have r: "in_scopes (be_H L) ''LSPlant Hide'' (le_f L) body (lb_pool s, lb_m s) = ((k, V), pool, m)" by simp
  have "l = s\<lparr> lb_V := V, lb_pool := pool, lb_m := m \<rparr>"
    using run r unfolding in_class_scopes_def Let_def body_def by simp
  then have l: "lb_R l = lb_R s" "lb_m l = m" by simp_all
  show "lb_R l = lb_R s" by (rule l)
  show "same_bytes X (lb_m s) (lb_m l)"
    by (rule in_scopes_ok [OF f r]) (auto simp: l body_def intro: same_bytes_trans)
qed

lemma step_hiding:
  assumes env: "env_ok L A P" and s: "sys_ok L A s"
    and l: "lb_R l = sy_R s" "same_bytes (blocks (be_S L) A) (sy_m s) (lb_m l)"
  shows "step_ok L A T s (s\<lparr> sy_lib := l \<rparr>)"
  by (rule step_memoryI [OF s])
    (use l touchesD(1) [OF touches_same_bytes [OF env_okD(2) [OF env] l(2), of "{}"]]
      tables_okD(2) [OF sys_okD(1) [OF s]] live_target in auto)

lemma hiding_frame:
  assumes f: "scopes_ok X (le_f L)"
  shows "MakeMethodHidden L tm s = (r, l) \<Longrightarrow> lb_R l = lb_R s \<and> same_bytes X (lb_m s) (lb_m l)"
    "MakeClassHidden L c s = (n, l) \<Longrightarrow> lb_R l = lb_R s \<and> same_bytes X (lb_m s) (lb_m l)"
    "MakeClassVisible L c s = (n, l) \<Longrightarrow> lb_R l = lb_R s \<and> same_bytes X (lb_m s) (lb_m l)"
proof -
  show "lb_R l = lb_R s \<and> same_bytes X (lb_m s) (lb_m l)" if run: "MakeMethodHidden L tm s = (r, l)"
  proof -
    obtain ok V where "HideMethod (be_S L) (lb_m s) (art_method L tm) (lb_V s) = (ok, V)" by (metis prod.exhaust)
    then have "l = s \<or> l = s\<lparr> lb_V := V \<rparr>" using run by (simp add: MakeMethodHidden_def split: if_splits)
    then show ?thesis by auto
  qed
  show "lb_R l = lb_R s \<and> same_bytes X (lb_m s) (lb_m l)" if run: "MakeClassHidden L c s = (n, l)"
  proof (cases "c = 0")
    case False
    then show ?thesis using in_class_scopes_frame [OF f run [unfolded MakeClassHidden_def if_not_P [OF False]]] by simp
  qed (use run in \<open>simp add: MakeClassHidden_def\<close>)
  show "lb_R l = lb_R s \<and> same_bytes X (lb_m s) (lb_m l)" if run: "MakeClassVisible L c s = (n, l)"
  proof (cases "c = 0")
    case False
    then show ?thesis using in_class_scopes_frame [OF f run [unfolded MakeClassVisible_def if_not_P [OF False]]] by simp
  qed (use run in \<open>simp add: MakeClassVisible_def\<close>)
qed

section \<open>Every step\<close>

lemma step_all:
  assumes env: "env_ok L A P" and s: "sys_ok L A s" and step: "sys_step L A P T s s'"
  shows "step_ok L A T s s'"
  using step
proof cases
  case (set_status art c st self r)
  then show ?thesis using step_set_status [OF s, of art c st self "fst r" "snd r"] by simp
next
  case (fixup_trampolines c self art r)
  then show ?thesis using step_restore [OF env s] by (cases r) (auto simp: FixupStaticTrampolines_hook_def)
next
  case (mark_visible self art r)
  then show ?thesis using step_restore [OF env s] by (cases r) (auto simp: MarkVisiblyInitialized_hook_def)
next
  case (map_boot_image ds hs order art r)
  then show ?thesis using step_map_boot_image [OF env s, of ds hs order art "fst r" "snd r"] by simp
next
  case (collect_jit_cache move art r)
  then show ?thesis using step_collect [OF env s, of move art "fst r" "snd r"] by simp
next
  case (register_natives ms clazz nms art r m')
  show ?thesis unfolding register_natives(1) by (rule step_register_natives [OF env s register_natives(2,4,5)])
next
  case (art_other m')
  then show ?thesis using step_memory [OF s] by (simp add: entries_kept_def)
next
  case (hook_added tm ho cb res l p)
  show ?thesis unfolding hook_added(1) by (rule step_hook [OF s hook_added(2-4,6)])
next
  case (hook_not_added tm ho cb res l)
  show ?thesis unfolding hook_not_added(1) by (rule step_hook_fails [OF env s hook_not_added(2-)])
next
  case (unhook tm r l)
  show ?thesis unfolding unhook(1) by (rule step_unhook [OF env s unhook(2-)])
next
  case (deoptimize tm r l)
  then show ?thesis using step_deoptimize [OF env s, of tm r l] by simp
next
  case (update_code a art code)
  show ?thesis unfolding update_code(1) by (rule step_update_code [OF env s update_code(2), of art code, OF update_code(4-)])
next
  case (initialize_code a art code)
  show ?thesis unfolding initialize_code(1) by (rule step_initialize_code [OF env s initialize_code(2), of art code, OF initialize_code(4-)])
next
  case (reinitialize_code a art)
  show ?thesis unfolding reinitialize_code(1) by (rule step_no_code(1) [OF env s reinitialize_code(2,4-)])
next
  case (to_interpreter a art)
  show ?thesis unfolding to_interpreter(1) by (rule step_no_code(2) [OF env s to_interpreter(2,4-)])
next
  case (set_enabled tm enabled r R' m')
  show ?thesis unfolding set_enabled(1) by (rule step_set_enabled(1) [OF env s set_enabled(2-)])
next
  case (make_inheritable c r l)
  show ?thesis unfolding make_inheritable(1) by (rule step_inheritable(1) [OF env s make_inheritable(2-)])
next
  case (method_hidden tm r l)
  show ?thesis
    unfolding method_hidden(1) using hiding_frame(1) [OF env_okD(6) [OF env] method_hidden(2)] by (intro step_hiding [OF env s]) simp_all
next
  case (class_hidden c n l)
  show ?thesis
    unfolding class_hidden(1) using hiding_frame(2) [OF env_okD(6) [OF env] class_hidden(2)] by (intro step_hiding [OF env s]) simp_all
next
  case (class_visible c n l)
  show ?thesis
    unfolding class_visible(1) using hiding_frame(3) [OF env_okD(6) [OF env] class_visible(2)] by (intro step_hiding [OF env s]) simp_all
qed

text \<open>No step writes \<open>P\<close>.\<close>

lemma sys_frame_ok: "env_ok L A P \<Longrightarrow> sys_ok L A s \<Longrightarrow> frame_ok (be_S L) (le_I L) (sy_R s) A P"
  using sys_linker_ok [OF _ sys_okD(1)] by (simp add: frame_ok_def env_okD(5))

lemma pop_in: "sys_ok L A s \<Longrightarrow> fst ` set (fst (PopBackup c self (sy_C s))) \<subseteq> A"
  using PopBackup_saved(1) [of c self "sy_C s"] sys_okD(2) [of L A s]
  by (cases "PopBackup c self (sy_C s)") (fastforce simp: pending_iff)

lemma enumerated_in:
  assumes tab: "tables_ok S A R"
  shows "enumerates ds (deoptimized_methods R) \<Longrightarrow> fst ` set ds \<subseteq> A"
    "enumerates hs (hooked_backups R) \<Longrightarrow> fst ` set hs \<subseteq> A \<and> snd ` set hs \<subseteq> A"
proof -
  show "fst ` set ds \<subseteq> A" if "enumerates ds (deoptimized_methods R)"
    using enumerates_mem [OF that] tables_okD(6) [OF tab] by fastforce
  assume hs: "enumerates hs (hooked_backups R)"
  have "t \<in> A \<and> b \<in> A" if "(t, b) \<in> set hs" for t b
  proof -
    have "t \<in> targets R" "b = IsHooked R t" using hooked_backups_iff enumerates_mem [OF hs that] by blast+
    then show ?thesis using tables_okD(2,3) [OF tab] IsHooked_target [OF tables_okD(1) [OF tab]] by simp
  qed
  then show "fst ` set hs \<subseteq> A \<and> snd ` set hs \<subseteq> A" by auto
qed

lemma step_frame:
  assumes env: "env_ok L A P" and s: "sys_ok L A s" and step: "sys_step L A P T s s'"
  shows "same_bytes P (sy_m s) (sy_m s')"
proof -
  note ok = sys_frame_ok [OF env s] and e = env_okD [OF env] and tab = sys_okD(1) [OF s]
  from step show ?thesis
  proof cases
    case (set_status art c st self r)
    then show ?thesis by (cases r) (auto simp: SetStatus_hook_def Let_def)
  next
    case (fixup_trampolines c self art r)
    then show ?thesis
      using same_bytes_trans [OF fixup_trampolines(3) frame_RestoreBackup [OF ok _ pop_in [OF s]]]
      by (cases r) (simp add: FixupStaticTrampolines_hook_def)
  next
    case (mark_visible self art r)
    then show ?thesis
      using same_bytes_trans [OF mark_visible(3) frame_RestoreBackup [OF ok _ pop_in [OF s]]]
      by (cases r) (simp add: MarkVisiblyInitialized_hook_def)
  next
    case (map_boot_image ds hs order art r)
    note en = enumerated_in(1) [OF tab map_boot_image(2)] enumerated_in(2) [OF tab map_boot_image(3)]
    show ?thesis
      using frame_map_boot_image [OF ok en(1) conjunct1 [OF en(2)] conjunct2 [OF en(2)] map_boot_image(4,5)] map_boot_image
      by (cases r) simp
  next
    case (collect_jit_cache move art r)
    have "same_bytes P (sy_m s) (fold (move_one (be_S L) move) (jit_movements (sy_R s)) (sy_m s))"
      by (rule frame_move [OF ok _ tables_okD(7,8) [OF tab]]) (use collect_jit_cache(2) in blast)
    then show ?thesis
      using collect_jit_cache same_bytes_trans
      by (auto simp: GarbageCollectCache_hook_def MoveObsoleteMethods_def GetJitMovements_def)
  next
    case (register_natives ms clazz nms art r m')
    have "m' = updater_finish (be_S L) ms (snd (art (sy_m s)))"
      using register_natives(5) by (auto simp: RegisterNativesJNIEnv_hook_def split: prod.splits)
    then show ?thesis
      using same_bytes_trans [OF register_natives(3) frame_updater_finish [OF ok noted_register]] register_natives(1,2) by simp
  next
    case (hook_added tm ho cb res l p)
    then show ?thesis using frame_HookMethod [OF ok e(7) hook_added(2-5)] by simp
  next
    case (hook_not_added tm ho cb res l)
    then show ?thesis using HookMethod_fails [OF e(1,7) hook_not_added(2-)] by simp
  next
    case (unhook tm r l)
    then show ?thesis using frame_UnHook [OF ok e(7) unhook(2)] by simp
  next
    case (deoptimize tm r l)
    then show ?thesis using frame_Deoptimize [OF ok _ deoptimize(2)] by simp
  next
    case (set_enabled tm enabled r R' m')
    then show ?thesis using step_set_enabled(2) [OF env s set_enabled(2-)] by simp
  next
    case (make_inheritable c r l)
    then show ?thesis using frame_MakeClassInheritable [OF ok make_inheritable(2)] by (simp add: constructors_of_def)
  next
    case (method_hidden tm r l)
    then show ?thesis using hiding_frame(1) [OF e(7) method_hidden(2)] by simp
  next
    case (class_hidden c n l)
    then show ?thesis using hiding_frame(2) [OF e(7) class_hidden(2)] by simp
  next
    case (class_visible c n l)
    then show ?thesis using hiding_frame(3) [OF e(7) class_visible(2)] by simp
  qed (simp_all add: frame_code_hooks [OF ok])
qed

end
