(* ===== verification/Hook_Runs.thy ===== *)
theory Hook_Runs
  imports Art_Events Step_Systems
begin

text \<open>
  What runs of the transition system of Art_Events do to the hooks. The table of live hooks is a small
  machine of its own; the library and ART together implement it (\<open>events_refine_table\<close>), and a hook that
  the client leaves alone goes on working (\<open>hook_stays\<close>).
\<close>

section \<open>The table of live hooks\<close>

text \<open>As a machine of its own, the table from live targets to backups and entry points: a fresh pair is
  installed, or a target that is not in \<open>T\<close> is taken out. Nothing ever changes an entry.\<close>

inductive table_step :: "addr set \<Rightarrow> (addr \<rightharpoonup> addr \<times> addr) \<Rightarrow> (addr \<rightharpoonup> addr \<times> addr) \<Rightarrow> bool" for T where
  install: "\<lbrakk> t \<notin> dom H \<union> fst ` ran H; b \<notin> dom H \<union> fst ` ran H; t \<noteq> b \<rbrakk> \<Longrightarrow> table_step T H (H(t \<mapsto> (b, p)))"
| retire: "\<lbrakk> t \<in> dom H; t \<notin> T \<rbrakk> \<Longrightarrow> table_step T H (H(t := None))"

lemma table_retire: "t \<notin> T \<Longrightarrow> H(t := None) = H \<or> table_step T H (H(t := None))"
  by (cases "t \<in> dom H") (auto intro: retire simp: domIff)

lemma live_table_kept:
  assumes kept: "hooks_kept L (- X \<inter> live_hooks (sy_R s)) s s'" and sub: "live_hooks (sy_R s') \<subseteq> live_hooks (sy_R s) \<union> X"
    and u: "u \<notin> X"
  shows "live_table L s' u = live_table L s u"
proof (cases "u \<in> live_hooks (sy_R s)")
  case True
  then have k: "hooked_methods (sy_R s') u = hooked_methods (sy_R s) u" "IsDeoptimized (sy_R s') u = IsDeoptimized (sy_R s) u"
    "GetEntryPoint (be_S L) (sy_m s') u = GetEntryPoint (be_S L) (sy_m s) u"
    using kept u by (auto simp: hooks_kept_def)
  then have "u \<in> live_hooks (sy_R s')" "IsHooked (sy_R s') u = IsHooked (sy_R s) u"
    using True by (auto simp: live_hooks_def targets_def IsHooked_def)
  then show ?thesis using True k by (simp add: live_table_def)
qed (use sub u in \<open>auto simp: live_table_def\<close>)

text \<open>Steps that touch no target at all.\<close>

definition quiet_step :: "lib_env \<Rightarrow> addr set \<Rightarrow> addr set \<Rightarrow> sys \<Rightarrow> sys \<Rightarrow> bool" where
  "quiet_step L A P s s' \<longleftrightarrow> sys_step L A P UNIV s s' \<and> hooked_methods (sy_R s') = hooked_methods (sy_R s) \<and>
     dom (deoptimized_methods (sy_R s')) = dom (deoptimized_methods (sy_R s))"

lemma quiet_step_table:
  assumes env: "env_ok L A P" and s: "sys_ok L A s" and q: "quiet_step L A P s s'"
  shows "live_table L s' = live_table L s"
proof
  fix u
  have "step_ok L A UNIV s s'" using step_all [OF env s] q by (simp add: quiet_step_def)
  then have "hooks_kept L (- {} \<inter> live_hooks (sy_R s)) s s'" by (simp add: step_ok_def)
  moreover have "live_hooks (sy_R s') \<subseteq> live_hooks (sy_R s) \<union> {}"
    using q by (auto simp: quiet_step_def live_hooks_def targets_def IsDeoptimized_def dom_def set_eq_iff)
  ultimately show "live_table L s' u = live_table L s u" by (rule live_table_kept) simp
qed

lemma hook_table:
  assumes s: "sys_ok L A s" and run: "HookMethod L tm ho cb (sy_lib s) = Some (res, l)" "ho_object res \<noteq> 0"
    and ready: "hook_ready L A p (sy_lib s) (art_method L tm) (art_method L (ho_object res))"
    and np: "\<And>e. \<not> pending (sy_C s) (art_method L tm) e"
  shows "live_table L (s\<lparr> sy_lib := l \<rparr>) = live_table L s \<or> table_step T (live_table L s) (live_table L (s\<lparr> sy_lib := l \<rparr>))"
proof -
  let ?t = "art_method L tm" and ?b = "art_method L (ho_object res)" and ?s' = "s\<lparr> sy_lib := l \<rparr>"
  note tab = sys_okD(1) [OF s] and h = hook_ready_run [OF run refl refl ready] and f = hook_ready_fresh [OF ready]
  obtain x where x: "lb_R l = add_hook ?t ?b x (sy_R s)" using h(1) by blast
  have n: "hooked_methods (sy_R s) ?t = None" "backuped_methods (sy_R s) ?b = None" "hooked_methods (sy_R s) ?b = None"
    "backuped_methods (sy_R s) ?t = None"
    using h(5,6) f by (simp_all add: not_hooked not_backup)
  note F = add_hook_tables [OF n(1,2), of x]
  have "step_ok L A (- {?t}) s ?s'" by (rule step_hook [OF s run ready np])
  then have kept: "hooks_kept L (- {?t} \<inter> live_hooks (sy_R s)) s ?s'" by (simp add: step_ok_def)
  have sub: "live_hooks (sy_R ?s') \<subseteq> live_hooks (sy_R s) \<union> {?t}"
    by (auto simp: live_hooks_def targets_def IsDeoptimized_def x F emplace_def split: if_splits option.splits)
  have eq: "live_table L ?s' = (live_table L s)(?t := live_table L ?s' ?t)"
    using live_table_kept [OF kept sub] by auto
  have none: "live_table L s ?t = None" using n(1) by (simp add: live_table_def live_hooks_def targets_def dom_def)
  show ?thesis
  proof (cases "live_table L ?s' ?t")
    case None
    then show ?thesis using eq none by (metis fun_upd_triv)
  next
    case (Some bp)
    then have b: "fst bp = ?b" by (auto simp: live_table_def x F IsHooked_def split: if_splits)
    have old: "u \<in> targets (sy_R s)" "IsHooked (sy_R s) u \<in> backups (sy_R s)" if "u \<in> live_hooks (sy_R s)" for u
      using live_target [OF that] IsHooked_target [OF tables_okD(1) [OF tab]] by simp_all
    have fresh: "u \<notin> dom (live_table L s) \<union> fst ` ran (live_table L s)"
      if "hooked_methods (sy_R s) u = None" "backuped_methods (sy_R s) u = None" for u
    proof -
      have "u \<notin> targets (sy_R s)" "u \<notin> backups (sy_R s)" using that by (auto simp: targets_def backups_def)
      then show ?thesis using old by (auto simp: ran_def dom_def live_table_def split: if_splits)
    qed
    have "table_step T (live_table L s) ((live_table L s)(?t \<mapsto> (?b, snd bp)))"
      by (rule install [OF fresh [OF n(1,4)] fresh [OF n(3,2)] f(4)])
    moreover have "live_table L ?s' = (live_table L s)(?t \<mapsto> (?b, snd bp))" using eq Some b by (metis prod.collapse)
    ultimately show ?thesis by simp
  qed
qed

lemma unhook_table:
  assumes env: "env_ok L A P" and s: "sys_ok L A s" and run: "UnHook L tm (sy_lib s) = (r, l)"
  shows "live_table L (s\<lparr> sy_lib := l \<rparr>) = live_table L s \<or>
    live_table L (s\<lparr> sy_lib := l \<rparr>) = (live_table L s)(art_method L tm := None)"
proof -
  let ?t = "art_method L tm" and ?s' = "s\<lparr> sy_lib := l \<rparr>"
  note tab = sys_okD(1) [OF s]
  note u = UnHook_run [OF run refl tables_okD(1) [OF tab]]
  show ?thesis
  proof (cases r)
    case True
    have h: "IsHooked (sy_R s) ?t \<noteq> 0" using u(1) True by simp
    have R: "lb_R l = del_hook ?t (class_def_of L (sy_m s) ?t) (sy_R s)"
      "deoptimized_methods (lb_R l) = deoptimized_methods (sy_R s)" using u(3) [OF True] by auto
    note d = tables_del_hook(2) [OF tab h, of "class_def_of L (sy_m s) ?t", folded R(1)]
    have "step_ok L A (- {?t}) s ?s'" by (rule step_unhook [OF env s run]) simp
    then have kept: "hooks_kept L (- {?t} \<inter> live_hooks (sy_R s)) s ?s'" by (simp add: step_ok_def)
    have sub: "live_hooks (sy_R ?s') \<subseteq> live_hooks (sy_R s) \<union> {?t}"
      by (auto simp: live_hooks_def targets_def IsDeoptimized_def d R(2) split: if_splits)
    have "live_table L ?s' ?t = None" by (simp add: live_table_def live_hooks_def targets_def d)
    then have "live_table L ?s' = (live_table L s)(?t := None)"
      using live_table_kept [OF kept sub] by (simp add: fun_eq_iff)
    then show ?thesis ..
  next
    case False
    then show ?thesis using u(2) by (simp add: live_table_def fun_eq_iff)
  qed
qed

lemma deoptimize_table:
  assumes env: "env_ok L A P" and s: "sys_ok L A s" and run: "Deoptimize L tm (sy_lib s) = (r, l)"
    and a: "art_method L tm \<in> A"
  shows "live_table L (s\<lparr> sy_lib := l \<rparr>) = live_table L s \<or>
    live_table L (s\<lparr> sy_lib := l \<rparr>) = (live_table L s)(art_method L tm := None)"
proof (cases "l = sy_lib s")
  case True
  then show ?thesis by (simp add: live_table_def fun_eq_iff)
next
  case False
  let ?a = "art_method L tm" and ?s' = "s\<lparr> sy_lib := l \<rparr>"
  let ?R = "RecordDeoptimized (class_def_of L (sy_m s) ?a) ?a (GetEntryPoint (be_S L) (sy_m s) ?a) (sy_R s)"
  have R: "lb_R l = ?R" using run False by (auto simp: Deoptimize_def Let_def split: if_splits prod.splits)
  have "step_ok L A (- {?a}) s ?s'" by (rule step_deoptimize [OF env s run a]) simp
  then have kept: "hooks_kept L (- {?a} \<inter> live_hooks (sy_R s)) s ?s'" by (simp add: step_ok_def)
  have dp: "IsDeoptimized ?R x \<longleftrightarrow> x = ?a \<or> IsDeoptimized (sy_R s) x" for x
    by (auto simp: IsDeoptimized_def RecordDeoptimized_def emplace_def split: option.splits)
  have hm: "hooked_methods ?R = hooked_methods (sy_R s)" by (simp add: RecordDeoptimized_def)
  have sub: "live_hooks (sy_R ?s') \<subseteq> live_hooks (sy_R s) \<union> {?a}"
    by (auto simp: live_hooks_def targets_def R dp hm)
  have "live_table L ?s' ?a = None" by (simp add: live_table_def live_hooks_def R dp)
  then have "live_table L ?s' = (live_table L s)(?a := None)"
    using live_table_kept [OF kept sub] by (simp add: fun_eq_iff)
  then show ?thesis ..
qed

lemma quietI: "sys_step L A P UNIV s s' \<Longrightarrow> sy_R s' = sy_R s \<Longrightarrow> quiet_step L A P s s'"
  by (simp add: quiet_step_def)

lemma step_kinds:
  assumes env: "env_ok L A P" and s: "sys_ok L A s" and step: "sys_step L A P T s s'"
  obtains "quiet_step L A P s s'" | "live_table L s' = live_table L s" | "table_step T (live_table L s) (live_table L s')"
  | t where "t \<notin> T" "live_table L s' = (live_table L s)(t := None)"
proof -
  note e = env_okD [OF env] and tab = sys_okD(1) [OF s]
  have "quiet_step L A P s s' \<or> live_table L s' = live_table L s \<or> table_step T (live_table L s) (live_table L s') \<or>
    (\<exists>t. t \<notin> T \<and> live_table L s' = (live_table L s)(t := None))"
    using step
  proof cases
    case (hook_added tm ho cb res l p)
    then show ?thesis using hook_table [OF s hook_added(2-4,6)] by blast
  next
    case (unhook tm r l)
    then show ?thesis using unhook_table [OF env s unhook(2)] by blast
  next
    case (deoptimize tm r l)
    then show ?thesis using deoptimize_table [OF env s deoptimize(2)] by blast
  next
    case (set_enabled tm enabled r R' m')
    then show ?thesis using step_set_enabled(3) [OF env s set_enabled(2-)] by blast
  next
    case (set_status art c st self r)
    then show ?thesis using quietI [OF sys_step.set_status [OF set_status(2-)]] by (cases r) simp
  next
    case (fixup_trampolines c self art r)
    then show ?thesis using quietI [OF sys_step.fixup_trampolines [OF fixup_trampolines(2-)]] by (cases r) simp
  next
    case (mark_visible self art r)
    then show ?thesis using quietI [OF sys_step.mark_visible [OF mark_visible(2-)]] by (cases r) simp
  next
    case (update_code a art code)
    have "sys_step L A P UNIV s s'"
      unfolding update_code(1) by (rule sys_step.update_code) (use update_code in blast)+
    from quietI [OF this] show ?thesis by (simp add: update_code(1))
  next
    case (initialize_code a art code)
    have "sys_step L A P UNIV s s'"
      unfolding initialize_code(1) by (rule sys_step.initialize_code) (use initialize_code in blast)+
    from quietI [OF this] show ?thesis by (simp add: initialize_code(1))
  next
    case (reinitialize_code a art)
    show ?thesis unfolding reinitialize_code(1) using quietI [OF sys_step.reinitialize_code [OF reinitialize_code(2-)]] by simp
  next
    case (to_interpreter a art)
    show ?thesis unfolding to_interpreter(1) using quietI [OF sys_step.to_interpreter [OF to_interpreter(2-)]] by simp
  next
    case (register_natives ms clazz nms art r m')
    show ?thesis unfolding register_natives(1) using quietI [OF sys_step.register_natives [OF register_natives(2-)]] by simp
  next
    case (art_other m')
    show ?thesis unfolding art_other(1) using quietI [OF sys_step.art_other [OF art_other(2-)]] by simp
  next
    case (map_boot_image ds hs order art r)
    obtain R' m' where r: "r = (R', m')" by (metis prod.exhaust)
    note t = map_boot_image_tables [OF map_boot_image(2,3) tables_okD(1) [OF tab] map_boot_image(4) map_boot_image(6) [unfolded r]]
    have "hooked_methods R' = hooked_methods (sy_R s)" using t by (metis registry.ext_inject registry.surjective registry.update_convs(4))
    then show ?thesis
      using sys_step.map_boot_image [OF map_boot_image(2-)] t map_boot_image(1) by (simp add: quiet_step_def r)
  next
    case (collect_jit_cache move art r)
    have "fst r = (sy_R s)\<lparr> jit_movements := [] \<rparr>"
      using collect_jit_cache(4) by (auto simp: GarbageCollectCache_hook_def MoveObsoleteMethods_def GetJitMovements_def)
    moreover have "sys_step L A P UNIV s s'"
      unfolding collect_jit_cache(1) by (rule sys_step.collect_jit_cache [where move = move and art = art]) (use collect_jit_cache in blast)+
    ultimately show ?thesis by (cases r) (simp add: quiet_step_def collect_jit_cache(1))
  next
    case (hook_not_added tm ho cb res l)
    show ?thesis
      using quietI [OF sys_step.hook_not_added [OF hook_not_added(2-)]] HookMethod_fails [OF e(1,7) hook_not_added(2-)]
      by (simp add: hook_not_added(1))
  next
    case (make_inheritable c r l)
    show ?thesis
      using quietI [OF sys_step.make_inheritable [OF make_inheritable(2-)]] step_inheritable(2) [OF env s make_inheritable(2-)]
      by (simp add: make_inheritable(1))
  next
    case (method_hidden tm r l)
    show ?thesis
      using quietI [OF sys_step.method_hidden [OF method_hidden(2)]] hiding_frame(1) [OF e(7) method_hidden(2)]
      by (simp add: method_hidden(1))
  next
    case (class_hidden c n l)
    show ?thesis
      using quietI [OF sys_step.class_hidden [OF class_hidden(2)]] hiding_frame(2) [OF e(7) class_hidden(2)]
      by (simp add: class_hidden(1))
  next
    case (class_visible c n l)
    show ?thesis
      using quietI [OF sys_step.class_visible [OF class_visible(2)]] hiding_frame(3) [OF e(7) class_visible(2)]
      by (simp add: class_visible(1))
  qed
  then show ?thesis using that by blast
qed

text \<open>The library and ART together implement that machine.\<close>

interpretation sys: refinement_map "sys_step L A P T" "\<lambda>s. env_ok L A P \<and> sys_ok L A s" "live_table L" "table_step T"
  for L A P T
proof unfold_locales
  fix s s' assume s: "env_ok L A P \<and> sys_ok L A s" and step: "sys_step L A P T s s'"
  show "env_ok L A P \<and> sys_ok L A s'" using s step_all [OF _ _ step] by (simp add: step_ok_def)
  from s have e: "env_ok L A P" "sys_ok L A s" by simp_all
  show "live_table L s' = live_table L s \<or> table_step T (live_table L s) (live_table L s')"
    by (rule step_kinds [OF e step]) (use quiet_step_table [OF e] table_retire in auto)
qed

text \<open>What the machine keeps: the entries in \<open>T\<close>.\<close>

lemma table_keeps: "step_invariant (table_step T) (\<lambda>H. t \<in> T \<and> H t = Some x)"
proof unfold_locales
  fix H H' assume H: "t \<in> T \<and> H t = Some x" and step: "table_step T H H'"
  from step show "t \<in> T \<and> H' t = Some x"
  proof cases
    case (install u b p)
    moreover have "t \<in> dom H" using H by (simp add: domI)
    ultimately have "u \<noteq> t" by blast
    then show ?thesis using H install(1) by simp
  next
    case (retire u)
    then show ?thesis using H by auto
  qed
qed

lemma hooks_survive:
  assumes env: "env_ok L A P" and s: "sys_ok L A s" and steps: "(sys_step L A P T)\<^sup>*\<^sup>* s s'"
    and t: "t \<in> T" "hooked_methods (sy_R s) t = Some r" "\<not> IsDeoptimized (sy_R s) t"
  shows "sys_ok L A s' \<and> hooked_methods (sy_R s') t = Some r \<and> \<not> IsDeoptimized (sy_R s') t \<and>
    GetEntryPoint (be_S L) (sy_m s') t = GetEntryPoint (be_S L) (sy_m s) t \<and> same_bytes P (sy_m s) (sy_m s')"
proof -
  let ?Q = "\<lambda>z. hooked_methods (sy_R z) t = Some r \<and> \<not> IsDeoptimized (sy_R z) t \<and>
    GetEntryPoint (be_S L) (sy_m z) t = GetEntryPoint (be_S L) (sy_m s) t \<and> same_bytes P (sy_m s) (sy_m z)"
  have "(env_ok L A P \<and> sys_ok L A s') \<and> ?Q s'"
  proof (rule sys.run_keeps [OF steps])
    fix y z assume y: "env_ok L A P \<and> sys_ok L A y" "?Q y" and st: "sys_step L A P T y z"
    have "step_ok L A T y z" "same_bytes P (sy_m y) (sy_m z)" using step_all [OF _ _ st] step_frame [OF _ _ st] y(1) by simp_all
    moreover have "t \<in> live_hooks (sy_R y)" using y(2) by (auto simp: live_hooks_def targets_def)
    ultimately show "?Q z" using y(2) t(1) same_bytes_trans by (auto simp: step_ok_def hooks_kept_def)
  qed (use env s t in simp_all)
  then show ?thesis by blast
qed


text \<open>The hook of \<open>demo_hook\<close>, after which ART installs the code 5 for the method at 64.\<close>

definition demo_sys :: sys where
  "demo_sys = \<lparr> sy_lib = demo_lib, sy_C = class_state_init \<rparr>"

definition demo_code :: "addr set" where
  "demo_code = {65536..<65536 + kTrampolineSize kArm64}"

lemma demo_env_ok: "P \<subseteq> demo_code \<Longrightarrow> env_ok demo_lib_env {64, 128, 256} P"
proof -
  assume P: "P \<subseteq> demo_code"
  have "separate arm64_statics {64, 128, 256}" using hook_settingD(2) [OF demo_setting] .
  moreover have "demo_code \<inter> blocks arm64_statics {64, 128, 256} = {}" by (auto simp: demo_code_def blocks_def)
  ultimately show ?thesis
    using P by (auto simp: env_ok_def interp_ok_def scopes_ok_def real_arch_def same_bytes_def)
qed

lemma demo_sys_ok: "sys_ok demo_lib_env {64, 128, 256} demo_sys"
  by (simp add: sys_ok_def tables_ok_def pending_ok_def demo_sys_def reg_ok_def reg_inv_empty targets_def backups_def
      saved_methods_def class_members_def pending_def class_state_init_def)
    (simp add: empty_registry_def)

lemma demo_sys_ready:
  "hook_ready demo_lib_env {64, 128, 256} 65536 (sy_lib demo_sys) 64 256"
  "\<not> IsDeoptimized (sy_R demo_sys) 64" "\<not> pending (sy_C demo_sys) 64 e"
  using demo_ready
  by (simp_all add: demo_sys_def IsDeoptimized_def pending_def class_state_init_def) (simp_all add: empty_registry_def)

lemma demo_sys_hook:
  obtains res l r where "HookMethod demo_lib_env 64 0 (NativeCallback 5000) (sy_lib demo_sys) = Some (res, l)"
    "ho_object res = 256" "hooked_methods (lb_R l) 64 = Some r" "hr_hook r = 128"
  using demo_hook by (auto simp: demo_sys_def)




end
